(* ===== verification/Host_Prelude.thy ===== *)
theory Host_Prelude
  imports Main "HOL-Library.Word" "HOL-Library.Char_ord" "HOL-Library.List_Lexorder"
begin

text \<open>
  Shared vocabulary of the development: the host's error values and result type, operations
  that thread a state and may fail, SQLite tables as lists of rows in rowid order, the JSON
  values the host reads, the ASCII predicates of Rust's \<open>u8\<close> and \<open>str\<close>, and the collections
  of rewrite rules the component theories use.
\<close>

section \<open>Collections of facts\<close>

named_theorems host_defs \<open>definitions of the operation combinators\<close>
named_theorems op_run \<open>running an operation one statement at a time\<close>
named_theorems tbl_simps \<open>lookup laws of tables\<close>
named_theorems preserves_intro \<open>composition rules of the preservation predicate\<close>

section \<open>Errors and results\<close>

datatype host_error = HostError (err_code: string) (err_message: string)

definition host_error_new :: "string \<Rightarrow> host_error" where
  "host_error_new c = HostError c c"

type_synonym 'a result = "host_error + 'a"

abbreviation Err :: "string \<Rightarrow> 'a result" where
  "Err c \<equiv> Inl (host_error_new c)"

lemma host_error_new_eq [simp]: "host_error_new a = host_error_new b \<longleftrightarrow> a = b"
  by (simp add: host_error_new_def)

lemma err_code_new [simp]: "err_code (host_error_new c) = c"
  by (simp add: host_error_new_def)

definition bindR :: "'a result \<Rightarrow> ('a \<Rightarrow> 'b result) \<Rightarrow> 'b result" where
  [host_defs]: "bindR r f = (case r of Inl e \<Rightarrow> Inl e | Inr x \<Rightarrow> f x)"

lemma bindR_simps [simp]: "bindR (Inl e) f = Inl e" "bindR (Inr x) f = f x"
  by (simp_all add: bindR_def)

lemma bindR_Inr_iff: "bindR r f = Inr y \<longleftrightarrow> (\<exists>x. r = Inr x \<and> f x = Inr y)"
  by (cases r) auto

lemma bindR_Inl_iff: "bindR r f = Inl e \<longleftrightarrow> r = Inl e \<or> (\<exists>x. r = Inr x \<and> f x = Inl e)"
  by (cases r) auto

definition require :: "bool \<Rightarrow> string \<Rightarrow> unit result" where
  [host_defs]: "require b c = (if b then Inr () else Err c)"

definition ok_or :: "'a option \<Rightarrow> string \<Rightarrow> 'a result" where
  [host_defs]: "ok_or x c = (case x of None \<Rightarrow> Err c | Some v \<Rightarrow> Inr v)"

lemma require_simps [simp]:
  "require True c = Inr ()" "require False c = Err c"
  "require b c = Inr u \<longleftrightarrow> b" "require b c = Inl e \<longleftrightarrow> \<not> b \<and> e = host_error_new c"
  by (auto simp: require_def)

lemma ok_or_simps [simp]:
  "ok_or None c = Err c" "ok_or (Some v) c = Inr v"
  "ok_or x c = Inr y \<longleftrightarrow> x = Some y" "ok_or x c = Inl e \<longleftrightarrow> x = None \<and> e = host_error_new c"
  by (auto simp: ok_or_def split: option.splits)

text \<open>
  The operations with crash points take a checkpoint closure, which is asked at named places
  and may fail there; its first argument numbers the calls.
\<close>

type_synonym checkpoint = "nat \<Rightarrow> string \<Rightarrow> host_error option"

definition pass :: "host_error option \<Rightarrow> unit result" where
  "pass o' = (case o' of None \<Rightarrow> Inr () | Some e \<Rightarrow> Inl e)"

section \<open>Operations on a state\<close>

text \<open>
  A method of the host takes \<open>&mut self\<close> and returns a \<open>Result\<close>: it is a function from the
  state to a result and the next state. The state is part of the result also when the method
  fails, since statements executed before the failure stay in effect; a database transaction
  that is dropped before its commit is \<open>atomicS\<close>, which gives the old state back.
\<close>

type_synonym ('s, 'a) host_op = "'s \<Rightarrow> 'a result \<times> 's"

definition retS :: "'a \<Rightarrow> ('s, 'a) host_op" where
  [host_defs]: "retS x s = (Inr x, s)"

definition failS :: "string \<Rightarrow> ('s, 'a) host_op" where
  [host_defs]: "failS c s = (Err c, s)"

definition readS :: "('s \<Rightarrow> 'a result) \<Rightarrow> ('s, 'a) host_op" where
  [host_defs]: "readS f s = (f s, s)"

definition getS :: "('s \<Rightarrow> 'a) \<Rightarrow> ('s, 'a) host_op" where
  [host_defs]: "getS f s = (Inr (f s), s)"

definition modS :: "('s \<Rightarrow> 's) \<Rightarrow> ('s, unit) host_op" where
  [host_defs]: "modS f s = (Inr (), f s)"

definition bindS :: "('s, 'a) host_op \<Rightarrow> ('a \<Rightarrow> ('s, 'b) host_op) \<Rightarrow> ('s, 'b) host_op" where
  [host_defs]: "bindS m f s = (case m s of (Inl e, t) \<Rightarrow> (Inl e, t) | (Inr x, t) \<Rightarrow> f x t)"

definition thenS :: "('s, 'a) host_op \<Rightarrow> ('s, 'b) host_op \<Rightarrow> ('s, 'b) host_op" where
  [host_defs]: "thenS m n = bindS m (\<lambda>_. n)"

definition atomicS :: "('s, 'a) host_op \<Rightarrow> ('s, 'a) host_op" where
  [host_defs]: "atomicS m s = (case m s of (Inl e, t) \<Rightarrow> (Inl e, s) | (Inr x, t) \<Rightarrow> (Inr x, t))"

lemma op_run_simps [op_run]:
  "retS x s = (Inr x, s)" "failS c s = (Err c, s)" "readS f s = (f s, s)"
  "getS g s = (Inr (g s), s)" "modS h s = (Inr (), h s)"
  "bindS (retS x) k s = k x s" "bindS (failS c) k s = (Err c, s)"
  "bindS (getS g) k s = k (g s) s" "bindS (modS h) n s = n () (h s)"
  "bindS (readS f) k s = (case f s of Inl e \<Rightarrow> (Inl e, s) | Inr x \<Rightarrow> k x s)"
  by (simp_all add: host_defs split: sum.splits)

lemma bindS_step: "m s = (Inr x, t) \<Longrightarrow> bindS m k s = k x t"
  by (simp add: bindS_def)

lemma bindS_stop: "m s = (Inl e, t) \<Longrightarrow> bindS m k s = (Inl e, t)"
  by (simp add: bindS_def)

lemma bindS_Inr_iff:
  "bindS m f s = (Inr y, u) \<longleftrightarrow> (\<exists>x t. m s = (Inr x, t) \<and> f x t = (Inr y, u))"
  by (auto simp: bindS_def split: prod.splits sum.splits)

lemma bindS_Inl_iff:
  "bindS m f s = (Inl e, u) \<longleftrightarrow>
     m s = (Inl e, u) \<or> (\<exists>x t. m s = (Inr x, t) \<and> f x t = (Inl e, u))"
  by (auto simp: bindS_def split: prod.splits sum.splits)

lemma op_result_iffs [simp]:
  "retS x s = (Inr y, t) \<longleftrightarrow> y = x \<and> t = s"
  "retS x s = (Inl e, t) \<longleftrightarrow> False"
  "failS c s = (Inr y, t) \<longleftrightarrow> False"
  "failS c s = (Inl e, t) \<longleftrightarrow> e = host_error_new c \<and> t = s"
  "readS f s = (r, t) \<longleftrightarrow> f s = r \<and> t = s"
  "getS g s = (Inr y, t) \<longleftrightarrow> y = g s \<and> t = s"
  "getS g s = (Inl e, t) \<longleftrightarrow> False"
  "modS h s = (Inr u, t) \<longleftrightarrow> t = h s"
  "modS h s = (Inl e, t) \<longleftrightarrow> False"
  by (auto simp: host_defs)

lemma atomicS_Inr_iff: "atomicS m s = (Inr x, t) \<longleftrightarrow> m s = (Inr x, t)"
  by (auto simp: atomicS_def split: prod.splits sum.splits)

lemma atomicS_Inl_iff: "atomicS m s = (Inl e, t) \<longleftrightarrow> t = s \<and> (\<exists>u. m s = (Inl e, u))"
  by (auto simp: atomicS_def split: prod.splits sum.splits)

text \<open>A failed transaction leaves no trace.\<close>

lemma atomicS_error_state: "fst (atomicS m s) = Inl e \<Longrightarrow> snd (atomicS m s) = s"
  by (auto simp: atomicS_def split: prod.splits sum.splits)

subsection \<open>Preservation of an invariant\<close>

definition preserves :: "('s \<Rightarrow> bool) \<Rightarrow> ('s, 'a) host_op \<Rightarrow> bool" where
  "preserves I m \<longleftrightarrow> (\<forall>s. I s \<longrightarrow> I (snd (m s)))"

lemma preservesI: "(\<And>s. I s \<Longrightarrow> I (snd (m s))) \<Longrightarrow> preserves I m"
  by (simp add: preserves_def)

lemma preservesD: "preserves I m \<Longrightarrow> I s \<Longrightarrow> m s = (r, t) \<Longrightarrow> I t"
  by (metis preserves_def snd_conv)

lemma preserves_basic [preserves_intro]:
  "preserves I (retS x)" "preserves I (failS c)" "preserves I (readS f)" "preserves I (getS g)"
  by (simp_all add: preserves_def host_defs)

lemma preserves_modS [preserves_intro]: "(\<And>s. I s \<Longrightarrow> I (h s)) \<Longrightarrow> preserves I (modS h)"
  by (simp add: preserves_def host_defs)

lemma preserves_bindS [preserves_intro]:
  assumes "preserves I m" and "\<And>x. preserves I (f x)"
  shows "preserves I (bindS m f)"
  using assms by (fastforce simp: preserves_def bindS_def split: prod.splits sum.splits dest: spec)

lemma preserves_thenS [preserves_intro]:
  "preserves I m \<Longrightarrow> preserves I n \<Longrightarrow> preserves I (thenS m n)"
  unfolding thenS_def by (rule preserves_bindS)

lemma preserves_atomicS [preserves_intro]: "preserves I m \<Longrightarrow> preserves I (atomicS m)"
  by (fastforce simp: preserves_def atomicS_def split: prod.splits sum.splits)

lemma preserves_if [preserves_intro]:
  "(b \<Longrightarrow> preserves I m) \<Longrightarrow> (\<not> b \<Longrightarrow> preserves I n) \<Longrightarrow> preserves I (if b then m else n)"
  by simp

subsection \<open>Runs of a component\<close>

text \<open>
  The contract between a component and whoever drives it: a set of operations that each keep
  the component's invariant. Whatever sequence of them the driver issues, the invariant holds
  afterwards.
\<close>

locale invariant_component =
  fixes I :: "'s \<Rightarrow> bool"
    and step :: "'e \<Rightarrow> 's \<Rightarrow> 's"
  assumes step_keeps: "I s \<Longrightarrow> I (step e s)"
begin

lemma run_keeps: "I s \<Longrightarrow> I (fold step es s)"
  by (induction es arbitrary: s) (auto intro: step_keeps)

lemma run_prefix_keeps: "I s \<Longrightarrow> I (fold step (take n es) s)"
  by (rule run_keeps)

end

subsection \<open>Operations with a ledger\<close>

text \<open>
  The contract of an operation that a caller may repeat under the same identifier, because it
  lost the answer: the ledger holds a fingerprint of the payload and the state reached. A
  repetition with the same payload reports that state and changes nothing, one with another
  payload is refused, and every accepted submission is in the ledger.
\<close>

locale operation_ledger =
  fixes submit :: "'i \<Rightarrow> 'p \<Rightarrow> ('s, 'r) host_op"
    and ledger :: "'s \<Rightarrow> 'i \<Rightarrow> ('f \<times> string) option"
    and fingerprint :: "'p \<Rightarrow> 'f"
    and accepted :: "'i \<Rightarrow> 'p \<Rightarrow> bool"
    and rcpt :: "'i \<Rightarrow> string \<Rightarrow> 'r"
    and refusal :: string
  assumes replay: "accepted i p \<Longrightarrow> ledger s i = Some (fingerprint p, st) \<Longrightarrow>
      submit i p s = (Inr (rcpt i st), s)"
    and refuse: "accepted i p \<Longrightarrow> ledger s i = Some (f, st) \<Longrightarrow> f \<noteq> fingerprint p \<Longrightarrow>
      submit i p s = (Err refusal, s)"
    and recorded: "submit i p s = (Inr r, t) \<Longrightarrow>
      accepted i p \<and> (\<exists>st. ledger t i = Some (fingerprint p, st) \<and> r = rcpt i st)"
begin

lemma resubmit: "submit i p s = (Inr r, t) \<Longrightarrow> submit i p t = (Inr r, t)"
  using recorded replay by fastforce

lemma resubmit_many:
  assumes "submit i p s = (Inr r, t)"
  shows "((\<lambda>u. snd (submit i p u)) ^^ n) t = t"
  using resubmit [OF assms] by (induction n) auto

lemma payload_fixed:
  "submit i p s = (Inr r, t) \<Longrightarrow> accepted i q \<Longrightarrow> fingerprint q \<noteq> fingerprint p \<Longrightarrow>
     submit i q t = (Err refusal, t)"
  using recorded refuse by metis

end

section \<open>Tables\<close>

text \<open>
  A SQLite table is the list of its rows in rowid order: an insert appends, an update maps,
  a delete filters. \<open>tbl_put\<close> is the upsert that overwrites every column, \<open>tbl_upsert\<close> the one
  whose conflict clause computes the new row from the old.
\<close>

definition tbl_get :: "('r \<Rightarrow> 'k) \<Rightarrow> 'k \<Rightarrow> 'r list \<Rightarrow> 'r option" where
  "tbl_get key k t = find (\<lambda>r. key r = k) t"

definition tbl_has :: "('r \<Rightarrow> 'k) \<Rightarrow> 'k \<Rightarrow> 'r list \<Rightarrow> bool" where
  "tbl_has key k t = list_ex (\<lambda>r. key r = k) t"

definition tbl_update :: "('r \<Rightarrow> bool) \<Rightarrow> ('r \<Rightarrow> 'r) \<Rightarrow> 'r list \<Rightarrow> 'r list" where
  "tbl_update P f t = map (\<lambda>r. if P r then f r else r) t"

definition tbl_delete :: "('r \<Rightarrow> bool) \<Rightarrow> 'r list \<Rightarrow> 'r list" where
  "tbl_delete P t = filter (\<lambda>r. \<not> P r) t"

definition tbl_upsert :: "('r \<Rightarrow> 'k) \<Rightarrow> 'r \<Rightarrow> ('r \<Rightarrow> 'r) \<Rightarrow> 'r list \<Rightarrow> 'r list" where
  "tbl_upsert key r f t =
     (if tbl_has key (key r) t then tbl_update (\<lambda>x. key x = key r) f t else t @ [r])"

definition tbl_put :: "('r \<Rightarrow> 'k) \<Rightarrow> 'r \<Rightarrow> 'r list \<Rightarrow> 'r list" where
  "tbl_put key r t = tbl_upsert key r (\<lambda>_. r) t"

definition tbl_insert_ignore :: "('r \<Rightarrow> 'k) \<Rightarrow> 'r \<Rightarrow> 'r list \<Rightarrow> 'r list" where
  "tbl_insert_ignore key r t = (if tbl_has key (key r) t then t else t @ [r])"

definition tbl_drop_key :: "('r \<Rightarrow> 'k) \<Rightarrow> 'k \<Rightarrow> 'r list \<Rightarrow> 'r list" where
  "tbl_drop_key key k t = tbl_delete (\<lambda>r. key r = k) t"

definition tbl_unique :: "('r \<Rightarrow> 'k) \<Rightarrow> 'r list \<Rightarrow> bool" where
  "tbl_unique key t \<longleftrightarrow> distinct (map key t)"

lemma tbl_get_Nil [simp]: "tbl_get key k [] = None"
  by (simp add: tbl_get_def)

lemma tbl_get_Cons: "tbl_get key k (r # t) = (if key r = k then Some r else tbl_get key k t)"
  by (simp add: tbl_get_def)

lemma tbl_get_append:
  "tbl_get key k (t @ u) = (case tbl_get key k t of None \<Rightarrow> tbl_get key k u | Some r \<Rightarrow> Some r)"
  by (induction t) (auto simp: tbl_get_Cons)

lemma tbl_get_SomeD: "tbl_get key k t = Some r \<Longrightarrow> r \<in> set t \<and> key r = k"
  by (induction t) (auto simp: tbl_get_Cons split: if_splits)

lemma tbl_get_None_iff: "tbl_get key k t = None \<longleftrightarrow> (\<forall>r \<in> set t. key r \<noteq> k)"
  by (induction t) (auto simp: tbl_get_Cons)

lemma tbl_has_iff: "tbl_has key k t \<longleftrightarrow> tbl_get key k t \<noteq> None"
  by (auto simp: tbl_has_def tbl_get_None_iff list_ex_iff)

lemma tbl_unique_get: "tbl_unique key t \<Longrightarrow> r \<in> set t \<Longrightarrow> tbl_get key (key r) t = Some r"
  by (induction t) (auto simp: tbl_get_Cons tbl_unique_def image_iff)

lemma tbl_get_update [tbl_simps]:
  assumes "\<And>r. key (f r) = key r"
  shows "tbl_get key k (tbl_update P f t) = map_option (\<lambda>r. if P r then f r else r) (tbl_get key k t)"
  using assms by (induction t) (auto simp: tbl_get_Cons tbl_update_def)

lemma tbl_get_update_other:
  "(\<And>r. key (f r) = key r) \<Longrightarrow> i \<noteq> j \<Longrightarrow> tbl_get key i (tbl_update (\<lambda>r. key r = j) f t) = tbl_get key i t"
  by (induction t) (auto simp: tbl_get_Cons tbl_update_def)

lemma tbl_get_upsert [tbl_simps]:
  assumes "\<And>x. key x = key r \<Longrightarrow> key (f x) = key x"
  shows "tbl_get key k (tbl_upsert key r f t) =
    (if k = key r then (case tbl_get key k t of None \<Rightarrow> Some r | Some x \<Rightarrow> Some (f x))
     else tbl_get key k t)"
proof -
  have upd: "tbl_get key k (tbl_update (\<lambda>x. key x = key r) f t) =
      map_option (\<lambda>x. if key x = key r then f x else x) (tbl_get key k t)"
    using assms by (induction t) (auto simp: tbl_get_Cons tbl_update_def)
  show ?thesis
  proof (cases "tbl_get key k t")
    case None
    then show ?thesis
      by (auto simp: tbl_upsert_def upd tbl_has_iff tbl_get_append tbl_get_Cons)
  next
    case (Some x)
    then have "key x = k" by (auto dest: tbl_get_SomeD)
    show ?thesis
    proof (cases "k = key r")
      case True
      with Some upd \<open>key x = k\<close> show ?thesis
        by (simp add: tbl_upsert_def tbl_has_iff)
    next
      case False
      with Some upd \<open>key x = k\<close> show ?thesis
        by (simp add: tbl_upsert_def tbl_has_iff tbl_get_append)
    qed
  qed
qed

lemma tbl_get_put [tbl_simps]:
  "tbl_get key k (tbl_put key r t) = (if k = key r then Some r else tbl_get key k t)"
  by (auto simp: tbl_put_def tbl_get_upsert split: option.splits)

lemma tbl_get_insert_ignore [tbl_simps]:
  "tbl_get key k (tbl_insert_ignore key r t) =
     (if k = key r \<and> tbl_get key k t = None then Some r else tbl_get key k t)"
  by (auto simp: tbl_insert_ignore_def tbl_has_iff tbl_get_append tbl_get_Cons split: option.splits)

lemma tbl_get_drop_key [tbl_simps]:
  "tbl_get key k (tbl_drop_key key j t) = (if k = j then None else tbl_get key k t)"
  by (induction t) (auto simp: tbl_drop_key_def tbl_delete_def tbl_get_Cons)

lemma tbl_unique_update:
  "(\<And>r. key (f r) = key r) \<Longrightarrow> tbl_unique key (tbl_update P f t) = tbl_unique key t"
proof -
  assume "\<And>r. key (f r) = key r"
  then have "map key (tbl_update P f t) = map key t"
    by (simp add: tbl_update_def)
  then show ?thesis by (simp add: tbl_unique_def)
qed

lemma tbl_unique_delete: "tbl_unique key t \<Longrightarrow> tbl_unique key (tbl_delete P t)"
  by (simp add: tbl_unique_def tbl_delete_def distinct_map_filter)

lemma tbl_unique_append:
  "tbl_unique key (t @ [r]) \<longleftrightarrow> tbl_unique key t \<and> tbl_get key (key r) t = None"
  by (auto simp: tbl_unique_def tbl_get_None_iff image_iff)

lemma tbl_unique_upsert:
  assumes "tbl_unique key t" and "\<And>x. key x = key r \<Longrightarrow> key (f x) = key x"
  shows "tbl_unique key (tbl_upsert key r f t)"
proof (cases "tbl_has key (key r) t")
  case True
  have "map key (tbl_update (\<lambda>x. key x = key r) f t) = map key t"
    using assms(2) by (simp add: tbl_update_def)
  with True assms(1) show ?thesis by (simp add: tbl_upsert_def tbl_unique_def)
next
  case False
  with assms(1) show ?thesis by (simp add: tbl_upsert_def tbl_unique_append tbl_has_iff)
qed

lemma tbl_unique_put: "tbl_unique key t \<Longrightarrow> tbl_unique key (tbl_put key r t)"
  unfolding tbl_put_def by (rule tbl_unique_upsert) auto

lemma tbl_unique_insert_ignore: "tbl_unique key t \<Longrightarrow> tbl_unique key (tbl_insert_ignore key r t)"
  by (auto simp: tbl_insert_ignore_def tbl_unique_append tbl_has_iff)

lemma set_tbl_update: "set (tbl_update P f t) = {if P r then f r else r |r. r \<in> set t}"
  by (auto simp: tbl_update_def)

lemma tbl_update_in: "x \<in> set (tbl_update P f t) \<Longrightarrow> \<exists>r \<in> set t. x = (if P r then f r else r)"
  by (auto simp: tbl_update_def)

lemma set_tbl_delete [simp]: "set (tbl_delete P t) = {r \<in> set t. \<not> P r}"
  by (auto simp: tbl_delete_def)

lemma set_tbl_upsert:
  "set (tbl_upsert key r f t) \<subseteq> insert r ({x \<in> set t. key x \<noteq> key r} \<union> f ` {x \<in> set t. key x = key r})"
  by (auto simp: tbl_upsert_def tbl_update_def tbl_has_def list_ex_iff)

subsection \<open>The interface a keyed table offers\<close>

text \<open>
  What the components rely on when they treat a table as a map from its primary key: the row
  read back after a write is the one written, and other keys are not disturbed.
\<close>

locale keyed_store =
  fixes get :: "'k \<Rightarrow> 't \<Rightarrow> 'r option"
    and put :: "'r \<Rightarrow> 't \<Rightarrow> 't"
    and drop_key :: "'k \<Rightarrow> 't \<Rightarrow> 't"
    and key :: "'r \<Rightarrow> 'k"
  assumes get_put: "get k (put r t) = (if k = key r then Some r else get k t)"
    and get_drop: "get k (drop_key j t) = (if k = j then None else get k t)"
begin

lemma get_fold_put_other: "k \<notin> key ` set rs \<Longrightarrow> get k (fold put rs t) = get k t"
  by (induction rs arbitrary: t) (auto simp: get_put)

lemma get_fold_put:
  "distinct (map key rs) \<Longrightarrow> r \<in> set rs \<Longrightarrow> get (key r) (fold put rs t) = Some r"
proof (induction rs arbitrary: t)
  case (Cons x xs)
  then show ?case by (auto simp: get_put get_fold_put_other)
qed simp

lemma get_fold_drop: "get k (fold drop_key ks t) = (if k \<in> set ks then None else get k t)"
  by (induction ks arbitrary: t) (auto simp: get_drop)

end

interpretation tbl: keyed_store "tbl_get key" "tbl_put key" "tbl_drop_key key" key for key
  by unfold_locales (auto simp: tbl_simps)

section \<open>Related lists\<close>

text \<open>Joining with a separator is inverse to splitting on it.\<close>

fun join_with :: "'a \<Rightarrow> 'a list list \<Rightarrow> 'a list" where
  "join_with d [] = []"
| "join_with d [p] = p"
| "join_with d (p # ps) = p @ d # join_with d ps"

lemma list_all2_in1: "list_all2 P xs ys \<Longrightarrow> x \<in> set xs \<Longrightarrow> \<exists>y \<in> set ys. P x y"
  by (induction xs ys rule: list_all2_induct) auto

lemma list_all2_in2: "list_all2 P xs ys \<Longrightarrow> y \<in> set ys \<Longrightarrow> \<exists>x \<in> set xs. P x y"
  by (induction xs ys rule: list_all2_induct) auto

lemma sort_Nil_iff [simp]: "sort xs = [] \<longleftrightarrow> xs = []"
  by (metis length_0_conv length_sort)

section \<open>ASCII classes\<close>

text \<open>A Rust \<open>str\<close> is its UTF-8 bytes; \<open>len\<close> counts them, and so does \<open>length\<close> here.\<close>

definition is_ascii_digit :: "char \<Rightarrow> bool" where
  "is_ascii_digit c \<longleftrightarrow> 48 \<le> (of_char c :: nat) \<and> (of_char c :: nat) \<le> 57"

definition is_ascii_uppercase :: "char \<Rightarrow> bool" where
  "is_ascii_uppercase c \<longleftrightarrow> 65 \<le> (of_char c :: nat) \<and> (of_char c :: nat) \<le> 90"

definition is_ascii_lowercase :: "char \<Rightarrow> bool" where
  "is_ascii_lowercase c \<longleftrightarrow> 97 \<le> (of_char c :: nat) \<and> (of_char c :: nat) \<le> 122"

definition is_ascii_alphanumeric :: "char \<Rightarrow> bool" where
  "is_ascii_alphanumeric c \<longleftrightarrow> is_ascii_digit c \<or> is_ascii_uppercase c \<or> is_ascii_lowercase c"

definition is_lower_hex :: "char \<Rightarrow> bool" where
  "is_lower_hex c \<longleftrightarrow> is_ascii_digit c \<or> (97 \<le> (of_char c :: nat) \<and> (of_char c :: nat) \<le> 102)"

definition to_ascii_lower :: "char \<Rightarrow> char" where
  "to_ascii_lower c = (if is_ascii_uppercase c then char_of ((of_char c :: nat) + 32) else c)"

definition to_ascii_upper :: "char \<Rightarrow> char" where
  "to_ascii_upper c = (if is_ascii_lowercase c then char_of ((of_char c :: nat) - 32) else c)"

definition to_ascii_lowercase :: "string \<Rightarrow> string" where
  "to_ascii_lowercase s = map to_ascii_lower s"

definition to_ascii_uppercase :: "string \<Rightarrow> string" where
  "to_ascii_uppercase s = map to_ascii_upper s"

definition eq_ignore_ascii_case :: "string \<Rightarrow> string \<Rightarrow> bool" where
  "eq_ignore_ascii_case a b \<longleftrightarrow> to_ascii_lowercase a = to_ascii_lowercase b"

definition is_sha256_hex :: "string \<Rightarrow> bool" where
  "is_sha256_hex d \<longleftrightarrow> length d = 64 \<and> list_all is_lower_hex d"

lemmas ascii_defs =
  is_ascii_digit_def is_ascii_uppercase_def is_ascii_lowercase_def is_ascii_alphanumeric_def
  is_lower_hex_def to_ascii_lower_def to_ascii_upper_def to_ascii_lowercase_def
  to_ascii_uppercase_def eq_ignore_ascii_case_def is_sha256_hex_def

subsection \<open>Splitting and prefixes\<close>

text \<open>\<open>str::split\<close> on one character: always at least one piece.\<close>

fun split_on :: "char \<Rightarrow> string \<Rightarrow> string list" where
  "split_on d [] = [[]]"
| "split_on d (c # cs) =
     (if c = d then [] # split_on d cs
      else (case split_on d cs of [] \<Rightarrow> [[c]] | p # ps \<Rightarrow> (c # p) # ps))"

lemma split_on_not_Nil [simp]: "split_on d s \<noteq> []"
  by (induction s) (auto split: list.splits)

lemma split_on_no_sep: "p \<in> set (split_on d s) \<Longrightarrow> d \<notin> set p"
proof (induction s arbitrary: p)
  case (Cons c cs)
  then show ?case by (cases "split_on d cs") (auto split: if_splits)
qed simp

lemma split_on_subset: "p \<in> set (split_on d s) \<Longrightarrow> set p \<subseteq> set s"
proof (induction s arbitrary: p)
  case (Cons c cs)
  obtain q qs where q: "split_on d cs = q # qs" by (cases "split_on d cs") auto
  with Cons.IH have "\<forall>r \<in> set (q # qs). set r \<subseteq> set cs" by auto
  with Cons.prems q show ?case by (auto split: if_splits)
qed simp

lemma set_join_with: "set (join_with d ps) \<subseteq> insert d (\<Union> (set ` set ps))"
  by (induction d ps rule: join_with.induct) auto

lemma join_split [simp]: "join_with d (split_on d s) = s"
proof (induction s)
  case (Cons c cs)
  show ?case
  proof (cases "split_on d cs")
    case (Cons p ps)
    then show ?thesis using Cons.IH by (cases ps) auto
  qed simp
qed simp

lemma split_on_append: "d \<notin> set p \<Longrightarrow> split_on d (p @ d # s) = p # split_on d s"
  by (induction p) auto

lemma split_on_none: "d \<notin> set p \<Longrightarrow> split_on d p = [p]"
  by (induction p) auto

lemma split_join: "ps \<noteq> [] \<Longrightarrow> \<forall>p \<in> set ps. d \<notin> set p \<Longrightarrow> split_on d (join_with d ps) = ps"
  by (induction d ps rule: join_with.induct) (auto simp: split_on_append split_on_none)

definition starts_with :: "string \<Rightarrow> string \<Rightarrow> bool" where
  "starts_with p s \<longleftrightarrow> take (length p) s = p"

definition ends_with :: "string \<Rightarrow> string \<Rightarrow> bool" where
  "ends_with p s \<longleftrightarrow> length p \<le> length s \<and> drop (length s - length p) s = p"

definition strip_prefix :: "string \<Rightarrow> string \<Rightarrow> string option" where
  "strip_prefix p s = (if starts_with p s then Some (drop (length p) s) else None)"

definition strip_suffix :: "string \<Rightarrow> string \<Rightarrow> string option" where
  "strip_suffix p s = (if ends_with p s then Some (take (length s - length p) s) else None)"

lemma starts_with_iff: "starts_with p s \<longleftrightarrow> (\<exists>r. s = p @ r)"
  unfolding starts_with_def by (metis append_eq_conv_conj append_take_drop_id)

lemma strip_prefix_Some_iff: "strip_prefix p s = Some r \<longleftrightarrow> s = p @ r"
  by (auto simp: strip_prefix_def starts_with_def) (metis append_take_drop_id)

lemma strip_suffix_Some_iff: "strip_suffix p s = Some r \<longleftrightarrow> s = r @ p"
proof
  assume "strip_suffix p s = Some r"
  then show "s = r @ p"
    by (auto simp: strip_suffix_def ends_with_def split: if_splits) (metis append_take_drop_id)
next
  assume "s = r @ p"
  then show "strip_suffix p s = Some r"
    by (simp add: strip_suffix_def ends_with_def)
qed

subsection \<open>UTF-8\<close>

text \<open>\<open>str::from_utf8\<close>: how many continuation bytes follow the first byte of a scalar value, when
  they form one; shortest form only, no surrogates, nothing above \<open>U+10FFFF\<close>.\<close>

definition byte_in :: "nat \<Rightarrow> nat \<Rightarrow> char \<Rightarrow> bool" where
  "byte_in lo hi c \<longleftrightarrow> lo \<le> (of_char c :: nat) \<and> (of_char c :: nat) \<le> hi"

text \<open>The second byte of a three-byte and of a four-byte form.\<close>

definition second_of_3 :: "char \<Rightarrow> char \<Rightarrow> bool" where
  "second_of_3 a b \<longleftrightarrow>
     byte_in (if byte_in 224 224 a then 160 else 128) (if byte_in 237 237 a then 159 else 191) b"

definition second_of_4 :: "char \<Rightarrow> char \<Rightarrow> bool" where
  "second_of_4 a b \<longleftrightarrow>
     byte_in (if byte_in 240 240 a then 144 else 128) (if byte_in 244 244 a then 143 else 191) b"

definition utf8_tail :: "char \<Rightarrow> string \<Rightarrow> nat option" where
  "utf8_tail a r =
     (if byte_in 0 127 a then Some 0
      else (case r of
        [] \<Rightarrow> None
      | b # r1 \<Rightarrow>
          if byte_in 194 223 a then (if byte_in 128 191 b then Some 1 else None)
          else (case r1 of
            [] \<Rightarrow> None
          | c # r2 \<Rightarrow>
              if byte_in 224 239 a then
                (if second_of_3 a b \<and> byte_in 128 191 c then Some 2 else None)
              else (case r2 of
                [] \<Rightarrow> None
              | d # _ \<Rightarrow>
                  if byte_in 240 244 a \<and> second_of_4 a b \<and> byte_in 128 191 c \<and> byte_in 128 191 d
                  then Some 3 else None))))"

fun utf8_valid :: "string \<Rightarrow> bool" where
  "utf8_valid [] = True"
| "utf8_valid (a # r) = (case utf8_tail a r of None \<Rightarrow> False | Some n \<Rightarrow> utf8_valid (drop n r))"

lemma utf8_tail_append: "utf8_tail a r = Some n \<Longrightarrow> n \<le> length r \<and> utf8_tail a (r @ t) = Some n"
proof -
  consider "r = []" | b where "r = [b]" | b c where "r = [b, c]" | b c d u where "r = b # c # d # u"
    by (cases r; cases "tl r"; cases "tl (tl r)") auto
  then show "utf8_tail a r = Some n \<Longrightarrow> n \<le> length r \<and> utf8_tail a (r @ t) = Some n"
    by cases (simp_all add: utf8_tail_def split: if_splits)
qed

lemma utf8_valid_append: "utf8_valid a \<Longrightarrow> utf8_valid b \<Longrightarrow> utf8_valid (a @ b)"
proof (induction a rule: utf8_valid.induct)
  case (2 c r)
  then show ?case using utf8_tail_append [of c r _ b] by (auto split: option.splits)
qed simp

lemma utf8_valid_join:
  "utf8_valid [d] \<Longrightarrow> \<forall>p \<in> set ps. utf8_valid p \<Longrightarrow> utf8_valid (join_with d ps)"
proof (induction d ps rule: join_with.induct)
  case (3 d p q qs)
  then show ?case
    using utf8_valid_append [of "p @ [d]" "join_with d (q # qs)"] utf8_valid_append [of p "[d]"] by auto
qed auto

section \<open>JSON values\<close>

datatype json = JNull | JBool bool | JInt int | JFloat int int | JStr string
  | JArr "json list" | JObj "(string \<times> json) list"

fun is_object :: "json \<Rightarrow> bool" where
  "is_object (JObj _) = True"
| "is_object _ = False"

fun json_get :: "json \<Rightarrow> string \<Rightarrow> json option" where
  "json_get (JObj kvs) k = map_of kvs k"
| "json_get _ k = None"

text \<open>\<open>value["k"]\<close> is \<open>Null\<close> where there is no such member.\<close>

definition json_index :: "json \<Rightarrow> string \<Rightarrow> json" where
  "json_index v k = (case json_get v k of None \<Rightarrow> JNull | Some w \<Rightarrow> w)"

fun as_u64 :: "json \<Rightarrow> nat option" where
  "as_u64 (JInt i) = (if 0 \<le> i \<and> i < 2 ^ 64 then Some (nat i) else None)"
| "as_u64 _ = None"

fun as_i64 :: "json \<Rightarrow> int option" where
  "as_i64 (JInt i) = (if - (2 ^ 63) \<le> i \<and> i < 2 ^ 63 then Some i else None)"
| "as_i64 _ = None"

fun as_str :: "json \<Rightarrow> string option" where
  "as_str (JStr s) = Some s"
| "as_str _ = None"

fun as_bool :: "json \<Rightarrow> bool option" where
  "as_bool (JBool b) = Some b"
| "as_bool _ = None"

section \<open>Saturating machine arithmetic\<close>

definition i64_max :: int where "i64_max = 2 ^ 63 - 1"
definition i64_min :: int where "i64_min = - (2 ^ 63)"
definition u32_max :: nat where "u32_max = 2 ^ 32 - 1"
definition u64_max :: nat where "u64_max = 2 ^ 64 - 1"

definition sat_i64 :: "int \<Rightarrow> int" where
  "sat_i64 x = max i64_min (min i64_max x)"

definition is_i64 :: "int \<Rightarrow> bool" where
  "is_i64 x \<longleftrightarrow> i64_min \<le> x \<and> x \<le> i64_max"

definition saturating_add_u32 :: "nat \<Rightarrow> nat \<Rightarrow> nat" where
  "saturating_add_u32 a b = min u32_max (a + b)"

definition saturating_pow_u64 :: "nat \<Rightarrow> nat \<Rightarrow> nat" where
  "saturating_pow_u64 b e = min u64_max (b ^ e)"

lemmas int_bounds = i64_max_def i64_min_def u32_max_def u64_max_def

lemma sat_i64_range: "is_i64 (sat_i64 x)"
  by (auto simp: is_i64_def sat_i64_def int_bounds)

lemma sat_i64_id [simp]: "is_i64 x \<Longrightarrow> sat_i64 x = x"
  by (auto simp: is_i64_def sat_i64_def)

end
