(* ===== verification/Extension_Transaction.thy ===== *)
theory Extension_Transaction
  imports Host_Prelude
begin

text \<open>
  The extension store's package pointers (\<open>extension_transaction.rs\<close>): a group of pointers is
  switched in one journaled transaction, stays pending while the host probes the new packages,
  and is then kept or put back. JSON text, SHA-256 and UUID parsing are parameters of the
  model: the record \<open>ext_env\<close> holds the serialisers the store calls.
\<close>

section \<open>Data\<close>

record target =
  t_slot :: string
  t_package_key :: string
  t_directory :: string
  t_tree_sha256 :: string
  t_configuration :: json

record change =
  c_target :: target
  c_expected_revision :: "string option"

record active =
  a_target :: target
  a_revision :: string
  a_pending_operation :: "string option"

record receipt =
  r_operation_id :: string
  r_state :: string

text \<open>The rows of the three tables, with their JSON columns as text.\<close>

record active_row =
  ar_slot :: string
  ar_target :: string
  ar_revision :: string
  ar_pending :: "string option"

record tx_row =
  x_id :: string
  x_fingerprint :: string
  x_before :: string
  x_after :: string
  x_state :: string

record uninstall_row =
  u_id :: string
  u_slot :: string
  u_expected :: string
  u_state :: string

record ext_db =
  extension_active :: "active_row list"
  extension_transactions :: "tx_row list"
  extension_uninstalls :: "uninstall_row list"

text \<open>The host's calls into \<open>serde_json\<close>, \<open>sha2\<close> and \<open>uuid\<close>.\<close>

record ext_env =
  encode_target :: "target \<Rightarrow> string option"
  decode_target :: "string \<Rightarrow> target option"
  encode_changes :: "change list \<Rightarrow> string option"
  decode_changes :: "string \<Rightarrow> change list option"
  encode_before :: "active option list \<Rightarrow> string option"
  decode_before :: "string \<Rightarrow> active option list option"
  sha256 :: "string \<Rightarrow> string"
  uuid_parse :: "string \<Rightarrow> string option"

text \<open>What is documented of \<open>serde_json\<close> for derived implementations: text that was written for
  a value is read back as that value.\<close>

definition serde_ok :: "ext_env \<Rightarrow> bool" where
  "serde_ok E \<longleftrightarrow>
     (\<forall>v t. encode_target E v = Some t \<longrightarrow> decode_target E t = Some v) \<and>
     (\<forall>v t. encode_changes E v = Some t \<longrightarrow> decode_changes E t = Some v) \<and>
     (\<forall>v t. encode_before E v = Some t \<longrightarrow> decode_before E t = Some v)"

text \<open>
  \<open>serde_json\<close> reads a floating-point number only to its last digit but one, so the law above is an
  idealisation for configurations that hold one. The values for which it is documented as it
  stands: no floating-point number, integers in the range of \<open>i64\<close> and \<open>u64\<close>, Unicode text, objects
  with their keys in the order \<open>serde_json::Map\<close> keeps, and nesting well below the 128 levels the
  parser accepts. \<open>plain_env E\<close> is the environment whose serialisers are those of \<open>E\<close> on such values.
\<close>

primrec plain_json :: "nat \<Rightarrow> json \<Rightarrow> bool" where
  "plain_json 0 = (\<lambda>v. False)"
| "plain_json (Suc n) = (\<lambda>v. case v of
     JNull \<Rightarrow> True
   | JBool b \<Rightarrow> True
   | JInt i \<Rightarrow> - (2 ^ 63) \<le> i \<and> i < 2 ^ 64
   | JFloat m e \<Rightarrow> False
   | JStr s \<Rightarrow> utf8_valid s
   | JArr vs \<Rightarrow> list_all (plain_json n) vs
   | JObj kvs \<Rightarrow> sorted_wrt (<) (map fst kvs) \<and> list_all (\<lambda>(k, x). utf8_valid k \<and> plain_json n x) kvs)"

definition plain_target :: "target \<Rightarrow> bool" where
  "plain_target t \<longleftrightarrow> plain_json 100 (t_configuration t)"

definition plain_changes :: "change list \<Rightarrow> bool" where
  "plain_changes cs \<longleftrightarrow> list_all (\<lambda>c. plain_target (c_target c)) cs"

definition plain_before :: "active option list \<Rightarrow> bool" where
  "plain_before ps \<longleftrightarrow> list_all (\<lambda>p. case p of None \<Rightarrow> True | Some a \<Rightarrow> plain_target (a_target a)) ps"

definition plain_env :: "ext_env \<Rightarrow> ext_env" where
  "plain_env E = E\<lparr>
     encode_target := (\<lambda>t. if plain_target t then encode_target E t else None),
     encode_changes := (\<lambda>cs. if plain_changes cs then encode_changes E cs else None),
     encode_before := (\<lambda>ps. if plain_before ps then encode_before E ps else None)\<rparr>"

section \<open>Operations\<close>

definition schema :: ext_db where
  "schema = \<lparr>extension_active = [], extension_transactions = [], extension_uninstalls = []\<rparr>"

definition active_at :: "ext_env \<Rightarrow> ext_db \<Rightarrow> string \<Rightarrow> active option result" where
  "active_at E db slot =
     (case tbl_get ar_slot slot (extension_active db) of
        None \<Rightarrow> Inr None
      | Some row \<Rightarrow>
          bindR (ok_or (decode_target E (ar_target row)) ''EXTENSION_STORE_CORRUPT'') (\<lambda>t.
          Inr (Some \<lparr>a_target = t, a_revision = ar_revision row, a_pending_operation = ar_pending row\<rparr>)))"

text \<open>The checks of one change inside \<open>switch_inner\<close>'s first loop; \<open>slots\<close> are the slots of the
  changes before it.\<close>

definition check_change ::
  "ext_env \<Rightarrow> ext_db \<Rightarrow> string list \<Rightarrow> change \<Rightarrow> active option result" where
  "check_change E db slots c =
     (let t = c_target c in
      bindR (require (is_sha256_hex (t_slot t) \<and> is_sha256_hex (t_package_key t) \<and>
                      is_sha256_hex (t_tree_sha256 t)) ''EXTENSION_TRANSACTION_INVALID'') (\<lambda>_.
      bindR (require (uuid_parse E (t_directory t) = Some (t_directory t) \<and>
                      is_object (t_configuration t) \<and> t_slot t \<notin> set slots)
               ''EXTENSION_TRANSACTION_INVALID'') (\<lambda>_.
      bindR (active_at E db (t_slot t)) (\<lambda>previous.
      bindR (require (case previous of None \<Rightarrow> True | Some p \<Rightarrow> a_pending_operation p = None)
               ''EXTENSION_TRANSACTION_BUSY'') (\<lambda>_.
      bindR (require (map_option a_revision previous = c_expected_revision c)
               ''EXTENSION_INSTALL_CONFLICT'') (\<lambda>_.
      Inr previous))))))"

fun check_changes ::
  "ext_env \<Rightarrow> ext_db \<Rightarrow> string list \<Rightarrow> change list \<Rightarrow> active option list result" where
  "check_changes E db slots [] = Inr []"
| "check_changes E db slots (c # cs) =
     bindR (check_change E db slots c) (\<lambda>previous.
     bindR (check_changes E db (t_slot (c_target c) # slots) cs) (\<lambda>rest.
     Inr (previous # rest)))"

text \<open>The pointer a change installs.\<close>

definition pointer_row :: "ext_env \<Rightarrow> string \<Rightarrow> change \<Rightarrow> string \<Rightarrow> active_row" where
  "pointer_row E operation c text =
     \<lparr>ar_slot = t_slot (c_target c), ar_target = text, ar_revision = sha256 E text,
      ar_pending = Some operation\<rparr>"

fun write_pointers ::
  "ext_env \<Rightarrow> checkpoint \<Rightarrow> string \<Rightarrow> nat \<Rightarrow> change list \<Rightarrow> (ext_db, unit) host_op" where
  "write_pointers E cp operation n [] = retS ()"
| "write_pointers E cp operation n (c # cs) =
     bindS (readS (\<lambda>_. ok_or (encode_target E (c_target c)) ''EXTENSION_TRANSACTION_INVALID'')) (\<lambda>text.
     bindS (modS (\<lambda>db. db\<lparr>extension_active :=
              tbl_put ar_slot (pointer_row E operation c text) (extension_active db)\<rparr>)) (\<lambda>_.
     bindS (readS (\<lambda>_. pass (cp n ''pointer_recorded''))) (\<lambda>_.
     write_pointers E cp operation (Suc n) cs)))"

definition switch_tx ::
  "ext_env \<Rightarrow> checkpoint \<Rightarrow> string \<Rightarrow> change list \<Rightarrow> string \<Rightarrow> (ext_db, receipt \<times> bool) host_op" where
  "switch_tx E cp operation changes serialized =
     bindS (getS (\<lambda>db. tbl_get x_id operation (extension_transactions db))) (\<lambda>prior.
     case prior of
       Some row \<Rightarrow>
         bindS (readS (\<lambda>_. require (x_fingerprint row = sha256 E serialized) ''OPERATION_REUSED'')) (\<lambda>_.
         retS (\<lparr>r_operation_id = operation, r_state = x_state row\<rparr>, False))
     | None \<Rightarrow>
         bindS (readS (\<lambda>db. check_changes E db [] changes)) (\<lambda>before.
         bindS (readS (\<lambda>_. ok_or (encode_before E before) ''EXTENSION_TRANSACTION_INVALID'')) (\<lambda>before_text.
         bindS (modS (\<lambda>db. db\<lparr>extension_transactions := extension_transactions db @
                  [\<lparr>x_id = operation, x_fingerprint = sha256 E serialized, x_before = before_text,
                    x_after = serialized, x_state = ''checking''\<rparr>]\<rparr>)) (\<lambda>_.
         bindS (readS (\<lambda>_. pass (cp 0 ''journal_recorded''))) (\<lambda>_.
         bindS (write_pointers E cp operation 1 changes) (\<lambda>_.
         retS (\<lparr>r_operation_id = operation, r_state = ''checking''\<rparr>, True)))))))"

text \<open>
  \<open>switch_inner\<close>. The transaction's result says whether this call committed a new switch; only
  then is the last checkpoint reached, outside the transaction.
\<close>

definition switch_inner ::
  "ext_env \<Rightarrow> checkpoint \<Rightarrow> string \<Rightarrow> change list \<Rightarrow> (ext_db, receipt) host_op" where
  "switch_inner E cp operation changes =
     bindS (readS (\<lambda>_. require (uuid_parse E operation \<noteq> None \<and> changes \<noteq> [] \<and> length changes \<le> 200)
              ''EXTENSION_TRANSACTION_INVALID'')) (\<lambda>_.
     bindS (readS (\<lambda>_. ok_or (encode_changes E changes) ''EXTENSION_TRANSACTION_INVALID'')) (\<lambda>serialized.
     bindS (readS (\<lambda>_. require (length serialized \<le> 4 * 1024 * 1024) ''EXTENSION_TRANSACTION_INVALID'')) (\<lambda>_.
     bindS (atomicS (switch_tx E cp operation changes serialized)) (\<lambda>(rcpt, committed).
     bindS (readS (\<lambda>_. if committed then pass (cp (Suc (length changes)) ''switch_committed'') else Inr ())) (\<lambda>_.
     retS rcpt)))))"

definition switch :: "ext_env \<Rightarrow> string \<Rightarrow> change list \<Rightarrow> (ext_db, receipt) host_op" where
  "switch E operation changes = switch_inner E (\<lambda>_ _. None) operation changes"

text \<open>One round of \<open>finish\<close>'s loop: the pointer must still be the one this operation installed.\<close>

definition finish_one ::
  "ext_env \<Rightarrow> string \<Rightarrow> bool \<Rightarrow> change \<Rightarrow> active option \<Rightarrow> (ext_db, unit) host_op" where
  "finish_one E operation healthy c old =
     (let slot = t_slot (c_target c) in
      bindS (readS (\<lambda>db. bindR (active_at E db slot) (\<lambda>a. ok_or a ''EXTENSION_STORE_CORRUPT''))) (\<lambda>current.
      bindS (readS (\<lambda>_. require (a_pending_operation current = Some operation \<and>
                                a_target current = c_target c) ''EXTENSION_STORE_CORRUPT'')) (\<lambda>_.
      if healthy then
        modS (\<lambda>db. db\<lparr>extension_active :=
          tbl_update (\<lambda>r. ar_slot r = slot) (\<lambda>r. r\<lparr>ar_pending := None\<rparr>) (extension_active db)\<rparr>)
      else (case old of
        Some o' \<Rightarrow>
          bindS (readS (\<lambda>_. ok_or (encode_target E (a_target o')) ''EXTENSION_TRANSACTION_INVALID'')) (\<lambda>text.
          modS (\<lambda>db. db\<lparr>extension_active :=
            tbl_update (\<lambda>r. ar_slot r = slot)
              (\<lambda>r. r\<lparr>ar_target := text, ar_revision := a_revision o', ar_pending := None\<rparr>)
              (extension_active db)\<rparr>))
      | None \<Rightarrow>
          modS (\<lambda>db. db\<lparr>extension_active := tbl_drop_key ar_slot slot (extension_active db)\<rparr>)))))"

fun finish_all ::
  "ext_env \<Rightarrow> string \<Rightarrow> bool \<Rightarrow> (change \<times> active option) list \<Rightarrow> (ext_db, unit) host_op" where
  "finish_all E operation healthy [] = retS ()"
| "finish_all E operation healthy ((c, old) # rest) =
     bindS (finish_one E operation healthy c old) (\<lambda>_. finish_all E operation healthy rest)"

definition finish_state :: "bool \<Rightarrow> string" where
  "finish_state healthy = (if healthy then ''complete'' else ''rolled_back'')"

definition finish :: "ext_env \<Rightarrow> string \<Rightarrow> bool \<Rightarrow> (ext_db, receipt) host_op" where
  "finish E operation healthy =
     atomicS (
     bindS (readS (\<lambda>db. ok_or (tbl_get x_id operation (extension_transactions db)) ''DATABASE_ERROR'')) (\<lambda>row.
     if x_state row \<noteq> ''checking'' then
       retS \<lparr>r_operation_id = operation, r_state = x_state row\<rparr>
     else
       bindS (readS (\<lambda>_. ok_or (decode_changes E (x_after row)) ''EXTENSION_STORE_CORRUPT'')) (\<lambda>changes.
       bindS (readS (\<lambda>_. ok_or (decode_before E (x_before row)) ''EXTENSION_STORE_CORRUPT'')) (\<lambda>previous.
       bindS (readS (\<lambda>_. require (length previous = length changes) ''EXTENSION_STORE_CORRUPT'')) (\<lambda>_.
       bindS (finish_all E operation healthy (zip changes previous)) (\<lambda>_.
       bindS (modS (\<lambda>db. db\<lparr>extension_transactions :=
                tbl_update (\<lambda>r. x_id r = operation) (\<lambda>r. r\<lparr>x_state := finish_state healthy\<rparr>)
                  (extension_transactions db)\<rparr>)) (\<lambda>_.
       retS \<lparr>r_operation_id = operation, r_state = finish_state healthy\<rparr>)))))))"

fun finish_each :: "ext_env \<Rightarrow> string list \<Rightarrow> (ext_db, unit) host_op" where
  "finish_each E [] = retS ()"
| "finish_each E (i # is) = bindS (finish E i False) (\<lambda>_. finish_each E is)"

definition checking_ids :: "ext_db \<Rightarrow> string list" where
  "checking_ids db =
     sort (map x_id (filter (\<lambda>r. x_state r = ''checking'') (extension_transactions db)))"

definition recover :: "ext_env \<Rightarrow> (ext_db, nat) host_op" where
  "recover E =
     bindS (getS checking_ids) (\<lambda>ids.
     bindS (finish_each E ids) (\<lambda>_. retS (length ids)))"

definition rollback_change :: "ext_env \<Rightarrow> ext_db \<Rightarrow> active option \<Rightarrow> change \<Rightarrow> change result" where
  "rollback_change E db previous installed =
     (case previous of
        None \<Rightarrow> Err ''EXTENSION_ROLLBACK_INVALID''
      | Some p \<Rightarrow>
          bindR (active_at E db (t_slot (c_target installed))) (\<lambda>a.
          bindR (ok_or a ''EXTENSION_INSTALL_CONFLICT'') (\<lambda>current.
          bindR (require (a_pending_operation current = None \<and> a_target current = c_target installed)
                   ''EXTENSION_INSTALL_CONFLICT'') (\<lambda>_.
          Inr \<lparr>c_target = a_target p, c_expected_revision = Some (a_revision current)\<rparr>))))"

fun rollback_each :: "ext_env \<Rightarrow> ext_db \<Rightarrow> (active option \<times> change) list \<Rightarrow> change list result" where
  "rollback_each E db [] = Inr []"
| "rollback_each E db ((p, c) # rest) =
     bindR (rollback_change E db p c) (\<lambda>x. bindR (rollback_each E db rest) (\<lambda>xs. Inr (x # xs)))"

definition rollback_changes :: "ext_env \<Rightarrow> ext_db \<Rightarrow> string \<Rightarrow> change list result" where
  "rollback_changes E db operation =
     bindR (ok_or (tbl_get x_id operation (extension_transactions db)) ''EXTENSION_ROLLBACK_UNKNOWN'') (\<lambda>row.
     bindR (require (x_state row = ''complete'') ''EXTENSION_ROLLBACK_INVALID'') (\<lambda>_.
     bindR (ok_or (decode_before E (x_before row)) ''EXTENSION_STORE_CORRUPT'') (\<lambda>old.
     bindR (ok_or (decode_changes E (x_after row)) ''EXTENSION_STORE_CORRUPT'') (\<lambda>installed.
     bindR (require (length old = length installed \<and> \<not> list_ex (\<lambda>p. p = None) old)
              ''EXTENSION_ROLLBACK_INVALID'') (\<lambda>_.
     rollback_each E db (zip old installed))))))"

definition uninstall_tx :: "ext_env \<Rightarrow> string \<Rightarrow> string \<Rightarrow> string \<Rightarrow> (ext_db, receipt) host_op" where
  "uninstall_tx E operation slot expected =
     bindS (getS (\<lambda>db. tbl_get u_id operation (extension_uninstalls db))) (\<lambda>prior.
     case prior of
       Some row \<Rightarrow>
         bindS (readS (\<lambda>_. require (u_slot row = slot \<and> u_expected row = expected) ''OPERATION_REUSED'')) (\<lambda>_.
         retS \<lparr>r_operation_id = operation, r_state = u_state row\<rparr>)
     | None \<Rightarrow>
         bindS (readS (\<lambda>db. bindR (active_at E db slot) (\<lambda>a. ok_or a ''EXTENSION_INSTALL_CONFLICT''))) (\<lambda>current.
         bindS (readS (\<lambda>_. require (a_pending_operation current = None \<and> a_revision current = expected)
                  ''EXTENSION_INSTALL_CONFLICT'')) (\<lambda>_.
         bindS (modS (\<lambda>db. db\<lparr>extension_uninstalls := extension_uninstalls db @
                  [\<lparr>u_id = operation, u_slot = slot, u_expected = expected, u_state = ''complete''\<rparr>]\<rparr>)) (\<lambda>_.
         bindS (modS (\<lambda>db. db\<lparr>extension_active := tbl_drop_key ar_slot slot (extension_active db)\<rparr>)) (\<lambda>_.
         retS \<lparr>r_operation_id = operation, r_state = ''complete''\<rparr>)))))"

definition uninstall :: "ext_env \<Rightarrow> string \<Rightarrow> string \<Rightarrow> string \<Rightarrow> (ext_db, receipt) host_op" where
  "uninstall E operation slot expected =
     bindS (readS (\<lambda>_. require (uuid_parse E operation \<noteq> None \<and> is_sha256_hex slot \<and>
                               is_sha256_hex expected) ''EXTENSION_TRANSACTION_INVALID'')) (\<lambda>_.
     atomicS (uninstall_tx E operation slot expected))"

section \<open>Lookups\<close>

abbreviation pointer :: "ext_db \<Rightarrow> string \<Rightarrow> active_row option" where
  "pointer db slot \<equiv> tbl_get ar_slot slot (extension_active db)"

abbreviation journal :: "ext_db \<Rightarrow> string \<Rightarrow> tx_row option" where
  "journal db i \<equiv> tbl_get x_id i (extension_transactions db)"

abbreviation change_slots :: "change list \<Rightarrow> string list" where
  "change_slots cs \<equiv> map (\<lambda>c. t_slot (c_target c)) cs"

definition text_ok :: "ext_env \<Rightarrow> string \<Rightarrow> bool" where
  "text_ok E t \<longleftrightarrow> (\<exists>v. encode_target E v = Some t)"

lemma serde_target: "serde_ok E \<Longrightarrow> encode_target E v = Some t \<Longrightarrow> decode_target E t = Some v"
  by (simp add: serde_ok_def)

lemma serde_changes: "serde_ok E \<Longrightarrow> encode_changes E v = Some t \<Longrightarrow> decode_changes E t = Some v"
  by (simp add: serde_ok_def)

lemma serde_before: "serde_ok E \<Longrightarrow> encode_before E v = Some t \<Longrightarrow> decode_before E t = Some v"
  by (simp add: serde_ok_def)

text \<open>Text in the pointer table was produced by the serialiser, so decoding and encoding it
  again gives the same text.\<close>

lemma text_ok_recode:
  assumes "serde_ok E" "text_ok E t" "decode_target E t = Some v"
  shows "encode_target E v = Some t"
  using assms by (auto simp: text_ok_def dest: serde_target)

lemma active_at_Inr_iff:
  "active_at E db slot = Inr a \<longleftrightarrow>
     (case pointer db slot of
        None \<Rightarrow> a = None
      | Some row \<Rightarrow> (\<exists>t. decode_target E (ar_target row) = Some t \<and>
          a = Some \<lparr>a_target = t, a_revision = ar_revision row, a_pending_operation = ar_pending row\<rparr>))"
  by (auto simp: active_at_def bindR_Inr_iff split: option.splits)

definition checked_before :: "ext_env \<Rightarrow> ext_db \<Rightarrow> change \<Rightarrow> active option \<Rightarrow> bool" where
  "checked_before E db c p \<longleftrightarrow>
     active_at E db (t_slot (c_target c)) = Inr p \<and>
     (\<forall>a. p = Some a \<longrightarrow> a_pending_operation a = None)"

lemma check_changes_Inr:
  "check_changes E db slots cs = Inr ps \<Longrightarrow>
     list_all2 (checked_before E db) cs ps \<and> distinct (change_slots cs) \<and>
     set (change_slots cs) \<inter> set slots = {}"
proof (induction cs arbitrary: slots ps)
  case (Cons c cs)
  then obtain p qs where "check_change E db slots c = Inr p" and ps: "ps = p # qs"
    and rest: "check_changes E db (t_slot (c_target c) # slots) cs = Inr qs"
    by (auto simp: bindR_Inr_iff)
  then have "checked_before E db c p" "t_slot (c_target c) \<notin> set slots"
    by (auto simp: check_change_def checked_before_def Let_def bindR_Inr_iff split: option.splits)
  with Cons.IH [OF rest] ps show ?case by auto
qed simp

lemma write_pointers_Inr:
  "write_pointers E cp operation n cs db = (Inr u, db') \<Longrightarrow>
     \<exists>texts. list_all2 (\<lambda>c t. encode_target E (c_target c) = Some t) cs texts \<and>
       db' = db\<lparr>extension_active :=
         fold (tbl_put ar_slot) (map2 (pointer_row E operation) cs texts) (extension_active db)\<rparr>"
proof (induction cs arbitrary: n db)
  case Nil
  then show ?case by simp
next
  case (Cons c cs)
  then obtain t where t: "encode_target E (c_target c) = Some t"
    and rest: "write_pointers E cp operation (Suc n) cs
       (db\<lparr>extension_active := tbl_put ar_slot (pointer_row E operation c t) (extension_active db)\<rparr>)
       = (Inr u, db')"
    by (auto simp: bindS_Inr_iff)
  from Cons.IH [OF rest] obtain ts where
    "list_all2 (\<lambda>c t. encode_target E (c_target c) = Some t) cs ts"
    "db' = db\<lparr>extension_active := fold (tbl_put ar_slot) (map2 (pointer_row E operation) cs ts)
       (tbl_put ar_slot (pointer_row E operation c t) (extension_active db))\<rparr>"
    by auto
  with t show ?case by (intro exI [of _ "t # ts"]) auto
qed

text \<open>The rows a switch writes, looked up by slot.\<close>

lemma pointer_rows_keys:
  "length ts = length cs \<Longrightarrow> map ar_slot (map2 (pointer_row E operation) cs ts) = change_slots cs"
  by (induction cs ts rule: list_induct2') (auto simp: pointer_row_def)

definition switched :: "ext_env \<Rightarrow> string \<Rightarrow> change list \<Rightarrow> ext_db \<Rightarrow> ext_db \<Rightarrow> bool" where
  "switched E operation cs db db' \<longleftrightarrow>
     tbl_unique ar_slot (extension_active db) = tbl_unique ar_slot (extension_active db') \<and>
     (\<forall>c \<in> set cs. \<exists>t. encode_target E (c_target c) = Some t \<and>
        pointer db' (t_slot (c_target c)) = Some (pointer_row E operation c t)) \<and>
     (\<forall>slot. slot \<notin> set (change_slots cs) \<longrightarrow> pointer db' slot = pointer db slot) \<and>
     extension_uninstalls db' = extension_uninstalls db"

lemma switched_new:
  "switched E operation cs db db' \<Longrightarrow> c \<in> set cs \<Longrightarrow>
     \<exists>t. encode_target E (c_target c) = Some t \<and>
        pointer db' (t_slot (c_target c)) = Some (pointer_row E operation c t)"
  by (simp add: switched_def)

lemma tbl_unique_fold_put: "tbl_unique key (fold (tbl_put key) rs t) = tbl_unique key t"
proof (induction rs arbitrary: t)
  case (Cons r rs)
  have "tbl_unique key (tbl_put key r t) = tbl_unique key t"
  proof (cases "tbl_has key (key r) t")
    case True
    have "map key (tbl_update (\<lambda>x. key x = key r) (\<lambda>_. r) t) = map key t"
      by (simp add: tbl_update_def)
    with True show ?thesis by (simp add: tbl_put_def tbl_upsert_def tbl_unique_def)
  next
    case False
    then show ?thesis by (simp add: tbl_put_def tbl_upsert_def tbl_unique_append tbl_has_iff)
  qed
  with Cons.IH show ?case by simp
qed simp

lemma write_pointers_switched:
  assumes "write_pointers E cp operation n cs db = (Inr u, db')" "distinct (change_slots cs)"
  shows "switched E operation cs db db' \<and> extension_transactions db' = extension_transactions db"
proof -
  from write_pointers_Inr [OF assms(1)] obtain ts where
    ts: "list_all2 (\<lambda>c t. encode_target E (c_target c) = Some t) cs ts" and
    db': "db' = db\<lparr>extension_active :=
      fold (tbl_put ar_slot) (map2 (pointer_row E operation) cs ts) (extension_active db)\<rparr>"
    by blast
  from ts have len: "length ts = length cs" by (simp add: list_all2_lengthD)
  let ?rows = "map2 (pointer_row E operation) cs ts"
  from assms(2) len have dist: "distinct (map ar_slot ?rows)"
    by (simp only: pointer_rows_keys)
  have new: "\<exists>t. encode_target E (c_target c) = Some t \<and>
      pointer db' (t_slot (c_target c)) = Some (pointer_row E operation c t)" if c: "c \<in> set cs" for c
  proof -
    from c ts obtain t where t: "(c, t) \<in> set (zip cs ts)" "encode_target E (c_target c) = Some t"
      by (metis (mono_tags, lifting) in_set_impl_in_set_zip1 len list_all2_iff case_prodD)
    have "pointer_row E operation c t \<in> set ?rows" using t(1) by force
    from tbl.get_fold_put [OF dist this, of "extension_active db"] t(2)
    show ?thesis by (simp add: db' pointer_row_def)
  qed
  have old: "pointer db' slot = pointer db slot" if "slot \<notin> set (change_slots cs)" for slot
    using that tbl.get_fold_put_other [of slot ar_slot ?rows "extension_active db"]
      pointer_rows_keys [OF len, of E operation]
    by (metis db' ext_db.select_convs(1) ext_db.surjective ext_db.update_convs(1) list.set_map)
  from new old show ?thesis
    by (auto simp: switched_def db' tbl_unique_fold_put)
qed
section \<open>Outcomes of a switch\<close>

definition commits :: "ext_env \<Rightarrow> string \<Rightarrow> change list \<Rightarrow> ext_db \<Rightarrow> ext_db \<Rightarrow> bool" where
  "commits E operation cs db db' \<longleftrightarrow>
     (\<exists>serialized ps before.
        encode_changes E cs = Some serialized \<and> journal db operation = None \<and>
        check_changes E db [] cs = Inr ps \<and> encode_before E ps = Some before \<and>
        extension_transactions db' = extension_transactions db @
          [\<lparr>x_id = operation, x_fingerprint = sha256 E serialized, x_before = before,
            x_after = serialized, x_state = ''checking''\<rparr>] \<and>
        switched E operation cs db db')"

lemma switch_tx_Inr:
  assumes "switch_tx E cp operation cs serialized db = (Inr (rcpt, committed), db')"
    and "encode_changes E cs = Some serialized"
  shows "if committed then commits E operation cs db db' \<and>
           rcpt = \<lparr>r_operation_id = operation, r_state = ''checking''\<rparr>
         else db' = db \<and> (\<exists>row. journal db operation = Some row \<and>
           x_fingerprint row = sha256 E serialized \<and>
           rcpt = \<lparr>r_operation_id = operation, r_state = x_state row\<rparr>)"
proof (cases "journal db operation")
  case None
  with assms(1) obtain ps before db1 where
    ps: "check_changes E db [] cs = Inr ps" and before: "encode_before E ps = Some before" and
    res: "rcpt = \<lparr>r_operation_id = operation, r_state = ''checking''\<rparr>" "committed" and
    wp: "write_pointers E cp operation 1 cs
       (db\<lparr>extension_transactions := extension_transactions db @
          [\<lparr>x_id = operation, x_fingerprint = sha256 E serialized, x_before = before,
            x_after = serialized, x_state = ''checking''\<rparr>]\<rparr>) = (Inr (), db')"
    by (auto simp: switch_tx_def bindS_Inr_iff)
  from check_changes_Inr [OF ps] have "distinct (change_slots cs)" by simp
  from write_pointers_switched [OF wp this] None ps before assms(2) res
  show ?thesis by (auto simp: commits_def switched_def)
next
  case (Some row)
  with assms(1) show ?thesis by (auto simp: switch_tx_def bindS_Inr_iff)
qed

text \<open>Every outcome of a switch, with any checkpoint: nothing changed, or the whole group was
  switched and journaled.\<close>

lemma switch_inner_outcome:
  assumes "switch_inner E cp operation cs db = (r, db')"
  shows "db' = db \<or> commits E operation cs db db'"
proof -
  have "db' = db \<or> commits E operation cs db db'"
    if "encode_changes E cs = Some t" "atomicS (switch_tx E cp operation cs t) db = (q, db')" for t q
  proof (cases q)
    case (Inl e)
    with that show ?thesis by (simp add: atomicS_Inl_iff)
  next
    case (Inr v)
    with that have "switch_tx E cp operation cs t db = (Inr (fst v, snd v), db')"
      by (simp add: atomicS_Inr_iff)
    from switch_tx_Inr [OF this that(1)] show ?thesis by (auto split: if_splits)
  qed
  with assms show ?thesis
    by (cases r) (fastforce simp: switch_inner_def bindS_Inr_iff bindS_Inl_iff)+
qed

lemma switch_Inr:
  assumes "switch E operation cs db = (Inr rcpt, db')"
  shows "\<exists>t. encode_changes E cs = Some t \<and>
     ((commits E operation cs db db' \<and> rcpt = \<lparr>r_operation_id = operation, r_state = ''checking''\<rparr>) \<or>
      (db' = db \<and> (\<exists>row. journal db operation = Some row \<and> x_fingerprint row = sha256 E t \<and>
         rcpt = \<lparr>r_operation_id = operation, r_state = x_state row\<rparr>)))"
proof -
  from assms obtain t committed where t: "encode_changes E cs = Some t"
    and tx: "switch_tx E (\<lambda>_ _. None) operation cs t db = (Inr (rcpt, committed), db')"
    by (auto simp: switch_def switch_inner_def bindS_Inr_iff atomicS_Inr_iff)
  from switch_tx_Inr [OF tx t] t show ?thesis by (auto split: if_splits)
qed

lemma journal_commits:
  "commits E operation cs db db' \<Longrightarrow>
     \<exists>t b ps. encode_changes E cs = Some t \<and> check_changes E db [] cs = Inr ps \<and>
       encode_before E ps = Some b \<and>
       journal db' i = (if i = operation then
          Some \<lparr>x_id = operation, x_fingerprint = sha256 E t, x_before = b, x_after = t,
                x_state = ''checking''\<rparr>
        else journal db i)"
  by (auto simp: commits_def tbl_get_append tbl_get_Cons split: option.splits)

section \<open>The store's invariant\<close>

definition owned :: "ext_env \<Rightarrow> string \<Rightarrow> ext_db \<Rightarrow> change \<Rightarrow> bool" where
  "owned E operation db c \<longleftrightarrow>
     (\<exists>row. pointer db (t_slot (c_target c)) = Some row \<and>
        decode_target E (ar_target row) = Some (c_target c) \<and> ar_pending row = Some operation)"

definition tx_ok :: "ext_env \<Rightarrow> ext_db \<Rightarrow> tx_row \<Rightarrow> bool" where
  "tx_ok E db x \<longleftrightarrow>
     (\<exists>cs ps. decode_changes E (x_after x) = Some cs \<and> decode_before E (x_before x) = Some ps \<and>
        length ps = length cs \<and> distinct (change_slots cs) \<and>
        (\<forall>c \<in> set cs. owned E (x_id x) db c) \<and>
        (\<forall>a. Some a \<in> set ps \<longrightarrow> encode_target E (a_target a) \<noteq> None))"

definition ext_inv :: "ext_env \<Rightarrow> ext_db \<Rightarrow> bool" where
  "ext_inv E db \<longleftrightarrow>
     tbl_unique ar_slot (extension_active db) \<and> tbl_unique x_id (extension_transactions db) \<and>
     (\<forall>slot row. pointer db slot = Some row \<longrightarrow> text_ok E (ar_target row)) \<and>
     (\<forall>i x. journal db i = Some x \<longrightarrow> x_state x = ''checking'' \<longrightarrow> tx_ok E db x) \<and>
     (\<forall>slot row i. pointer db slot = Some row \<longrightarrow> ar_pending row = Some i \<longrightarrow>
        (\<exists>x cs. journal db i = Some x \<and> x_state x = ''checking'' \<and>
           decode_changes E (x_after x) = Some cs \<and> slot \<in> set (change_slots cs)))"

lemma ext_inv_schema: "ext_inv E schema"
  by (simp add: ext_inv_def schema_def tbl_unique_def)

lemma journal_id: "journal db i = Some x \<Longrightarrow> x_id x = i"
  by (auto dest: tbl_get_SomeD)

lemma checked_before_encodable:
  assumes "serde_ok E" "ext_inv E db" "list_all2 (checked_before E db) cs ps" "Some a \<in> set ps"
  shows "encode_target E (a_target a) \<noteq> None"
proof -
  from list_all2_in2 [OF assms(3,4)]
  obtain c :: change where "active_at E db (t_slot (c_target c)) = Inr (Some a)"
    by (auto simp: checked_before_def)
  then obtain row where row: "pointer db (t_slot (c_target c)) = Some row"
    and "decode_target E (ar_target row) = Some (a_target a)"
    by (auto simp: active_at_Inr_iff split: option.splits)
  moreover from row assms(2) have "text_ok E (ar_target row)" by (auto simp: ext_inv_def)
  ultimately show ?thesis using assms(1) text_ok_recode by fastforce
qed

lemma commits_unpended:
  assumes "commits E operation cs db db'" "c \<in> set cs" "pointer db (t_slot (c_target c)) = Some row"
  shows "ar_pending row = None"
proof -
  from assms(1) obtain ps where "check_changes E db [] cs = Inr ps" by (auto simp: commits_def)
  from check_changes_Inr [OF this] have "list_all2 (checked_before E db) cs ps" by simp
  with assms(2) obtain p where "checked_before E db c p"
    by (auto dest: list_all2_in1)
  with assms(3) show ?thesis by (auto simp: checked_before_def active_at_Inr_iff)
qed

lemma ext_inv_commits:
  assumes "serde_ok E" "ext_inv E db" and com: "commits E operation cs db db'"
  shows "ext_inv E db'"
proof -
  from com obtain t b ps where enc: "encode_changes E cs = Some t" "encode_before E ps = Some b"
    and chk: "check_changes E db [] cs = Inr ps" and j0: "journal db operation = None"
    and txs: "extension_transactions db' = extension_transactions db @
          [\<lparr>x_id = operation, x_fingerprint = sha256 E t, x_before = b, x_after = t,
            x_state = ''checking''\<rparr>]"
    and sw: "switched E operation cs db db'"
    by (auto simp: commits_def)
  note chk' = check_changes_Inr [OF chk]
  have dec: "decode_changes E t = Some cs" "decode_before E b = Some ps"
    using assms(1) enc by (auto intro: serde_changes serde_before)
  have j: "journal db' i = (if i = operation then
      Some \<lparr>x_id = operation, x_fingerprint = sha256 E t, x_before = b, x_after = t,
            x_state = ''checking''\<rparr> else journal db i)" for i
    using j0 by (auto simp: txs tbl_get_append tbl_get_Cons split: option.splits)
  have owned_new: "owned E operation db' c" if "c \<in> set cs" for c
    using sw that assms(1) by (auto simp: switched_def owned_def pointer_row_def dest!: bspec intro: serde_target)
  have kept: "owned E i db' c" if own: "owned E i db c" for i c
  proof -
    from own obtain row where row: "pointer db (t_slot (c_target c)) = Some row" "ar_pending row = Some i"
      by (auto simp: owned_def)
    have "t_slot (c_target c) \<notin> set (change_slots cs)"
      using commits_unpended [OF com] row by fastforce
    with sw own show ?thesis by (auto simp: owned_def switched_def)
  qed
  have "tbl_unique ar_slot (extension_active db')" "tbl_unique x_id (extension_transactions db')"
    using assms(2) sw j0 by (auto simp: ext_inv_def switched_def txs tbl_unique_append)
  moreover have "text_ok E (ar_target row)" if "pointer db' slot = Some row" for slot row
  proof (cases "slot \<in> set (change_slots cs)")
    case True
    then obtain c where c: "c \<in> set cs" "slot = t_slot (c_target c)" by auto
    with sw obtain u where "encode_target E (c_target c) = Some u"
      "pointer db' slot = Some (pointer_row E operation c u)"
      by (auto simp: switched_def)
    with that show ?thesis by (auto simp: text_ok_def pointer_row_def)
  next
    case False
    with sw that have "pointer db slot = Some row" by (simp add: switched_def)
    with assms(2) show ?thesis by (auto simp: ext_inv_def)
  qed
  moreover have "tx_ok E db' x" if x: "journal db' i = Some x" "x_state x = ''checking''" for i x
  proof (cases "i = operation")
    case True
    with x j have "x = \<lparr>x_id = operation, x_fingerprint = sha256 E t, x_before = b, x_after = t,
            x_state = ''checking''\<rparr>" by simp
    with dec chk' owned_new checked_before_encodable [OF assms(1,2)] show ?thesis
      by (auto simp: tx_ok_def list_all2_lengthD)
  next
    case False
    with x j assms(2) have "tx_ok E db x" by (auto simp: ext_inv_def)
    with kept show ?thesis unfolding tx_ok_def by blast
  qed
  moreover have "\<exists>x cs'. journal db' i = Some x \<and> x_state x = ''checking'' \<and>
      decode_changes E (x_after x) = Some cs' \<and> slot \<in> set (change_slots cs')"
    if r: "pointer db' slot = Some row" "ar_pending row = Some i" for slot row i
  proof (cases "slot \<in> set (change_slots cs)")
    case True
    then obtain c where c: "c \<in> set cs" "slot = t_slot (c_target c)" by auto
    with owned_new r have "i = operation" by (force simp: owned_def)
    with j dec True show ?thesis by auto
  next
    case False
    with sw r have "pointer db slot = Some row" by (auto simp: switched_def)
    with assms(2) r obtain x cs' where "journal db i = Some x" "x_state x = ''checking''"
      "decode_changes E (x_after x) = Some cs'" "slot \<in> set (change_slots cs')"
      by (auto simp: ext_inv_def) blast
    with j j0 show ?thesis by auto
  qed
  ultimately show ?thesis unfolding ext_inv_def by blast
qed
section \<open>Outcomes of finishing\<close>

text \<open>What finishing leaves in the slot of one change.\<close>

definition finished_row :: "ext_env \<Rightarrow> bool \<Rightarrow> active option \<Rightarrow> active_row \<Rightarrow> active_row option" where
  "finished_row E healthy old row =
     (if healthy then Some (row\<lparr>ar_pending := None\<rparr>)
      else (case old of
        Some a \<Rightarrow> Some (row\<lparr>ar_target := the (encode_target E (a_target a)),
                       ar_revision := a_revision a, ar_pending := None\<rparr>)
      | None \<Rightarrow> None))"

definition encodable :: "ext_env \<Rightarrow> active option \<Rightarrow> bool" where
  "encodable E old \<longleftrightarrow> (\<forall>a. old = Some a \<longrightarrow> encode_target E (a_target a) \<noteq> None)"

lemma finish_one_ok:
  assumes "owned E operation db c" "encodable E old" "pointer db (t_slot (c_target c)) = Some row"
  shows "\<exists>T. finish_one E operation healthy c old db = (Inr (), db\<lparr>extension_active := T\<rparr>) \<and>
     (tbl_unique ar_slot (extension_active db) \<longrightarrow> tbl_unique ar_slot T) \<and>
     (\<forall>slot. tbl_get ar_slot slot T =
        (if slot = t_slot (c_target c) then finished_row E healthy old row else pointer db slot))"
proof -
  let ?slot = "t_slot (c_target c)"
  from assms(1,3) have "active_at E db ?slot = Inr (Some \<lparr>a_target = c_target c,
      a_revision = ar_revision row, a_pending_operation = Some operation\<rparr>)"
    by (auto simp: owned_def active_at_Inr_iff)
  then have run: "finish_one E operation healthy c old db =
     (Inr (), db\<lparr>extension_active :=
        (if healthy then tbl_update (\<lambda>r. ar_slot r = ?slot) (\<lambda>r. r\<lparr>ar_pending := None\<rparr>) (extension_active db)
         else (case old of
            Some a \<Rightarrow> tbl_update (\<lambda>r. ar_slot r = ?slot)
              (\<lambda>r. r\<lparr>ar_target := the (encode_target E (a_target a)), ar_revision := a_revision a,
                    ar_pending := None\<rparr>) (extension_active db)
          | None \<Rightarrow> tbl_drop_key ar_slot ?slot (extension_active db)))\<rparr>)"
    using assms(2)
    by (auto simp: finish_one_def host_defs encodable_def Let_def split: option.splits)
  have row_slot: "ar_slot row = ?slot" using assms(3) by (auto dest: tbl_get_SomeD)
  have other: "pointer db slot = Some r \<Longrightarrow> ar_slot r = slot" for slot r
    by (auto dest: tbl_get_SomeD)
  show ?thesis
    unfolding run
  proof (intro exI conjI, rule refl)
    show "tbl_unique ar_slot (extension_active db) \<longrightarrow> tbl_unique ar_slot
        (if healthy then tbl_update (\<lambda>r. ar_slot r = ?slot) (\<lambda>r. r\<lparr>ar_pending := None\<rparr>) (extension_active db)
         else (case old of
            Some a \<Rightarrow> tbl_update (\<lambda>r. ar_slot r = ?slot)
              (\<lambda>r. r\<lparr>ar_target := the (encode_target E (a_target a)), ar_revision := a_revision a,
                    ar_pending := None\<rparr>) (extension_active db)
          | None \<Rightarrow> tbl_drop_key ar_slot ?slot (extension_active db)))"
      by (auto simp: tbl_unique_update tbl_drop_key_def tbl_unique_delete split: option.splits)
  qed (use assms(3) row_slot other in
       \<open>auto simp: tbl_get_update tbl_get_drop_key finished_row_def map_option_case
          split: option.splits if_splits\<close>)
qed

definition finished ::
  "ext_env \<Rightarrow> bool \<Rightarrow> (change \<times> active option) list \<Rightarrow> ext_db \<Rightarrow> ext_db \<Rightarrow> bool" where
  "finished E healthy pairs db db' \<longleftrightarrow>
     (tbl_unique ar_slot (extension_active db) \<longrightarrow> tbl_unique ar_slot (extension_active db')) \<and>
     (\<forall>(c, old) \<in> set pairs. \<forall>row. pointer db (t_slot (c_target c)) = Some row \<longrightarrow>
        pointer db' (t_slot (c_target c)) = finished_row E healthy old row) \<and>
     (\<forall>slot. slot \<notin> set (change_slots (map fst pairs)) \<longrightarrow> pointer db' slot = pointer db slot) \<and>
     extension_transactions db' = extension_transactions db \<and>
     extension_uninstalls db' = extension_uninstalls db"

lemma finished_other:
  "finished E healthy pairs db db' \<Longrightarrow> slot \<notin> set (change_slots (map fst pairs)) \<Longrightarrow>
     pointer db' slot = pointer db slot"
  by (simp add: finished_def)

lemma finish_all_ok:
  "distinct (change_slots (map fst pairs)) \<Longrightarrow>
   (\<And>c old. (c, old) \<in> set pairs \<Longrightarrow> owned E operation db c \<and> encodable E old) \<Longrightarrow>
   \<exists>db'. finish_all E operation healthy pairs db = (Inr (), db') \<and> finished E healthy pairs db db'"
proof (induction pairs arbitrary: db)
  case Nil
  then show ?case by (simp add: finished_def)
next
  case (Cons pr pairs)
  obtain c old where pr: "pr = (c, old)" by (cases pr)
  let ?slot = "t_slot (c_target c)"
  from Cons.prems(2) [of c old] pr have own: "owned E operation db c" "encodable E old" by auto
  then obtain row where row: "pointer db ?slot = Some row" by (auto simp: owned_def)
  from finish_one_ok [OF own row] obtain T where
    one: "finish_one E operation healthy c old db = (Inr (), db\<lparr>extension_active := T\<rparr>)"
    and uniq: "tbl_unique ar_slot (extension_active db) \<longrightarrow> tbl_unique ar_slot T"
    and T: "\<And>slot. tbl_get ar_slot slot T =
        (if slot = ?slot then finished_row E healthy old row else pointer db slot)"
    by blast
  let ?db1 = "db\<lparr>extension_active := T\<rparr>"
  have away: "t_slot (c_target d) \<noteq> ?slot" if "(d, e) \<in> set pairs" for d e
    using Cons.prems(1) that pr by (auto simp: image_iff)
  have "owned E operation ?db1 d \<and> encodable E e" if "(d, e) \<in> set pairs" for d e
    using Cons.prems(2) [of d e] that away [OF that] by (auto simp: owned_def T)
  with Cons.IH [of ?db1] Cons.prems(1) obtain db' where
    rest: "finish_all E operation healthy pairs ?db1 = (Inr (), db')" "finished E healthy pairs ?db1 db'"
    by auto
  have "?slot \<notin> set (change_slots (map fst pairs))" using Cons.prems(1) pr by simp
  with rest(2) T have here: "pointer db' ?slot = finished_row E healthy old row"
    by (simp add: finished_def)
  have "finished E healthy (pr # pairs) db db'"
    using rest(2) uniq T here row away pr by (auto simp: finished_def)
  with one rest(1) pr show ?case by (auto simp: bindS_def)
qed

lemma finish_checking:
  assumes "journal db operation = Some x" "x_state x = ''checking''"
    and "decode_changes E (x_after x) = Some cs" "decode_before E (x_before x) = Some ps"
    and "length ps = length cs" "distinct (change_slots cs)"
    and "\<forall>c \<in> set cs. owned E operation db c"
    and "\<forall>a. Some a \<in> set ps \<longrightarrow> encode_target E (a_target a) \<noteq> None"
  shows "\<exists>db1 db'. finish E operation healthy db =
       (Inr \<lparr>r_operation_id = operation, r_state = finish_state healthy\<rparr>, db') \<and>
     finished E healthy (zip cs ps) db db1 \<and>
     db' = db1\<lparr>extension_transactions :=
       tbl_update (\<lambda>r. x_id r = operation) (\<lambda>r. r\<lparr>x_state := finish_state healthy\<rparr>)
         (extension_transactions db1)\<rparr>"
proof -
  have "distinct (change_slots (map fst (zip cs ps)))" using assms(5,6) by simp
  moreover have "owned E operation db c \<and> encodable E old" if "(c, old) \<in> set (zip cs ps)" for c old
    using that assms(7,8) set_zip_leftD [OF that] set_zip_rightD [OF that]
    by (auto simp: encodable_def)
  ultimately obtain db1 where "finish_all E operation healthy (zip cs ps) db = (Inr (), db1)"
    "finished E healthy (zip cs ps) db db1"
    using finish_all_ok by blast
  with assms(1-5) show ?thesis
    by (auto simp: finish_def atomicS_def op_run bindS_step retS_def)
qed
lemma finished_elsewhere:
  assumes "finished E healthy pairs db db'" "pointer db' slot = Some row" "ar_pending row = Some i"
    and "\<forall>c \<in> fst ` set pairs. pointer db (t_slot (c_target c)) \<noteq> None"
  shows "slot \<notin> set (change_slots (map fst pairs)) \<and> pointer db slot = Some row"
proof (rule ccontr)
  assume neg: "\<not> ?thesis"
  with assms(1,2) have "slot \<in> set (change_slots (map fst pairs))" by (auto simp: finished_def)
  then obtain c old where c: "(c, old) \<in> set pairs" "slot = t_slot (c_target c)" by auto
  with assms(4) obtain r where "pointer db slot = Some r" by force
  with assms(1) c have "pointer db' slot = finished_row E healthy old r"
    by (fastforce simp: finished_def)
  with assms(2,3) show False by (auto simp: finished_row_def split: if_splits option.splits)
qed

text \<open>Both outcomes of \<open>finish\<close>: an operation that is no longer checking is only reported, one
  that is checking is completed or rolled back.\<close>

lemma finish_cases:
  assumes "ext_inv E db" "journal db operation = Some x"
  shows "(x_state x \<noteq> ''checking'' \<and>
      finish E operation healthy db = (Inr \<lparr>r_operation_id = operation, r_state = x_state x\<rparr>, db)) \<or>
    (x_state x = ''checking'' \<and>
      (\<exists>cs ps db1 db'. decode_changes E (x_after x) = Some cs \<and> decode_before E (x_before x) = Some ps \<and>
        length ps = length cs \<and> distinct (change_slots cs) \<and> (\<forall>c \<in> set cs. owned E operation db c) \<and>
        (\<forall>a. Some a \<in> set ps \<longrightarrow> encode_target E (a_target a) \<noteq> None) \<and>
        finish E operation healthy db =
          (Inr \<lparr>r_operation_id = operation, r_state = finish_state healthy\<rparr>, db') \<and>
        finished E healthy (zip cs ps) db db1 \<and>
        db' = db1\<lparr>extension_transactions :=
          tbl_update (\<lambda>r. x_id r = operation) (\<lambda>r. r\<lparr>x_state := finish_state healthy\<rparr>)
            (extension_transactions db1)\<rparr>))"
proof (cases "x_state x = ''checking''")
  case True
  from journal_id [OF assms(2)] have "x_id x = operation" .
  moreover from assms True have "tx_ok E db x" unfolding ext_inv_def by blast
  ultimately obtain cs ps where ok: "decode_changes E (x_after x) = Some cs"
    "decode_before E (x_before x) = Some ps" "length ps = length cs" "distinct (change_slots cs)"
    "\<forall>c \<in> set cs. owned E operation db c"
    "\<forall>a. Some a \<in> set ps \<longrightarrow> encode_target E (a_target a) \<noteq> None"
    unfolding tx_ok_def by blast
  from finish_checking [OF assms(2) True ok] ok True show ?thesis by blast
next
  case False
  with assms(2) show ?thesis by (simp add: finish_def atomicS_def op_run retS_def)
qed

lemma finish_state_not_checking [simp]: "finish_state healthy \<noteq> ''checking''"
  by (simp add: finish_state_def)

lemma x_state_update_self [simp]: "(x\<lparr>x_state := v\<rparr> = x) = (x_state (x :: tx_row) = v)"
  by (cases x) auto

lemma journal_finished:
  "tbl_get x_id i (tbl_update (\<lambda>r. x_id r = operation) (\<lambda>r. r\<lparr>x_state := st\<rparr>) t) =
     map_option (\<lambda>r. if x_id r = operation then r\<lparr>x_state := st\<rparr> else r) (tbl_get x_id i t)"
  by (simp add: tbl_get_update)

lemma ext_inv_finish:
  assumes "serde_ok E" "ext_inv E db" "finish E operation healthy db = (r, db')"
  shows "ext_inv E db'"
proof (cases "journal db operation")
  case None
  with assms(2,3) show ?thesis by (auto simp: finish_def atomicS_def op_run)
next
  case (Some x)
  consider "db' = db" | cs ps db1 where "x_state x = ''checking''"
      "decode_changes E (x_after x) = Some cs" "length ps = length cs"
      "\<forall>c \<in> set cs. owned E operation db c" "distinct (change_slots cs)"
      "\<forall>a. Some a \<in> set ps \<longrightarrow> encode_target E (a_target a) \<noteq> None"
      "finished E healthy (zip cs ps) db db1"
      "db' = db1\<lparr>extension_transactions :=
          tbl_update (\<lambda>r. x_id r = operation) (\<lambda>r. r\<lparr>x_state := finish_state healthy\<rparr>)
            (extension_transactions db1)\<rparr>"
    using finish_cases [OF assms(2) Some, of healthy] assms(3) by force
  then show ?thesis
  proof cases
    case 1
    with assms(2) show ?thesis by simp
  next
    case (2 cs ps db1)
    note fin = 2(7)
    have ptr: "pointer db' slot = pointer db1 slot" for slot by (simp add: 2(8))
    have jrn: "journal db' i = map_option (\<lambda>r. if x_id r = operation then
        r\<lparr>x_state := finish_state healthy\<rparr> else r) (journal db i)" for i
      using fin by (simp add: 2(8) journal_finished finished_def)
    have slots: "map fst (zip cs ps) = cs" using 2(3) by simp
    have there: "\<forall>c \<in> fst ` set (zip cs ps). pointer db (t_slot (c_target c)) \<noteq> None"
    proof -
      have "fst ` set (zip cs ps) = set cs" using slots by (metis set_map)
      moreover have "pointer db (t_slot (c_target c)) \<noteq> None" if "c \<in> set cs" for c
        using bspec [OF 2(4) that] unfolding owned_def by auto
      ultimately show ?thesis by auto
    qed
    have "text_ok E (ar_target row)" if row: "pointer db' slot = Some row" for slot row
    proof (cases "slot \<in> set (change_slots cs)")
      case True
      then obtain c old where c: "(c, old) \<in> set (zip cs ps)" "slot = t_slot (c_target c)"
        using 2(3) by (metis (no_types, lifting) in_set_impl_in_set_zip1 in_set_conv_nth length_map nth_map)
      then obtain r where r: "pointer db slot = Some r" using there by force
      with fin c row ptr have "finished_row E healthy old r = Some row" by (fastforce simp: finished_def)
      moreover have "text_ok E (ar_target r)" using r assms(2) by (auto simp: ext_inv_def)
      ultimately show ?thesis using 2(6) set_zip_rightD [OF c(1)]
        by (auto simp: finished_row_def text_ok_def split: if_splits option.splits)
    next
      case False
      with fin row ptr slots have "pointer db slot = Some row" by (simp add: finished_def)
      with assms(2) show ?thesis by (auto simp: ext_inv_def)
    qed
    moreover have "tbl_unique ar_slot (extension_active db')"
      "tbl_unique x_id (extension_transactions db')"
      using fin assms(2) by (auto simp: 2(8) finished_def ext_inv_def tbl_unique_update)
    moreover have "tx_ok E db' y" if y: "journal db' i = Some y" "x_state y = ''checking''" for i y
    proof -
      from y(1) jrn obtain r where r: "journal db i = Some r"
        "y = (if x_id r = operation then r\<lparr>x_state := finish_state healthy\<rparr> else r)" by auto
      with y(2) have yi: "i \<noteq> operation" "journal db i = Some y" "x_id y = i"
        by (auto split: if_splits dest: journal_id)
      with y assms(2) have ok: "tx_ok E db y" by (auto simp: ext_inv_def)
      have "owned E i db' c" if "owned E i db c" for c
      proof -
        have "t_slot (c_target c) \<notin> set (change_slots cs)"
          using that 2(4) yi(1) by (force simp: owned_def)
        with that fin slots ptr show ?thesis by (auto simp: owned_def finished_def)
      qed
      with ok yi(3) show ?thesis unfolding tx_ok_def by blast
    qed
    moreover have "\<exists>y ds. journal db' i = Some y \<and> x_state y = ''checking'' \<and>
        decode_changes E (x_after y) = Some ds \<and> slot \<in> set (change_slots ds)"
      if row: "pointer db' slot = Some row" "ar_pending row = Some i" for slot row i
    proof -
      from finished_elsewhere [OF fin _ row(2) there] row(1) ptr slots
      have old: "slot \<notin> set (change_slots cs)" "pointer db slot = Some row" by auto
      with assms(2) row(2) obtain y ds where y: "journal db i = Some y" "x_state y = ''checking''"
        "decode_changes E (x_after y) = Some ds" "slot \<in> set (change_slots ds)"
        unfolding ext_inv_def by blast
      with old(1) Some 2(2) have "i \<noteq> operation" by auto
      with y jrn journal_id [OF y(1)] show ?thesis by auto
    qed
    ultimately show ?thesis unfolding ext_inv_def by blast
  qed
qed
lemma uninstall_Inr:
  assumes "uninstall E operation slot expected db = (Inr rcpt, db')"
  shows "(db' = db \<and> (\<exists>row. tbl_get u_id operation (extension_uninstalls db) = Some row \<and>
            u_slot row = slot \<and> u_expected row = expected \<and>
            rcpt = \<lparr>r_operation_id = operation, r_state = u_state row\<rparr>)) \<or>
     (tbl_get u_id operation (extension_uninstalls db) = None \<and>
      rcpt = \<lparr>r_operation_id = operation, r_state = ''complete''\<rparr> \<and>
      (\<exists>row. pointer db slot = Some row \<and> ar_pending row = None \<and> ar_revision row = expected) \<and>
      db' = db\<lparr>extension_uninstalls := extension_uninstalls db @
                [\<lparr>u_id = operation, u_slot = slot, u_expected = expected, u_state = ''complete''\<rparr>],
              extension_active := tbl_drop_key ar_slot slot (extension_active db)\<rparr>)"
proof (cases "tbl_get u_id operation (extension_uninstalls db)")
  case (Some row)
  with assms show ?thesis
    by (auto simp: uninstall_def uninstall_tx_def bindS_Inr_iff atomicS_Inr_iff)
next
  case None
  with assms show ?thesis
    by (auto simp: uninstall_def uninstall_tx_def bindS_Inr_iff atomicS_Inr_iff bindR_Inr_iff
          active_at_Inr_iff split: option.splits)
qed

lemma uninstall_Inl: "uninstall E operation slot expected db = (Inl e, db') \<Longrightarrow> db' = db"
  by (auto simp: uninstall_def bindS_Inl_iff atomicS_Inl_iff)

lemma ext_inv_uninstall:
  assumes "ext_inv E db" "uninstall E operation slot expected db = (r, db')"
  shows "ext_inv E db'"
proof -
  have "ext_inv E db'" if row: "pointer db slot = Some row" "ar_pending row = None"
    and act: "extension_active db' = tbl_drop_key ar_slot slot (extension_active db)"
    and txs: "extension_transactions db' = extension_transactions db" for row
  proof -
    have ptr: "pointer db' s = (if s = slot then None else pointer db s)" for s
      by (simp add: act tbl_get_drop_key)
    have "owned E i db' c" if "owned E i db c" for i c
      using that row unfolding owned_def ptr by (metis option.inject option.distinct(1))
    then have "tx_ok E db' x" if "tx_ok E db x" for x
      using that unfolding tx_ok_def by blast
    moreover have "tbl_unique ar_slot (extension_active db')"
      using assms(1) by (simp add: act tbl_drop_key_def tbl_unique_delete ext_inv_def)
    ultimately show ?thesis
      using assms(1) unfolding ext_inv_def ptr txs by (auto split: if_splits)
  qed
  then show ?thesis
    using assms uninstall_Inr [of E operation slot expected db] uninstall_Inl
    by (cases r) fastforce+
qed

section \<open>Runs of the store\<close>

datatype ext_event =
    EvSwitch checkpoint string "change list"
  | EvFinish string bool
  | EvRecover
  | EvUninstall string string string

definition ext_step :: "ext_env \<Rightarrow> ext_event \<Rightarrow> ext_db \<Rightarrow> ext_db" where
  "ext_step E ev db = (case ev of
     EvSwitch cp operation cs \<Rightarrow> snd (switch_inner E cp operation cs db)
   | EvFinish operation healthy \<Rightarrow> snd (finish E operation healthy db)
   | EvRecover \<Rightarrow> snd (recover E db)
   | EvUninstall operation slot expected \<Rightarrow> snd (uninstall E operation slot expected db))"

lemma finish_each_keeps:
  "serde_ok E \<Longrightarrow> ext_inv E db \<Longrightarrow> ext_inv E (snd (finish_each E is db))"
proof (induction "is" arbitrary: db)
  case Nil
  then show ?case by (simp add: retS_def)
next
  case (Cons i "is")
  obtain r db1 where fin: "finish E i False db = (r, db1)" by (cases "finish E i False db")
  with ext_inv_finish Cons.prems have "ext_inv E db1" by blast
  with Cons.IH Cons.prems(1) fin show ?case by (cases r) (auto simp: bindS_def)
qed

lemma recover_state: "snd (recover E db) = snd (finish_each E (checking_ids db) db)"
  by (auto simp: recover_def op_run bindS_def retS_def split: prod.splits sum.splits)

lemma ext_step_keeps: "serde_ok E \<Longrightarrow> ext_inv E db \<Longrightarrow> ext_inv E (ext_step E ev db)"
proof (cases ev)
  case (EvSwitch cp operation cs)
  moreover obtain r db' where "switch_inner E cp operation cs db = (r, db')"
    by (cases "switch_inner E cp operation cs db")
  moreover assume "serde_ok E" "ext_inv E db"
  ultimately show ?thesis
    using switch_inner_outcome [of E cp operation cs db r db'] ext_inv_commits by (auto simp: ext_step_def)
next
  case (EvFinish operation healthy)
  assume "serde_ok E" "ext_inv E db"
  with EvFinish show ?thesis by (auto simp: ext_step_def intro: ext_inv_finish prod.collapse [symmetric])
next
  case EvRecover
  assume "serde_ok E" "ext_inv E db"
  with EvRecover show ?thesis by (simp add: ext_step_def recover_state finish_each_keeps)
next
  case (EvUninstall operation slot expected)
  assume "ext_inv E db"
  with EvUninstall show ?thesis
    by (auto simp: ext_step_def intro: ext_inv_uninstall prod.collapse [symmetric])
qed

interpretation ext_store: invariant_component
  "\<lambda>db. serde_ok E \<longrightarrow> ext_inv E db" "ext_step E" for E
  by unfold_locales (auto intro: ext_step_keeps)
section \<open>Ledgers\<close>

definition switch_accepted :: "ext_env \<Rightarrow> string \<Rightarrow> change list \<Rightarrow> bool" where
  "switch_accepted E operation cs \<longleftrightarrow>
     uuid_parse E operation \<noteq> None \<and> cs \<noteq> [] \<and> length cs \<le> 200 \<and>
     (\<exists>t. encode_changes E cs = Some t \<and> length t \<le> 4 * 1024 * 1024)"

definition switch_ledger :: "ext_db \<Rightarrow> string \<Rightarrow> (string option \<times> string) option" where
  "switch_ledger db i = map_option (\<lambda>x. (Some (x_fingerprint x), x_state x)) (journal db i)"

definition switch_fingerprint :: "ext_env \<Rightarrow> change list \<Rightarrow> string option" where
  "switch_fingerprint E cs = map_option (sha256 E) (encode_changes E cs)"

definition ext_receipt :: "string \<Rightarrow> string \<Rightarrow> receipt" where
  "ext_receipt i st = \<lparr>r_operation_id = i, r_state = st\<rparr>"

interpretation switch_ops: operation_ledger
  "switch E" switch_ledger "switch_fingerprint E" "switch_accepted E" ext_receipt
  "''OPERATION_REUSED''" for E
proof unfold_locales
  fix i p s st
  assume "switch_accepted E i p" "switch_ledger s i = Some (switch_fingerprint E p, st)"
  then show "switch E i p s = (Inr (ext_receipt i st), s)"
    by (auto simp: switch_accepted_def switch_ledger_def switch_fingerprint_def switch_def
          switch_inner_def switch_tx_def op_run bindS_def atomicS_def ext_receipt_def)
next
  fix i p s f st
  assume "switch_accepted E i p" "switch_ledger s i = Some (f, st)" "f \<noteq> switch_fingerprint E p"
  then show "switch E i p s = (Err ''OPERATION_REUSED'', s)"
    by (auto simp: switch_accepted_def switch_ledger_def switch_fingerprint_def switch_def
          switch_inner_def switch_tx_def op_run bindS_def atomicS_def require_def)
next
  fix i p s r t
  assume sw: "switch E i p s = (Inr r, t)"
  have "switch_accepted E i p"
    using sw by (auto simp: switch_accepted_def switch_def switch_inner_def bindS_Inr_iff)
  moreover have "\<exists>st. switch_ledger t i = Some (switch_fingerprint E p, st) \<and> r = ext_receipt i st"
    using switch_Inr [OF sw] journal_commits [of E i p s t i]
    by (auto simp: switch_ledger_def switch_fingerprint_def ext_receipt_def)
  ultimately show "switch_accepted E i p \<and>
      (\<exists>st. switch_ledger t i = Some (switch_fingerprint E p, st) \<and> r = ext_receipt i st)" by blast
qed

definition uninstall_ledger :: "ext_db \<Rightarrow> string \<Rightarrow> ((string \<times> string) \<times> string) option" where
  "uninstall_ledger db i =
     map_option (\<lambda>u. ((u_slot u, u_expected u), u_state u)) (tbl_get u_id i (extension_uninstalls db))"

definition uninstall_accepted :: "ext_env \<Rightarrow> string \<Rightarrow> string \<times> string \<Rightarrow> bool" where
  "uninstall_accepted E i p \<longleftrightarrow> uuid_parse E i \<noteq> None \<and> is_sha256_hex (fst p) \<and> is_sha256_hex (snd p)"

interpretation uninstall_ops: operation_ledger
  "\<lambda>i p. uninstall E i (fst p) (snd p)" uninstall_ledger "\<lambda>p. p" "uninstall_accepted E" ext_receipt
  "''OPERATION_REUSED''" for E
proof unfold_locales
  fix i p s st
  assume "uninstall_accepted E i p" "uninstall_ledger s i = Some (p, st)"
  then show "uninstall E i (fst p) (snd p) s = (Inr (ext_receipt i st), s)"
    by (auto simp: uninstall_accepted_def uninstall_ledger_def uninstall_def uninstall_tx_def op_run
          atomicS_def ext_receipt_def)
next
  fix i p s f st
  assume "uninstall_accepted E i p" "uninstall_ledger s i = Some (f, st)" "f \<noteq> p"
  then show "uninstall E i (fst p) (snd p) s = (Err ''OPERATION_REUSED'', s)"
    by (auto simp: uninstall_accepted_def uninstall_ledger_def uninstall_def uninstall_tx_def op_run
          atomicS_def require_def prod_eq_iff)
next
  fix i p s r t
  assume un: "uninstall E i (fst p) (snd p) s = (Inr r, t)"
  have "uninstall_accepted E i p"
    using un by (auto simp: uninstall_accepted_def uninstall_def bindS_Inr_iff)
  moreover have "\<exists>st. uninstall_ledger t i = Some (p, st) \<and> r = ext_receipt i st"
    using uninstall_Inr [OF un]
    by (auto simp: uninstall_ledger_def ext_receipt_def tbl_get_append tbl_get_Cons)
  ultimately show "uninstall_accepted E i p \<and>
      (\<exists>st. uninstall_ledger t i = Some (p, st) \<and> r = ext_receipt i st)" by blast
qed

section \<open>Recovery\<close>

lemma checking_ids_iff:
  "tbl_unique x_id (extension_transactions db) \<Longrightarrow>
   i \<in> set (checking_ids db) \<longleftrightarrow> (\<exists>x. journal db i = Some x \<and> x_state x = ''checking'')"
  by (auto simp: checking_ids_def dest: tbl_unique_get tbl_get_SomeD)

lemma checking_ids_Nil_iff:
  "tbl_unique x_id (extension_transactions db) \<Longrightarrow>
   checking_ids db = [] \<longleftrightarrow> (\<forall>i x. journal db i = Some x \<longrightarrow> x_state x \<noteq> ''checking'')"
  using checking_ids_iff [of db] by (metis list.set_intros(1) neq_Nil_conv empty_iff empty_set)

lemma finish_journal:
  assumes "ext_inv E db" "journal db i = Some x" "finish E i healthy db = (r, db')"
  shows "r = Inr (ext_receipt i (if x_state x = ''checking'' then finish_state healthy else x_state x))"
    and "journal db' j = map_option (\<lambda>y. if j = i \<and> x_state y = ''checking''
           then y\<lparr>x_state := finish_state healthy\<rparr> else y) (journal db j)"
proof -
  have id: "x_id x = i" by (rule journal_id [OF assms(2)])
  note cases = finish_cases [OF assms(1,2), of healthy]
  from cases assms(3) show "r = Inr (ext_receipt i
      (if x_state x = ''checking'' then finish_state healthy else x_state x))"
    by (auto simp: ext_receipt_def)
  from cases assms(3) show "journal db' j = map_option (\<lambda>y. if j = i \<and> x_state y = ''checking''
           then y\<lparr>x_state := finish_state healthy\<rparr> else y) (journal db j)"
  proof (elim disjE conjE exE)
    assume "x_state x \<noteq> ''checking''"
      and "finish E i healthy db = (Inr \<lparr>r_operation_id = i, r_state = x_state x\<rparr>, db)"
    with assms(2,3) show ?thesis by (cases "journal db j") auto
  next
    fix cs ps db1 db2
    assume "x_state x = ''checking''" "finished E healthy (zip cs ps) db db1"
      and "finish E i healthy db = (Inr \<lparr>r_operation_id = i, r_state = finish_state healthy\<rparr>, db2)"
      and "db2 = db1\<lparr>extension_transactions :=
          tbl_update (\<lambda>r. x_id r = i) (\<lambda>r. r\<lparr>x_state := finish_state healthy\<rparr>)
            (extension_transactions db1)\<rparr>"
    then have tx: "extension_transactions db' = tbl_update (\<lambda>r. x_id r = i)
        (\<lambda>r. r\<lparr>x_state := finish_state healthy\<rparr>) (extension_transactions db)"
      using assms(3) by (auto simp: finished_def)
    show ?thesis
    proof (cases "journal db j")
      case (Some a)
      with journal_id [OF Some] \<open>x_state x = _\<close> assms(2) show ?thesis
        by (auto simp: tx journal_finished)
    qed (simp add: tx journal_finished)
  qed
qed

lemma finish_each_ok:
  "serde_ok E \<Longrightarrow> ext_inv E db \<Longrightarrow> (\<And>i. i \<in> set is \<Longrightarrow> journal db i \<noteq> None) \<Longrightarrow>
   \<exists>db'. finish_each E is db = (Inr (), db') \<and> ext_inv E db' \<and>
     (\<forall>j. journal db' j = map_option (\<lambda>y. if j \<in> set is \<and> x_state y = ''checking''
        then y\<lparr>x_state := ''rolled_back''\<rparr> else y) (journal db j))"
proof (induction "is" arbitrary: db)
  case Nil
  then show ?case by (auto simp: retS_def option.map_ident)
next
  case (Cons i "is")
  from Cons.prems(3) obtain x where x: "journal db i = Some x" by force
  obtain r db1 where fin: "finish E i False db = (r, db1)" by (cases "finish E i False db")
  note J = finish_journal [OF Cons.prems(2) x fin]
  have inv1: "ext_inv E db1" using ext_inv_finish [OF Cons.prems(1,2) fin] .
  have "journal db1 j \<noteq> None" if "j \<in> set is" for j
    using Cons.prems(3) [of j] that by (auto simp: J(2))
  from Cons.IH [OF Cons.prems(1) inv1 this] obtain db' where
    rest: "finish_each E is db1 = (Inr (), db')" "ext_inv E db'" and
    j: "\<And>j. journal db' j = map_option (\<lambda>y. if j \<in> set is \<and> x_state y = ''checking''
        then y\<lparr>x_state := ''rolled_back''\<rparr> else y) (journal db1 j)" by blast
  have "journal db' j = map_option (\<lambda>y. if j \<in> set (i # is) \<and> x_state y = ''checking''
        then y\<lparr>x_state := ''rolled_back''\<rparr> else y) (journal db j)" for j
    unfolding j J(2) by (cases "journal db j") (auto simp: finish_state_def)
  with fin J(1) rest show ?case by (auto simp: bindS_step)
qed
text \<open>Putting a committed switch back restores every pointer of its group, text and revision included,
  in every later state that still has its journal row and its pointers.\<close>

lemma finish_false_restores:
  assumes "serde_ok E" "ext_inv E db" and com: "commits E operation cs db db1"
    and "ext_inv E cur" "journal cur operation = journal db1 operation"
    and kept: "\<And>slot. slot \<in> set (change_slots cs) \<Longrightarrow> pointer cur slot = pointer db1 slot"
  shows "\<exists>db2. finish E operation False cur = (Inr (ext_receipt operation ''rolled_back''), db2) \<and>
     (\<forall>slot. pointer db2 slot = (if slot \<in> set (change_slots cs) then pointer db slot else pointer cur slot))"
proof -
  from com obtain t b ps where enc: "encode_changes E cs = Some t" "encode_before E ps = Some b"
    and chk: "check_changes E db [] cs = Inr ps" and j0: "journal db operation = None"
    and txs: "extension_transactions db1 = extension_transactions db @
          [\<lparr>x_id = operation, x_fingerprint = sha256 E t, x_before = b, x_after = t,
            x_state = ''checking''\<rparr>]"
    and sw: "switched E operation cs db db1"
    by (auto simp: commits_def)
  note chk' = check_changes_Inr [OF chk]
  let ?x = "\<lparr>x_id = operation, x_fingerprint = sha256 E t, x_before = b, x_after = t,
            x_state = ''checking''\<rparr>"
  have jx: "journal cur operation = Some ?x"
    using j0 assms(5) by (simp add: txs tbl_get_append tbl_get_Cons)
  have dec: "decode_changes E t = Some cs" "decode_before E b = Some ps"
    using assms(1) enc by (auto intro: serde_changes serde_before)
  from finish_cases [OF assms(4) jx, of False] dec
  obtain db2 db3 where fin: "finish E operation False cur =
        (Inr \<lparr>r_operation_id = operation, r_state = finish_state False\<rparr>, db3)"
    "finished E False (zip cs ps) cur db2" "extension_active db3 = extension_active db2"
    by force
  have "pointer db2 slot = (if slot \<in> set (change_slots cs) then pointer db slot else pointer cur slot)" for slot
  proof (cases "slot \<in> set (change_slots cs)")
    case True
    then obtain k where k: "k < length cs" "slot = t_slot (c_target (cs ! k))"
      by (auto simp: in_set_conv_nth)
    let ?c = "cs ! k"
    from k chk' have cb: "checked_before E db ?c (ps ! k)" and len: "length ps = length cs"
      by (auto simp: list_all2_nthD list_all2_lengthD)
    from switched_new [OF sw nth_mem [OF k(1)]] k(2) kept [OF True]
    obtain u where row: "pointer cur slot = Some (pointer_row E operation ?c u)" by auto
    from k len have "(?c, ps ! k) \<in> set (zip cs ps)" by (auto simp: in_set_zip)
    with fin(2) row k(2) have p2: "pointer db2 slot = finished_row E False (ps ! k) (pointer_row E operation ?c u)"
      by (auto simp: finished_def)
    have "pointer db2 slot = pointer db slot"
    proof (cases "pointer db slot")
      case None
      with cb k(2) p2 show ?thesis by (auto simp: checked_before_def active_at_Inr_iff finished_row_def)
    next
      case (Some r)
      with cb k(2) obtain v where v: "decode_target E (ar_target r) = Some v"
        "ps ! k = Some \<lparr>a_target = v, a_revision = ar_revision r, a_pending_operation = ar_pending r\<rparr>"
        "ar_pending r = None"
        by (auto simp: checked_before_def active_at_Inr_iff)
      have "text_ok E (ar_target r)" using assms(2) Some by (auto simp: ext_inv_def)
      from text_ok_recode [OF assms(1) this v(1)] v(2,3) p2 Some tbl_get_SomeD [OF Some] k(2)
      show ?thesis by (auto simp: finished_row_def pointer_row_def)
    qed
    then show ?thesis using True by simp
  next
    case False
    have "map fst (zip cs ps) = cs" using chk' by (auto intro: map_fst_zip dest: list_all2_lengthD)
    with finished_other [OF fin(2), of slot] False show ?thesis by simp
  qed
  with fin show ?thesis by (auto simp: ext_receipt_def finish_state_def)
qed

text \<open>Finishing an operation only touches the pointers that are pending for it.\<close>

abbreviation unpended :: "ext_db \<Rightarrow> string \<Rightarrow> bool" where
  "unpended db slot \<equiv> (\<forall>row. pointer db slot = Some row \<longrightarrow> ar_pending row = None)"

lemma finish_touches:
  assumes "ext_inv E db" "finish E i healthy db = (r, db')"
    and "\<And>row. pointer db slot = Some row \<Longrightarrow> ar_pending row \<noteq> Some i"
  shows "pointer db' slot = pointer db slot"
proof (cases "journal db i")
  case None
  then show ?thesis using assms(2) by (auto simp: finish_def atomicS_def op_run)
next
  case (Some x)
  from finish_cases [OF assms(1) Some, of healthy] show ?thesis
  proof (elim disjE conjE exE)
    assume "finish E i healthy db = (Inr \<lparr>r_operation_id = i, r_state = x_state x\<rparr>, db)"
    then show ?thesis using assms(2) by simp
  next
    fix cs ps db1 db2
    assume fin: "finish E i healthy db = (Inr \<lparr>r_operation_id = i, r_state = finish_state healthy\<rparr>, db2)"
        "finished E healthy (zip cs ps) db db1" "length ps = length cs" "\<forall>c \<in> set cs. owned E i db c"
      and db2: "db2 = db1\<lparr>extension_transactions :=
          tbl_update (\<lambda>r. x_id r = i) (\<lambda>r. r\<lparr>x_state := finish_state healthy\<rparr>) (extension_transactions db1)\<rparr>"
    have "slot \<notin> set (change_slots cs)" using fin(4) assms(3) by (auto simp: owned_def)
    moreover have "map fst (zip cs ps) = cs" using fin(3) by simp
    ultimately have "pointer db1 slot = pointer db slot" using finished_other [OF fin(2), of slot] by simp
    then show ?thesis using assms(2) fin(1) unfolding db2 by auto
  qed
qed

lemma finish_each_untouched:
  "serde_ok E \<Longrightarrow> ext_inv E db \<Longrightarrow> unpended db slot \<Longrightarrow> finish_each E is db = (r, db') \<Longrightarrow> pointer db' slot = pointer db slot"
proof (induction "is" arbitrary: db)
  case (Cons i "is")
  obtain q db1 where fin: "finish E i False db = (q, db1)" by (cases "finish E i False db")
  have same: "pointer db1 slot = pointer db slot"
    by (rule finish_touches [OF Cons.prems(2) fin]) (use Cons.prems(3) in auto)
  have "ext_inv E db1" using ext_inv_finish [OF Cons.prems(1,2) fin] .
  then show ?case using Cons.IH [of db1] Cons.prems(1,3,4) fin same by (cases q) (auto simp: bindS_def)
qed (simp add: retS_def)

text \<open>While the operations are finished one after the other, the group of a committed switch is as the
  switch left it until its own turn, and as it was before the switch from then on.\<close>

lemma finish_each_restores:
  assumes "serde_ok E" "ext_inv E db" and com: "commits E operation cs db db1"
  shows "finish_each E is cur = (Inr u, db') \<Longrightarrow> ext_inv E cur \<Longrightarrow> operation \<in> set is \<Longrightarrow>
    journal cur operation = journal db1 operation \<Longrightarrow> (\<And>slot. unpended db slot \<Longrightarrow> pointer cur slot = pointer db1 slot) \<Longrightarrow>
    unpended db slot \<Longrightarrow> pointer db' slot = pointer db slot"
proof (induction "is" arbitrary: cur)
  case (Cons i "is")
  obtain q cur1 where fin: "finish E i False cur = (q, cur1)" by (cases "finish E i False cur")
  then have rest: "finish_each E is cur1 = (Inr u, db')" using Cons.prems(1) by (cases q) (auto simp: bindS_def)
  have inv1: "ext_inv E cur1" using ext_inv_finish [OF assms(1) Cons.prems(2) fin] .
  from com have sw: "switched E operation cs db db1" by (auto simp: commits_def)
  have group: "unpended db s" if "s \<in> set (change_slots cs)" for s
    using commits_unpended [OF com] that by auto
  show ?case
  proof (cases "i = operation")
    case True
    obtain cur2 where "finish E operation False cur = (Inr (ext_receipt operation ''rolled_back''), cur2)"
        and back': "\<And>s. pointer cur2 s = (if s \<in> set (change_slots cs) then pointer db s else pointer cur s)"
      using finish_false_restores [OF assms(1,2) com Cons.prems(2,4)] Cons.prems(5) group by blast
    then have "pointer cur1 slot = pointer db slot"
      using fin True Cons.prems(5) [OF Cons.prems(6)] sw by (simp add: switched_def)
    then show ?thesis using finish_each_untouched [OF assms(1) inv1 _ rest, of slot] Cons.prems(6) by simp
  next
    case False
    have "pointer cur1 s = pointer db1 s" if s: "unpended db s" for s
    proof -
      have "ar_pending row \<noteq> Some i" if "pointer cur s = Some row" for row
      proof (cases "s \<in> set (change_slots cs)")
        case True
        then obtain c where "c \<in> set cs" "s = t_slot (c_target c)" by auto
        then show ?thesis using switched_new [OF sw, of c] that Cons.prems(5) [OF s] \<open>i \<noteq> operation\<close> by (auto simp: pointer_row_def)
      next
        case False
        then show ?thesis using sw that Cons.prems(5) [OF s] s by (simp add: switched_def)
      qed
      then show ?thesis using finish_touches [OF Cons.prems(2) fin, of s] Cons.prems(5) [OF s] by simp
    qed
    moreover have "journal cur1 operation = journal db1 operation"
    proof (cases "journal cur i")
      case None
      then have "cur1 = cur" using fin by (auto simp: finish_def atomicS_def op_run)
      then show ?thesis using Cons.prems(4) by simp
    next
      case (Some x)
      then show ?thesis using finish_journal(2) [OF Cons.prems(2) Some fin, of operation] False Cons.prems(4)
        by (simp add: option.map_ident)
    qed
    ultimately show ?thesis using Cons.IH [OF rest inv1] Cons.prems(3,6) False by simp
  qed
qed simp

lemma recover_restores:
  assumes "serde_ok E" "ext_inv E db" and sw: "switch_inner E cp operation changes db = (r, db')"
  shows "\<exists>n db''. recover E db' = (Inr n, db'') \<and> n \<le> Suc (length (checking_ids db)) \<and> checking_ids db'' = [] \<and>
     (\<forall>slot. unpended db slot \<longrightarrow> pointer db'' slot = pointer db slot)"
proof -
  have inv': "ext_inv E db'"
    using switch_inner_outcome [OF sw] ext_inv_commits [OF assms(1,2)] assms(2) by blast
  have uniq: "tbl_unique x_id (extension_transactions db')" using inv' by (simp add: ext_inv_def)
  have known: "journal db' i \<noteq> None" if "i \<in> set (checking_ids db')" for i
    using that checking_ids_iff [OF uniq] by auto
  from finish_each_ok [OF assms(1) inv' known] obtain db'' where
      fe: "finish_each E (checking_ids db') db' = (Inr (), db'')" and inv'': "ext_inv E db''" and
      j: "\<And>j. journal db'' j = map_option (\<lambda>y. if j \<in> set (checking_ids db') \<and> x_state y = ''checking''
        then y\<lparr>x_state := ''rolled_back''\<rparr> else y) (journal db' j)" by blast
  have "x_state x \<noteq> ''checking''" if "journal db'' i = Some x" for i x
    using that j [of i] checking_ids_iff [OF uniq, of i] by (auto split: if_splits)
  then have none: "checking_ids db'' = []" using inv'' by (simp add: ext_inv_def checking_ids_Nil_iff)
  have "length (checking_ids db') \<le> Suc (length (checking_ids db)) \<and>
      (\<forall>slot. unpended db slot \<longrightarrow> pointer db'' slot = pointer db slot)"
    using switch_inner_outcome [OF sw]
  proof
    assume "db' = db"
    then show ?thesis using finish_each_untouched [OF assms(1,2) _ fe [unfolded \<open>db' = db\<close>]] by simp
  next
    assume com: "commits E operation changes db db'"
    then have "operation \<in> set (checking_ids db')"
      using journal_commits [OF com, of operation] checking_ids_iff [OF uniq] by auto
    moreover have "length (checking_ids db') = Suc (length (checking_ids db))"
      using com by (auto simp: commits_def checking_ids_def)
    ultimately show ?thesis using finish_each_restores [OF assms(1,2) com fe inv'] by simp
  qed
  then show ?thesis using fe none by (auto simp: recover_def op_run bindS_step retS_def)
qed

section \<open>Plain configurations\<close>

lemma plain_env_simps:
  "decode_target (plain_env E) = decode_target E" "decode_changes (plain_env E) = decode_changes E"
  "decode_before (plain_env E) = decode_before E" "sha256 (plain_env E) = sha256 E" "uuid_parse (plain_env E) = uuid_parse E"
  "encode_target (plain_env E) t = (if plain_target t then encode_target E t else None)"
  "encode_changes (plain_env E) cs = (if plain_changes cs then encode_changes E cs else None)"
  "encode_before (plain_env E) ps = (if plain_before ps then encode_before E ps else None)"
  by (simp_all add: plain_env_def)

lemma serde_plain: "serde_ok E \<Longrightarrow> serde_ok (plain_env E)"
  by (auto simp: serde_ok_def plain_env_simps split: if_splits)

lemma active_at_plain: "active_at (plain_env E) db slot = active_at E db slot"
  by (simp add: active_at_def plain_env_simps split: option.split)

lemma check_changes_plain: "check_changes (plain_env E) db slots cs = check_changes E db slots cs"
  by (induction cs arbitrary: slots) (simp_all add: check_change_def plain_env_simps active_at_plain)

lemma write_pointers_plain:
  "plain_changes cs \<Longrightarrow> write_pointers (plain_env E) cp operation n cs = write_pointers E cp operation n cs"
proof (induction cs arbitrary: n)
  case (Cons c cs)
  then have "plain_target (c_target c)" "plain_changes cs" by (simp_all add: plain_changes_def)
  then show ?case using Cons.IH by (simp add: plain_env_simps pointer_row_def)
qed simp

lemma before_plain:
  assumes "serde_ok (plain_env E)" "ext_inv (plain_env E) db" "check_changes E db [] cs = Inr ps"
  shows "plain_before ps"
proof -
  have all: "list_all2 (checked_before (plain_env E) db) cs ps"
    using check_changes_Inr [of "plain_env E" db "[]" cs ps] assms(3) by (simp add: check_changes_plain)
  have "plain_target (a_target a)" if "Some a \<in> set ps" for a
    using checked_before_encodable [OF assms(1,2) all that] by (simp add: plain_env_simps split: if_splits)
  then show ?thesis by (auto simp: plain_before_def list_all_iff split: option.split)
qed

lemma switch_tx_plain:
  assumes "serde_ok (plain_env E)" "ext_inv (plain_env E) db" "plain_changes cs"
  shows "switch_tx (plain_env E) cp operation cs serialized db = switch_tx E cp operation cs serialized db"
proof (cases "journal db operation")
  case None
  show ?thesis
  proof (cases "check_changes E db [] cs")
    case (Inr ps)
    then have "encode_before (plain_env E) ps = encode_before E ps"
      using before_plain [OF assms(1,2)] by (simp add: plain_env_simps)
    then show ?thesis
      using None Inr by (simp add: switch_tx_def bindS_def op_run check_changes_plain write_pointers_plain [OF assms(3)] plain_env_simps)
  qed (simp add: switch_tx_def bindS_def op_run check_changes_plain None)
qed (simp add: switch_tx_def bindS_def op_run plain_env_simps)

lemma switch_inner_plain:
  assumes "serde_ok (plain_env E)" "ext_inv (plain_env E) db" "plain_changes cs"
  shows "switch_inner (plain_env E) cp operation cs db = switch_inner E cp operation cs db"
proof -
  have "atomicS (switch_tx (plain_env E) cp operation cs t) db = atomicS (switch_tx E cp operation cs t) db" for t
    by (simp add: atomicS_def switch_tx_plain [OF assms])
  then show ?thesis using assms(3) by (simp add: switch_inner_def bindS_def op_run plain_env_simps split: option.split sum.split)
qed

text \<open>The targets an operation puts back were encoded before, so they are plain as well.\<close>

lemma finish_one_plain:
  assumes "\<And>a. old = Some a \<Longrightarrow> plain_target (a_target a)"
  shows "finish_one (plain_env E) operation healthy c old = finish_one E operation healthy c old"
  using assms by (cases old) (simp_all add: finish_one_def Let_def active_at_plain plain_env_simps)

lemma finish_all_plain:
  "(\<And>c a. (c, Some a) \<in> set pairs \<Longrightarrow> plain_target (a_target a)) \<Longrightarrow>
     finish_all (plain_env E) operation healthy pairs = finish_all E operation healthy pairs"
proof (induction pairs)
  case (Cons pr pairs)
  obtain c old where pr: "pr = (c, old)" by (cases pr)
  have "finish_one (plain_env E) operation healthy c old = finish_one E operation healthy c old"
    by (rule finish_one_plain) (use Cons.prems pr in auto)
  moreover have "finish_all (plain_env E) operation healthy pairs = finish_all E operation healthy pairs"
    by (rule Cons.IH) (use Cons.prems in auto)
  ultimately show ?case by (simp add: pr)
qed simp

lemma finish_plain:
  assumes "ext_inv (plain_env E) db"
  shows "finish (plain_env E) operation healthy db = finish E operation healthy db"
proof (cases "\<exists>x. journal db operation = Some x \<and> x_state x = ''checking''")
  case True
  then obtain x where x: "journal db operation = Some x" "x_state x = ''checking''" by blast
  then have "tx_ok (plain_env E) db x" using assms unfolding ext_inv_def by blast
  then obtain cs ps where ok: "decode_changes E (x_after x) = Some cs" "decode_before E (x_before x) = Some ps"
      "\<forall>a. Some a \<in> set ps \<longrightarrow> encode_target (plain_env E) (a_target a) \<noteq> None"
    unfolding tx_ok_def plain_env_simps by blast
  have "finish_all (plain_env E) operation healthy (zip cs ps) = finish_all E operation healthy (zip cs ps)"
    by (rule finish_all_plain) (use ok(3) in \<open>auto simp: plain_env_simps split: if_splits dest: set_zip_rightD\<close>)
  then show ?thesis using x ok(1,2) by (simp add: finish_def atomicS_def bindS_def op_run plain_env_simps)
next
  case False
  then show ?thesis
    by (cases "journal db operation") (simp_all add: finish_def atomicS_def bindS_def op_run)
qed

lemma recover_plain:
  assumes "serde_ok (plain_env E)" "ext_inv (plain_env E) db"
  shows "recover (plain_env E) db = recover E db"
proof -
  have "finish_each (plain_env E) is db = finish_each E is db" for "is"
    using assms(2)
  proof (induction "is" arbitrary: db)
    case (Cons i "is")
    obtain q db1 where fin: "finish E i False db = (q, db1)" by (cases "finish E i False db")
    have "ext_inv (plain_env E) db1"
      using ext_inv_finish [OF assms(1) Cons.prems] fin finish_plain [OF Cons.prems, of i False] by metis
    then show ?case using Cons.IH fin finish_plain [OF Cons.prems, of i False] by (simp add: bindS_def split: sum.split)
  qed simp
  then show ?thesis by (simp add: recover_def bindS_def op_run)
qed

text \<open>A store that only ever switched to plain targets satisfies its invariant in the plain environment.\<close>

definition plain_event :: "ext_event \<Rightarrow> bool" where
  "plain_event ev \<longleftrightarrow> (case ev of EvSwitch cp operation cs \<Rightarrow> plain_changes cs | _ \<Rightarrow> True)"

lemma uninstall_plain: "uninstall (plain_env E) operation slot expected = uninstall E operation slot expected"
  unfolding uninstall_def uninstall_tx_def active_at_plain plain_env_simps ..

lemma ext_step_plain:
  assumes "serde_ok (plain_env E)" "ext_inv (plain_env E) db" "plain_event ev"
  shows "ext_step (plain_env E) ev db = ext_step E ev db"
  using assms(3) switch_inner_plain [OF assms(1,2)] finish_plain [OF assms(2)] recover_plain [OF assms(1,2)]
  by (cases ev) (simp_all add: ext_step_def plain_event_def uninstall_plain)

lemma plain_runs:
  assumes "serde_ok (plain_env E)" "list_all plain_event events"
  shows "ext_inv (plain_env E) (fold (ext_step E) events schema)"
proof -
  have "ext_inv (plain_env E) (fold (ext_step E) evs db)" if "ext_inv (plain_env E) db" "list_all plain_event evs" for evs db
    using that
  proof (induction evs arbitrary: db)
    case (Cons ev evs)
    then have "ext_step (plain_env E) ev db = ext_step E ev db" using ext_step_plain [OF assms(1)] by simp
    then have "ext_inv (plain_env E) (ext_step E ev db)" using ext_step_keeps [OF assms(1) Cons.prems(1), of ev] by simp
    then show ?case using Cons by simp
  qed simp
  then show ?thesis using ext_inv_schema assms(2) by blast
qed

section \<open>Properties\<close>

text \<open>
  C1. Crash consistency of a pointer switch. Whatever checkpoint fails while a group of
  pointers is switched (before the journal entry, between two pointers, after the commit),
  running recovery afterwards succeeds, no operation is left pending, and every pointer that was
  not pending before the switch is again exactly the row it was, target text and revision
  included. A pointer that was pending belongs to another operation, which the recovery rolls back
  as well; if no operation was being checked, every pointer is what it was. The stored and
  the new targets are plain: their configurations have no floating-point number, which
  serde_json does not promise to read back exactly. By plain_runs every store that was only
  ever switched to plain targets is such a store.
\<close>

theorem switch_crash_recovers:
  assumes "serde_ok (plain_env E)" "ext_inv (plain_env E) db" "plain_changes changes"
    and "switch_inner E cp operation changes db = (r, db')"
  shows "\<exists>n db''. recover E db' = (Inr n, db'') \<and> n \<le> Suc (length (checking_ids db)) \<and> checking_ids db'' = [] \<and>
     (\<forall>slot. (\<forall>row. pointer db slot = Some row \<longrightarrow> ar_pending row = None) \<longrightarrow> pointer db'' slot = pointer db slot) \<and>
     (checking_ids db = [] \<longrightarrow> (\<forall>slot. pointer db'' slot = pointer db slot))"
proof -
  have sw: "switch_inner (plain_env E) cp operation changes db = (r, db')"
    using switch_inner_plain [OF assms(1,2,3)] assms(4) by simp
  have "ext_inv (plain_env E) db'"
    using switch_inner_outcome [OF sw] ext_inv_commits [OF assms(1,2)] assms(2) by blast
  then have "recover (plain_env E) db' = recover E db'" by (rule recover_plain [OF assms(1)])
  then obtain n db'' where rec: "recover E db' = (Inr n, db'')" "n \<le> Suc (length (checking_ids db))" "checking_ids db'' = []"
      "\<forall>slot. unpended db slot \<longrightarrow> pointer db'' slot = pointer db slot"
    using recover_restores [OF assms(1,2) sw] by auto
  have "unpended db slot" if "checking_ids db = []" for slot
  proof (intro allI impI)
    fix row assume row: "pointer db slot = Some row"
    have none: "x_state x \<noteq> ''checking''" if "journal db i = Some x" for i x
      using \<open>checking_ids db = []\<close> checking_ids_Nil_iff [of db] assms(2) that by (auto simp: ext_inv_def)
    show "ar_pending row = None"
      using assms(2) row none unfolding ext_inv_def by (cases "ar_pending row") blast+
  qed
  then show ?thesis using rec by blast
qed

text \<open>
  C3. A healthy probe publishes exactly the reviewed group: after the switch and a healthy
  finish every slot of the group holds the requested target under the revision of its text
  and is no longer pending, and no other pointer has changed. (For a fresh operation, and assuming
  that text decodes to the value it was written for, see serde_ok.)
\<close>

theorem healthy_finish_publishes:
  assumes "serde_ok E" "ext_inv E db" "journal db operation = None"
    and "switch E operation changes db = (Inr rcpt, db1)"
  shows "\<exists>db2. finish E operation True db1 = (Inr (ext_receipt operation ''complete''), db2) \<and>
     (\<forall>c \<in> set changes. \<exists>text. encode_target E (c_target c) = Some text \<and>
        active_at E db2 (t_slot (c_target c)) =
          Inr (Some \<lparr>a_target = c_target c, a_revision = sha256 E text, a_pending_operation = None\<rparr>)) \<and>
     (\<forall>slot. slot \<notin> set (change_slots changes) \<longrightarrow> pointer db2 slot = pointer db slot)"
proof -
  from switch_Inr [OF assms(4)] assms(3) have com: "commits E operation changes db db1" by auto
  then have sw: "switched E operation changes db db1" by (auto simp: commits_def)
  from journal_commits [OF com, of operation] obtain t b ps where
    enc: "encode_changes E changes = Some t" "encode_before E ps = Some b" and
    jx: "journal db1 operation = Some \<lparr>x_id = operation, x_fingerprint = sha256 E t, x_before = b,
      x_after = t, x_state = ''checking''\<rparr>" by auto
  have "decode_changes E t = Some changes" "decode_before E b = Some ps"
    using assms(1) enc by (auto intro: serde_changes serde_before)
  with finish_cases [OF ext_inv_commits [OF assms(1,2) com] jx, of True]
  obtain db2 db3 where len: "length ps = length changes" and
    fin: "finish E operation True db1 =
        (Inr \<lparr>r_operation_id = operation, r_state = finish_state True\<rparr>, db3)"
    "finished E True (zip changes ps) db1 db2" "extension_active db3 = extension_active db2"
    by force
  have slots: "map fst (zip changes ps) = changes" using len by simp
  have "\<exists>text. encode_target E (c_target c) = Some text \<and> active_at E db3 (t_slot (c_target c)) =
      Inr (Some \<lparr>a_target = c_target c, a_revision = sha256 E text, a_pending_operation = None\<rparr>)"
    if c: "c \<in> set changes" for c
  proof -
    from switched_new [OF sw c] obtain u where u: "encode_target E (c_target c) = Some u"
      "pointer db1 (t_slot (c_target c)) = Some (pointer_row E operation c u)" by blast
    from c len obtain old where "(c, old) \<in> set (zip changes ps)"
      by (metis in_set_impl_in_set_zip1)
    with fin(2) u(2) have "pointer db2 (t_slot (c_target c)) =
        finished_row E True old (pointer_row E operation c u)"
      by (fastforce simp: finished_def)
    then show ?thesis
      using u(1) serde_target [OF assms(1) u(1)] fin(3)
      by (auto simp: active_at_Inr_iff finished_row_def pointer_row_def)
  qed
  moreover have "pointer db3 slot = pointer db slot" if "slot \<notin> set (change_slots changes)" for slot
    using finished_other [OF fin(2)] that sw slots fin(3) by (simp add: switched_def)
  ultimately show ?thesis using fin(1) by (auto simp: ext_receipt_def finish_state_def)
qed

text \<open>
  C4. The store's invariant holds after every sequence of switches (with any checkpoint
  failures), finishes, recoveries and uninstalls from an empty store: slots and operation
  identifiers stay unique, every pending pointer belongs to one checking operation that owns
  all its slots, and stored targets are readable. (Assumes that text decodes to the value it was
  written for, see serde_ok.)
\<close>

theorem ext_store_invariant:
  assumes "serde_ok E"
  shows "ext_inv E (fold (ext_step E) events schema)"
  using ext_store.run_keeps [of E schema events] assms by (simp add: ext_inv_schema)

text \<open>
  C5. A caller that lost the answer may send the same switch again any number of times: each
  repetition returns the receipt of the first and changes nothing, while the same identifier
  with other changes is refused.
\<close>

theorem switch_retry_safe:
  assumes "switch E operation changes db = (Inr rcpt, db1)"
  shows "switch E operation changes db1 = (Inr rcpt, db1) \<and>
     ((\<lambda>d. snd (switch E operation changes d)) ^^ n) db1 = db1 \<and>
     (\<forall>other. switch_accepted E operation other \<longrightarrow>
        switch_fingerprint E other \<noteq> switch_fingerprint E changes \<longrightarrow>
        switch E operation other db1 = (Err ''OPERATION_REUSED'', db1))"
  using switch_ops.resubmit [OF assms] switch_ops.resubmit_many [OF assms]
    switch_ops.payload_fixed [OF assms] by blast

text \<open>
  C6. Uninstalling removes one pointer and only when it is the reviewed one: the slot must hold
  the expected revision and not be part of a pending switch. A refused uninstall changes
  nothing, and repeating an accepted one is harmless.
\<close>

theorem uninstall_removes_only_reviewed:
  assumes "uninstall E operation slot expected db = (r, db')"
  shows "(\<forall>e. r = Inl e \<longrightarrow> db' = db) \<and>
     (\<forall>rcpt. r = Inr rcpt \<longrightarrow>
        uninstall E operation slot expected db' = (Inr rcpt, db') \<and>
        (\<forall>other. other \<noteq> slot \<longrightarrow> pointer db' other = pointer db other) \<and>
        (tbl_get u_id operation (extension_uninstalls db) = None \<longrightarrow>
           pointer db' slot = None \<and>
           (\<exists>row. pointer db slot = Some row \<and> ar_revision row = expected \<and> ar_pending row = None)))"
proof (cases r)
  case (Inl e)
  with assms uninstall_Inl show ?thesis by auto
next
  case (Inr rcpt)
  with assms have un: "uninstall E operation slot expected db = (Inr rcpt, db')" by simp
  from uninstall_ops.resubmit [of E operation "(slot, expected)"] un
  have "uninstall E operation slot expected db' = (Inr rcpt, db')" by simp
  with uninstall_Inr [OF un] Inr show ?thesis by (auto simp: tbl_get_drop_key)
qed

section \<open>A concrete store\<close>

definition demo_slot :: string where "demo_slot = replicate 64 CHR ''a''"

definition demo_target :: target where
  "demo_target = \<lparr>t_slot = demo_slot, t_package_key = replicate 64 CHR ''b'', t_directory = ''dir'',
     t_tree_sha256 = replicate 64 CHR ''c'', t_configuration = JObj []\<rparr>"

definition demo_change :: change where
  "demo_change = \<lparr>c_target = demo_target, c_expected_revision = None\<rparr>"

definition demo_env :: ext_env where
  "demo_env = \<lparr>
     encode_target = (\<lambda>t. if t = demo_target then Some ''t'' else None),
     decode_target = (\<lambda>s. if s = ''t'' then Some demo_target else None),
     encode_changes = (\<lambda>cs. if cs = [demo_change] then Some ''c'' else None),
     decode_changes = (\<lambda>s. if s = ''c'' then Some [demo_change] else None),
     encode_before = (\<lambda>ps. if ps = [None] then Some ''b'' else None),
     decode_before = (\<lambda>s. if s = ''b'' then Some [None] else None),
     sha256 = (\<lambda>s. replicate 64 CHR ''d''), uuid_parse = Some\<rparr>"

definition demo_db :: ext_db where
  "demo_db = snd (switch demo_env ''op'' [demo_change] schema)"

lemma demo_serde: "serde_ok demo_env"
  by (simp add: serde_ok_def demo_env_def split: if_splits)

lemma demo_hex: "is_sha256_hex demo_slot" "is_sha256_hex (replicate 64 CHR ''b'')"
  "is_sha256_hex (replicate 64 CHR ''c'')" "is_sha256_hex (replicate 64 CHR ''d'')"
  by (simp_all add: ascii_defs demo_slot_def list_all_iff)

lemma demo_checks: "check_changes demo_env schema [] [demo_change] = Inr [None]"
  using demo_hex
  by (simp add: check_change_def demo_change_def demo_target_def demo_env_def active_at_def schema_def)

lemma demo_switch:
  "switch demo_env ''op'' [demo_change] schema = (Inr (ext_receipt ''op'' ''checking''), demo_db)"
proof -
  have "fst (switch demo_env ''op'' [demo_change] schema) = Inr (ext_receipt ''op'' ''checking'')"
    using demo_checks
    by (simp add: switch_def switch_inner_def switch_tx_def op_run bindS_def atomicS_def schema_def
          pass_def ext_receipt_def demo_env_def demo_change_def)
  then show ?thesis by (simp add: demo_db_def prod_eq_iff)
qed

lemma demo_plain: "plain_changes [demo_change]"
proof -
  have "(100 :: nat) = Suc 99" by simp
  then have "plain_json 100 (JObj [])" by (simp only: plain_json.simps) simp
  then show ?thesis by (simp add: plain_changes_def plain_target_def demo_change_def demo_target_def)
qed

theorem switch_crash_recovers_witness:
  "\<exists>n db''. recover demo_env demo_db = (Inr n, db'') \<and> checking_ids db'' = [] \<and>
     pointer db'' demo_slot = pointer schema demo_slot"
  using switch_crash_recovers [OF serde_plain [OF demo_serde] ext_inv_schema demo_plain demo_switch [unfolded switch_def]]
  by (auto simp: schema_def)



theorem healthy_finish_publishes_witness:
  "\<exists>db2. finish demo_env ''op'' True demo_db = (Inr (ext_receipt ''op'' ''complete''), db2) \<and>
     (\<forall>c \<in> set [demo_change]. \<exists>text. encode_target demo_env (c_target c) = Some text \<and>
        active_at demo_env db2 (t_slot (c_target c)) = Inr (Some \<lparr>a_target = c_target c,
          a_revision = sha256 demo_env text, a_pending_operation = None\<rparr>)) \<and>
     (\<forall>slot. slot \<notin> set (change_slots [demo_change]) \<longrightarrow> pointer db2 slot = pointer schema slot)"
  by (rule healthy_finish_publishes [OF demo_serde ext_inv_schema _ demo_switch])
     (simp add: schema_def)

theorem ext_store_invariant_witness:
  "ext_inv demo_env (fold (ext_step demo_env)
     [EvSwitch (\<lambda>_ _. None) ''op'' [demo_change], EvRecover] schema)"
  by (rule ext_store_invariant [OF demo_serde])

theorem switch_retry_safe_witness:
  "switch demo_env ''op'' [demo_change] demo_db = (Inr (ext_receipt ''op'' ''checking''), demo_db)"
  using switch_retry_safe [OF demo_switch] by blast

theorem uninstall_removes_only_reviewed_witness:
  "snd (uninstall demo_env ''un'' demo_slot (replicate 64 CHR ''d'') demo_db) = demo_db \<and>
   fst (uninstall demo_env ''un'' demo_slot (replicate 64 CHR ''d'') demo_db) =
     Err ''EXTENSION_INSTALL_CONFLICT''"
proof -
  have "commits demo_env ''op'' [demo_change] schema demo_db"
    using switch_Inr [OF demo_switch] by (auto simp: schema_def)
  then have "switched demo_env ''op'' [demo_change] schema demo_db" by (auto simp: commits_def)
  from switched_new [OF this, of demo_change]
  have "pointer demo_db demo_slot = Some (pointer_row demo_env ''op'' demo_change ''t'')"
    by (auto simp: demo_change_def demo_target_def demo_env_def split: if_splits)
  moreover have "extension_uninstalls demo_db = []"
    using \<open>switched demo_env ''op'' [demo_change] schema demo_db\<close> by (simp add: switched_def schema_def)
  ultimately have res: "fst (uninstall demo_env ''un'' demo_slot (replicate 64 CHR ''d'') demo_db) =
     Err ''EXTENSION_INSTALL_CONFLICT''"
    using demo_hex
    by (simp add: uninstall_def uninstall_tx_def op_run atomicS_def active_at_def pointer_row_def
          demo_env_def)
  show ?thesis
    using uninstall_removes_only_reviewed [OF prod.collapse [symmetric],
      of demo_env "''un''" demo_slot "replicate 64 CHR ''d''" demo_db] res by simp
qed
end
