(* ===== verification/BTree_Map.thy ===== *)
theory BTree_Map
  imports Host_Prelude
begin

text \<open>
  Rust's \<open>BTreeMap\<close> as the sorted association list its iteration yields: insertion keeps the
  keys strictly increasing, and two maps are equal exactly when they answer every lookup alike.
\<close>

fun bt_insert :: "'k::linorder \<Rightarrow> 'v \<Rightarrow> ('k \<times> 'v) list \<Rightarrow> ('k \<times> 'v) list" where
  "bt_insert k v [] = [(k, v)]"
| "bt_insert k v ((a, b) # m) =
     (if k < a then (k, v) # (a, b) # m
      else if k = a then (k, v) # m
      else (a, b) # bt_insert k v m)"

definition bt_get :: "('k \<times> 'v) list \<Rightarrow> 'k \<Rightarrow> 'v option" where
  "bt_get m k = map_of m k"

definition bt_remove :: "'k \<Rightarrow> ('k \<times> 'v) list \<Rightarrow> ('k \<times> 'v) list" where
  "bt_remove k m = filter (\<lambda>p. fst p \<noteq> k) m"

definition bt_wf :: "('k::linorder \<times> 'v) list \<Rightarrow> bool" where
  "bt_wf m \<longleftrightarrow> sorted_wrt (<) (map fst m)"

text \<open>\<open>entry(k).or_default().push(x)\<close>\<close>

definition bt_push :: "'k::linorder \<Rightarrow> 'x \<Rightarrow> ('k \<times> 'x list) list \<Rightarrow> ('k \<times> 'x list) list" where
  "bt_push k x m = bt_insert k ((case bt_get m k of None \<Rightarrow> [] | Some xs \<Rightarrow> xs) @ [x]) m"

lemma bt_get_Nil [simp]: "bt_get [] k = None"
  by (simp add: bt_get_def)

lemma bt_get_insert [simp]: "bt_get (bt_insert k v m) j = (if j = k then Some v else bt_get m j)"
  by (induction k v m rule: bt_insert.induct) (auto simp: bt_get_def)

lemma bt_get_remove [simp]: "bt_get (bt_remove k m) j = (if j = k then None else bt_get m j)"
  by (induction m) (auto simp: bt_get_def bt_remove_def)

lemma bt_get_push:
  "bt_get (bt_push k x m) j =
     (if j = k then Some ((case bt_get m k of None \<Rightarrow> [] | Some xs \<Rightarrow> xs) @ [x]) else bt_get m j)"
  by (simp add: bt_push_def)

lemma keys_bt_insert: "fst ` set (bt_insert k v m) = insert k (fst ` set m)"
  by (induction k v m rule: bt_insert.induct) auto

lemma bt_wf_Nil [simp]: "bt_wf []"
  by (simp add: bt_wf_def)

lemma bt_wf_insert: "bt_wf m \<Longrightarrow> bt_wf (bt_insert k v m)"
proof (induction k v m rule: bt_insert.induct)
  case (2 k v a b m)
  have "\<forall>x \<in> set (map fst (bt_insert k v m)). a < x" if "a < k"
    using 2(2) that keys_bt_insert [of k v m] by (auto simp: bt_wf_def)
  with 2 show ?case by (auto simp: bt_wf_def)
qed (simp add: bt_wf_def)

lemma bt_wf_push: "bt_wf m \<Longrightarrow> bt_wf (bt_push k x m)"
  by (simp add: bt_push_def bt_wf_insert)

lemma bt_wf_remove: "bt_wf m \<Longrightarrow> bt_wf (bt_remove k m)"
  by (induction m) (auto simp: bt_wf_def bt_remove_def)

lemma bt_wf_distinct: "bt_wf m \<Longrightarrow> distinct (map fst m)"
  by (simp add: bt_wf_def strict_sorted_iff)

lemma bt_get_Some_iff: "bt_wf m \<Longrightarrow> bt_get m k = Some v \<longleftrightarrow> (k, v) \<in> set m"
  by (simp add: bt_get_def bt_wf_distinct)

lemma bt_get_None_iff: "bt_get m k = None \<longleftrightarrow> k \<notin> fst ` set m"
  by (simp add: bt_get_def map_of_eq_None_iff)

lemma bt_get_first: "bt_wf ((a, b) # m) \<Longrightarrow> bt_get m k = Some v \<Longrightarrow> a < k"
  by (force simp: bt_wf_def bt_get_def dest!: map_of_SomeD)

lemma bt_wf_Cons: "bt_wf ((a, b) # m) \<longleftrightarrow> (\<forall>k \<in> fst ` set m. a < k) \<and> bt_wf m"
  by (auto simp: bt_wf_def)

lemma bt_ext: "bt_wf m \<Longrightarrow> bt_wf n \<Longrightarrow> (\<And>k. bt_get m k = bt_get n k) \<Longrightarrow> m = n"
proof (induction m arbitrary: n)
  case Nil
  then have "map_of n = Map.empty" by (simp add: bt_get_def fun_eq_iff)
  then show ?case by simp
next
  case (Cons p m)
  obtain a b where p: "p = (a, b)" by force
  have ab: "bt_get n a = Some b"
    using Cons.prems(3) [of a] by (simp add: p bt_get_def)
  then obtain c d n' where n: "n = (c, d) # n'"
    by (cases n) (auto simp: bt_get_def)
  have "bt_get (p # m) c = Some d"
    using Cons.prems(3) [of c] by (simp add: n bt_get_def)
  then have "a \<le> c"
    using bt_get_first [of a b m c d] Cons.prems(1) by (auto simp: p bt_get_def split: if_splits)
  moreover have "c \<le> a"
    using ab bt_get_first [of c d n' a b] Cons.prems(2) by (auto simp: n bt_get_def split: if_splits)
  ultimately have ca: "c = a" by simp
  then have d: "d = b" using ab by (simp add: n bt_get_def)
  have "bt_get m k = bt_get n' k" for k
  proof (cases "k = a")
    case True
    have "bt_get m a = None" "bt_get n' a = None"
      using Cons.prems(1,2) by (auto simp: bt_get_None_iff bt_wf_Cons p n ca)
    then show ?thesis by (simp add: True)
  next
    case False
    then show ?thesis using Cons.prems(3) [of k] by (simp add: p n ca bt_get_def)
  qed
  then have "m = n'"
    using Cons.IH [of n'] Cons.prems(1,2) by (simp add: bt_wf_Cons p n)
  then show ?case by (simp add: p n ca d)
qed

text \<open>The interface of an ordered map: lookups after updates, key order kept.\<close>

locale ordered_map =
  fixes get :: "'m \<Rightarrow> 'k::linorder \<Rightarrow> 'v option"
    and ins :: "'k \<Rightarrow> 'v \<Rightarrow> 'm \<Rightarrow> 'm"
    and wf :: "'m \<Rightarrow> bool"
  assumes get_ins: "get (ins k v m) j = (if j = k then Some v else get m j)"
    and wf_ins: "wf m \<Longrightarrow> wf (ins k v m)"
    and extensional: "wf m \<Longrightarrow> wf n \<Longrightarrow> (\<And>k. get m k = get n k) \<Longrightarrow> m = n"
begin

lemma ins_commute: "wf m \<Longrightarrow> j \<noteq> k \<Longrightarrow> ins j u (ins k v m) = ins k v (ins j u m)"
  by (rule extensional) (auto simp: wf_ins get_ins)

lemma ins_overwrite: "wf m \<Longrightarrow> ins k v (ins k u m) = ins k v m"
  by (rule extensional) (auto simp: wf_ins get_ins)

lemma wf_fold_ins: "wf m \<Longrightarrow> wf (fold (\<lambda>(k, v). ins k v) kvs m)"
  by (induction kvs arbitrary: m) (auto simp: wf_ins)

lemma get_fold_ins:
  "get (fold (\<lambda>(k, v). ins k v) kvs m) j =
     (case map_of (rev kvs) j of None \<Rightarrow> get m j | Some v \<Rightarrow> Some v)"
  by (induction kvs arbitrary: m) (auto simp: get_ins map_add_def split: option.splits)

end

interpretation bt: ordered_map bt_get bt_insert bt_wf
  by unfold_locales (auto intro: bt_wf_insert bt_ext)

end
