(* ===== verification/Credentials.thy ===== *)
theory Credentials
  imports BTree_Map
begin

text \<open>
  The credential broker (\<open>credentials.rs\<close>): an unlocked session holds the records of the vault as
  ciphertext, the file on disk holds a sealed snapshot of them under the same salt, and a shared
  lock signal revokes a session from outside. Argon2, the AEAD, SHA-256, the snapshot format of
  Stronghold (the type \<open>'b\<close>) and the JSON of an identifier are parameters; the file system, the
  entropy source and the moment of a lock signal belong to the world of a call.
\<close>

section \<open>Identifiers\<close>

datatype cred_scope = ScopeProvider | ScopePlugin string | ScopeMcp string | ScopeSync string

record cred_id =
  ci_scope :: cred_scope
  ci_id :: string

type_synonym cred_store = "(string \<times> string) list"

record 'b cred_env =
  cx_kdf :: "string \<Rightarrow> string \<Rightarrow> string option"
  cx_sha :: "string \<Rightarrow> string"
  cx_encrypt :: "string \<Rightarrow> string \<Rightarrow> string \<Rightarrow> string \<Rightarrow> string option"
  cx_decrypt :: "string \<Rightarrow> string \<Rightarrow> string \<Rightarrow> string \<Rightarrow> string option"
  cx_seal :: "nat \<Rightarrow> string \<Rightarrow> cred_store \<Rightarrow> 'b"
  cx_open :: "string \<Rightarrow> 'b \<Rightarrow> cred_store option"
  cx_size :: "'b \<Rightarrow> nat"
  cx_json :: "cred_id \<Rightarrow> string option"
  cx_unjson :: "string \<Rightarrow> cred_id option"

definition legacy_id :: "string \<Rightarrow> cred_id" where
  "legacy_id s =
     \<lparr>ci_scope =
        (case strip_prefix ''plugin.'' s of
           Some owner \<Rightarrow> ScopePlugin owner
         | None \<Rightarrow> (case strip_prefix ''mcp.'' s of Some owner \<Rightarrow> ScopeMcp owner | None \<Rightarrow> ScopeProvider)),
      ci_id = s\<rparr>"

definition cred_name_ok :: "string \<Rightarrow> bool" where
  "cred_name_ok v \<longleftrightarrow>
     v \<noteq> [] \<and> length v \<le> 128 \<and> list_all (\<lambda>c. is_ascii_alphanumeric c \<or> c \<in> set ''._-'') v"

fun scope_ok :: "cred_scope \<Rightarrow> string \<Rightarrow> bool" where
  "scope_ok ScopeProvider name =
     (\<not> starts_with ''plugin.'' (to_ascii_lowercase name) \<and> \<not> starts_with ''mcp.'' (to_ascii_lowercase name))"
| "scope_ok (ScopePlugin owner) name = cred_name_ok owner"
| "scope_ok (ScopeMcp owner) name = cred_name_ok owner"
| "scope_ok (ScopeSync owner) name = cred_name_ok owner"

text \<open>\<open>CredentialId::key\<close>\<close>

definition cred_key :: "'b cred_env \<Rightarrow> cred_id \<Rightarrow> string result" where
  "cred_key E i =
     bindR (require (cred_name_ok (ci_id i)) ''CREDENTIAL_ID_INVALID'') (\<lambda>_.
     bindR (require (scope_ok (ci_scope i) (ci_id i)) ''CREDENTIAL_SCOPE_DENIED'') (\<lambda>_.
     ok_or (cx_json E i) ''CREDENTIAL_ID_INVALID''))"

section \<open>A session\<close>

text \<open>A file is its first 40 bytes and the rest; \<open>CredOther\<close> is a path that is no regular file.\<close>

datatype 'b cred_file = CredFile string 'b | CredOther

record unlocked =
  ul_key :: string
  ul_salt :: string
  ul_store :: cred_store

text \<open>
  The world of one call: whether entropy is there and what it yields, whether the Stronghold client
  can be reached, the errors of taking the lock file, of reading a snapshot, of its temporary
  copy and of writing the new one, and how many lock signals arrive while a session is opened.
\<close>

record cred_world =
  kw_entropy :: "nat \<Rightarrow> bool"
  kw_byte :: "nat \<Rightarrow> nat \<Rightarrow> char"
  kw_client :: bool
  kw_owner :: "string option"
  kw_read :: "string option"
  kw_temp :: "string option"
  kw_persist :: "string option"
  kw_seed :: nat
  kw_signals :: nat

definition cred_magic :: string where "cred_magic = ''ONXCRED1''"
definition max_cred_file :: nat where "max_cred_file = 16 * 1024 * 1024"

definition passes :: "string option \<Rightarrow> unit result" where
  "passes failure = (case failure of None \<Rightarrow> Inr () | Some c \<Rightarrow> Err c)"

definition draw :: "cred_world \<Rightarrow> nat \<Rightarrow> nat \<Rightarrow> string result" where
  "draw W i n = (if kw_entropy W i then Inr (map (kw_byte W i) [0..<n]) else Err ''CREDENTIAL_ENTROPY_FAILED'')"

definition derive :: "'b cred_env \<Rightarrow> string \<Rightarrow> string \<Rightarrow> unlocked result" where
  "derive E password salt =
     bindR (require (12 \<le> length password \<and> length password \<le> 1024) ''CREDENTIAL_PASSWORD_LENGTH'') (\<lambda>_.
     bindR (ok_or (cx_kdf E password salt) ''CREDENTIAL_KDF_FAILED'') (\<lambda>key.
     Inr \<lparr>ul_key = key, ul_salt = salt, ul_store = []\<rparr>))"

definition cipher_key :: "'b cred_env \<Rightarrow> unlocked \<Rightarrow> string" where
  "cipher_key E u = cx_sha E (ul_key u @ ''opennexus.credential-record.v1'')"

definition stronghold :: "cred_world \<Rightarrow> unit result" where
  "stronghold W = require (kw_client W) ''CREDENTIAL_STORE_FAILED''"

definition cred_read :: "'b cred_env \<Rightarrow> cred_world \<Rightarrow> unlocked \<Rightarrow> string \<Rightarrow> string option result" where
  "cred_read E W u key =
     bindR (stronghold W) (\<lambda>_.
     case bt_get (ul_store u) key of
       None \<Rightarrow> Inr None
     | Some data \<Rightarrow>
         bindR (require (28 \<le> length data) ''CREDENTIAL_STORE_CORRUPT'') (\<lambda>_.
         bindR (ok_or (cx_decrypt E (cipher_key E u) (take 12 data) key (drop 12 data)) ''CREDENTIAL_STORE_CORRUPT'') (\<lambda>v.
         Inr (Some v))))"

definition cred_write :: "'b cred_env \<Rightarrow> cred_world \<Rightarrow> nat \<Rightarrow> unlocked \<Rightarrow> string \<Rightarrow> string \<Rightarrow> unlocked result" where
  "cred_write E W i u key v =
     bindR (require (v \<noteq> [] \<and> length v \<le> 65536) ''CREDENTIAL_VALUE_INVALID'') (\<lambda>_.
     bindR (draw W i 12) (\<lambda>nonce.
     bindR (ok_or (cx_encrypt E (cipher_key E u) nonce key v) ''CREDENTIAL_CIPHER_FAILED'') (\<lambda>ciphertext.
     bindR (stronghold W) (\<lambda>_.
     Inr (u\<lparr>ul_store := bt_insert key (nonce @ ciphertext) (ul_store u)\<rparr>)))))"

definition persisted :: "'b cred_env \<Rightarrow> cred_world \<Rightarrow> unlocked \<Rightarrow> 'b cred_file result" where
  "persisted E W u =
     bindR (passes (kw_persist W)) (\<lambda>_.
     Inr (CredFile (cred_magic @ ul_salt u) (cx_seal E (kw_seed W) (ul_key u) (ul_store u))))"

section \<open>The broker\<close>

record 'b broker =
  br_file :: "'b cred_file option"
  br_session :: "unlocked option"
  br_owned :: bool
  br_epoch :: "64 word"
  br_unlocked_epoch :: "64 word"

definition broker_new :: "'b cred_file option \<Rightarrow> 'b broker" where
  "broker_new file' = \<lparr>br_file = file', br_session = None, br_owned = False, br_epoch = 0, br_unlocked_epoch = 0\<rparr>"

definition is_locked :: "'b broker \<Rightarrow> bool" where
  "is_locked b \<longleftrightarrow> br_session b = None \<or> br_epoch b \<noteq> br_unlocked_epoch b"

definition session :: "'b broker \<Rightarrow> unlocked result" where
  "session b =
     bindR (require (\<not> is_locked b) ''CREDENTIALS_LOCKED'') (\<lambda>_. ok_or (br_session b) ''CREDENTIALS_LOCKED'')"

text \<open>\<open>lock_signal().fetch_add(1)\<close>, by whoever holds the signal.\<close>

definition lock_signalled :: "'b broker \<Rightarrow> 'b broker" where
  "lock_signalled b = b\<lparr>br_epoch := br_epoch b + 1\<rparr>"

definition cred_lock :: "'b broker \<Rightarrow> 'b broker" where
  "cred_lock b = (lock_signalled b)\<lparr>br_session := None, br_owned := False\<rparr>"

definition load_snapshot :: "'b cred_env \<Rightarrow> cred_world \<Rightarrow> 'b cred_file option \<Rightarrow> string \<Rightarrow> unlocked result" where
  "load_snapshot E W found password =
     (case found of
        None \<Rightarrow> Err ''CREDENTIAL_IO_FAILED''
      | Some CredOther \<Rightarrow> Err ''CREDENTIAL_STORE_CORRUPT''
      | Some (CredFile header blob) \<Rightarrow>
          bindR (require (length header + cx_size E blob \<le> max_cred_file) ''CREDENTIAL_STORE_CORRUPT'') (\<lambda>_.
          bindR (passes (kw_read W)) (\<lambda>_.
          bindR (require (length header = 40 \<and> take 8 header = cred_magic) ''SCHEMA_INCOMPATIBLE'') (\<lambda>_.
          bindR (derive E password (drop 8 header)) (\<lambda>u.
          bindR (passes (kw_temp W)) (\<lambda>_.
          bindR (ok_or (cx_open E (ul_key u) blob) ''CREDENTIAL_UNLOCK_FAILED'') (\<lambda>records.
          Inr (u\<lparr>ul_store := records\<rparr>))))))))"

text \<open>What \<open>unlock\<close> opens: the snapshot on disk, or an empty vault that it writes first.\<close>

definition open_vault :: "'b cred_env \<Rightarrow> cred_world \<Rightarrow> 'b cred_file option \<Rightarrow> string \<Rightarrow> (unlocked \<times> 'b cred_file option) result" where
  "open_vault E W found password =
     (case found of
        Some _ \<Rightarrow> bindR (load_snapshot E W found password) (\<lambda>u. Inr (u, found))
      | None \<Rightarrow>
          bindR (draw W 0 32) (\<lambda>salt.
          bindR (derive E password salt) (\<lambda>u.
          bindR (stronghold W) (\<lambda>_.
          bindR (persisted E W u) (\<lambda>saved.
          Inr (u, Some saved))))))"

definition cred_unlock :: "'b cred_env \<Rightarrow> cred_world \<Rightarrow> string \<Rightarrow> ('b broker, unit) host_op" where
  "cred_unlock E W password b =
     (let b = cred_lock b; epoch = br_epoch b
      in case bindR (passes (kw_owner W)) (\<lambda>_. open_vault E W (br_file b) password) of
           Inl e \<Rightarrow> (Inl e, b)
         | Inr (u, found) \<Rightarrow>
             let b = b\<lparr>br_file := found, br_epoch := br_epoch b + of_nat (kw_signals W)\<rparr>
             in if br_epoch b \<noteq> epoch then (Err ''CREDENTIALS_LOCKED'', b)
                else (Inr (), b\<lparr>br_session := Some u, br_owned := True, br_unlocked_epoch := epoch\<rparr>))"

text \<open>Operations that write: the session's records are replaced, saved, and on any failure the session
  is dropped.\<close>

definition save_session :: "'b cred_env \<Rightarrow> cred_world \<Rightarrow> unlocked result \<Rightarrow> ('b broker, unit) host_op" where
  "save_session E W written b =
     (case bindR written (\<lambda>u. bindR (persisted E W u) (\<lambda>saved. Inr (u, saved))) of
        Inl e \<Rightarrow> (Inl e, cred_lock b)
      | Inr (u, saved) \<Rightarrow> (Inr (), b\<lparr>br_session := Some u, br_file := Some saved\<rparr>))"

definition cred_list :: "'b cred_env \<Rightarrow> cred_world \<Rightarrow> 'b broker \<Rightarrow> cred_id list result" where
  "cred_list E W b =
     bindR (session b) (\<lambda>u.
     bindR (stronghold W) (\<lambda>_.
     let ids = map (cx_unjson E \<circ> fst) (ul_store u)
     in if None \<in> set ids then Err ''CREDENTIAL_STORE_CORRUPT'' else Inr (map the ids)))"

definition cred_put :: "'b cred_env \<Rightarrow> cred_world \<Rightarrow> cred_id \<Rightarrow> string \<Rightarrow> ('b broker, unit) host_op" where
  "cred_put E W i v =
     bindS (readS session) (\<lambda>u.
     bindS (readS (\<lambda>_. cred_key E i)) (\<lambda>key.
     save_session E W (cred_write E W 0 u key v)))"

definition cred_delete :: "'b cred_env \<Rightarrow> cred_world \<Rightarrow> cred_id \<Rightarrow> ('b broker, unit) host_op" where
  "cred_delete E W i =
     bindS (readS session) (\<lambda>u.
     bindS (readS (\<lambda>_. stronghold W)) (\<lambda>_.
     bindS (readS (\<lambda>_. cred_key E i)) (\<lambda>key.
     save_session E W (Inr (u\<lparr>ul_store := bt_remove key (ul_store u)\<rparr>)))))"

definition cred_resolve :: "'b cred_env \<Rightarrow> cred_world \<Rightarrow> cred_scope \<Rightarrow> cred_id \<Rightarrow> 'b broker \<Rightarrow> string option result" where
  "cred_resolve E W caller i b =
     bindR (require (caller = ci_scope i) ''CREDENTIAL_SCOPE_DENIED'') (\<lambda>_.
     bindR (session b) (\<lambda>u.
     bindR (cred_key E i) (\<lambda>key.
     cred_read E W u key)))"

text \<open>\<open>change_password\<close>: every record is decrypted and written again under the new key.\<close>

fun rewrite_records :: "'b cred_env \<Rightarrow> cred_world \<Rightarrow> nat \<Rightarrow> unlocked \<Rightarrow> string list \<Rightarrow> unlocked \<Rightarrow> unlocked result" where
  "rewrite_records E W i previous [] u = Inr u"
| "rewrite_records E W i previous (key # keys) u =
     bindR (cred_read E W previous key) (\<lambda>found.
     bindR (ok_or found ''CREDENTIAL_STORE_CORRUPT'') (\<lambda>v.
     bindR (cred_write E W i u key v) (\<lambda>u.
     rewrite_records E W (i + 1) previous keys u)))"

definition cred_change_password :: "'b cred_env \<Rightarrow> cred_world \<Rightarrow> string \<Rightarrow> ('b broker, unit) host_op" where
  "cred_change_password E W password =
     bindS (readS session) (\<lambda>previous.
     bindS (readS (\<lambda>_.
       bindR (draw W 0 32) (\<lambda>salt.
       bindR (derive E password salt) (\<lambda>u.
       bindR (stronghold W) (\<lambda>_.
       bindR (rewrite_records E W 1 previous (map fst (ul_store previous)) u) (\<lambda>u.
       bindR (persisted E W u) (\<lambda>saved.
       Inr (u, saved)))))))) (\<lambda>(u, saved).
     modS (\<lambda>b. b\<lparr>br_session := Some u, br_file := Some saved\<rparr>)))"

fun records_valid :: "'b cred_env \<Rightarrow> cred_world \<Rightarrow> unlocked \<Rightarrow> string list \<Rightarrow> unit result" where
  "records_valid E W u [] = Inr ()"
| "records_valid E W u (key # keys) =
     bindR (ok_or (cx_unjson E key) ''CREDENTIAL_STORE_CORRUPT'') (\<lambda>i.
     bindR (cred_key E i) (\<lambda>key'.
     bindR (require (key' = key) ''CREDENTIAL_STORE_CORRUPT'') (\<lambda>_.
     bindR (cred_read E W u key) (\<lambda>found.
     bindR (require (found \<noteq> None) ''CREDENTIAL_STORE_CORRUPT'') (\<lambda>_.
     records_valid E W u keys)))))"

text \<open>The vault that a backup replaces is kept under a fresh name before.\<close>

definition previous_kept :: "'b cred_env \<Rightarrow> cred_world \<Rightarrow> 'b cred_file option \<Rightarrow> unit result" where
  "previous_kept E W found =
     (case found of
        None \<Rightarrow> Inr ()
      | Some CredOther \<Rightarrow> Err ''CREDENTIAL_STORE_CORRUPT''
      | Some (CredFile header blob) \<Rightarrow>
          bindR (require (length header + cx_size E blob \<le> max_cred_file) ''CREDENTIAL_STORE_CORRUPT'') (\<lambda>_.
          bindR (passes (kw_read W)) (\<lambda>_. passes (kw_temp W))))"

definition cred_restore :: "'b cred_env \<Rightarrow> cred_world \<Rightarrow> 'b cred_file option \<Rightarrow> string \<Rightarrow> ('b broker, nat) host_op" where
  "cred_restore E W source password =
     bindS (readS (\<lambda>b. require (is_locked b) ''CREDENTIALS_MUST_LOCK'')) (\<lambda>_.
     bindS (modS cred_lock) (\<lambda>_.
     bindS (readS (\<lambda>b.
       bindR (passes (kw_owner W)) (\<lambda>_.
       bindR (load_snapshot E W source password) (\<lambda>u.
       bindR (stronghold W) (\<lambda>_.
       bindR (records_valid E W u (map fst (ul_store u))) (\<lambda>_.
       bindR (previous_kept E W (br_file b)) (\<lambda>_.
       bindR (persisted E W u) (\<lambda>saved.
       Inr (length (ul_store u), saved))))))))) (\<lambda>(count, saved).
     bindS (modS (\<lambda>b. b\<lparr>br_file := Some saved\<rparr>)) (\<lambda>_. retS count))))"

section \<open>Requests of the core\<close>

fun as_array :: "json \<Rightarrow> json list option" where
  "as_array (JArr vs) = Some vs"
| "as_array _ = None"

fun as_members :: "json \<Rightarrow> (string \<times> json) list option" where
  "as_members (JObj kvs) = Some kvs"
| "as_members _ = None"

fun same_kind :: "cred_scope \<Rightarrow> cred_scope \<Rightarrow> bool" where
  "same_kind ScopeProvider ScopeProvider = True"
| "same_kind (ScopePlugin _) (ScopePlugin _) = True"
| "same_kind (ScopeMcp _) (ScopeMcp _) = True"
| "same_kind (ScopeSync _) (ScopeSync _) = True"
| "same_kind _ _ = False"

fun legacy_keys :: "'b cred_env \<Rightarrow> json list \<Rightarrow> (string \<times> string) list result" where
  "legacy_keys E [] = Inr []"
| "legacy_keys E (v # vs) =
     bindR (ok_or (as_str v) ''HOST_REQUEST_INVALID'') (\<lambda>i.
     bindR (cred_key E (legacy_id i)) (\<lambda>key.
     bindR (legacy_keys E vs) (\<lambda>rest.
     Inr ((i, key) # rest))))"

fun delete_keys :: "(string \<times> string) list \<Rightarrow> cred_store \<Rightarrow> string list \<times> cred_store" where
  "delete_keys [] records = ([], records)"
| "delete_keys ((i, key) # rest) records =
     (let (removed, kept) = delete_keys rest (bt_remove key records)
      in (if bt_get records key \<noteq> None then i # removed else removed, kept))"

definition delete_many :: "'b cred_env \<Rightarrow> cred_world \<Rightarrow> json \<Rightarrow> unlocked \<Rightarrow> (string list \<times> unlocked) result" where
  "delete_many E W params u =
     bindR (ok_or (as_array (json_index params ''ids'')) ''HOST_REQUEST_INVALID'') (\<lambda>ids.
     bindR (legacy_keys E ids) (\<lambda>keys.
     bindR (if keys = [] then Inr () else stronghold W) (\<lambda>_.
     let (removed, records) = delete_keys keys (ul_store u)
     in Inr (removed, u\<lparr>ul_store := records\<rparr>))))"

text \<open>The moves of \<open>credentials.move_many\<close>: the record's key, the new one and the value.\<close>

fun plan_moves :: "'b cred_env \<Rightarrow> cred_world \<Rightarrow> unlocked \<Rightarrow> (string \<times> json) list \<Rightarrow> (string \<times> string \<times> string) list result" where
  "plan_moves E W u [] = Inr []"
| "plan_moves E W u ((old, new) # rest) =
     bindR (ok_or (as_str new) ''HOST_REQUEST_INVALID'') (\<lambda>new.
     bindR (require (same_kind (ci_scope (legacy_id old)) (ci_scope (legacy_id new))) ''CREDENTIAL_SCOPE_DENIED'') (\<lambda>_.
     bindR (cred_key E (legacy_id old)) (\<lambda>source.
     bindR (cred_key E (legacy_id new)) (\<lambda>target.
     bindR (cred_read E W u source) (\<lambda>found.
     case found of
       None \<Rightarrow> plan_moves E W u rest
     | Some v \<Rightarrow>
         bindR (cred_read E W u target) (\<lambda>existing.
         bindR (require (existing = None \<or> existing = Some v) ''MIGRATION_CONFLICT'') (\<lambda>_.
         bindR (plan_moves E W u rest) (\<lambda>moves.
         Inr ((source, target, v) # moves)))))))))"

definition moves_overlap :: "(string \<times> string \<times> string) list \<Rightarrow> bool" where
  "moves_overlap moves \<longleftrightarrow>
     list_ex (\<lambda>(old, new, _). old \<noteq> new \<and> list_ex (\<lambda>(source, _, _). source = new) moves) moves"

fun apply_moves :: "'b cred_env \<Rightarrow> cred_world \<Rightarrow> nat \<Rightarrow> (string \<times> string \<times> string) list \<Rightarrow> unlocked \<Rightarrow> unlocked result" where
  "apply_moves E W i [] u = Inr u"
| "apply_moves E W i ((old, new, v) # moves) u =
     bindR (cred_write E W i u new v) (\<lambda>u.
     apply_moves E W (i + 1) moves (if old \<noteq> new then u\<lparr>ul_store := bt_remove old (ul_store u)\<rparr> else u))"

definition move_many :: "'b cred_env \<Rightarrow> cred_world \<Rightarrow> json \<Rightarrow> unlocked \<Rightarrow> unlocked result" where
  "move_many E W params u =
     bindR (ok_or (as_members (json_index params ''replacements'')) ''HOST_REQUEST_INVALID'') (\<lambda>replacements.
     bindR (plan_moves E W u replacements) (\<lambda>moves.
     bindR (require (\<not> moves_overlap moves) ''MIGRATION_CONFLICT'') (\<lambda>_.
     apply_moves E W 0 moves u)))"

text \<open>\<open>dispatch\<close> of a request that names many records: on any failure the session is dropped.\<close>

definition dispatch_many :: "'b cred_env \<Rightarrow> cred_world \<Rightarrow> (unlocked \<Rightarrow> (string list \<times> unlocked) result) \<Rightarrow> ('b broker, json) host_op" where
  "dispatch_many E W change =
     bindS (readS session) (\<lambda>u b.
     case change u of
       Inl e \<Rightarrow> (Inl e, cred_lock b)
     | Inr (removed, u) \<Rightarrow> bindS (save_session E W (Inr u)) (\<lambda>_. retS (JArr (map JStr removed))) b)"

definition secret_json :: "string option \<Rightarrow> json result" where
  "secret_json found =
     (case found of
        None \<Rightarrow> Inr JNull
      | Some v \<Rightarrow> if utf8_valid v then Inr (JStr v) else Err ''CREDENTIAL_ENCODING_INVALID'')"

definition dispatch_one :: "'b cred_env \<Rightarrow> cred_world \<Rightarrow> string \<Rightarrow> json \<Rightarrow> cred_id \<Rightarrow> ('b broker, json) host_op" where
  "dispatch_one E W rpc params i =
     (if rpc = ''credentials.resolve'' then
        bindS (readS (cred_resolve E W (ci_scope i) i)) (\<lambda>found. readS (\<lambda>_. secret_json found))
      else if rpc = ''credentials.has'' then
        bindS (readS (cred_resolve E W (ci_scope i) i)) (\<lambda>found. retS (JBool (found \<noteq> None)))
      else if rpc = ''credentials.put'' then
        bindS (readS (\<lambda>_. ok_or (as_str (json_index params ''secret'')) ''HOST_REQUEST_INVALID'')) (\<lambda>v.
        bindS (cred_put E W i v) (\<lambda>_. retS JNull))
      else if rpc = ''credentials.delete'' then
        bindS (readS (cred_resolve E W (ci_scope i) i)) (\<lambda>found.
        bindS (cred_delete E W i) (\<lambda>_. retS (JBool (found \<noteq> None))))
      else failS ''HOST_METHOD_DENIED'')"

definition cred_dispatch :: "'b cred_env \<Rightarrow> cred_world \<Rightarrow> json \<Rightarrow> ('b broker, json) host_op" where
  "cred_dispatch E W request =
     bindS (readS (\<lambda>_. ok_or (as_str (json_index request ''rpc'')) ''HOST_REQUEST_INVALID'')) (\<lambda>rpc.
     let params = json_index request ''params''
     in if rpc = ''credentials.delete_many'' then dispatch_many E W (delete_many E W params)
        else if rpc = ''credentials.move_many'' then
          dispatch_many E W (\<lambda>u. bindR (move_many E W params u) (\<lambda>u. Inr ([], u)))
        else bindS (readS (\<lambda>_. ok_or (as_str (json_index params ''id'')) ''HOST_REQUEST_INVALID'')) (\<lambda>i.
             dispatch_one E W rpc params (legacy_id i)))"

section \<open>Histories\<close>

datatype 'b cred_event =
    EvSignal
  | EvLock
  | EvUnlock cred_world string
  | EvPut cred_world cred_id string
  | EvDelete cred_world cred_id
  | EvChange cred_world string
  | EvRestore cred_world "'b cred_file option" string
  | EvDispatch cred_world json

fun cred_step :: "'b cred_env \<Rightarrow> 'b cred_event \<Rightarrow> 'b broker \<Rightarrow> 'b broker" where
  "cred_step E EvSignal b = lock_signalled b"
| "cred_step E EvLock b = cred_lock b"
| "cred_step E (EvUnlock W password) b = snd (cred_unlock E W password b)"
| "cred_step E (EvPut W i v) b = snd (cred_put E W i v b)"
| "cred_step E (EvDelete W i) b = snd (cred_delete E W i b)"
| "cred_step E (EvChange W password) b = snd (cred_change_password E W password b)"
| "cred_step E (EvRestore W source password) b = snd (cred_restore E W source password b)"
| "cred_step E (EvDispatch W request) b = snd (cred_dispatch E W request b)"

definition cred_run :: "'b cred_env \<Rightarrow> 'b cred_event list \<Rightarrow> 'b broker \<Rightarrow> 'b broker" where
  "cred_run E es b = fold (cred_step E) es b"

text \<open>
  What the parameters are relied on for: decryption inverts encryption, whose result is 16 bytes
  longer, a snapshot opens under its own key only, and identifiers have distinct keys.
\<close>

definition cred_laws :: "'b cred_env \<Rightarrow> bool" where
  "cred_laws E \<longleftrightarrow>
     (\<forall>k n a m c. cx_encrypt E k n a m = Some c \<longrightarrow> cx_decrypt E k n a c = Some m \<and> length c = length m + 16) \<and>
     (\<forall>k k' r s. cx_open E k' (cx_seal E r k s) = (if k' = k then Some s else None)) \<and>
     (\<forall>i j s. cred_key E i = Inr s \<and> cred_key E j = Inr s \<longrightarrow> i = j)"

text \<open>The records a session serves are those of the snapshot on disk.\<close>

definition committed :: "'b cred_env \<Rightarrow> 'b broker \<Rightarrow> bool" where
  "committed E b \<longleftrightarrow>
     (\<forall>u. br_session b = Some u \<longrightarrow> length (ul_salt u) = 32 \<and>
        (\<exists>blob. br_file b = Some (CredFile (cred_magic @ ul_salt u) blob) \<and> cx_open E (ul_key u) blob = Some (ul_store u)))"

lemma committed_locked [simp]: "committed E (cred_lock b)"
  by (simp add: committed_def cred_lock_def)

lemma committed_signalled [simp]: "committed E (lock_signalled b) = committed E b"
  by (simp add: committed_def lock_signalled_def)

lemma persisted_Inr:
  "persisted E W u = Inr saved \<Longrightarrow> saved = CredFile (cred_magic @ ul_salt u) (cx_seal E (kw_seed W) (ul_key u) (ul_store u))"
  by (auto simp: persisted_def bindR_Inr_iff)

lemma committed_saved:
  assumes "cred_laws E" "length (ul_salt u) = 32" "persisted E W u = Inr saved"
  shows "committed E (b\<lparr>br_session := Some u, br_file := Some saved\<rparr>)"
  using assms persisted_Inr [OF assms(3)] by (simp add: committed_def cred_laws_def)

lemma cred_write_Inr:
  assumes "cred_write E W i u key v = Inr u'"
  shows "\<exists>nonce c. length nonce = 12 \<and> cx_encrypt E (cipher_key E u) nonce key v = Some c \<and> v \<noteq> [] \<and>
       u' = u\<lparr>ul_store := bt_insert key (nonce @ c) (ul_store u)\<rparr>"
proof -
  from assms obtain c where "cx_encrypt E (cipher_key E u) (map (kw_byte W i) [0..<12]) key v = Some c" "v \<noteq> []"
      "u' = u\<lparr>ul_store := bt_insert key (map (kw_byte W i) [0..<12] @ c) (ul_store u)\<rparr>"
    by (auto simp: cred_write_def bindR_Inr_iff draw_def split: if_splits)
  then show ?thesis by (intro exI [of _ "map (kw_byte W i) [0..<12]"] exI [of _ c]) simp
qed

lemma write_salt: "cred_write E W i u key v = Inr u' \<Longrightarrow> ul_salt u' = ul_salt u \<and> ul_key u' = ul_key u"
  by (auto dest: cred_write_Inr)

lemma save_keeps:
  assumes "cred_laws E" "committed E b" "\<And>u. written = Inr u \<Longrightarrow> length (ul_salt u) = 32"
  shows "committed E (snd (save_session E W written b))"
proof (cases "bindR written (\<lambda>u. bindR (persisted E W u) (\<lambda>saved. Inr (u, saved)))")
  case (Inr p)
  then show ?thesis
    using committed_saved [OF assms(1) assms(3)] by (auto simp: save_session_def bindR_Inr_iff)
qed (simp add: save_session_def)

lemma session_Inr: "session b = Inr u \<longleftrightarrow> \<not> is_locked b \<and> br_session b = Some u"
  by (auto simp: session_def bindR_Inr_iff)

lemma session_salt: "committed E b \<Longrightarrow> session b = Inr u \<Longrightarrow> length (ul_salt u) = 32"
  by (auto simp: session_Inr committed_def)

lemma apply_moves_salt: "apply_moves E W i moves u = Inr u' \<Longrightarrow> ul_salt u' = ul_salt u"
proof (induction E W i moves u rule: apply_moves.induct)
  case (2 E W i old new v moves u)
  then show ?case by (fastforce simp: bindR_Inr_iff dest: write_salt)
qed simp

lemma rewrite_salt: "rewrite_records E W i previous keys u = Inr u' \<Longrightarrow> ul_salt u' = ul_salt u"
  by (induction keys arbitrary: i u) (fastforce simp: bindR_Inr_iff dest: write_salt)+

lemma derive_salt: "derive E password salt = Inr u \<Longrightarrow> ul_salt u = salt"
  by (auto simp: derive_def bindR_Inr_iff)

lemma draw_length: "draw W i n = Inr bytes \<Longrightarrow> length bytes = n"
  by (auto simp: draw_def split: if_splits)

lemma load_snapshot_Inr:
  assumes "load_snapshot E W found password = Inr u"
  shows "length (ul_salt u) = 32 \<and> derive E password (ul_salt u) = Inr (u\<lparr>ul_store := []\<rparr>) \<and>
    (\<exists>blob. found = Some (CredFile (cred_magic @ ul_salt u) blob) \<and> cx_open E (ul_key u) blob = Some (ul_store u))"
proof -
  from assms obtain header blob d records where facts: "found = Some (CredFile header blob)" "length header = 40"
      "take 8 header = cred_magic" "derive E password (drop 8 header) = Inr d" "cx_open E (ul_key d) blob = Some records"
      "u = d\<lparr>ul_store := records\<rparr>"
    by (auto simp: load_snapshot_def bindR_Inr_iff split: option.splits cred_file.splits)
  have "ul_salt u = drop 8 header" using derive_salt [OF facts(4)] facts(6) by simp
  moreover have "header = cred_magic @ drop 8 header" using append_take_drop_id [of 8 header] facts(3) by simp
  moreover have "u\<lparr>ul_store := []\<rparr> = d" using facts(4,6) by (auto simp: derive_def bindR_Inr_iff)
  ultimately show ?thesis using facts by auto
qed

lemma open_vault_committed:
  assumes "cred_laws E" "open_vault E W found password = Inr (u, found')"
  shows "length (ul_salt u) = 32 \<and>
    (\<exists>blob. found' = Some (CredFile (cred_magic @ ul_salt u) blob) \<and> cx_open E (ul_key u) blob = Some (ul_store u))"
proof (cases found)
  case None
  with assms(2) obtain salt saved where fresh: "draw W 0 32 = Inr salt" "derive E password salt = Inr u" "persisted E W u = Inr saved"
      "found' = Some saved"
    by (auto simp: open_vault_def bindR_Inr_iff)
  then show ?thesis
    using draw_length [OF fresh(1)] derive_salt [OF fresh(2)] persisted_Inr [OF fresh(3)] assms(1) by (auto simp: cred_laws_def)
next
  case (Some f)
  with assms(2) show ?thesis by (auto simp: open_vault_def bindR_Inr_iff dest: load_snapshot_Inr)
qed

lemma unlock_keeps: "cred_laws E \<Longrightarrow> committed E (snd (cred_unlock E W password b))"
  using open_vault_committed [of E W "br_file b" password]
  by (auto simp: cred_unlock_def Let_def bindR_Inr_iff committed_def cred_lock_def lock_signalled_def split: sum.splits)

lemma put_keeps: "cred_laws E \<Longrightarrow> committed E b \<Longrightarrow> committed E (snd (cred_put E W i v b))"
  by (auto simp: cred_put_def bindS_def readS_def intro!: save_keeps dest!: write_salt dest: session_salt split: sum.splits)

lemma delete_keeps: "cred_laws E \<Longrightarrow> committed E b \<Longrightarrow> committed E (snd (cred_delete E W i b))"
  by (auto simp: cred_delete_def bindS_def readS_def intro!: save_keeps dest: session_salt split: sum.splits)

lemma change_keeps:
  assumes "cred_laws E" "committed E b"
  shows "committed E (snd (cred_change_password E W password b))"
proof (cases "cred_change_password E W password b")
  case (Pair r b')
  show ?thesis
  proof (cases r)
    case (Inl e)
    with Pair have "b' = b" by (auto simp: cred_change_password_def bindS_Inl_iff case_prod_beta)
    then show ?thesis using Pair assms(2) by simp
  next
    case (Inr x)
    from Pair [unfolded Inr cred_change_password_def bindS_Inr_iff op_result_iffs bindR_Inr_iff]
    obtain salt d previous u saved i where "draw W 0 32 = Inr salt" "derive E password salt = Inr d"
        "rewrite_records E W i previous (map fst (ul_store previous)) d = Inr u" "persisted E W u = Inr saved"
        "b' = b\<lparr>br_session := Some u, br_file := Some saved\<rparr>" by auto
    moreover from this have "length (ul_salt u) = 32" by (simp add: draw_length derive_salt rewrite_salt)
    ultimately show ?thesis using Pair committed_saved [OF assms(1), of u W saved b] by simp
  qed
qed

lemma restore_keeps:
  assumes "committed E b"
  shows "committed E (snd (cred_restore E W source password b))"
proof (cases "is_locked b")
  case False
  then show ?thesis using assms by (simp add: cred_restore_def bindS_def readS_def)
next
  case True
  then show ?thesis
    by (auto simp: cred_restore_def bindS_def readS_def modS_def retS_def committed_def cred_lock_def split: sum.splits)
qed

lemma delete_many_salt: "delete_many E W params u = Inr (removed, u') \<Longrightarrow> ul_salt u' = ul_salt u"
  by (auto simp: delete_many_def bindR_Inr_iff Let_def case_prod_beta)

lemma move_many_salt: "move_many E W params u = Inr u' \<Longrightarrow> ul_salt u' = ul_salt u"
  by (auto simp: move_many_def bindR_Inr_iff dest: apply_moves_salt)

lemma bindS_retS_state: "snd (bindS m (\<lambda>_. retS x) s) = snd (m s)"
  by (auto simp: bindS_def retS_def split: prod.splits sum.splits)

lemma many_keeps:
  assumes "cred_laws E" "committed E b" "\<And>u u' removed. change u = Inr (removed, u') \<Longrightarrow> ul_salt u' = ul_salt u"
  shows "committed E (snd (dispatch_many E W change b))"
proof (cases "session b")
  case (Inr u)
  have salt: "length (ul_salt u) = 32" by (rule session_salt [OF assms(2) Inr])
  show ?thesis
  proof (cases "change u")
    case (Inr p)
    obtain removed u' where p: "p = (removed, u')" by force
    have "length (ul_salt u') = 32" using assms(3) Inr salt unfolding p by metis
    then have "committed E (snd (save_session E W (Inr u') b))" by (intro save_keeps assms) simp
    then show ?thesis using \<open>session b = Inr u\<close> Inr p
      by (auto simp: dispatch_many_def bindS_def readS_def retS_def split: prod.splits sum.splits)
  qed (use Inr in \<open>simp add: dispatch_many_def bindS_def readS_def\<close>)
qed (use assms in \<open>simp add: dispatch_many_def bindS_def readS_def\<close>)

lemma dispatch_keeps:
  assumes "cred_laws E" "committed E b"
  shows "committed E (snd (cred_dispatch E W request b))"
proof -
  have put: "preserves (committed E) (cred_put E W i v)" and delete: "preserves (committed E) (cred_delete E W i)" for i v
    using assms(1) by (auto intro!: preservesI put_keeps delete_keeps)
  have "preserves (committed E) (dispatch_one E W rpc params i)" for rpc params i
    unfolding dispatch_one_def by (intro preserves_intro put delete)
  then have one: "committed E (snd (dispatch_one E W rpc params i b))" for rpc params i
    using assms(2) by (simp add: preserves_def)
  have many: "committed E (snd (dispatch_many E W (delete_many E W params) b))" for params
    by (intro many_keeps assms) (rule delete_many_salt)
  have move: "committed E (snd (dispatch_many E W (\<lambda>u. bindR (move_many E W params u) (\<lambda>u. Inr ([], u))) b))" for params
    by (intro many_keeps assms) (auto simp: bindR_Inr_iff dest: move_many_salt)
  show ?thesis
    using one many move assms(2) by (auto simp: cred_dispatch_def bindS_def readS_def Let_def split: sum.splits)
qed

lemma cred_step_keeps:
  assumes "cred_laws E" "committed E b"
  shows "committed E (cred_step E ev b)"
  using assms
  by (cases ev) (simp_all add: unlock_keeps put_keeps delete_keeps change_keeps restore_keeps dispatch_keeps)

interpretation cred: invariant_component "\<lambda>b. cred_laws E \<longrightarrow> committed E b" "cred_step E" for E
  by unfold_locales (simp add: cred_step_keeps)

text \<open>
  A session never serves what is not on disk: over any history of the broker, with failing
  writes, refused unlocks, lock signals and restores, whenever a credential is resolved the records
  it is read from are exactly those of the snapshot in the vault's file, under the session's own key.
\<close>

theorem credentials_serve_committed:
  assumes "cred_laws E"
    and "cred_resolve E W caller i (cred_run E es (broker_new found)) = Inr v"
  shows "\<exists>u blob. session (cred_run E es (broker_new found)) = Inr u \<and> caller = ci_scope i \<and>
    br_file (cred_run E es (broker_new found)) = Some (CredFile (cred_magic @ ul_salt u) blob) \<and>
    cx_open E (ul_key u) blob = Some (ul_store u)"
proof -
  let ?b = "cred_run E es (broker_new found)"
  have "cred_laws E \<longrightarrow> committed E (broker_new found)" by (simp add: committed_def broker_new_def)
  from cred.run_keeps [of E, OF this, of es] have "committed E ?b" using assms(1) by (simp add: cred_run_def)
  then show ?thesis using assms(2) by (auto simp: cred_resolve_def bindR_Inr_iff session_Inr committed_def)
qed

section \<open>What a stored credential gives back\<close>

lemma cred_read_cong:
  assumes "ul_key u = ul_key u'" "bt_get (ul_store u) key = bt_get (ul_store u') key"
  shows "cred_read E W u key = cred_read E W u' key"
proof -
  have key: "cipher_key E u = cipher_key E u'" unfolding cipher_key_def assms(1) ..
  show ?thesis unfolding cred_read_def assms(2) key ..
qed

lemma cred_read_written:
  assumes "cred_laws E" "cred_write E W' n u key v = Inr u'" "kw_client W"
  shows "cred_read E W u' key = Inr (Some v)"
proof -
  obtain nonce c where w: "length nonce = 12" "cx_encrypt E (cipher_key E u) nonce key v = Some c"
      "u' = u\<lparr>ul_store := bt_insert key (nonce @ c) (ul_store u)\<rparr>"
    using cred_write_Inr [OF assms(2)] by blast
  have "cx_decrypt E (cipher_key E u) nonce key c = Some v" "16 \<le> length c"
    using assms(1) w(2) by (auto simp: cred_laws_def)
  then show ?thesis using w(1,3) assms(3) by (simp add: cred_read_def stronghold_def cipher_key_def)
qed

lemma read_other:
  assumes "cred_laws E" "cred_write E W' n u key v = Inr u'" "cred_key E i = Inr key" "cred_key E j = Inr key'" "j \<noteq> i"
  shows "cred_read E W u' key' = cred_read E W u key'"
proof -
  have "key' \<noteq> key" using assms(1,3,4,5) unfolding cred_laws_def by blast
  then show ?thesis using cred_write_Inr [OF assms(2)] by (intro cred_read_cong) auto
qed

lemma put_Inr:
  assumes "cred_put E W i v b = (Inr (), b')"
  shows "\<exists>u key u'. session b = Inr u \<and> cred_key E i = Inr key \<and> cred_write E W 0 u key v = Inr u' \<and> session b' = Inr u' \<and>
    br_file b' = Some (CredFile (cred_magic @ ul_salt u') (cx_seal E (kw_seed W) (ul_key u') (ul_store u')))"
proof -
  from assms [unfolded cred_put_def bindS_Inr_iff op_result_iffs] obtain u key where
    start: "session b = Inr u" "cred_key E i = Inr key" "save_session E W (cred_write E W 0 u key v) b = (Inr (), b')"
    by auto
  then obtain u' saved where done': "cred_write E W 0 u key v = Inr u'" "persisted E W u' = Inr saved"
      "b' = b\<lparr>br_session := Some u', br_file := Some saved\<rparr>"
    by (auto simp: save_session_def bindR_Inr_iff split: sum.splits)
  then have "session b' = Inr u'" using start(1) by (simp add: session_Inr is_locked_def)
  then show ?thesis using start done' persisted_Inr [OF done'(2)] by auto
qed

lemma unlock_Inr:
  assumes "cred_unlock E W password b = (Inr (), b')" "br_file b = Some found"
  shows "\<exists>u. load_snapshot E W (Some found) password = Inr u \<and> session b' = Inr u"
  using assms
  by (auto simp: cred_unlock_def open_vault_def Let_def cred_lock_def lock_signalled_def session_Inr is_locked_def
      bindR_Inr_iff split: sum.splits if_splits)

text \<open>
  A credential that was stored comes back, and only under its own scope: after a successful
  \<open>put\<close>, resolving it gives the value, resolving any other identifier gives what it gave before,
  and after a restart of the host any password that opens the vault resolves every identifier to
  the same as before the restart. A caller of another scope is refused.
\<close>

theorem credential_put_durable:
  assumes "cred_laws E" "kw_client W3"
    and "cred_put E W i v b = (Inr (), b')"
    and "cred_unlock E W2 password (broker_new (br_file b')) = (Inr (), b2)"
  shows "cred_resolve E W3 (ci_scope j) j b' = (if j = i then Inr (Some v) else cred_resolve E W3 (ci_scope j) j b)"
    and "cred_resolve E W3 (ci_scope j) j b2 = cred_resolve E W3 (ci_scope j) j b'"
    and "caller \<noteq> ci_scope j \<Longrightarrow> cred_resolve E W3 caller j b2 = Err ''CREDENTIAL_SCOPE_DENIED''"
proof -
  from put_Inr [OF assms(3)] obtain u key u' where put: "session b = Inr u" "cred_key E i = Inr key"
      "cred_write E W 0 u key v = Inr u'" "session b' = Inr u'"
      "br_file b' = Some (CredFile (cred_magic @ ul_salt u') (cx_seal E (kw_seed W) (ul_key u') (ul_store u')))" by blast
  show "cred_resolve E W3 (ci_scope j) j b' = (if j = i then Inr (Some v) else cred_resolve E W3 (ci_scope j) j b)"
  proof (cases "cred_key E j")
    case (Inr key')
    then show ?thesis
      using put(1,2,4) cred_read_written [OF assms(1) put(3) assms(2)] read_other [OF assms(1) put(3,2) Inr, of W3]
      by (cases "j = i") (simp_all add: cred_resolve_def)
  qed (use put in \<open>auto simp: cred_resolve_def\<close>)
  from unlock_Inr [OF assms(4)] put(5) obtain u2 where u2: "load_snapshot E W2 (br_file b') password = Inr u2" "session b2 = Inr u2"
    by (auto simp: broker_new_def)
  from load_snapshot_Inr [OF u2(1)] put(5)
  have "cx_open E (ul_key u2) (cx_seal E (kw_seed W) (ul_key u') (ul_store u')) = Some (ul_store u2)" by auto
  then have "ul_key u2 = ul_key u'" "ul_store u2 = ul_store u'"
    using assms(1) by (auto simp: cred_laws_def split: if_splits)
  then have "cred_read E W3 u2 = cred_read E W3 u'" by (intro ext cred_read_cong) auto
  then show "cred_resolve E W3 (ci_scope j) j b2 = cred_resolve E W3 (ci_scope j) j b'"
    using u2(2) put(4) by (simp add: cred_resolve_def)
  show "cred_resolve E W3 caller j b2 = Err ''CREDENTIAL_SCOPE_DENIED''" if "caller \<noteq> ci_scope j"
    using that by (simp add: cred_resolve_def)
qed

section \<open>Moving credentials\<close>

lemma cred_read_removed: "key \<noteq> gone \<Longrightarrow> cred_read E W (u\<lparr>ul_store := bt_remove gone (ul_store u)\<rparr>) key = cred_read E W u key"
  by (rule cred_read_cong) auto

lemma cred_read_gone: "kw_client W \<Longrightarrow> cred_read E W (u\<lparr>ul_store := bt_remove key (ul_store u)\<rparr>) key = Inr None"
  by (simp add: cred_read_def stronghold_def)

lemma cred_read_unwritten:
  assumes "cred_write E W' n u key v = Inr u'" "other \<noteq> key"
  shows "cred_read E W u' other = cred_read E W u other"
  using cred_write_Inr [OF assms(1)] assms(2) by (intro cred_read_cong) auto

text \<open>
  Moving two credentials to the same new identifier loses one of them: the conflict check
  compares each source with what the target held before, so two sources with different secrets
  pass it when the target is free; the call succeeds, the target then holds the second secret, and
  both sources are gone.
\<close>

theorem move_many_loses_secret:
  assumes "cred_laws E" "kw_client W"
    and "json_index params ''replacements'' = JObj [(a, JStr t), (b, JStr t)]"
    and "cred_key E (legacy_id a) = Inr ka" "cred_key E (legacy_id b) = Inr kb" "cred_key E (legacy_id t) = Inr kt"
    and "distinct [ka, kb, kt]"
    and "cred_read E W u ka = Inr (Some va)" "cred_read E W u kb = Inr (Some vb)" "cred_read E W u kt = Inr None"
    and "move_many E W params u = Inr u'"
  shows "cred_read E W u' kt = Inr (Some vb) \<and> cred_read E W u' ka = Inr None \<and> cred_read E W u' kb = Inr None"
proof -
  let ?drop = "\<lambda>k u. u\<lparr>ul_store := bt_remove k (ul_store u)\<rparr>"
  have keys: "ka \<noteq> kb" "kb \<noteq> kt" "ka \<noteq> kt" using assms(7) by auto
  have planned: "moves = [(ka, kt, va), (kb, kt, vb)]"
    if "plan_moves E W u [(a, JStr t), (b, JStr t)] = Inr moves" for moves
    using that by (simp add: bindR_Inr_iff assms(4-6,8-10))
  from assms(11) [unfolded move_many_def bindR_Inr_iff] assms(3) planned obtain u1 u2 where
    moved: "cred_write E W 0 u kt va = Inr u1" "cred_write E W 1 (?drop ka u1) kt vb = Inr u2" "u' = ?drop kb u2"
    using keys by (auto simp: bindR_Inr_iff)
  have "cred_read E W u' kt = cred_read E W u2 kt"
    unfolding moved(3) by (rule cred_read_removed) (use keys in auto)
  also have "\<dots> = Inr (Some vb)" by (rule cred_read_written [OF assms(1) moved(2) assms(2)])
  finally have "cred_read E W u' kt = Inr (Some vb)" .
  moreover have "cred_read E W u' ka = cred_read E W (?drop ka u1) ka"
    unfolding moved(3) using keys by (simp add: cred_read_removed cred_read_unwritten [OF moved(2)])
  ultimately show ?thesis unfolding moved(3) by (simp add: cred_read_gone [OF assms(2)])
qed

section \<open>Example values\<close>

fun demo_json :: "cred_id \<Rightarrow> string option" where
  "demo_json i =
     Some (case ci_scope i of
       ScopeProvider \<Rightarrow> ''0|'' @ ci_id i
     | ScopePlugin owner \<Rightarrow> ''1'' @ owner @ ''|'' @ ci_id i
     | ScopeMcp owner \<Rightarrow> ''2'' @ owner @ ''|'' @ ci_id i
     | ScopeSync owner \<Rightarrow> ''3'' @ owner @ ''|'' @ ci_id i)"

definition demo_cred_env :: "(string \<times> cred_store) cred_env" where
  "demo_cred_env = \<lparr>cx_kdf = (\<lambda>password salt. Some password), cx_sha = id,
     cx_encrypt = (\<lambda>k n a m. Some (replicate 16 (CHR ''t'') @ m)), cx_decrypt = (\<lambda>k n a c. Some (drop 16 c)),
     cx_seal = (\<lambda>r k s. (k, s)), cx_open = (\<lambda>k (k', s). if k = k' then Some s else None), cx_size = (\<lambda>_. 0),
     cx_json = demo_json, cx_unjson = (\<lambda>_. None)\<rparr>"

lemma name_no_bar: "cred_name_ok v \<Longrightarrow> CHR ''|'' \<notin> set v"
  by (auto simp: cred_name_ok_def list_all_iff ascii_defs)

lemma bar_split:
  "CHR ''|'' \<notin> set a \<Longrightarrow> CHR ''|'' \<notin> set b \<Longrightarrow> a @ CHR ''|'' # x = b @ CHR ''|'' # y \<longleftrightarrow> a = b \<and> x = y"
proof (induction a arbitrary: b)
  case (Cons c a)
  then show ?case by (cases b) auto
qed (auto simp: Cons_eq_append_conv)

lemmas name_split = bar_split [OF name_no_bar name_no_bar]

lemma demo_cred_laws: "cred_laws demo_cred_env"
  unfolding cred_laws_def
proof (intro conjI allI impI)
  fix i j s
  assume keys: "cred_key demo_cred_env i = Inr s \<and> cred_key demo_cred_env j = Inr s"
  then have "scope_ok (ci_scope i) (ci_id i)" "scope_ok (ci_scope j) (ci_id j)" "demo_json i = demo_json j"
    by (auto simp: cred_key_def bindR_Inr_iff demo_cred_env_def simp del: demo_json.simps)
  then show "i = j"
    by (cases "ci_scope i"; cases "ci_scope j") (simp_all add: name_split cred_id.equality)
qed (auto simp: demo_cred_env_def)


definition demo_cred_world :: cred_world where
  "demo_cred_world = \<lparr>kw_entropy = (\<lambda>_. True), kw_byte = (\<lambda>_ _. CHR ''n''), kw_client = True, kw_owner = None,
     kw_read = None, kw_temp = None, kw_persist = None, kw_seed = 0, kw_signals = 0\<rparr>"

definition demo_key_id :: cred_id where
  "demo_key_id = \<lparr>ci_scope = ScopeMcp ''m'', ci_id = ''k''\<rparr>"

abbreviation demo_password :: string where "demo_password \<equiv> ''password 1234''"

definition demo_salt :: string where "demo_salt = replicate 32 (CHR ''n'')"

definition demo_sealed :: "string \<Rightarrow> string" where
  "demo_sealed v = replicate 12 (CHR ''n'') @ replicate 16 (CHR ''t'') @ v"

definition demo_unlocked :: "cred_store \<Rightarrow> unlocked" where
  "demo_unlocked records = \<lparr>ul_key = demo_password, ul_salt = demo_salt, ul_store = records\<rparr>"

definition demo_broker :: "64 word \<Rightarrow> cred_store \<Rightarrow> (string \<times> cred_store) broker" where
  "demo_broker epoch records = \<lparr>br_file = Some (CredFile (cred_magic @ demo_salt) (demo_password, records)),
     br_session = Some (demo_unlocked records), br_owned = True, br_epoch = epoch, br_unlocked_epoch = epoch\<rparr>"

lemma demo_draw: "draw demo_cred_world i n = Inr (replicate n (CHR ''n''))"
  by (simp add: draw_def demo_cred_world_def map_replicate_const)

lemma demo_derive: "derive demo_cred_env demo_password demo_salt = Inr (demo_unlocked [])"
  by (simp add: derive_def demo_cred_env_def demo_unlocked_def)

lemma demo_persisted:
  "persisted demo_cred_env demo_cred_world (demo_unlocked records) = Inr (CredFile (cred_magic @ demo_salt) (demo_password, records))"
  by (simp add: persisted_def passes_def demo_cred_world_def demo_cred_env_def demo_unlocked_def)

lemma demo_first_unlock:
  "cred_unlock demo_cred_env demo_cred_world demo_password (broker_new None) = (Inr (), demo_broker 1 [])"
  using demo_draw [of 0 32] demo_derive demo_persisted [of "[]"]
  by (simp add: cred_unlock_def open_vault_def broker_new_def cred_lock_def lock_signalled_def Let_def passes_def stronghold_def
      demo_broker_def) (simp add: demo_cred_world_def demo_salt_def)

lemma demo_key: "cred_key demo_cred_env demo_key_id = Inr ''2m|k''"
  by (simp add: cred_key_def demo_key_id_def cred_name_ok_def ascii_defs demo_cred_env_def)

lemma demo_write:
  assumes "v \<noteq> []" "length v \<le> 65536"
  shows "cred_write demo_cred_env demo_cred_world i (demo_unlocked records) key v =
    Inr (demo_unlocked (bt_insert key (demo_sealed v) records))"
  using assms
  by (simp add: cred_write_def demo_draw stronghold_def) (simp add: demo_cred_env_def demo_cred_world_def demo_unlocked_def demo_sealed_def)

lemma demo_session: "session (demo_broker epoch records) = Inr (demo_unlocked records)"
  by (simp add: session_def is_locked_def demo_broker_def)

lemma demo_put:
  "cred_put demo_cred_env demo_cred_world demo_key_id ''sec'' (demo_broker 1 []) = (Inr (), demo_broker 1 [(''2m|k'', demo_sealed ''sec'')])"
  by (simp add: cred_put_def op_run demo_session demo_key save_session_def demo_write demo_persisted) (simp add: demo_broker_def)

lemma demo_read:
  "cred_read demo_cred_env demo_cred_world (demo_unlocked records) key = Inr (Some v)" if "bt_get records key = Some (demo_sealed v)"
  using that
  by (simp add: cred_read_def stronghold_def demo_unlocked_def) (simp add: demo_cred_env_def demo_cred_world_def demo_sealed_def)

lemma demo_cred_resolve:
  "cred_resolve demo_cred_env demo_cred_world (ci_scope demo_key_id) demo_key_id (demo_broker 1 [(''2m|k'', demo_sealed ''sec'')]) =
     Inr (Some ''sec'')"
  by (simp add: cred_resolve_def demo_session demo_key demo_read bt_get_def)

lemma demo_second_unlock:
  "cred_unlock demo_cred_env demo_cred_world demo_password (broker_new (br_file (demo_broker 1 records))) = (Inr (), demo_broker 1 records)"
proof -
  have "load_snapshot demo_cred_env demo_cred_world (Some (CredFile (cred_magic @ demo_salt) (demo_password, records))) demo_password =
      Inr (demo_unlocked records)"
    by (simp add: load_snapshot_def demo_derive cred_magic_def max_cred_file_def passes_def demo_unlocked_def)
      (simp add: demo_cred_env_def demo_cred_world_def demo_salt_def)
  then show ?thesis
    by (simp add: cred_unlock_def open_vault_def broker_new_def cred_lock_def lock_signalled_def Let_def passes_def demo_broker_def)
      (simp add: demo_cred_world_def)
qed

theorem credentials_serve_committed_witness:
  "\<exists>(u :: unlocked) blob. br_file (demo_broker 1 [(''2m|k'', demo_sealed ''sec'')]) = Some (CredFile (cred_magic @ ul_salt u) blob) \<and>
     cx_open demo_cred_env (ul_key u) blob = Some (ul_store u)"
proof -
  have run: "cred_run demo_cred_env [EvUnlock demo_cred_world demo_password, EvPut demo_cred_world demo_key_id ''sec''] (broker_new None) =
      demo_broker 1 [(''2m|k'', demo_sealed ''sec'')]"
    by (simp add: cred_run_def demo_first_unlock demo_put)
  from credentials_serve_committed [OF demo_cred_laws demo_cred_resolve [folded run]] show ?thesis unfolding run by blast
qed

theorem credential_put_durable_witness:
  "\<exists>b2 :: (string \<times> cred_store) broker.
     cred_resolve demo_cred_env demo_cred_world (ScopeMcp ''m'') demo_key_id b2 = Inr (Some ''sec'') \<and>
     cred_resolve demo_cred_env demo_cred_world ScopeProvider demo_key_id b2 = Err ''CREDENTIAL_SCOPE_DENIED''"
proof -
  have client: "kw_client demo_cred_world" by (simp add: demo_cred_world_def)
  note facts = credential_put_durable [OF demo_cred_laws client demo_put demo_second_unlock]
  show ?thesis
    using facts(1) [of demo_key_id] facts(2) [of demo_key_id] facts(3) [of ScopeProvider demo_key_id]
    by (intro exI [of _ "demo_broker 1 [(''2m|k'', demo_sealed ''sec'')]"]) (simp add: demo_key_id_def)
qed

lemma demo_unlocked_simps:
  "(demo_unlocked records)\<lparr>ul_store := records'\<rparr> = demo_unlocked records'" "ul_store (demo_unlocked records) = records"
  by (simp_all add: demo_unlocked_def)

definition demo_params :: json where
  "demo_params = JObj [(''replacements'', JObj [(''a'', JStr ''c''), (''b'', JStr ''c'')])]"

lemma demo_legacy_key: "cred_key demo_cred_env (legacy_id [c]) = Inr (''0|'' @ [c])" if "c \<in> set ''abc''"
  using that
  by (auto simp: cred_key_def legacy_id_def strip_prefix_def starts_with_def cred_name_ok_def ascii_defs demo_cred_env_def)

theorem move_many_loses_secret_witness:
  "\<exists>u'. cred_read demo_cred_env demo_cred_world u' ''0|c'' = Inr (Some ''y'') \<and> cred_read demo_cred_env demo_cred_world u' ''0|a'' = Inr None"
proof -
  let ?u = "demo_unlocked [(''0|a'', demo_sealed ''x''), (''0|b'', demo_sealed ''y'')]"
  have ids: "cred_key demo_cred_env (legacy_id ''a'') = Inr ''0|a''" "cred_key demo_cred_env (legacy_id ''b'') = Inr ''0|b''"
      "cred_key demo_cred_env (legacy_id ''c'') = Inr ''0|c''"
    using demo_legacy_key [of "CHR ''a''"] demo_legacy_key [of "CHR ''b''"] demo_legacy_key [of "CHR ''c''"] by simp_all
  have client: "kw_client demo_cred_world" by (simp add: demo_cred_world_def)
  have reads: "cred_read demo_cred_env demo_cred_world ?u ''0|a'' = Inr (Some ''x'')"
      "cred_read demo_cred_env demo_cred_world ?u ''0|b'' = Inr (Some ''y'')" "cred_read demo_cred_env demo_cred_world ?u ''0|c'' = Inr None"
    by (simp_all add: demo_read bt_get_def) (simp add: cred_read_def stronghold_def client demo_unlocked_def bt_get_def)
  have set: "json_index demo_params ''replacements'' = JObj [(''a'', JStr ''c''), (''b'', JStr ''c'')]"
    by (simp add: demo_params_def json_index_def)
  have "\<exists>u'. move_many demo_cred_env demo_cred_world demo_params ?u = Inr u'"
    using reads ids set
    by (simp add: move_many_def moves_overlap_def demo_write) (simp add: legacy_id_def strip_prefix_def starts_with_def demo_write demo_unlocked_simps)
  then obtain u' where "move_many demo_cred_env demo_cred_world demo_params ?u = Inr u'" by blast
  from move_many_loses_secret [OF demo_cred_laws client set ids _ reads this] show ?thesis by auto
qed

end
