(* ===== verification/Host_Text.thy ===== *)
theory Host_Text
  imports Host_Prelude
begin

text \<open>
  Text as the host inspects it: the scalar values of a UTF-8 string with the classes of Rust's
  \<open>char\<close>, file names and extensions of \<open>std::path::Path\<close>, and finite floating point numbers.
\<close>

section \<open>Scalar values\<close>

abbreviation byte_val :: "char \<Rightarrow> nat" where
  "byte_val c \<equiv> of_char c"

fun scalar_value :: "char \<Rightarrow> string \<Rightarrow> nat" where
  "scalar_value a [] = byte_val a"
| "scalar_value a [b] = (byte_val a - 192) * 64 + (byte_val b - 128)"
| "scalar_value a [b, c] = (byte_val a - 224) * 4096 + (byte_val b - 128) * 64 + (byte_val c - 128)"
| "scalar_value a (b # c # d # _) =
     (byte_val a - 240) * 262144 + (byte_val b - 128) * 4096 + (byte_val c - 128) * 64 + (byte_val d - 128)"

text \<open>\<open>str::chars\<close>; a byte that starts no scalar value, which a \<open>str\<close> never has, yields the
  replacement character.\<close>

fun str_chars :: "string \<Rightarrow> nat list" where
  "str_chars [] = []"
| "str_chars (a # r) =
     (case utf8_tail a r of
        None \<Rightarrow> 65533 # str_chars r
      | Some n \<Rightarrow> scalar_value a (take n r) # str_chars (drop n r))"

definition char_is_control :: "nat \<Rightarrow> bool" where
  "char_is_control c \<longleftrightarrow> c < 32 \<or> (127 \<le> c \<and> c \<le> 159)"

definition char_is_whitespace :: "nat \<Rightarrow> bool" where
  "char_is_whitespace c \<longleftrightarrow>
     (9 \<le> c \<and> c \<le> 13) \<or> c \<in> {32, 133, 160, 5760} \<or> (8192 \<le> c \<and> c \<le> 8202) \<or>
     c \<in> {8232, 8233, 8239, 8287, 12288}"

definition chars_count :: "string \<Rightarrow> nat" where
  "chars_count s = length (str_chars s)"

text \<open>\<open>s.trim().is_empty()\<close>\<close>

definition blank :: "string \<Rightarrow> bool" where
  "blank s \<longleftrightarrow> list_all char_is_whitespace (str_chars s)"

lemma chars_count_le: "chars_count s \<le> length s"
proof -
  have "length (str_chars s) \<le> length s"
  proof (induction s rule: str_chars.induct)
    case (2 a r)
    then show ?case by (cases "utf8_tail a r") (auto intro: le_trans)
  qed simp
  then show ?thesis by (simp add: chars_count_def)
qed

lemma utf8_tail_ascii: "byte_in 0 127 a \<Longrightarrow> utf8_tail a r = Some 0"
  by (simp add: utf8_tail_def)

lemma str_chars_ascii: "list_all (byte_in 0 127) s \<Longrightarrow> str_chars s = map of_char s"
  by (induction s) (auto simp: utf8_tail_ascii)

section \<open>File names\<close>

text \<open>
  The components of a relative path (\<open>Path::components\<close>): separators may repeat, and a dot
  stands for nothing except at the front.
\<close>

datatype path_component = CurDir | ParentDir | Normal string

definition component_of :: "string \<Rightarrow> path_component" where
  "component_of p = (if p = ''..'' then ParentDir else Normal p)"

definition path_components :: "string \<Rightarrow> path_component list" where
  "path_components s =
     (case split_on (CHR ''/'') s of
        [] \<Rightarrow> []
      | p # ps \<Rightarrow>
          (if p = ''.'' then [CurDir] else if p = [] then [] else [component_of p]) @
          map component_of (filter (\<lambda>q. q \<noteq> [] \<and> q \<noteq> ''.'') ps))"

fun file_name :: "string \<Rightarrow> string option" where
  "file_name s =
     (case rev (path_components s) of Normal n # _ \<Rightarrow> Some n | _ \<Rightarrow> None)"

text \<open>\<open>Path::extension\<close>: what follows the last dot of the file name, when something precedes it.\<close>

definition name_extension :: "string \<Rightarrow> string option" where
  "name_extension n =
     (case rev (split_on (CHR ''.'') n) of
        e # f # rest \<Rightarrow> if rest = [] \<and> f = [] then None else Some e
      | _ \<Rightarrow> None)"

definition path_extension :: "string \<Rightarrow> string option" where
  "path_extension s = (case file_name s of None \<Rightarrow> None | Some n \<Rightarrow> name_extension n)"

lemma name_extension_suffix:
  assumes "name_extension n = Some e"
  shows "\<exists>stem. stem \<noteq> [] \<and> n = stem @ CHR ''.'' # e"
proof -
  from assms obtain f rest where parts: "rev (split_on (CHR ''.'') n) = e # f # rest"
      and ne: "\<not> (rest = [] \<and> f = [])"
    by (auto simp: name_extension_def split: list.splits if_splits)
  then have sp: "split_on (CHR ''.'') n = rev rest @ [f] @ [e]"
    by (metis append_Cons append_Nil append_assoc rev.simps(2) rev_rev_ident)
  have join: "join_with d (ps @ [e]) = join_with d ps @ d # e" if "ps \<noteq> []" for d :: char and ps e
    using that by (induction d ps rule: join_with.induct) auto
  have "n = join_with (CHR ''.'') (rev rest @ [f]) @ CHR ''.'' # e"
    using join_split [of "CHR ''.''" n] join [of "rev rest @ [f]" "CHR ''.''" e] by (simp add: sp)
  moreover have "join_with (CHR ''.'') (rev rest @ [f]) \<noteq> []"
    using ne join [of "rev rest" "CHR ''.''" f] by (cases "rest = []") auto
  ultimately show ?thesis by blast
qed

section \<open>Finite floating point numbers\<close>

text \<open>A finite \<open>f64\<close> is an integer times a power of two; comparing it with an integer bound is
  exact.\<close>

definition f64_le :: "int \<Rightarrow> int \<Rightarrow> int \<Rightarrow> bool" where
  "f64_le m e k \<longleftrightarrow> (if 0 \<le> e then m * 2 ^ nat e \<le> k else m \<le> k * 2 ^ nat (- e))"

definition f64_ge :: "int \<Rightarrow> int \<Rightarrow> int \<Rightarrow> bool" where
  "f64_ge m e k \<longleftrightarrow> (if 0 \<le> e then k \<le> m * 2 ^ nat e else k * 2 ^ nat (- e) \<le> m)"

text \<open>\<open>as_f64\<close> followed by a range test; rounding an integer to \<open>f64\<close> does not move it across a
  bound that is itself representable.\<close>

fun json_in_range :: "int \<Rightarrow> int \<Rightarrow> json \<Rightarrow> bool" where
  "json_in_range lo hi (JInt i) \<longleftrightarrow> lo \<le> i \<and> i \<le> hi"
| "json_in_range lo hi (JFloat m e) \<longleftrightarrow> f64_ge m e lo \<and> f64_le m e hi"
| "json_in_range lo hi _ \<longleftrightarrow> False"

end
