(* ===== verification/Extension_Launch_Data.thy ===== *)
theory Extension_Launch_Data
  imports BTree_Map Host_Text
begin

text \<open>
  The start data of an extension process on Windows (\<open>extension_launch_data.rs\<close>): the command
  line the C runtime splits into arguments and the environment block, both of 16-bit units. The
  reference definitions are the documented readers of the two: the argument rules of the C
  runtime and the block of terminated \<open>NAME=value\<close> strings.
\<close>

section \<open>Windows text and paths\<close>

type_synonym units = "16 word list"

definition scalar_units :: "nat \<Rightarrow> units" where
  "scalar_units c =
     (if c < 65536 then [of_nat c]
      else [of_nat (55296 + (c - 65536) div 1024), of_nat (56320 + (c - 65536) mod 1024)])"

text \<open>\<open>str::encode_utf16\<close>\<close>

definition encode_utf16 :: "string \<Rightarrow> units" where
  "encode_utf16 s = concat (map scalar_units (str_chars s))"

text \<open>
  A path in its normal spelling: the prefix with its root, where it has one, and the components
  after it.
\<close>

datatype win_root = Drive "16 word" | VerbatimDrive "16 word" | Unc units units | VerbatimUnc units units

record win_path =
  wp_root :: "win_root option"
  wp_parts :: "units list"

fun root_text :: "win_root \<Rightarrow> units" where
  "root_text (Drive d) = [d, 58, 92]"
| "root_text (VerbatimDrive d) = [92, 92, 63, 92, d, 58, 92]"
| "root_text (Unc server share) = [92, 92] @ server @ [92] @ share @ [92]"
| "root_text (VerbatimUnc server share) = [92, 92, 63, 92, 85, 78, 67, 92] @ server @ [92] @ share @ [92]"

text \<open>\<open>as_os_str().encode_wide()\<close>\<close>

definition path_units :: "win_path \<Rightarrow> units" where
  "path_units p = (case wp_root p of None \<Rightarrow> [] | Some r \<Rightarrow> root_text r) @ join_with 92 (wp_parts p)"

definition is_absolute :: "win_path \<Rightarrow> bool" where
  "is_absolute p \<longleftrightarrow> wp_root p \<noteq> None"

definition unit_lower :: "16 word \<Rightarrow> 16 word" where
  "unit_lower u = (if 65 \<le> u \<and> u \<le> 90 then u + 32 else u)"

definition units_eq_ignore_case :: "units \<Rightarrow> units \<Rightarrow> bool" where
  "units_eq_ignore_case a b \<longleftrightarrow> map unit_lower a = map unit_lower b"

definition win_file_name :: "win_path \<Rightarrow> units option" where
  "win_file_name p = (if wp_parts p = [] \<or> last (wp_parts p) = [46, 46] then None else Some (last (wp_parts p)))"

definition win_parent :: "win_path \<Rightarrow> win_path option" where
  "win_parent p = (if wp_parts p = [] then None else Some (p\<lparr>wp_parts := butlast (wp_parts p)\<rparr>))"

text \<open>\<open>Path::extension\<close>: what follows the last dot of the file name, unless that dot is its first
  character or there is none.\<close>

definition win_extension :: "win_path \<Rightarrow> units option" where
  "win_extension p =
     (case win_file_name p of
        None \<Rightarrow> None
      | Some name \<Rightarrow>
          (let after = takeWhile (\<lambda>u. u \<noteq> 46) (rev name)
           in if length after + 1 < length name then Some (rev after) else None))"

text \<open>\<open>ancestors().nth(n)\<close>\<close>

definition win_ancestor :: "nat \<Rightarrow> win_path \<Rightarrow> win_path option" where
  "win_ancestor n p =
     (if n \<le> length (wp_parts p) then Some (p\<lparr>wp_parts := take (length (wp_parts p) - n) (wp_parts p)\<rparr>) else None)"

text \<open>Prefixes compare by kind and drive letter, without regard to its case.\<close>

fun same_root :: "win_root option \<Rightarrow> win_root option \<Rightarrow> bool" where
  "same_root (Some (Drive a)) (Some (Drive b)) = (unit_lower a = unit_lower b)"
| "same_root (Some (VerbatimDrive a)) (Some (VerbatimDrive b)) = (unit_lower a = unit_lower b)"
| "same_root a b = (a = b)"

definition win_strip_prefix :: "win_path \<Rightarrow> win_path \<Rightarrow> units list option" where
  "win_strip_prefix p base =
     (if same_root (wp_root p) (wp_root base) \<and> take (length (wp_parts base)) (wp_parts p) = wp_parts base
      then Some (drop (length (wp_parts base)) (wp_parts p)) else None)"

text \<open>\<open>visible_container_paths\<close>\<close>

definition visible_container_paths :: "win_path \<Rightarrow> win_path \<Rightarrow> win_path \<times> win_path" where
  "visible_container_paths local_app_data scratch =
     (let is_ac = (case win_file_name local_app_data of None \<Rightarrow> False | Some n \<Rightarrow> units_eq_ignore_case n [65, 67]);
          is_package =
            (case Option.bind (Option.bind (win_parent local_app_data) win_parent) win_file_name of
               None \<Rightarrow> False
             | Some n \<Rightarrow> units_eq_ignore_case n (encode_utf16 ''Packages''))
      in if is_ac \<and> is_package
         then (case (win_ancestor 3 local_app_data, win_strip_prefix scratch local_app_data) of
                 (Some base, Some relative) \<Rightarrow> (base, base\<lparr>wp_parts := wp_parts base @ relative\<rparr>)
               | _ \<Rightarrow> (local_app_data, scratch))
         else (local_app_data, scratch))"

section \<open>The command line\<close>

record launch_data =
  ld_command :: units
  ld_environment :: units
  ld_scratch :: win_path

abbreviation launch_bad :: "'a result" where
  "launch_bad \<equiv> Err ''EXTENSION_LAUNCH_DATA_INVALID''"

text \<open>The executable between quotes.\<close>

definition program_units :: "win_path \<Rightarrow> units result" where
  "program_units executable =
     (let wide = path_units executable
      in if 0 \<in> set wide \<or> 34 \<in> set wide \<or> 32764 < length wide then launch_bad
         else Inr ([34] @ wide @ [34]))"

text \<open>The length of a quoted argument, computed before anything is written.\<close>

fun encoded_len :: "nat \<Rightarrow> units \<Rightarrow> nat" where
  "encoded_len trailing [] = trailing * 2"
| "encoded_len trailing (u # us) =
     (if u = 92 then encoded_len (trailing + 1) us
      else (if u = 34 then trailing * 2 + 2 else trailing + 1) + encoded_len 0 us)"

fun quoted_units :: "nat \<Rightarrow> units \<Rightarrow> units" where
  "quoted_units slashes [] = replicate (slashes * 2) 92"
| "quoted_units slashes (u # us) =
     (if u = 92 then quoted_units (slashes + 1) us
      else replicate (if u = 34 then slashes * 2 + 1 else slashes) 92 @ [u] @ quoted_units 0 us)"

definition push_argument :: "units \<Rightarrow> string \<Rightarrow> units result" where
  "push_argument command argument =
     (if 8192 < length argument \<or> CHR 0x00 \<in> set argument then launch_bad
      else if 32767 < length command + 3 + encoded_len 0 (encode_utf16 argument) + 1 then launch_bad
      else let command = command @ [32, 34] @ quoted_units 0 (encode_utf16 argument) @ [34]
           in if 32767 \<le> length command then launch_bad else Inr command)"

fun push_arguments :: "units \<Rightarrow> string list \<Rightarrow> units result" where
  "push_arguments command [] = Inr command"
| "push_arguments command (a # arguments) = bindR (push_argument command a) (\<lambda>command. push_arguments command arguments)"

definition command_line :: "win_path \<Rightarrow> string list \<Rightarrow> units result" where
  "command_line executable arguments =
     bindR (program_units executable) (\<lambda>program.
     bindR (push_arguments program arguments) (\<lambda>command.
     if 32767 < length (command @ [0]) then launch_bad else Inr (command @ [0])))"

section \<open>The environment block\<close>

type_synonym env_fields = "(string \<times> units) list"

fun host_fields :: "(string \<times> win_path) list \<Rightarrow> env_fields \<Rightarrow> env_fields result" where
  "host_fields [] env = Inr env"
| "host_fields ((name, path) # rest) env =
     (if \<not> is_absolute path then launch_bad else host_fields rest (bt_insert name (path_units path) env))"

definition env_name_ok :: "string \<Rightarrow> bool" where
  "env_name_ok name \<longleftrightarrow>
     name \<noteq> '''' \<and> length name \<le> 128 \<and> list_all (\<lambda>b. is_ascii_alphanumeric b \<or> b = CHR ''_'') name"

fun declared_fields :: "(string \<times> string) list \<Rightarrow> env_fields \<Rightarrow> env_fields result" where
  "declared_fields [] env = Inr env"
| "declared_fields ((name, v) # rest) env =
     (if \<not> env_name_ok name \<or> 8192 < length v then launch_bad
      else if bt_get env (to_ascii_uppercase name) \<noteq> None then launch_bad
      else declared_fields rest (bt_insert (to_ascii_uppercase name) (encode_utf16 v) env))"

definition push_field :: "units \<Rightarrow> string \<times> units \<Rightarrow> units result" where
  "push_field block = (\<lambda>(name, v).
     if 32767 < length block + length name + length v + 3 then launch_bad
     else if 0 \<in> set v then launch_bad
     else let block = block @ encode_utf16 name @ [61] @ v @ [0]
          in if 32767 \<le> length block then launch_bad else Inr block)"

fun push_fields :: "units \<Rightarrow> env_fields \<Rightarrow> units result" where
  "push_fields block [] = Inr block"
| "push_fields block (f # env) = bindR (push_field block f) (\<lambda>block. push_fields block env)"

definition environment_fields :: "win_path \<Rightarrow> win_path \<Rightarrow> win_path \<Rightarrow> (string \<times> string) list \<Rightarrow> env_fields result" where
  "environment_fields system_root local_app_data scratch declared =
     (let (visible_local_app_data, visible_scratch) = visible_container_paths local_app_data scratch
      in bindR (host_fields [(''SYSTEMROOT'', system_root), (''LOCALAPPDATA'', visible_local_app_data),
            (''TEMP'', visible_scratch), (''TMP'', visible_scratch)] []) (\<lambda>env.
         declared_fields declared env))"

definition environment_block :: "env_fields \<Rightarrow> units result" where
  "environment_block env = bindR (push_fields [] env) (\<lambda>block. Inr (block @ [0]))"

text \<open>\<open>LaunchData::new\<close>\<close>

definition launch_data_new ::
  "win_path \<Rightarrow> string list \<Rightarrow> win_path \<Rightarrow> win_path \<Rightarrow> win_path \<Rightarrow> (string \<times> string) list \<Rightarrow> launch_data result" where
  "launch_data_new executable arguments system_root local_app_data scratch declared =
     (if \<not> is_absolute executable \<or>
         \<not> (case win_extension executable of None \<Rightarrow> False | Some e \<Rightarrow> units_eq_ignore_case e [101, 120, 101]) \<or>
         128 < length arguments \<or> 128 < length declared
      then launch_bad
      else bindR (command_line executable arguments) (\<lambda>command.
           bindR (environment_fields system_root local_app_data scratch declared) (\<lambda>env.
           bindR (environment_block env) (\<lambda>environment.
           Inr \<lparr>ld_command = command, ld_environment = environment, ld_scratch = scratch\<rparr>))))"

section \<open>The readers of the two\<close>

text \<open>
  The argument rules of the C runtime, as its documentation states them. Outside quotes a space or
  tab ends the argument; \<open>2n\<close> backslashes before a quote stand for \<open>n\<close> and the quote opens or closes
  a quoted part; \<open>2n + 1\<close> stand for \<open>n\<close> and the quote for itself; backslashes before anything else
  stand for themselves; two quotes inside a quoted part stand for one.
\<close>

fun crt_argument :: "bool \<Rightarrow> nat \<Rightarrow> units \<Rightarrow> units \<Rightarrow> units \<times> units" where
  "crt_argument quoted slashes acc [] = (acc @ replicate slashes 92, [])"
| "crt_argument quoted slashes acc (u # us) =
     (if u = 92 then crt_argument quoted (slashes + 1) acc us
      else if u = 34 then
        (let acc = acc @ replicate (slashes div 2) 92
         in if odd slashes then crt_argument quoted 0 (acc @ [34]) us
            else if quoted then
              (case us of
                 v # vs \<Rightarrow> if v = 34 then crt_argument True 0 (acc @ [34]) vs else crt_argument False 0 acc us
               | [] \<Rightarrow> (acc, []))
            else crt_argument True 0 acc us)
      else if \<not> quoted \<and> (u = 32 \<or> u = 9) then (acc @ replicate slashes 92, u # us)
      else crt_argument quoted 0 (acc @ replicate slashes 92 @ [u]) us)"

definition is_gap :: "16 word \<Rightarrow> bool" where
  "is_gap u \<longleftrightarrow> u = 32 \<or> u = 9"

lemma crt_argument_shorter: "length (snd (crt_argument quoted slashes acc us)) \<le> length us"
proof (induction us arbitrary: quoted slashes acc rule: length_induct)
  case (1 us)
  show ?case
  proof (cases us)
    case (Cons u vs)
    have one: "length (snd (crt_argument q n a vs)) \<le> Suc (length vs)" for q n a
      using 1 [rule_format, of vs] Cons by (simp add: le_SucI)
    have two: "length (snd (crt_argument q n a (tl vs))) \<le> Suc (length vs)" if "vs \<noteq> []" for q n a
      using 1 [rule_format, of "tl vs" q n a] Cons that by (cases vs) auto
    show ?thesis
      by (cases vs) (use one two in \<open>simp_all add: Cons Let_def\<close>)
  qed simp
qed

lemma crt_argument_takes:
  assumes "\<not> is_gap u"
  shows "length (snd (crt_argument quoted slashes acc (u # us))) \<le> length us"
proof -
  have two: "length (snd (crt_argument q n a (tl us))) \<le> length us" for q n a
    by (rule order_trans [OF crt_argument_shorter]) simp
  show ?thesis
    using assms two crt_argument_shorter [where us = us]
    by (cases us) (simp_all add: Let_def is_gap_def)
qed

function crt_arguments :: "units \<Rightarrow> units list" where
  "crt_arguments us =
     (case dropWhile is_gap us of
        [] \<Rightarrow> []
      | u # vs \<Rightarrow> fst (crt_argument False 0 [] (u # vs)) # crt_arguments (snd (crt_argument False 0 [] (u # vs))))"
  by pat_completeness auto

termination
proof (relation "measure length")
  fix us u vs
  assume drop: "dropWhile is_gap us = u # vs"
  have "\<not> is_gap u" using drop by (metis dropWhile_eq_Cons_conv)
  then have "length (snd (crt_argument False 0 [] (u # vs))) < length (u # vs)"
    using crt_argument_takes [of u False 0 "[]" vs] by simp
  also have "\<dots> \<le> length us" using drop by (metis length_dropWhile_le)
  finally show "(snd (crt_argument False 0 [] (u # vs)), us) \<in> measure length" by simp
qed simp

declare crt_arguments.simps [simp del]

text \<open>The program name is read first: quotes delimit, backslashes are ordinary.\<close>

fun crt_program :: "bool \<Rightarrow> units \<Rightarrow> units \<times> units" where
  "crt_program quoted [] = ([], [])"
| "crt_program quoted (u # us) =
     (if u = 34 then crt_program (\<not> quoted) us
      else if \<not> quoted \<and> is_gap u then ([], u # us)
      else (u # fst (crt_program quoted us), snd (crt_program quoted us)))"

definition crt_argv :: "units \<Rightarrow> units list" where
  "crt_argv line = fst (crt_program False line) # crt_arguments (snd (crt_program False line))"

text \<open>An environment block: strings that end with a zero unit, up to an empty one.\<close>

function env_read :: "units \<Rightarrow> (units \<times> units) list" where
  "env_read us =
     (case takeWhile (\<lambda>u. u \<noteq> 0) us of
        [] \<Rightarrow> []
      | e # es \<Rightarrow> (takeWhile (\<lambda>u. u \<noteq> 61) (e # es), tl (dropWhile (\<lambda>u. u \<noteq> 61) (e # es))) #
                 env_read (tl (dropWhile (\<lambda>u. u \<noteq> 0) us)))"
  by pat_completeness auto

termination
proof (relation "measure length")
  fix us e es
  assume take: "takeWhile (\<lambda>u. u \<noteq> (0 :: 16 word)) us = e # es"
  have "length us = length (takeWhile (\<lambda>u. u \<noteq> 0) us) + length (dropWhile (\<lambda>u. u \<noteq> 0) us)"
    by (metis length_append takeWhile_dropWhile_id)
  then show "(tl (dropWhile (\<lambda>u. u \<noteq> 0) us), us) \<in> measure length" using take by simp
qed simp

declare env_read.simps [simp del]

section \<open>The command line reads back\<close>

lemma crt_slashes: "crt_argument quoted n acc (replicate k 92 @ us) = crt_argument quoted (n + k) acc us"
  by (induction k arbitrary: n) auto

lemma quoted_length: "length (quoted_units n us) = encoded_len n us"
  by (induction n us rule: quoted_units.induct) auto

lemma quoted_zero: "0 \<in> set (quoted_units n us) \<longleftrightarrow> 0 \<in> set us"
  by (induction n us rule: quoted_units.induct) auto

definition argument_end :: "units \<Rightarrow> bool" where
  "argument_end rest \<longleftrightarrow> (case rest of [] \<Rightarrow> True | u # _ \<Rightarrow> is_gap u)"

lemma crt_ends: "argument_end rest \<Longrightarrow> crt_argument False 0 acc rest = (acc, rest)"
  by (auto simp: argument_end_def is_gap_def split: list.splits)

lemma crt_closes: "argument_end rest \<Longrightarrow> crt_argument True (n * 2) acc (34 # rest) = (acc @ replicate n 92, rest)"
  using crt_ends [of rest] by (cases rest) (auto simp: Let_def argument_end_def is_gap_def)

lemma crt_reads_quoted:
  "argument_end rest \<Longrightarrow> crt_argument True 0 acc (quoted_units n us @ 34 # rest) = (acc @ replicate n 92 @ us, rest)"
proof (induction us arbitrary: n acc)
  case Nil
  then show ?case using crt_closes [of rest n acc] by (simp add: crt_slashes)
next
  case (Cons u us)
  show ?case
  proof (cases "u = 92")
    case True
    then show ?thesis using Cons.IH [OF Cons.prems, of acc "n + 1"] by (simp add: replicate_append_same)
  next
    case False
    then show ?thesis
      using Cons.IH [OF Cons.prems, of "acc @ replicate n 92 @ [u]" 0] by (cases "u = 34") (simp_all add: crt_slashes Let_def)
  qed
qed

abbreviation spoken :: "units \<Rightarrow> units" where
  "spoken us \<equiv> [32, 34] @ quoted_units 0 us @ [34]"

lemma crt_reads_arguments: "crt_arguments (concat (map spoken args)) = args"
proof (induction args)
  case Nil
  then show ?case by (simp add: crt_arguments.simps)
next
  case (Cons a args)
  let ?rest = "concat (map spoken args)"
  have "argument_end ?rest" by (cases args) (simp_all add: argument_end_def is_gap_def)
  from crt_reads_quoted [OF this, of "[]" 0 a]
  have read: "crt_argument False 0 [] (34 # quoted_units 0 a @ 34 # ?rest) = (a, ?rest)" by simp
  have "dropWhile is_gap (spoken a @ ?rest) = 34 # quoted_units 0 a @ 34 # ?rest" by (simp add: is_gap_def)
  then have "crt_arguments (spoken a @ ?rest) = a # crt_arguments ?rest"
    using read by (subst crt_arguments.simps) (simp del: crt_argument.simps)
  then show ?case using Cons.IH by simp
qed

lemma crt_reads_program:
  assumes "34 \<notin> set wide" "argument_end rest"
  shows "crt_program False ([34] @ wide @ [34] @ rest) = (wide, rest)"
proof -
  have outside: "crt_program False rest = ([], rest)"
    using assms(2) by (auto simp: argument_end_def is_gap_def split: list.splits)
  have "crt_program True (wide @ 34 # rest) = (wide, rest)"
    using assms(1) by (induction wide) (auto simp: outside)
  then show ?thesis by simp
qed

section \<open>Units of text\<close>

lemma scalar_bounds:
  assumes "utf8_tail a r = Some n"
  shows "scalar_value a (take n r) \<le> 1114111" "scalar_value a (take n r) = 0 \<longleftrightarrow> byte_val a = 0"
proof -
  consider "r = []" | b where "r = [b]" | b c where "r = [b, c]" | b c d u where "r = b # c # d # u"
    by (cases r; cases "tl r"; cases "tl (tl r)") auto
  then have "scalar_value a (take n r) \<le> 1114111 \<and> (scalar_value a (take n r) = 0 \<longleftrightarrow> byte_val a = 0)"
    using assms
    by cases (auto simp: utf8_tail_def byte_in_def second_of_3_def second_of_4_def numeral_2_eq_2 numeral_3_eq_3
        split: if_splits; arith)+
  then show "scalar_value a (take n r) \<le> 1114111" "scalar_value a (take n r) = 0 \<longleftrightarrow> byte_val a = 0" by auto
qed

lemma str_chars_bounds: "c \<in> set (str_chars s) \<Longrightarrow> c \<le> 1114111 \<and> (c = 0 \<longrightarrow> CHR 0x00 \<in> set s)"
proof (induction s rule: str_chars.induct)
  case (2 a r)
  have null: "byte_val a = 0 \<Longrightarrow> a = CHR 0x00"
    using of_char_eq_iff [of a "CHR 0x00", where ?'a = nat] by simp
  show ?case
    using 2 scalar_bounds [of a r] null
    by (auto split: option.splits dest: in_set_dropD)
qed simp

lemma unit_zero: "c < 65536 \<Longrightarrow> (of_nat c :: 16 word) = 0 \<longleftrightarrow> c = 0"
  by (auto simp: word_of_nat_eq_0_iff dest: dvd_imp_le)

lemma scalar_units_zero: "c \<le> 1114111 \<Longrightarrow> 0 \<in> set (scalar_units c) \<Longrightarrow> c = 0"
proof (cases "c < 65536")
  case False
  assume c: "c \<le> 1114111" "0 \<in> set (scalar_units c)"
  have "55296 + (c - 65536) div 1024 < 65536" "56320 + (c - 65536) mod 1024 < (65536 :: nat)"
    using c(1) by simp_all
  from this [THEN unit_zero] c(2) False show ?thesis by (auto simp: scalar_units_def simp del: of_nat_add)
qed (auto simp: scalar_units_def unit_zero)

lemma utf16_no_zero: "CHR 0x00 \<notin> set s \<Longrightarrow> 0 \<notin> set (encode_utf16 s)"
  using str_chars_bounds scalar_units_zero by (fastforce simp: encode_utf16_def)

lemma utf16_ascii:
  assumes "list_all (byte_in 0 127) s"
  shows "encode_utf16 s = map (\<lambda>c. of_nat (byte_val c)) s"
proof -
  have "scalar_units (of_char c) = [of_nat (of_char c)]" if "c \<in> set s" for c
    using assms that by (auto simp: list_all_iff byte_in_def scalar_units_def)
  then have "concat (map (scalar_units \<circ> of_char) s) = map (\<lambda>c. of_nat (byte_val c)) s"
    by (induction s) auto
  then show ?thesis using assms by (simp add: encode_utf16_def str_chars_ascii)
qed

section \<open>What is accepted\<close>

lemma push_argument_Inr:
  "push_argument command a = Inr command' \<Longrightarrow>
     command' = command @ spoken (encode_utf16 a) \<and> 0 \<notin> set (encode_utf16 a) \<and>
     length command + 4 + encoded_len 0 (encode_utf16 a) \<le> 32767"
  using utf16_no_zero [of a] by (auto simp: push_argument_def Let_def split: if_splits)

lemma push_arguments_Inr:
  "push_arguments command as = Inr command' \<Longrightarrow>
     command' = command @ concat (map (spoken \<circ> encode_utf16) as) \<and> (\<forall>a \<in> set as. 0 \<notin> set (encode_utf16 a))"
proof (induction as arbitrary: command)
  case (Cons a as)
  from Cons.prems obtain next' where first: "push_argument command a = Inr next'" and rest: "push_arguments next' as = Inr command'"
    by (auto simp: bindR_Inr_iff)
  from push_argument_Inr [OF first] Cons.IH [OF rest] show ?case by simp
qed simp

lemma command_line_reads:
  assumes "command_line executable arguments = Inr command"
  shows "\<exists>line. command = line @ [0] \<and> 0 \<notin> set line \<and> length command \<le> 32767 \<and>
    crt_argv line = path_units executable # map encode_utf16 arguments"
proof -
  let ?said = "concat (map (spoken \<circ> encode_utf16) arguments)"
  let ?line = "[34] @ path_units executable @ [34] @ ?said"
  from assms obtain program where program: "program_units executable = Inr program"
    and line: "push_arguments program arguments = Inr (butlast command)" and end': "command = butlast command @ [0]"
    and size: "length command \<le> 32767"
    by (auto simp: command_line_def bindR_Inr_iff split: if_splits)
  have wide: "program = [34] @ path_units executable @ [34]" "34 \<notin> set (path_units executable)" "0 \<notin> set (path_units executable)"
    using program by (auto simp: program_units_def Let_def split: if_splits)
  have said: "butlast command = ?line" "\<forall>a \<in> set arguments. 0 \<notin> set (encode_utf16 a)"
    using push_arguments_Inr [OF line] by (simp_all add: wide)
  have "argument_end ?said" by (cases arguments) (simp_all add: argument_end_def is_gap_def)
  from crt_reads_program [OF wide(2) this]
  have "crt_argv ?line = path_units executable # crt_arguments (concat (map spoken (map encode_utf16 arguments)))"
    by (simp only: crt_argv_def fst_conv snd_conv map_map)
  then have "crt_argv ?line = path_units executable # map encode_utf16 arguments"
    by (simp only: crt_reads_arguments)
  moreover have "0 \<notin> set ?line" using wide(3) said(2) by (auto simp: quoted_zero)
  ultimately show ?thesis using end' size said(1) by metis
qed

definition env_name :: "string \<Rightarrow> bool" where
  "env_name n \<longleftrightarrow> n \<noteq> [] \<and> (\<forall>b \<in> set n. byte_val b \<le> 127 \<and> byte_val b \<noteq> 61 \<and> byte_val b \<noteq> 0)"

lemma env_name_upper: "env_name_ok n \<Longrightarrow> env_name (to_ascii_uppercase n)"
proof -
  have "byte_val (to_ascii_upper b) \<le> 127 \<and> byte_val (to_ascii_upper b) \<noteq> 61 \<and> byte_val (to_ascii_upper b) \<noteq> 0"
    if "is_ascii_alphanumeric b \<or> b = CHR ''_''" for b
    using that by (auto simp: ascii_defs)
  then show "env_name_ok n \<Longrightarrow> env_name (to_ascii_uppercase n)"
    by (auto simp: env_name_ok_def env_name_def to_ascii_uppercase_def list_all_iff)
qed

lemma env_name_units:
  assumes "env_name n"
  shows "encode_utf16 n \<noteq> []" "0 \<notin> set (encode_utf16 n)" "61 \<notin> set (encode_utf16 n)"
proof -
  have units: "encode_utf16 n = map (\<lambda>c. of_nat (byte_val c)) n"
    using assms by (intro utf16_ascii) (auto simp: env_name_def byte_in_def list_all_iff)
  show "encode_utf16 n \<noteq> []" using assms by (simp add: units env_name_def)
  have small: "unat (of_nat (byte_val c) :: 16 word) = byte_val c" if "c \<in> set n" for c
    using assms that by (auto simp: env_name_def unat_of_nat)
  have "(of_nat (byte_val c) :: 16 word) \<noteq> 0 \<and> (of_nat (byte_val c) :: 16 word) \<noteq> 61" if "c \<in> set n" for c
    using small [OF that] assms that by (auto simp: env_name_def)
  then show "0 \<notin> set (encode_utf16 n)" "61 \<notin> set (encode_utf16 n)" by (auto simp: units)
qed

definition host_names :: "win_path \<Rightarrow> win_path \<Rightarrow> win_path \<Rightarrow> (string \<times> win_path) list" where
  "host_names system_root visible_data visible_scratch =
     [(''SYSTEMROOT'', system_root), (''LOCALAPPDATA'', visible_data), (''TEMP'', visible_scratch), (''TMP'', visible_scratch)]"

lemma declared_fields_Inr:
  "declared_fields declared env = Inr env' \<Longrightarrow> bt_wf env \<Longrightarrow> \<forall>n \<in> fst ` set env. env_name n \<Longrightarrow>
     bt_wf env' \<and> (\<forall>n \<in> fst ` set env'. env_name n) \<and>
     (\<forall>n v. bt_get env' n = Some v \<longleftrightarrow>
        bt_get env n = Some v \<or> (\<exists>m w. (m, w) \<in> set declared \<and> n = to_ascii_uppercase m \<and> v = encode_utf16 w))"
proof (induction declared arbitrary: env)
  case (Cons p rest)
  obtain m w where p: "p = (m, w)" by force
  let ?env = "bt_insert (to_ascii_uppercase m) (encode_utf16 w) env"
  have step: "env_name_ok m" "bt_get env (to_ascii_uppercase m) = None" "declared_fields rest ?env = Inr env'"
    using Cons.prems(1) by (auto simp: p split: if_splits)
  have "bt_wf ?env" "\<forall>n \<in> fst ` set ?env. env_name n"
    using Cons.prems(2,3) env_name_upper [OF step(1)] unfolding keys_bt_insert by (auto simp: bt_wf_insert)
  from Cons.IH [OF step(3) this] show ?case using step(2) by (auto simp: p split: if_split_asm)
qed auto

lemma push_fields_reads:
  "push_fields block env = Inr block' \<Longrightarrow> \<forall>n \<in> fst ` set env. env_name n \<Longrightarrow>
     \<exists>written. block' = block @ written \<and> env_read (written @ [0]) = map (\<lambda>(n, v). (encode_utf16 n, v)) env \<and>
       (length block < 32767 \<longrightarrow> length block' < 32767)"
proof (induction env arbitrary: block)
  case Nil
  then show ?case by (simp add: env_read.simps)
next
  case (Cons f env)
  obtain n v where f: "f = (n, v)" by force
  let ?entry = "encode_utf16 n @ [61] @ v"
  from Cons.prems(1) have step: "0 \<notin> set v" "length (block @ ?entry @ [0]) < 32767" "push_fields (block @ ?entry @ [0]) env = Inr block'"
    by (auto simp: f push_field_def bindR_Inr_iff Let_def split: if_splits)
  have name: "encode_utf16 n \<noteq> []" "0 \<notin> set (encode_utf16 n)" "61 \<notin> set (encode_utf16 n)"
    using Cons.prems(2) env_name_units [of n] by (auto simp: f)
  from Cons.IH [OF step(3)] Cons.prems(2) obtain written where rest: "block' = (block @ ?entry @ [0]) @ written"
      "env_read (written @ [0]) = map (\<lambda>(n, v). (encode_utf16 n, v)) env" "length block' < 32767"
    using step(2) by auto
  obtain e es where first: "?entry = e # es" using name(1) by (cases ?entry) auto
  have cut: "takeWhile (\<lambda>u. u \<noteq> 0) (?entry @ 0 # xs) = ?entry" "dropWhile (\<lambda>u. u \<noteq> 0) (?entry @ 0 # xs) = 0 # xs" for xs
    using name(2) step(1) by (auto simp: takeWhile_append dropWhile_append)
  have split: "takeWhile (\<lambda>u. u \<noteq> 61) ?entry = encode_utf16 n" "tl (dropWhile (\<lambda>u. u \<noteq> 61) ?entry) = v"
    using name(3) by (auto simp: takeWhile_append dropWhile_append)
  have "env_read (?entry @ 0 # written @ [0]) = (encode_utf16 n, v) # env_read (written @ [0])"
    using cut [of "written @ [0]"] split first by (subst env_read.simps) (simp del: append_Cons)
  then show ?case using rest by (intro exI [of _ "?entry @ [0] @ written"]) (simp add: f)
qed

lemma environment_fields_Inr:
  assumes "environment_fields system_root local_app_data scratch declared = Inr env"
    and "visible_container_paths local_app_data scratch = (visible_data, visible_scratch)"
  shows "bt_wf env \<and> (\<forall>n \<in> fst ` set env. env_name n) \<and>
    (\<forall>n v. (n, v) \<in> set env \<longleftrightarrow>
       (\<exists>p. (n, p) \<in> set (host_names system_root visible_data visible_scratch) \<and> v = path_units p) \<or>
       (\<exists>m w. (m, w) \<in> set declared \<and> n = to_ascii_uppercase m \<and> v = encode_utf16 w))"
proof -
  let ?hosts = "host_names system_root visible_data visible_scratch"
  obtain env0 where hosts: "host_fields ?hosts [] = Inr env0" and rest: "declared_fields declared env0 = Inr env"
    using assms by (auto simp: environment_fields_def host_names_def bindR_Inr_iff)
  have env0: "env0 = bt_insert ''TMP'' (path_units visible_scratch) (bt_insert ''TEMP'' (path_units visible_scratch)
      (bt_insert ''LOCALAPPDATA'' (path_units visible_data) (bt_insert ''SYSTEMROOT'' (path_units system_root) [])))"
    using hosts by (simp add: host_names_def split: if_splits)
  have wf: "bt_wf env0" unfolding env0 by (intro bt_wf_insert bt_wf_Nil)
  have names: "\<forall>n \<in> fst ` set env0. env_name n"
    unfolding env0 keys_bt_insert by (simp add: env_name_def)
  have found: "bt_get env0 n = Some v \<longleftrightarrow> (\<exists>p. (n, p) \<in> set ?hosts \<and> v = path_units p)" for n v
    unfolding env0 by (auto simp: host_names_def bt_get_def split: if_splits)
  note declared = declared_fields_Inr [OF rest wf names]
  note in_env = bt_get_Some_iff [OF conjunct1 [OF declared], symmetric]
  show ?thesis unfolding in_env found [symmetric] by (rule declared)
qed

lemma environment_block_reads:
  assumes "environment_block env = Inr block" "\<forall>n \<in> fst ` set env. env_name n"
  shows "env_read block = map (\<lambda>(n, v). (encode_utf16 n, v)) env \<and> length block \<le> 32767"
proof -
  from assms(1) obtain written where "push_fields [] env = Inr written" "block = written @ [0]"
    by (auto simp: environment_block_def bindR_Inr_iff)
  then show ?thesis using push_fields_reads [of "[]" env written] assms(2) by auto
qed

text \<open>
  The command line of an extension process is read back as it was meant: when the start data is
  accepted, the C runtime's argument rules split the command line into the executable's path and
  exactly the given arguments, whatever spaces, quotes and backslashes they contain; the line has
  one zero unit, its last, and fits the 32767 units that Windows allows.
\<close>

theorem launch_arguments_read_back:
  assumes "launch_data_new executable arguments system_root local_app_data scratch declared = Inr d"
  shows "\<exists>line. ld_command d = line @ [0] \<and> 0 \<notin> set line \<and> length (ld_command d) \<le> 32767 \<and>
    crt_argv line = path_units executable # map encode_utf16 arguments"
proof -
  from assms have "command_line executable arguments = Inr (ld_command d)"
    by (auto simp: launch_data_new_def bindR_Inr_iff split: if_splits)
  then show ?thesis by (rule command_line_reads)
qed

text \<open>
  The environment block holds what was declared and nothing else: read back, it is a list of
  variables with strictly increasing names, which are the four of the host with the paths the
  process sees and the declared ones in upper case with their values; no declared variable replaces
  one of the host's, none inherits anything, and no value breaks out of its string.
\<close>

theorem launch_environment_exact:
  assumes "launch_data_new executable arguments system_root local_app_data scratch declared = Inr d"
  shows "\<exists>env. env_read (ld_environment d) = map (\<lambda>(n, v). (encode_utf16 n, v)) env \<and>
    sorted_wrt (<) (map fst env) \<and> length (ld_environment d) \<le> 32767 \<and>
    (\<forall>n v. (n, v) \<in> set env \<longleftrightarrow>
       (\<exists>p. (n, p) \<in> set (host_names system_root (fst (visible_container_paths local_app_data scratch))
           (snd (visible_container_paths local_app_data scratch))) \<and> v = path_units p) \<or>
       (\<exists>m w. (m, w) \<in> set declared \<and> n = to_ascii_uppercase m \<and> v = encode_utf16 w))"
proof -
  from assms obtain env where env: "environment_fields system_root local_app_data scratch declared = Inr env"
    and block: "environment_block env = Inr (ld_environment d)"
    by (auto simp: launch_data_new_def bindR_Inr_iff split: if_splits)
  note facts = environment_fields_Inr [OF env surjective_pairing]
  show ?thesis
    using facts environment_block_reads [OF block] unfolding bt_wf_def by blast
qed

section \<open>Example values\<close>

definition demo_program :: win_path where
  "demo_program = \<lparr>wp_root = Some (Drive 67), wp_parts = [[97, 46, 69, 88, 69]]\<rparr>"

definition demo_root :: win_path where
  "demo_root = \<lparr>wp_root = Some (Drive 67), wp_parts = [[87]]\<rparr>"

definition demo_data :: "units list \<Rightarrow> win_path" where
  "demo_data more' = \<lparr>wp_root = Some (Drive 67), wp_parts = [encode_utf16 ''Packages'', [120], [65, 67]] @ more'\<rparr>"

lemma demo_utf16:
  "encode_utf16 ''Packages'' = [80, 97, 99, 107, 97, 103, 101, 115]" "encode_utf16 ''a \"'' = [97, 32, 34]"
  "encode_utf16 [] = []" "encode_utf16 [CHR 0x5C] = [92]" "encode_utf16 ''x y'' = [120, 32, 121]"
  by (simp_all add: utf16_ascii byte_in_def)

lemma demo_visible: "visible_container_paths (demo_data []) (demo_data [[116]]) =
    (\<lparr>wp_root = Some (Drive 67), wp_parts = []\<rparr>, \<lparr>wp_root = Some (Drive 67), wp_parts = [[116]]\<rparr>)"
  by (simp add: visible_container_paths_def demo_data_def demo_utf16 win_file_name_def win_parent_def units_eq_ignore_case_def
      unit_lower_def win_ancestor_def win_strip_prefix_def)

lemma demo_command: "\<exists>c. command_line demo_program [''a \"'', [], [CHR 0x5C]] = Inr c"
  by (simp add: command_line_def program_units_def demo_program_def path_units_def push_argument_def demo_utf16 Let_def)

lemma demo_mode: "to_ascii_uppercase ''mode'' = ''MODE''" "env_name_ok ''mode''"
  by (simp_all add: ascii_defs to_ascii_uppercase_def env_name_ok_def char_of_def bit_0)

definition demo_launch_fields :: env_fields where
  "demo_launch_fields = [(''LOCALAPPDATA'', [67, 58, 92]), (''MODE'', [120, 32, 121]), (''SYSTEMROOT'', [67, 58, 92, 87]),
     (''TEMP'', [67, 58, 92, 116]), (''TMP'', [67, 58, 92, 116])]"

lemma demo_path_fields: "environment_fields demo_root (demo_data []) (demo_data [[116]]) [(''mode'', ''x y'')] = Inr demo_launch_fields"
  by (simp add: environment_fields_def demo_visible is_absolute_def demo_mode bt_get_def path_units_def demo_root_def demo_utf16
      demo_launch_fields_def)

lemma demo_names:
  "encode_utf16 ''LOCALAPPDATA'' = [76, 79, 67, 65, 76, 65, 80, 80, 68, 65, 84, 65]" "encode_utf16 ''MODE'' = [77, 79, 68, 69]"
  "encode_utf16 ''SYSTEMROOT'' = [83, 89, 83, 84, 69, 77, 82, 79, 79, 84]" "encode_utf16 ''TEMP'' = [84, 69, 77, 80]"
  "encode_utf16 ''TMP'' = [84, 77, 80]"
  by (simp_all add: utf16_ascii byte_in_def)

lemma demo_block: "\<exists>b. environment_block demo_launch_fields = Inr b"
  by (simp add: environment_block_def demo_launch_fields_def push_field_def Let_def demo_names)

lemma demo_launch: "\<exists>d. launch_data_new demo_program [''a \"'', [], [CHR 0x5C]] demo_root (demo_data []) (demo_data [[116]])
    [(''mode'', ''x y'')] = Inr d"
proof -
  obtain c where c: "command_line demo_program [''a \"'', [], [CHR 0x5C]] = Inr c" using demo_command by blast
  obtain b where b: "environment_block demo_launch_fields = Inr b" using demo_block by blast
  have "win_extension demo_program = Some [69, 88, 69]" "is_absolute demo_program"
    by (simp_all add: win_extension_def win_file_name_def demo_program_def is_absolute_def)
  then show ?thesis
    by (simp add: launch_data_new_def c demo_path_fields b units_eq_ignore_case_def unit_lower_def)
qed

theorem launch_arguments_read_back_witness:
  "\<exists>line. 0 \<notin> set line \<and> crt_argv line = [[67, 58, 92, 97, 46, 69, 88, 69], [97, 32, 34], [], [92]]"
proof -
  obtain d where "launch_data_new demo_program [''a \"'', [], [CHR 0x5C]] demo_root (demo_data []) (demo_data [[116]])
    [(''mode'', ''x y'')] = Inr d" using demo_launch by blast
  from launch_arguments_read_back [OF this] show ?thesis
    by (auto simp: demo_utf16 path_units_def demo_program_def)
qed

theorem launch_environment_exact_witness:
  "\<exists>env :: env_fields. (''MODE'', [120, 32, 121]) \<in> set env \<and> (''TEMP'', [67, 58, 92, 116]) \<in> set env \<and> sorted_wrt (<) (map fst env)"
proof -
  obtain d where "launch_data_new demo_program [''a \"'', [], [CHR 0x5C]] demo_root (demo_data []) (demo_data [[116]])
    [(''mode'', ''x y'')] = Inr d" using demo_launch by blast
  from launch_environment_exact [OF this] obtain env where env: "sorted_wrt (<) (map fst env)"
      "\<And>n v. (n, v) \<in> set env \<longleftrightarrow>
       (\<exists>p. (n, p) \<in> set (host_names demo_root (fst (visible_container_paths (demo_data []) (demo_data [[116]])))
           (snd (visible_container_paths (demo_data []) (demo_data [[116]])))) \<and> v = path_units p) \<or>
       (\<exists>m w. (m, w) \<in> set [(''mode'', ''x y'')] \<and> n = to_ascii_uppercase m \<and> v = encode_utf16 w)" by blast
  have "(''MODE'', [120, 32, 121]) \<in> set env" unfolding env(2) by (simp add: demo_mode demo_utf16)
  moreover have "(''TEMP'', [67, 58, 92, 116]) \<in> set env"
    unfolding env(2) by (simp add: demo_visible host_names_def path_units_def)
  ultimately show ?thesis using env(1) by blast
qed

end
