(* ===== verification/Path_Policy.thy ===== *)
theory Path_Policy
  imports Host_Text
begin

text \<open>
  Which paths the host accepts: the lexical part of \<open>Workspace::resolve\<close>, experiment files
  (\<open>experiment_contract.rs\<close>), logical records (\<open>records.rs\<close>), the classes of files that are
  synchronised (\<open>sync_discovery.rs\<close>) and the device's choice among the optional ones
  (\<open>sync_scope.rs\<close>). Paths are the host's own, with forward slashes.
\<close>

section \<open>Vault paths\<close>

definition first_part :: "char \<Rightarrow> string \<Rightarrow> string" where
  "first_part d s = hd (split_on d s)"

definition reserved_stem :: "string \<Rightarrow> bool" where
  "reserved_stem stem \<longleftrightarrow>
     stem \<in> {''CON'', ''PRN'', ''AUX'', ''NUL''} \<or>
     (length stem = 4 \<and> (starts_with ''COM'' stem \<or> starts_with ''LPT'' stem) \<and> is_ascii_digit (stem ! 3))"

definition unsafe_component :: "string \<Rightarrow> bool" where
  "unsafe_component name \<longleftrightarrow>
     eq_ignore_ascii_case name ''.ainote'' \<or> eq_ignore_ascii_case name ''.git'' \<or>
     (name \<noteq> [] \<and> last name \<in> {CHR ''.'', CHR '' ''}) \<or>
     list_ex (\<lambda>c. char_is_control c \<or> c \<in> {60, 62, 58, 34, 124, 63, 42}) (str_chars name) \<or>
     reserved_stem (to_ascii_uppercase (first_part (CHR ''.'') name))"

fun check_components :: "path_component list \<Rightarrow> string list result" where
  "check_components [] = Inr []"
| "check_components (Normal name # cs) =
     (if unsafe_component name then Err ''UNSAFE_PATH''
      else bindR (check_components cs) (\<lambda>ns. Inr (name # ns)))"
| "check_components (_ # cs) = Err ''UNSAFE_PATH''"

definition resolve_names :: "string \<Rightarrow> string list result" where
  "resolve_names relative =
     (if relative = [] \<or> CHR 0x5C \<in> set relative \<or> starts_with ''/'' relative then Err ''UNSAFE_PATH''
      else check_components (path_components relative))"

section \<open>File classes\<close>

definition ext_is :: "string \<Rightarrow> string list \<Rightarrow> bool" where
  "ext_is path exts \<longleftrightarrow>
     (case path_extension path of None \<Rightarrow> False | Some e \<Rightarrow> to_ascii_lowercase e \<in> set exts)"

definition is_experiment_file :: "string \<Rightarrow> bool" where
  "is_experiment_file path \<longleftrightarrow>
     eq_ignore_ascii_case (first_part (CHR ''/'') path) ''experiments'' \<and>
     ext_is path [''py'', ''json'', ''csv'']"

definition is_canvas :: "string \<Rightarrow> bool" where
  "is_canvas path \<longleftrightarrow> ends_with ''.canvas'' (to_ascii_lowercase path)"

section \<open>Logical records\<close>

definition hex_id :: "string \<Rightarrow> string \<Rightarrow> bool" where
  "hex_id prefix i \<longleftrightarrow>
     starts_with prefix i \<and> length i = length prefix + 32 \<and> list_all is_lower_hex (drop (length prefix) i)"

definition record_path :: "string \<Rightarrow> string result" where
  "record_path i =
     (if \<not> starts_with ''task_'' i \<or> length i \<noteq> 37 \<or> \<not> list_all is_lower_hex (drop 5 i)
      then Err ''RECORD_ID_INVALID'' else Inr (''opennexus-records/v1/tasks/'' @ i @ ''.json''))"

definition user_skill_path :: "string \<Rightarrow> string result" where
  "user_skill_path i =
     (if \<not> starts_with ''user_skill_'' i \<or> length i \<noteq> 43 \<or> \<not> list_all is_lower_hex (drop 11 i)
      then Err ''RECORD_ID_INVALID'' else Inr (''opennexus-records/v1/user-skills/'' @ i @ ''.json''))"

definition portable_id_path :: "string \<Rightarrow> string \<Rightarrow> string \<Rightarrow> string result" where
  "portable_id_path i prefix directory =
     (if \<not> starts_with prefix i \<or> length i \<noteq> length prefix + 32 \<or> \<not> list_all is_lower_hex (drop (length prefix) i)
      then Err ''RECORD_ID_INVALID''
      else Inr (''opennexus-records/v1/'' @ directory @ ''/'' @ i @ ''.json''))"

definition path_for :: "string \<Rightarrow> string \<Rightarrow> string result" where
  "path_for kind i =
     (if kind = ''task'' then record_path i
      else if kind = ''theme_settings'' \<and> i = ''appearance'' then
        Inr ''opennexus-records/v1/theme-settings/appearance.json''
      else if kind = ''persona'' \<and> i = ''default'' then Inr ''opennexus-records/v1/persona/default.json''
      else if kind = ''layout'' \<and> i = ''sidebars'' then Inr ''opennexus-records/v1/layout/sidebars.json''
      else if kind = ''preferences'' \<and> i = ''editor'' then Inr ''opennexus-records/v1/preferences/editor.json''
      else if kind = ''user_skill'' then user_skill_path i
      else if kind = ''conversation'' then portable_id_path i ''conversation_'' ''conversations''
      else if kind = ''agent_history'' then portable_id_path i ''agent_run_'' ''agent-history''
      else if kind = ''provider_settings'' then portable_id_path i ''provider_'' ''provider-settings''
      else if kind = ''extension_installation'' then portable_id_path i ''extension_'' ''extension-installations''
      else Err ''RECORD_ID_INVALID'')"

definition is_record :: "string \<Rightarrow> bool" where
  "is_record path \<longleftrightarrow> starts_with ''opennexus-records/'' path"

definition stripped :: "string \<Rightarrow> string \<Rightarrow> string option" where
  "stripped prefix path =
     (case strip_prefix prefix path of None \<Rightarrow> None | Some v \<Rightarrow> strip_suffix ''.json'' v)"

definition is_ok :: "'a result \<Rightarrow> bool" where
  "is_ok r \<longleftrightarrow> (case r of Inl _ \<Rightarrow> False | Inr _ \<Rightarrow> True)"

definition record_allowed :: "string \<Rightarrow> bool" where
  "record_allowed path \<longleftrightarrow>
     path \<in> {''opennexus-records/v1/theme-settings/appearance.json'',
              ''opennexus-records/v1/preferences/editor.json'',
              ''opennexus-records/v1/layout/sidebars.json'',
              ''opennexus-records/v1/persona/default.json''} \<or>
     (case stripped ''opennexus-records/v1/tasks/'' path of None \<Rightarrow> False | Some i \<Rightarrow> is_ok (record_path i)) \<or>
     (case stripped ''opennexus-records/v1/user-skills/'' path of None \<Rightarrow> False | Some i \<Rightarrow> is_ok (user_skill_path i)) \<or>
     list_ex (\<lambda>(kind, prefix).
         case stripped prefix path of None \<Rightarrow> False | Some i \<Rightarrow> is_ok (path_for kind i))
       [(''conversation'', ''opennexus-records/v1/conversations/''),
        (''agent_history'', ''opennexus-records/v1/agent-history/''),
        (''provider_settings'', ''opennexus-records/v1/provider-settings/''),
        (''extension_installation'', ''opennexus-records/v1/extension-installations/'')]"

section \<open>Synchronised paths\<close>

definition skipped_part :: "string \<Rightarrow> bool" where
  "skipped_part part \<longleftrightarrow>
     starts_with ''.'' part \<or>
     to_ascii_lowercase part \<in> {''node_modules'', ''target'', ''__pycache__'', ''cache'', ''logs'', ''models''}"

definition attachment_exts :: "string list" where
  "attachment_exts = [''png'', ''jpg'', ''jpeg'', ''gif'', ''webp'', ''svg'', ''pdf'', ''mp3'', ''wav'', ''m4a'',
     ''ogg'', ''flac'', ''mp4'', ''webm'', ''mov'', ''txt'', ''csv'', ''docx'', ''xlsx'', ''pptx'', ''bin'']"

definition sync_allowed :: "string \<Rightarrow> bool" where
  "sync_allowed path \<longleftrightarrow>
     (if is_record path then record_allowed path
      else if list_ex skipped_part (split_on (CHR ''/'') path) then False
      else ext_is path [''md'', ''canvas'', ''png'', ''jpg'', ''jpeg'', ''gif'', ''webp''] \<or>
        is_experiment_file path \<or>
        (eq_ignore_ascii_case (first_part (CHR ''/'') path) ''attachments'' \<and> ext_is path attachment_exts))"

record optional_scope =
  sc_persona :: bool
  sc_layout :: bool
  sc_conversations :: bool
  sc_agent_history :: bool
  sc_provider_settings :: bool
  sc_extension_installations :: bool

definition default_scope :: optional_scope where
  "default_scope = \<lparr>sc_persona = False, sc_layout = False, sc_conversations = False,
     sc_agent_history = False, sc_provider_settings = False, sc_extension_installations = False\<rparr>"

definition scope_includes :: "optional_scope \<Rightarrow> string \<Rightarrow> bool" where
  "scope_includes sc path =
     (if path = ''opennexus-records/v1/persona/default.json'' then sc_persona sc
      else if path = ''opennexus-records/v1/layout/sidebars.json'' then sc_layout sc
      else if starts_with ''opennexus-records/v1/conversations/'' path then sc_conversations sc
      else if starts_with ''opennexus-records/v1/agent-history/'' path then sc_agent_history sc
      else if starts_with ''opennexus-records/v1/provider-settings/'' path then sc_provider_settings sc
      else if starts_with ''opennexus-records/v1/extension-installations/'' path then sc_extension_installations sc
      else True)"

text \<open>The stored scope is the single row of its table; without it nothing optional is included.\<close>

definition sync_path_enabled :: "optional_scope option \<Rightarrow> string \<Rightarrow> bool" where
  "sync_path_enabled row path \<longleftrightarrow>
     sync_allowed path \<and> scope_includes (case row of None \<Rightarrow> default_scope | Some sc \<Rightarrow> sc) path"

section \<open>What resolved paths look like\<close>

lemma check_components_Inr:
  "check_components cs = Inr ns \<Longrightarrow> cs = map Normal ns \<and> (\<forall>n \<in> set ns. \<not> unsafe_component n)"
  by (induction cs arbitrary: ns rule: check_components.induct) (auto simp: bindR_Inr_iff split: if_splits)

lemma path_components_names:
  assumes "Normal n \<in> set (path_components s)"
  shows "n \<in> set (split_on (CHR ''/'') s) \<and> n \<noteq> [] \<and> n \<noteq> ''..'' \<and> n \<noteq> ''.'' \<and> CHR ''/'' \<notin> set n"
proof -
  obtain p ps where "split_on (CHR ''/'') s = p # ps" by (cases "split_on (CHR ''/'') s") auto
  with assms have "n \<in> set (split_on (CHR ''/'') s)" "n \<noteq> []" "n \<noteq> ''..''" "n \<noteq> ''.''"
    by (auto simp: path_components_def component_of_def split: if_splits)
  with split_on_no_sep [of n "CHR ''/''" s] show ?thesis by blast
qed

lemma resolve_names_Inr:
  assumes "resolve_names p = Inr ns"
  shows "p \<noteq> [] \<and> CHR 0x5C \<notin> set p \<and> \<not> starts_with ''/'' p \<and> path_components p = map Normal ns \<and>
    (\<forall>n \<in> set ns. \<not> unsafe_component n \<and> n \<noteq> [] \<and> n \<noteq> ''.'' \<and> n \<noteq> ''..'' \<and> CHR ''/'' \<notin> set n)"
proof -
  from assms have c: "check_components (path_components p) = Inr ns" and
      *: "p \<noteq> [] \<and> CHR 0x5C \<notin> set p \<and> \<not> starts_with ''/'' p"
    by (auto simp: resolve_names_def split: if_splits)
  from check_components_Inr [OF c] have "path_components p = map Normal ns" "\<forall>n \<in> set ns. \<not> unsafe_component n"
    by auto
  moreover have "\<forall>n \<in> set ns. n \<noteq> [] \<and> n \<noteq> ''.'' \<and> n \<noteq> ''..'' \<and> CHR ''/'' \<notin> set n"
    using path_components_names [of _ p] by (auto simp: \<open>path_components p = map Normal ns\<close>)
  ultimately show ?thesis using * by blast
qed

lemma split_on_hd: "s \<noteq> [] \<Longrightarrow> hd s \<noteq> d \<Longrightarrow> hd (split_on d s) \<noteq> []"
  by (cases s) (auto split: list.splits)

lemma resolve_names_not_Nil: "resolve_names p = Inr ns \<Longrightarrow> ns \<noteq> []"
proof -
  assume a: "resolve_names p = Inr ns"
  note r = resolve_names_Inr [OF a]
  then have "hd p \<noteq> CHR ''/''" by (cases p) (auto simp: starts_with_def)
  then have "hd (split_on (CHR ''/'') p) \<noteq> []" using r split_on_hd by blast
  then have "path_components p \<noteq> []"
    by (auto simp: path_components_def split: list.splits)
  with r show "ns \<noteq> []" by auto
qed

text \<open>A resolved path, written out, resolves to itself: it is the canonical spelling.\<close>

lemma resolve_names_canonical:
  assumes "resolve_names p = Inr ns"
  shows "resolve_names (join_with (CHR ''/'') ns) = Inr ns"
proof -
  note r = resolve_names_Inr [OF assms] and ne = resolve_names_not_Nil [OF assms]
  let ?q = "join_with (CHR ''/'') ns"
  have split: "split_on (CHR ''/'') ?q = ns" using r ne by (intro split_join) auto
  obtain n ms where ns: "ns = n # ms" using ne by (cases ns) auto
  have names: "\<forall>x \<in> set ns. x \<noteq> [] \<and> x \<noteq> ''.'' \<and> x \<noteq> ''..''" using r by blast
  have "filter (\<lambda>x. x \<noteq> [] \<and> x \<noteq> ''.'') ms = ms" "map component_of ms = map Normal ms"
    using names by (auto simp: ns component_of_def intro!: filter_True)
  moreover have "component_of n = Normal n" "n \<noteq> []" "n \<noteq> ''.''"
    using names by (simp_all add: ns component_of_def)
  ultimately have comps: "path_components ?q = map Normal ns"
    unfolding path_components_def split by (simp add: ns)
  have all: "check_components (map Normal xs) = Inr xs" if "\<forall>x \<in> set xs. \<not> unsafe_component x" for xs
    using that by (induction xs) auto
  have "CHR 0x5C \<notin> set x" if "x \<in> set ns" for x
  proof -
    have "Normal x \<in> set (path_components p)" using r that by auto
    then have "x \<in> set (split_on (CHR ''/'') p)" using path_components_names by blast
    then have "set x \<subseteq> set p" by (rule split_on_subset)
    then show ?thesis using r by auto
  qed
  moreover have "CHR 0x5C \<noteq> CHR ''/''" by simp
  ultimately have "CHR 0x5C \<notin> set ?q" using set_join_with [of "CHR ''/''" ns] by blast
  moreover obtain c cs rest where "?q = (c # cs) @ rest" "c \<noteq> CHR ''/''"
  proof -
    have "n \<noteq> []" "CHR ''/'' \<notin> set n" using r ns by auto
    moreover have "\<exists>rest. ?q = n @ rest" by (cases ms) (auto simp: ns)
    ultimately show thesis using that by (cases n) auto
  qed
  then have "\<not> starts_with ''/'' ?q" "?q \<noteq> []" by (auto simp: starts_with_def)
  ultimately show ?thesis
    using r all [of ns] comps by (auto simp: resolve_names_def)
qed

text \<open>
  C33. A path that resolves stays inside the vault: it has at least one component, none of them
  is empty, a dot, a parent step, the managed .ainote directory or a .git directory in any
  letter case, a Windows device name, or contains a separator, a control character or a
  character a drive or stream needs; and the canonical spelling resolves to the same names.
\<close>

theorem resolve_confined:
  assumes "resolve_names p = Inr ns"
  shows "ns \<noteq> [] \<and> resolve_names (join_with (CHR ''/'') ns) = Inr ns \<and>
    (\<forall>n \<in> set ns. n \<noteq> [] \<and> n \<noteq> ''.'' \<and> n \<noteq> ''..'' \<and> CHR ''/'' \<notin> set n \<and>
       to_ascii_lowercase n \<noteq> ''.ainote'' \<and> to_ascii_lowercase n \<noteq> ''.git'' \<and>
       last n \<noteq> CHR ''.'' \<and> last n \<noteq> CHR '' '' \<and>
       \<not> reserved_stem (to_ascii_uppercase (first_part (CHR ''.'') n)) \<and>
       (\<forall>c \<in> set (str_chars n). \<not> char_is_control c \<and> c \<notin> {60, 62, 58, 34, 124, 63, 42}))"
proof -
  have low: "to_ascii_lowercase ''.ainote'' = ''.ainote''" "to_ascii_lowercase ''.git'' = ''.git''"
    by (simp_all add: ascii_defs)
  have one: "to_ascii_lowercase n \<noteq> ''.ainote'' \<and> to_ascii_lowercase n \<noteq> ''.git'' \<and>
       last n \<noteq> CHR ''.'' \<and> last n \<noteq> CHR '' '' \<and>
       \<not> reserved_stem (to_ascii_uppercase (first_part (CHR ''.'') n)) \<and>
       (\<forall>c \<in> set (str_chars n). \<not> char_is_control c \<and> c \<notin> {60, 62, 58, 34, 124, 63, 42})"
    if "\<not> unsafe_component n" "n \<noteq> []" for n
    using that low by (simp add: unsafe_component_def eq_ignore_ascii_case_def list_ex_iff)
  show ?thesis
    using resolve_names_Inr [OF assms] resolve_names_not_Nil [OF assms] resolve_names_canonical [OF assms] one
    by blast
qed

theorem resolve_confined_witness:
  "resolve_names ''notes/./a.md'' = Inr [''notes'', ''a.md''] \<and>
   resolve_names ''notes/a.md'' = Inr [''notes'', ''a.md'']"
proof -
  have r: "resolve_names ''notes/./a.md'' = Inr [''notes'', ''a.md'']"
    by (simp add: resolve_names_def starts_with_def path_components_def component_of_def
        unsafe_component_def ascii_defs utf8_tail_def byte_in_def char_is_control_def reserved_stem_def
        first_part_def)
  then show ?thesis using resolve_confined [OF r] by simp
qed

section \<open>Records have one path each\<close>

lemma is_ok_iff: "is_ok r \<longleftrightarrow> (\<exists>x. r = Inr x)"
  by (auto simp: is_ok_def split: sum.splits)

definition record_file :: "string \<Rightarrow> string \<Rightarrow> string" where
  "record_file d i = join_with (CHR ''/'') [''opennexus-records'', ''v1'', d, i @ ''.json'']"

lemma stripped_Some_iff: "stripped prefix p = Some i \<longleftrightarrow> p = prefix @ i @ ''.json''"
proof
  assume "stripped prefix p = Some i"
  then show "p = prefix @ i @ ''.json''"
    by (auto simp: stripped_def strip_prefix_Some_iff strip_suffix_Some_iff split: option.splits)
next
  assume p: "p = prefix @ i @ ''.json''"
  then have "strip_prefix prefix p = Some (i @ ''.json'')" by (simp only: strip_prefix_Some_iff)
  moreover have "strip_suffix ''.json'' (i @ ''.json'') = Some i" by (simp only: strip_suffix_Some_iff)
  ultimately show "stripped prefix p = Some i" by (simp add: stripped_def)
qed

lemma stripped_dirs:
  "stripped ''opennexus-records/v1/tasks/'' p = Some i \<longleftrightarrow> p = record_file ''tasks'' i"
  "stripped ''opennexus-records/v1/user-skills/'' p = Some i \<longleftrightarrow> p = record_file ''user-skills'' i"
  "stripped ''opennexus-records/v1/conversations/'' p = Some i \<longleftrightarrow> p = record_file ''conversations'' i"
  "stripped ''opennexus-records/v1/agent-history/'' p = Some i \<longleftrightarrow> p = record_file ''agent-history'' i"
  "stripped ''opennexus-records/v1/provider-settings/'' p = Some i \<longleftrightarrow> p = record_file ''provider-settings'' i"
  "stripped ''opennexus-records/v1/extension-installations/'' p = Some i \<longleftrightarrow>
     p = record_file ''extension-installations'' i"
  by (simp_all add: stripped_Some_iff record_file_def)

lemma fixed_files:
  "''opennexus-records/v1/theme-settings/appearance.json'' = record_file ''theme-settings'' ''appearance''"
  "''opennexus-records/v1/preferences/editor.json'' = record_file ''preferences'' ''editor''"
  "''opennexus-records/v1/layout/sidebars.json'' = record_file ''layout'' ''sidebars''"
  "''opennexus-records/v1/persona/default.json'' = record_file ''persona'' ''default''"
  by (simp_all add: record_file_def)

lemma record_path_Inr: "record_path i = Inr p \<longleftrightarrow> hex_id ''task_'' i \<and> p = record_file ''tasks'' i"
  by (simp add: record_path_def hex_id_def eval_nat_numeral record_file_def) blast

lemma user_skill_path_Inr:
  "user_skill_path i = Inr p \<longleftrightarrow> hex_id ''user_skill_'' i \<and> p = record_file ''user-skills'' i"
  by (simp add: user_skill_path_def hex_id_def eval_nat_numeral record_file_def) blast

lemma portable_id_path_Inr:
  "portable_id_path i prefix d = Inr p \<longleftrightarrow> hex_id prefix i \<and> p = record_file d i"
  by (simp add: portable_id_path_def hex_id_def record_file_def) blast

lemmas record_path_iffs = record_path_Inr user_skill_path_Inr portable_id_path_Inr

text \<open>The kinds, their directories and the identifiers each accepts.\<close>

datatype id_rule = HexId string | FixedId string

fun id_ok :: "id_rule \<Rightarrow> string \<Rightarrow> bool" where
  "id_ok (HexId prefix) i \<longleftrightarrow> hex_id prefix i"
| "id_ok (FixedId j) i \<longleftrightarrow> i = j"

fun id_root :: "id_rule \<Rightarrow> string" where
  "id_root (HexId prefix) = prefix"
| "id_root (FixedId j) = j"

definition record_ids :: "(string \<times> string \<times> id_rule) list" where
  "record_ids = [
     (''task'', ''tasks'', HexId ''task_''), (''theme_settings'', ''theme-settings'', FixedId ''appearance''),
     (''persona'', ''persona'', FixedId ''default''), (''layout'', ''layout'', FixedId ''sidebars''),
     (''preferences'', ''preferences'', FixedId ''editor''), (''user_skill'', ''user-skills'', HexId ''user_skill_''),
     (''conversation'', ''conversations'', HexId ''conversation_''),
     (''agent_history'', ''agent-history'', HexId ''agent_run_''),
     (''provider_settings'', ''provider-settings'', HexId ''provider_''),
     (''extension_installation'', ''extension-installations'', HexId ''extension_'')]"

lemma path_for_kinds:
  "path_for ''task'' i = record_path i"
  "path_for ''theme_settings'' i =
     (if i = ''appearance'' then Inr (record_file ''theme-settings'' ''appearance'') else Err ''RECORD_ID_INVALID'')"
  "path_for ''persona'' i =
     (if i = ''default'' then Inr (record_file ''persona'' ''default'') else Err ''RECORD_ID_INVALID'')"
  "path_for ''layout'' i =
     (if i = ''sidebars'' then Inr (record_file ''layout'' ''sidebars'') else Err ''RECORD_ID_INVALID'')"
  "path_for ''preferences'' i =
     (if i = ''editor'' then Inr (record_file ''preferences'' ''editor'') else Err ''RECORD_ID_INVALID'')"
  "path_for ''user_skill'' i = user_skill_path i"
  "path_for ''conversation'' i = portable_id_path i ''conversation_'' ''conversations''"
  "path_for ''agent_history'' i = portable_id_path i ''agent_run_'' ''agent-history''"
  "path_for ''provider_settings'' i = portable_id_path i ''provider_'' ''provider-settings''"
  "path_for ''extension_installation'' i = portable_id_path i ''extension_'' ''extension-installations''"
  by (simp_all add: path_for_def fixed_files)

lemma path_for_rule:
  assumes "(k, d, x) \<in> set record_ids"
  shows "path_for k i = Inr p \<longleftrightarrow> id_ok x i \<and> p = record_file d i"
proof -
  have fixed: "(if i = j then Inr (record_file d j) else Err e) = (Inr p :: string result) \<longleftrightarrow>
      i = j \<and> p = record_file d i" for j e d
    by auto
  show ?thesis
    using assms unfolding record_ids_def
    by (simp only: list.set insert_iff empty_iff prod.inject, elim disjE conjE)
       (simp_all only: path_for_kinds record_path_iffs fixed id_ok.simps)
qed

lemma path_for_known: "path_for k i = Inr p \<Longrightarrow> \<exists>d x. (k, d, x) \<in> set record_ids"
  by (cases "k \<in> fst ` set record_ids") (auto simp: record_ids_def path_for_def split: if_splits)

lemma path_for_iff:
  "path_for k i = Inr p \<longleftrightarrow> (\<exists>d x. (k, d, x) \<in> set record_ids \<and> id_ok x i \<and> p = record_file d i)"
  using path_for_rule path_for_known by metis

lemma hex_id_no_slash: "CHR ''/'' \<notin> set prefix \<Longrightarrow> hex_id prefix i \<Longrightarrow> CHR ''/'' \<notin> set i"
proof -
  assume p: "CHR ''/'' \<notin> set prefix" and h: "hex_id prefix i"
  then obtain r where i: "i = prefix @ r" by (auto simp: hex_id_def starts_with_iff)
  then have "list_all is_lower_hex r" using h by (simp add: hex_id_def)
  then have "CHR ''/'' \<notin> set r" by (auto simp: list_all_iff ascii_defs)
  with p i show ?thesis by simp
qed

lemma record_file_inject:
  assumes "record_file d i = record_file e j" "CHR ''/'' \<notin> set d" "CHR ''/'' \<notin> set e"
    "CHR ''/'' \<notin> set i" "CHR ''/'' \<notin> set j"
  shows "d = e \<and> i = j"
proof -
  have "split_on (CHR ''/'') (record_file x y) = [''opennexus-records'', ''v1'', x, y @ ''.json'']"
    if "CHR ''/'' \<notin> set x" "CHR ''/'' \<notin> set y" for x y
    unfolding record_file_def using that by (intro split_join) auto
  with assms have "[''opennexus-records'', ''v1'', d, i @ ''.json''] = [''opennexus-records'', ''v1'', e, j @ ''.json'']"
    by metis
  then show ?thesis by simp
qed

lemma record_ids_slash:
  "\<forall>(k, d, x) \<in> set record_ids. CHR ''/'' \<notin> set d \<and> CHR ''/'' \<notin> set (id_root x)"
  by (simp add: record_ids_def)

lemma record_ids_shape:
  assumes "(k, d, x) \<in> set record_ids"
  shows "CHR ''/'' \<notin> set d" "id_ok x i \<Longrightarrow> CHR ''/'' \<notin> set i"
  using assms record_ids_slash hex_id_no_slash by (cases x; fastforce)+

lemma record_ids_dirs: "distinct (map (\<lambda>(k, d, x). d) record_ids)"
  by (simp add: record_ids_def)

lemma path_for_inject:
  assumes "path_for k i = Inr p" "path_for k' i' = Inr p"
  shows "k = k' \<and> i = i'"
proof -
  from assms(1) obtain d x where d: "(k, d, x) \<in> set record_ids" "id_ok x i" "p = record_file d i"
    unfolding path_for_iff by blast
  from assms(2) obtain e y where e: "(k', e, y) \<in> set record_ids" "id_ok y i'" "p = record_file e i'"
    unfolding path_for_iff by blast
  have de: "d = e" "i = i'"
    using record_file_inject [of d i e i'] record_ids_shape [OF d(1)] record_ids_shape [OF e(1)] d e by auto
  have "(k, d, x) = (k', d, y)"
    using record_ids_dirs d(1) e(1) unfolding de(1) [symmetric] distinct_map inj_on_def by fastforce
  with de show ?thesis by simp
qed

lemma record_allowed_iff: "record_allowed p \<longleftrightarrow> (\<exists>kind i. path_for kind i = Inr p)"
proof -
  have strip: "(case stripped pre p of None \<Rightarrow> False | Some j \<Rightarrow> is_ok (f j)) \<longleftrightarrow>
      (\<exists>j. stripped pre p = Some j \<and> (\<exists>q. f j = Inr q))" for pre and f :: "string \<Rightarrow> string result"
    by (auto simp: is_ok_iff split: option.splits)
  have "record_allowed p \<longleftrightarrow> (\<exists>(k, d, x) \<in> set record_ids. \<exists>j. id_ok x j \<and> p = record_file d j)"
    unfolding record_allowed_def fixed_files list_ex_iff list.set bex_simps prod.case strip stripped_dirs
      path_for_kinds record_path_iffs record_ids_def id_ok.simps
    by (simp only: insert_iff empty_iff simp_thms ex_simps list.set bex_simps) (simp only: disj_ac conj_ac)
  then show ?thesis unfolding path_for_iff by auto
qed

text \<open>
  C34. Record paths and record identities correspond one to one: a path is accepted as a record
  path exactly when it is the path of some kind and identifier, and two different records never
  share a path.
\<close>

theorem record_paths_exact:
  "(record_allowed p \<longleftrightarrow> (\<exists>kind i. path_for kind i = Inr p)) \<and>
   (path_for k i = Inr p \<longrightarrow> path_for k' i' = Inr p \<longrightarrow> k = k' \<and> i = i')"
  using record_allowed_iff path_for_inject by blast

theorem record_paths_exact_witness:
  "record_allowed ''opennexus-records/v1/persona/default.json'' \<and>
   path_for ''persona'' ''default'' = Inr ''opennexus-records/v1/persona/default.json''"
proof -
  have p: "path_for ''persona'' ''default'' = Inr ''opennexus-records/v1/persona/default.json''"
    by (simp add: path_for_def)
  then show ?thesis
    using record_paths_exact [of "''opennexus-records/v1/persona/default.json''" "''persona''" "''default''"] by blast
qed

section \<open>What may leave the device\<close>

lemma record_file_root: "starts_with ''opennexus-records/'' (record_file d i)"
  by (simp add: record_file_def starts_with_def)

text \<open>The device's choice for the kind of a record.\<close>

definition scope_field :: "string \<Rightarrow> optional_scope \<Rightarrow> bool" where
  "scope_field kind sc =
     (if kind = ''persona'' then sc_persona sc else if kind = ''layout'' then sc_layout sc
      else if kind = ''conversation'' then sc_conversations sc
      else if kind = ''agent_history'' then sc_agent_history sc
      else if kind = ''provider_settings'' then sc_provider_settings sc
      else if kind = ''extension_installation'' then sc_extension_installations sc else True)"

definition optional_kinds :: "string list" where
  "optional_kinds = [''persona'', ''layout'', ''conversation'', ''agent_history'', ''provider_settings'',
     ''extension_installation'']"

lemma not_scope_default: "kind \<in> set optional_kinds \<Longrightarrow> \<not> scope_field kind default_scope"
  unfolding optional_kinds_def
  by (simp only: list.set insert_iff empty_iff, elim disjE) (simp_all add: scope_field_def default_scope_def)

lemma scope_includes_path:
  assumes "path_for kind i = Inr path"
  shows "scope_includes sc path = scope_field kind sc"
proof -
  from assms obtain d x where d: "(kind, d, x) \<in> set record_ids" "id_ok x i" "path = record_file d i"
    unfolding path_for_iff by blast
  show ?thesis
    using d(1,2) unfolding record_ids_def d(3)
    by (simp only: list.set insert_iff empty_iff prod.inject, elim disjE conjE)
       (simp_all add: scope_includes_def scope_field_def record_file_def starts_with_def)
qed

text \<open>
  Nothing hidden or internal is synchronised: an enabled path is a known record, of a class
  the device has chosen where the class is optional, or a file none of whose directories or
  names starts with a dot (so neither .ainote nor .git) or is a build or cache directory.
  With no stored choice no optional class is synchronised.
\<close>

theorem sync_enabled_only_public:
  assumes "sync_path_enabled row path"
  shows "(\<exists>kind i. path_for kind i = Inr path \<and>
       (kind \<in> set optional_kinds \<longrightarrow> (\<exists>sc. row = Some sc \<and> scope_field kind sc))) \<or>
    (\<not> is_record path \<and> (\<forall>part \<in> set (split_on (CHR ''/'') path). \<not> skipped_part part))"
proof (cases "is_record path")
  case True
  then have "record_allowed path" using assms by (simp add: sync_path_enabled_def sync_allowed_def)
  then obtain kind i where k: "path_for kind i = Inr path" using record_allowed_iff by blast
  let ?sc = "case row of None \<Rightarrow> default_scope | Some sc \<Rightarrow> sc"
  have inc: "scope_includes ?sc path" using assms by (simp add: sync_path_enabled_def)
  have field: "scope_field kind ?sc" using scope_includes_path [OF k] inc by simp
  have "\<exists>sc. row = Some sc \<and> scope_field kind sc"
    if "kind \<in> set optional_kinds"
    using field not_scope_default [OF that] by (cases row) simp_all
  then show ?thesis using k by blast
next
  case False
  then show ?thesis
    using assms unfolding sync_path_enabled_def sync_allowed_def list_ex_iff by (auto split: if_splits)
qed

theorem sync_enabled_only_public_witness:
  "sync_path_enabled None ''notes/a.md'' \<and>
   list_all (\<lambda>part. \<not> skipped_part part) (split_on (CHR ''/'') ''notes/a.md'')"
proof -
  have e: "sync_path_enabled None ''notes/a.md''"
    by (simp add: sync_path_enabled_def sync_allowed_def is_record_def starts_with_def skipped_part_def
        ascii_defs ext_is_def path_extension_def path_components_def component_of_def name_extension_def
        scope_includes_def)
  moreover have "\<not> is_record ''notes/a.md''" by (simp add: is_record_def starts_with_def)
  moreover have "path_for kind i \<noteq> Inr ''notes/a.md''" for kind i
    using record_allowed_iff [of "''notes/a.md''"]
    by (simp add: record_allowed_def stripped_def strip_prefix_def starts_with_def)
  ultimately show ?thesis using sync_enabled_only_public [OF e] unfolding list_all_iff by blast
qed

end
