(* ===== verification/Extension_Package.thy ===== *)
theory Extension_Package
  imports Path_Policy BTree_Map "HOL-Library.Product_Lexorder"
begin

text \<open>
  Signed extension packages (\<open>extension_package.rs\<close>): the schema of a release, the signature over
  its canonical JSON, the structure of the archive's central directory, the names of its
  entries, and the inventory of its contents. Unicode tables, the signature scheme, \<open>serde_json\<close>,
  \<open>semver\<close> and the decompressor are parameters; the central directory is read from the bytes.
\<close>

section \<open>Releases\<close>

record ext_release =
  xr_schema_version :: nat
  xr_namespace :: string
  xr_package_id :: string
  xr_kind :: string
  xr_version :: string
  xr_name :: string
  xr_author_id :: string
  xr_license :: string
  xr_description :: string
  xr_sha256 :: string
  xr_size :: nat
  xr_platforms :: "string list"
  xr_architectures :: "string list"
  xr_min_app_version :: string
  xr_max_app_version :: "string option"
  xr_dependencies :: "(string \<times> string) list"
  xr_permissions :: "string list"
  xr_changelog :: string
  xr_published_at :: string
  xr_key_id :: string
  xr_signature :: string

text \<open>An entry of the archive as the decompressor presents it: its reads are the chunks it returns, where
  a missing chunk is an error and an empty one the end.\<close>

record zip_entry =
  ze_name :: string
  ze_is_dir :: bool
  ze_unix_mode :: "32 word option"
  ze_encrypted :: bool
  ze_plain :: bool
  ze_size :: nat
  ze_reads :: "string option list"

record pkg_env =
  px_sha :: "string \<Rightarrow> string"
  px_version :: "string \<Rightarrow> bool"
  px_precedes :: "string \<Rightarrow> string \<Rightarrow> bool"
  px_json :: "ext_release \<Rightarrow> (string \<times> json) list option"
  px_text :: "json \<Rightarrow> string"
  px_base64 :: "string \<Rightarrow> string option"
  px_signature :: "string \<Rightarrow> bool"
  px_key :: "string \<Rightarrow> bool"
  px_verify_strict :: "string \<Rightarrow> string \<Rightarrow> string \<Rightarrow> bool"
  px_nfc :: "string \<Rightarrow> string"
  px_folded :: "string \<Rightarrow> string"
  px_zip :: "string \<Rightarrow> zip_entry option list option"

definition release_bounded :: "string \<Rightarrow> nat \<Rightarrow> nat \<Rightarrow> bool" where
  "release_bounded s lo hi \<longleftrightarrow> lo \<le> chars_count s \<and> chars_count s \<le> hi"

definition identity_slug :: "string \<Rightarrow> bool" where
  "identity_slug s \<longleftrightarrow>
     2 \<le> length s \<and> length s \<le> 64 \<and> is_ascii_alphanumeric (s ! 0) \<and>
     list_all (\<lambda>b. is_ascii_lowercase b \<or> is_ascii_digit b \<or> b = CHR ''-'') s"

definition version_ok :: "pkg_env \<Rightarrow> string \<Rightarrow> bool" where
  "version_ok P s \<longleftrightarrow> length s \<le> 120 \<and> px_version P s"

text \<open>\<open>to_lowercase\<close> compared with an ASCII word: besides the ASCII letters only the Kelvin sign has an
  ASCII lower case.\<close>

fun kelvin_k :: "string \<Rightarrow> string" where
  "kelvin_k (a # b # c # r) =
     (if a = CHR 0xE2 \<and> b = CHR 0x84 \<and> c = CHR 0xAA then CHR ''k'' # kelvin_k r else a # kelvin_k (b # c # r))"
| "kelvin_k s = s"

definition license_unknown :: "string \<Rightarrow> bool" where
  "license_unknown s \<longleftrightarrow> to_ascii_lowercase (kelvin_k s) \<in> {''unknown'', ''none'', ''unlicensed'', ''tbd''}"

definition release_valid :: "pkg_env \<Rightarrow> ext_release \<Rightarrow> bool" where
  "release_valid P r \<longleftrightarrow>
     xr_schema_version r = 1 \<and> identity_slug (xr_namespace r) \<and> identity_slug (xr_package_id r) \<and>
     xr_kind r \<in> {''theme'', ''skill'', ''plugin'', ''mcp'', ''persona'', ''template'', ''model''} \<and>
     version_ok P (xr_version r) \<and> release_bounded (xr_name r) 1 120 \<and> release_bounded (xr_author_id r) 1 80 \<and>
     release_bounded (xr_license r) 1 80 \<and> \<not> license_unknown (xr_license r) \<and>
     release_bounded (xr_description r) 0 10000 \<and> release_bounded (xr_changelog r) 0 10000 \<and>
     is_sha256_hex (xr_sha256 r) \<and> 1 \<le> xr_size r \<and> xr_size r \<le> 10 * 1024 * 1024 \<and>
     length (xr_platforms r) \<le> 12 \<and> length (xr_architectures r) \<le> 12 \<and>
     list_all (\<lambda>s. release_bounded s 1 80) (xr_platforms r @ xr_architectures r) \<and>
     version_ok P (xr_min_app_version r) \<and>
     (case xr_max_app_version r of
        None \<Rightarrow> True
      | Some m \<Rightarrow> version_ok P m \<and> px_version P (xr_min_app_version r) \<and> px_version P m \<and>
          \<not> px_precedes P m (xr_min_app_version r)) \<and>
     length (xr_dependencies r) \<le> 64 \<and>
     list_all (\<lambda>(k, v). release_bounded k 1 160 \<and> release_bounded v 1 256) (xr_dependencies r) \<and>
     length (xr_permissions r) \<le> 64 \<and> list_all (\<lambda>v. release_bounded v 1 256) (xr_permissions r) \<and>
     release_bounded (xr_published_at r) 0 40 \<and> release_bounded (xr_key_id r) 1 80 \<and>
     list_all (\<lambda>b. is_ascii_alphanumeric b \<or> b = CHR ''-'') (xr_key_id r) \<and> length (xr_signature r) \<le> 128"

definition release_validate :: "pkg_env \<Rightarrow> ext_release \<Rightarrow> unit result" where
  "release_validate P r = require (release_valid P r) ''EXTENSION_RELEASE_INVALID''"

section \<open>The signed text\<close>

text \<open>Objects with sorted keys and no blanks; the text of keys and scalars is \<open>serde_json\<close>'s.\<close>

fun comma_join :: "string list \<Rightarrow> string" where
  "comma_join [] = []"
| "comma_join [s] = s"
| "comma_join (s # t # ss) = s @ '','' @ comma_join (t # ss)"

lemma json_pair_size: "(k, v) \<in> set kvs \<Longrightarrow> size v < Suc (size_list (size_prod (\<lambda>_. 0) size) kvs)"
  by (induction kvs) auto

lemma json_item_size: "v \<in> set vs \<Longrightarrow> size v < Suc (size_list size vs)"
  by (induction vs) auto

function release_canonical :: "pkg_env \<Rightarrow> json \<Rightarrow> string" where
  "release_canonical P (JObj kvs) =
     ''{'' @ comma_join (map (\<lambda>(k, t). px_text P (JStr k) @ '':'' @ t)
       (fold (\<lambda>(k, t). bt_insert k t) (map (\<lambda>(k, v). (k, release_canonical P v)) kvs) [])) @ ''}''"
| "release_canonical P (JArr vs) = ''['' @ comma_join (map (release_canonical P) vs) @ '']''"
| "release_canonical P JNull = px_text P JNull"
| "release_canonical P (JBool b) = px_text P (JBool b)"
| "release_canonical P (JInt i) = px_text P (JInt i)"
| "release_canonical P (JFloat m e) = px_text P (JFloat m e)"
| "release_canonical P (JStr s) = px_text P (JStr s)"
  by pat_completeness auto
termination
  by (relation "measure (\<lambda>(P, j). size j)") (auto intro: json_pair_size json_item_size)

definition signed_payload :: "pkg_env \<Rightarrow> ext_release \<Rightarrow> string result" where
  "signed_payload P r =
     bindR (release_validate P r) (\<lambda>_.
     bindR (ok_or (px_json P r) ''EXTENSION_RELEASE_INVALID'') (\<lambda>kvs.
     Inr (release_canonical P (JObj (filter (\<lambda>p. fst p \<noteq> ''signature'') kvs)))))"

definition release_verify ::
  "pkg_env \<Rightarrow> ext_release \<Rightarrow> string \<Rightarrow> string \<Rightarrow> string \<Rightarrow> bool \<Rightarrow> bool \<Rightarrow> string \<Rightarrow> unit result" where
  "release_verify P r pinned key_id namespace revoked withdrawn archive =
     bindR (release_validate P r) (\<lambda>_.
     bindR (require (\<not> (revoked \<or> withdrawn)) ''EXTENSION_REVOKED'') (\<lambda>_.
     bindR (require (key_id = xr_key_id r \<and> namespace = xr_namespace r) ''EXTENSION_SIGNER_MISMATCH'') (\<lambda>_.
     bindR (ok_or (px_base64 P (xr_signature r)) ''EXTENSION_SIGNATURE_INVALID'') (\<lambda>bytes.
     bindR (require (px_signature P bytes) ''EXTENSION_SIGNATURE_INVALID'') (\<lambda>_.
     bindR (require (px_key P pinned) ''EXTENSION_SIGNATURE_INVALID'') (\<lambda>_.
     bindR (signed_payload P r) (\<lambda>payload.
     bindR (require (px_verify_strict P pinned payload bytes) ''EXTENSION_SIGNATURE_INVALID'') (\<lambda>_.
     require (length archive = xr_size r \<and> px_sha P archive = xr_sha256 r) ''EXTENSION_ARCHIVE_MISMATCH''))))))))"

section \<open>The central directory\<close>

definition slice :: "string \<Rightarrow> nat \<Rightarrow> nat \<Rightarrow> string option" where
  "slice bytes p n = (if p + n \<le> length bytes then Some (take n (drop p bytes)) else None)"

fun le_bytes :: "string \<Rightarrow> nat" where
  "le_bytes [] = 0"
| "le_bytes (c # s) = of_char c + 256 * le_bytes s"

definition u16at :: "string \<Rightarrow> nat \<Rightarrow> nat result" where
  "u16at bytes p = bindR (ok_or (slice bytes p 2) ''EXTENSION_ZIP_INVALID'') (\<lambda>s. Inr (le_bytes s))"

definition u32at :: "string \<Rightarrow> nat \<Rightarrow> nat result" where
  "u32at bytes p = bindR (ok_or (slice bytes p 4) ''EXTENSION_ZIP_INVALID'') (\<lambda>s. Inr (le_bytes s))"

definition zip_end_at :: "string \<Rightarrow> nat \<Rightarrow> bool" where
  "zip_end_at bytes p \<longleftrightarrow>
     slice bytes p 4 = Some [CHR ''P'', CHR ''K'', CHR 0x05, CHR 0x06] \<and>
     (case u16at bytes (p + 20) of Inl _ \<Rightarrow> False | Inr n \<Rightarrow> p + 22 + n = length bytes)"

definition zip_end :: "string \<Rightarrow> nat option" where
  "zip_end bytes = find (zip_end_at bytes) (rev [length bytes - 65557..<length bytes - 21])"

text \<open>One record of the directory: where the next one starts, the entry's name, and the bytes of the
  archive that belong to the entry.\<close>

record zip_record =
  zr_next :: nat
  zr_name :: string
  zr_local :: nat
  zr_data_end :: nat

definition zip_record_at :: "string \<Rightarrow> nat \<Rightarrow> nat \<Rightarrow> string list \<Rightarrow> nat \<Rightarrow> zip_record result" where
  "zip_record_at bytes start stop names pos =
     bindR (require (slice bytes pos 4 = Some [CHR ''P'', CHR ''K'', CHR 0x01, CHR 0x02]) ''EXTENSION_ZIP_INVALID'') (\<lambda>_.
     bindR (u16at bytes (pos + 28)) (\<lambda>len.
     bindR (u16at bytes (pos + 30)) (\<lambda>extra.
     bindR (u16at bytes (pos + 32)) (\<lambda>comment.
     let next = pos + (46 + len + extra + comment) in
     bindR (require (next \<le> stop) ''EXTENSION_ZIP_INVALID'') (\<lambda>_.
     bindR (ok_or (slice bytes (pos + 46) len) ''EXTENSION_ZIP_INVALID'') (\<lambda>name.
     bindR (require (name \<notin> set names) ''EXTENSION_ZIP_DUPLICATE'') (\<lambda>_.
     bindR (u32at bytes (pos + 42)) (\<lambda>local.
     bindR (require (local < start \<and> slice bytes local 4 = Some [CHR ''P'', CHR ''K'', CHR 0x03, CHR 0x04]) ''EXTENSION_ZIP_INVALID'') (\<lambda>_.
     bindR (u16at bytes (pos + 34)) (\<lambda>disk.
     bindR (u16at bytes (local + 6)) (\<lambda>flags.
     bindR (u16at bytes (pos + 8)) (\<lambda>flags'.
     bindR (u16at bytes (local + 8)) (\<lambda>meth.
     bindR (u16at bytes (pos + 10)) (\<lambda>meth'.
     bindR (require (disk = 0 \<and> flags = flags' \<and> meth = meth') ''EXTENSION_ZIP_INVALID'') (\<lambda>_.
     bindR (u16at bytes (local + 26)) (\<lambda>local_name.
     bindR (u16at bytes (local + 28)) (\<lambda>local_extra.
     bindR (require (slice bytes (local + 30) local_name = Some name) ''EXTENSION_ZIP_INVALID'') (\<lambda>_.
     bindR (u32at bytes (pos + 20)) (\<lambda>compressed.
     let data_end = local + (30 + local_name + local_extra) + compressed in
     bindR (require (data_end \<le> start) ''EXTENSION_ZIP_INVALID'') (\<lambda>_.
     Inr \<lparr>zr_next = next, zr_name = name, zr_local = local, zr_data_end = data_end\<rparr>))))))))))))))))))))"

fun zip_records :: "string \<Rightarrow> nat \<Rightarrow> nat \<Rightarrow> nat \<Rightarrow> string list \<Rightarrow> nat \<Rightarrow> (nat \<times> zip_record list) result" where
  "zip_records bytes start stop 0 names pos = Inr (pos, [])"
| "zip_records bytes start stop (Suc n) names pos =
     bindR (zip_record_at bytes start stop names pos) (\<lambda>r.
     bindR (zip_records bytes start stop n (zr_name r # names) (zr_next r)) (\<lambda>(last_pos, rs).
     Inr (last_pos, r # rs)))"

fun overlapping :: "(nat \<times> nat) list \<Rightarrow> bool" where
  "overlapping (a # b # rest) \<longleftrightarrow> fst b < snd a \<or> overlapping (b # rest)"
| "overlapping _ \<longleftrightarrow> False"

definition zip_directory :: "string \<Rightarrow> nat \<Rightarrow> unit result" where
  "zip_directory bytes max_entries =
     bindR (ok_or (zip_end bytes) ''EXTENSION_ZIP_INVALID'') (\<lambda>stop.
     bindR (u16at bytes (stop + 10)) (\<lambda>count.
     bindR (u16at bytes (stop + 4)) (\<lambda>disk.
     bindR (u16at bytes (stop + 6)) (\<lambda>first_disk.
     bindR (u16at bytes (stop + 8)) (\<lambda>here.
     bindR (require (disk = 0 \<and> first_disk = 0 \<and> here = count \<and> count \<noteq> 0 \<and> count \<le> max_entries) ''EXTENSION_ZIP_LIMIT'') (\<lambda>_.
     bindR (u32at bytes (stop + 16)) (\<lambda>start.
     bindR (u32at bytes (stop + 12)) (\<lambda>sz.
     bindR (require (start + sz = stop) ''EXTENSION_ZIP_INVALID'') (\<lambda>_.
     bindR (zip_records bytes start stop count [] start) (\<lambda>(pos, rs).
     bindR (require (pos = stop) ''EXTENSION_ZIP_INVALID'') (\<lambda>_.
     require (\<not> overlapping (sort (map (\<lambda>r. (zr_local r, zr_data_end r)) rs))) ''EXTENSION_ZIP_INVALID'')))))))))))"

section \<open>Entry names\<close>

text \<open>A character whose upper case is not itself ASCII never makes a reserved stem.\<close>

definition entry_part_ok :: "string \<Rightarrow> bool" where
  "entry_part_ok part \<longleftrightarrow>
     (let stem = to_ascii_uppercase (first_part (CHR ''.'') part) in
      part \<noteq> [] \<and> part \<noteq> ''.'' \<and> part \<noteq> ''..'' \<and> last part \<noteq> CHR ''.'' \<and> last part \<noteq> CHR '' '' \<and>
      stem \<notin> {''CON'', ''PRN'', ''AUX'', ''NUL''} \<and>
      \<not> list_ex (\<lambda>p. case strip_prefix p stem of
            None \<Rightarrow> False
          | Some s \<Rightarrow> length s = 1 \<and> is_ascii_digit (s ! 0) \<and> s \<noteq> ''0'') [''COM'', ''LPT''])"

definition entry_path :: "pkg_env \<Rightarrow> string \<Rightarrow> string result" where
  "entry_path P name =
     bindR (require (\<not> (name = [] \<or> 1024 < length name \<or> px_nfc P name \<noteq> name \<or>
         list_ex (\<lambda>c. char_is_control c \<or> c \<in> {92, 58, 60, 62, 124, 63, 42, 34}) (str_chars name))) ''EXTENSION_ZIP_PATH'') (\<lambda>_.
     let n = (case strip_suffix ''/'' name of None \<Rightarrow> name | Some m \<Rightarrow> m) in
     bindR (require (list_all entry_part_ok (split_on (CHR ''/'') n)) ''EXTENSION_ZIP_PATH'') (\<lambda>_.
     Inr n))"

section \<open>The inventory\<close>

record zip_inventory =
  zi_files :: "(string \<times> string) list"
  zi_expanded_size :: nat
  zi_manifest :: string

record inspect_state =
  is_names :: "(string \<times> bool) list"
  is_total :: nat
  is_files :: "(string \<times> string) list"

fun read_entry :: "nat \<Rightarrow> string \<Rightarrow> string option list \<Rightarrow> string result" where
  "read_entry expected acc [] = bindR (require (length acc = expected) ''EXTENSION_ZIP_INVALID'') (\<lambda>_. Inr acc)"
| "read_entry expected acc (None # _) = Err ''EXTENSION_ZIP_INVALID''"
| "read_entry expected acc (Some chunk # rest) =
     (if chunk = [] then bindR (require (length acc = expected) ''EXTENSION_ZIP_INVALID'') (\<lambda>_. Inr acc)
      else if expected < length acc + length chunk then Err ''EXTENSION_ZIP_LIMIT''
      else read_entry expected (acc @ chunk) rest)"

definition entry_kind :: "zip_entry \<Rightarrow> 32 word" where
  "entry_kind e = and (case ze_unix_mode e of None \<Rightarrow> 0 | Some m \<Rightarrow> m) 0xF000"

definition entry_unsafe :: "zip_entry \<Rightarrow> bool" where
  "entry_unsafe e \<longleftrightarrow>
     (let mode = entry_kind e in
      ze_encrypted e \<or> \<not> ze_plain e \<or> mode \<notin> {0, 0x8000, 0x4000} \<or>
      (mode = 0x4000 \<and> \<not> ze_is_dir e) \<or> (mode = 0x8000 \<and> ze_is_dir e))"

definition inspect_entry :: "pkg_env \<Rightarrow> nat \<Rightarrow> zip_entry option \<Rightarrow> inspect_state \<Rightarrow> inspect_state result" where
  "inspect_entry P expanded entry st =
     bindR (ok_or entry ''EXTENSION_ZIP_INVALID'') (\<lambda>e.
     bindR (entry_path P (ze_name e)) (\<lambda>name.
     let folded = px_folded P name in
     bindR (require (bt_get (is_names st) folded = None) ''EXTENSION_ZIP_DUPLICATE'') (\<lambda>_.
     bindR (require (\<not> entry_unsafe e) ''EXTENSION_ZIP_UNSAFE'') (\<lambda>_.
     bindR (require (is_total st + ze_size e < 2 ^ 64) ''EXTENSION_ZIP_LIMIT'') (\<lambda>_.
     bindR (require (is_total st + ze_size e \<le> expanded) ''EXTENSION_ZIP_LIMIT'') (\<lambda>_.
     let st1 = st\<lparr>is_names := bt_insert folded (ze_is_dir e) (is_names st), is_total := is_total st + ze_size e\<rparr> in
     if ze_is_dir e then bindR (require (ze_size e = 0) ''EXTENSION_ZIP_UNSAFE'') (\<lambda>_. Inr st1)
     else bindR (read_entry (ze_size e) [] (ze_reads e)) (\<lambda>content.
       Inr (st1\<lparr>is_files := bt_insert name (px_sha P content) (is_files st1)\<rparr>))))))))"

fun inspect_entries :: "pkg_env \<Rightarrow> nat \<Rightarrow> zip_entry option list \<Rightarrow> inspect_state \<Rightarrow> inspect_state result" where
  "inspect_entries P expanded [] st = Inr st"
| "inspect_entries P expanded (e # es) st = bindR (inspect_entry P expanded e st) (inspect_entries P expanded es)"

text \<open>Whether the first name from \<open>name/\<close> on lies below \<open>name\<close>.\<close>

definition below_file :: "(string \<times> bool) list \<Rightarrow> string \<Rightarrow> bool" where
  "below_file names name \<longleftrightarrow>
     (case find (\<lambda>(k, _). name @ ''/'' \<le> k) names of
        None \<Rightarrow> False
      | Some (k, _) \<Rightarrow> starts_with (name @ ''/'') k)"

definition required_manifest :: "string \<Rightarrow> string" where
  "required_manifest kind =
     (if kind = ''theme'' then ''theme.yaml'' else if kind = ''skill'' then ''skill.yaml''
      else if kind = ''plugin'' then ''plugin.yaml'' else if kind = ''mcp'' then ''mcp.json''
      else if kind = ''persona'' then ''persona.json'' else if kind = ''template'' then ''template.json''
      else ''model.json'')"

definition select_manifest :: "string \<Rightarrow> string list \<Rightarrow> string result" where
  "select_manifest required names =
     (case filter (\<lambda>name. name = required \<or> ends_with (''/'' @ required) name) names of
        [manifest] \<Rightarrow> Inr manifest
      | _ \<Rightarrow> Err ''EXTENSION_MANIFEST_INVALID'')"

definition zip_limits :: "string \<Rightarrow> nat \<times> nat \<times> nat" where
  "zip_limits kind =
     (if kind = ''theme'' then (5 * 1024 * 1024, 10 * 1024 * 1024, 100) else (10 * 1024 * 1024, 50 * 1024 * 1024, 2048))"

definition inspect :: "pkg_env \<Rightarrow> ext_release \<Rightarrow> string \<Rightarrow> zip_inventory result" where
  "inspect P r bytes =
     bindR (release_validate P r) (\<lambda>_.
     bindR (require (length bytes = xr_size r \<and> px_sha P bytes = xr_sha256 r) ''EXTENSION_ARCHIVE_MISMATCH'') (\<lambda>_.
     case zip_limits (xr_kind r) of (compressed, expanded, entries) \<Rightarrow>
     bindR (require (length bytes \<le> compressed) ''EXTENSION_ZIP_LIMIT'') (\<lambda>_.
     bindR (zip_directory bytes entries) (\<lambda>_.
     bindR (ok_or (px_zip P bytes) ''EXTENSION_ZIP_INVALID'') (\<lambda>archive.
     bindR (require (length archive \<le> entries) ''EXTENSION_ZIP_LIMIT'') (\<lambda>_.
     bindR (inspect_entries P expanded archive \<lparr>is_names = [], is_total = 0, is_files = []\<rparr>) (\<lambda>st.
     bindR (require (\<not> list_ex (\<lambda>(name, is_dir). \<not> is_dir \<and> below_file (is_names st) name) (is_names st)) ''EXTENSION_ZIP_PREFIX'') (\<lambda>_.
     bindR (select_manifest (required_manifest (xr_kind r)) (map fst (is_files st))) (\<lambda>manifest.
     Inr \<lparr>zi_files = is_files st, zi_expanded_size = is_total st, zi_manifest = manifest\<rparr>)))))))))"

section \<open>What an accepted directory looks like\<close>

text \<open>
  The record at \<open>pos\<close> and the entry it describes, in terms of the numbers stored in the archive: the
  lengths of the name, the extra field and the comment give the next record; the offset, the lengths
  in the local header and the compressed size give the bytes of the entry.
\<close>

definition zip_record_ok :: "string \<Rightarrow> nat \<Rightarrow> nat \<Rightarrow> nat \<Rightarrow> zip_record \<Rightarrow> bool" where
  "zip_record_ok bytes start stop pos r \<longleftrightarrow>
     slice bytes pos 4 = Some [CHR ''P'', CHR ''K'', CHR 0x01, CHR 0x02] \<and>
     slice bytes (pos + 46) (length (zr_name r)) = Some (zr_name r) \<and>
     u16at bytes (pos + 28) = Inr (length (zr_name r)) \<and> u32at bytes (pos + 42) = Inr (zr_local r) \<and>
     u16at bytes (pos + 34) = Inr 0 \<and>
     (\<exists>extra comment. u16at bytes (pos + 30) = Inr extra \<and> u16at bytes (pos + 32) = Inr comment \<and>
        zr_next r = pos + 46 + length (zr_name r) + extra + comment) \<and> zr_next r \<le> stop \<and>
     slice bytes (zr_local r) 4 = Some [CHR ''P'', CHR ''K'', CHR 0x03, CHR 0x04] \<and>
     slice bytes (zr_local r + 30) (length (zr_name r)) = Some (zr_name r) \<and>
     u16at bytes (zr_local r + 26) = Inr (length (zr_name r)) \<and>
     u16at bytes (zr_local r + 6) = u16at bytes (pos + 8) \<and> u16at bytes (zr_local r + 8) = u16at bytes (pos + 10) \<and>
     (\<exists>extra compressed. u16at bytes (zr_local r + 28) = Inr extra \<and> u32at bytes (pos + 20) = Inr compressed \<and>
        zr_data_end r = zr_local r + 30 + length (zr_name r) + extra + compressed) \<and> zr_data_end r \<le> start"

text \<open>The records follow one another without a gap.\<close>

fun zip_tiled :: "string \<Rightarrow> nat \<Rightarrow> nat \<Rightarrow> nat \<Rightarrow> zip_record list \<Rightarrow> bool" where
  "zip_tiled bytes start stop pos [] \<longleftrightarrow> pos = stop"
| "zip_tiled bytes start stop pos (r # rs) \<longleftrightarrow>
     zip_record_ok bytes start stop pos r \<and> zip_tiled bytes start stop (zr_next r) rs"

lemma zip_slice_length: "slice bytes p n = Some s \<Longrightarrow> length s = n \<and> p + n \<le> length bytes"
  by (auto simp: slice_def split: if_splits)

lemma zip_record_at_ok:
  assumes "zip_record_at bytes start stop names pos = Inr r"
  shows "zip_record_ok bytes start stop pos r \<and> zr_name r \<notin> set names"
proof -
  from assms obtain len extra comment name local flags meth local_name local_extra compressed where
      f: "slice bytes pos 4 = Some [CHR ''P'', CHR ''K'', CHR 0x01, CHR 0x02]" "slice bytes (pos + 46) len = Some name"
        "pos + (46 + len + extra + comment) \<le> stop" "name \<notin> set names"
        "slice bytes local 4 = Some [CHR ''P'', CHR ''K'', CHR 0x03, CHR 0x04]" "slice bytes (local + 30) local_name = Some name"
        "local + (30 + local_name + local_extra) + compressed \<le> start"
      and n: "u16at bytes (pos + 28) = Inr len" "u16at bytes (pos + 30) = Inr extra" "u16at bytes (pos + 32) = Inr comment"
        "u32at bytes (pos + 42) = Inr local" "u16at bytes (pos + 34) = Inr 0" "u16at bytes (local + 6) = Inr flags"
        "u16at bytes (pos + 8) = Inr flags" "u16at bytes (local + 8) = Inr meth" "u16at bytes (pos + 10) = Inr meth"
        "u16at bytes (local + 26) = Inr local_name" "u16at bytes (local + 28) = Inr local_extra" "u32at bytes (pos + 20) = Inr compressed"
      and r: "r = \<lparr>zr_next = pos + (46 + len + extra + comment), zr_name = name, zr_local = local,
        zr_data_end = local + (30 + local_name + local_extra) + compressed\<rparr>"
    unfolding zip_record_at_def Let_def bindR_Inr_iff require_simps ok_or_simps sum.inject by blast
  have "length name = len" "length name = local_name" using zip_slice_length f(2,6) by blast+
  then show ?thesis using f n by (simp add: zip_record_ok_def r)
qed

lemma zip_records_ok:
  "zip_records bytes start stop n names pos = Inr (stop, rs) \<Longrightarrow>
     zip_tiled bytes start stop pos rs \<and> length rs = n \<and> distinct (map zr_name rs) \<and> set (map zr_name rs) \<inter> set names = {}"
proof (induction n arbitrary: names pos rs)
  case (Suc n)
  then obtain r rs' where r: "zip_record_at bytes start stop names pos = Inr r"
      "zip_records bytes start stop n (zr_name r # names) (zr_next r) = Inr (stop, rs')" "rs = r # rs'"
    by (auto simp: bindR_Inr_iff)
  then show ?case using zip_record_at_ok [OF r(1)] Suc.IH [OF r(2)] by auto
qed simp

lemma tiled_ranges: "zip_tiled bytes start stop pos rs \<Longrightarrow> r \<in> set rs \<Longrightarrow> zr_local r < zr_data_end r \<and> zr_data_end r \<le> start"
  by (induction rs arbitrary: pos) (auto simp: zip_record_ok_def)

lemma not_overlapping:
  "\<not> overlapping xs \<Longrightarrow> \<forall>x \<in> set xs. fst x < snd x \<Longrightarrow> sorted_wrt (\<lambda>a b. snd a \<le> fst b) xs"
proof (induction xs rule: overlapping.induct)
  case (1 a b rest)
  then have "sorted_wrt (\<lambda>a b. snd a \<le> fst b) (b # rest)" "snd a \<le> fst b" "fst b < snd b" by auto
  then show ?case by fastforce
qed auto

lemma ranges_apart:
  assumes "sorted_wrt (\<lambda>a b. snd a \<le> fst b) xs" "\<forall>x \<in> set xs. fst x < (snd x :: nat)"
  shows "distinct xs \<and> (\<forall>a \<in> set xs. \<forall>b \<in> set xs. a \<noteq> b \<longrightarrow> snd a \<le> fst b \<or> snd b \<le> fst a)"
  using assms by (induction xs) fastforce+

text \<open>
  C15. An accepted archive has a sound directory. The end record, on one disk, gives the start and
  the size of the directory, which ends where the end record begins, and the number of records,
  which is not zero and within the limit. The records tile the directory: each one starts where
  the lengths of name, extra field and comment of the one before end it. Each record names the
  local header of its entry, which carries the same raw name, flags and method, and the bytes from
  there on to the end of its compressed data lie before the directory and do not overlap those of
  another entry. No two records carry the same raw name, so nothing can hide a second file behind
  a name that was checked.
\<close>

theorem zip_directory_sound:
  assumes "zip_directory bytes max_entries = Inr ()"
  shows "\<exists>start stop rs. zip_end_at bytes stop \<and> stop + 22 \<le> length bytes \<and>
    u16at bytes (stop + 4) = Inr 0 \<and> u16at bytes (stop + 6) = Inr 0 \<and>
    u16at bytes (stop + 8) = Inr (length rs) \<and> u16at bytes (stop + 10) = Inr (length rs) \<and>
    u32at bytes (stop + 16) = Inr start \<and> start \<le> stop \<and> u32at bytes (stop + 12) = Inr (stop - start) \<and>
    zip_tiled bytes start stop start rs \<and>
    rs \<noteq> [] \<and> length rs \<le> max_entries \<and> distinct (map zr_name rs) \<and>
    (\<forall>i < length rs. \<forall>j < length rs. i \<noteq> j \<longrightarrow>
       zr_data_end (rs ! i) \<le> zr_local (rs ! j) \<or> zr_data_end (rs ! j) \<le> zr_local (rs ! i))"
proof -
  from assms obtain start stop rs count size where d: "zip_end bytes = Some stop"
      "zip_records bytes start stop count [] start = Inr (stop, rs)"
      "count \<noteq> 0" "count \<le> max_entries" "\<not> overlapping (sort (map (\<lambda>r. (zr_local r, zr_data_end r)) rs))"
      and n: "u16at bytes (stop + 4) = Inr 0" "u16at bytes (stop + 6) = Inr 0" "u16at bytes (stop + 8) = Inr count"
        "u16at bytes (stop + 10) = Inr count" "u32at bytes (stop + 16) = Inr start" "u32at bytes (stop + 12) = Inr size" "start + size = stop"
    unfolding zip_directory_def bindR_Inr_iff split_paired_Ex prod.case require_simps ok_or_simps by blast
  note rs = zip_records_ok [OF d(2)]
  let ?range = "\<lambda>r. (zr_local r, zr_data_end r)"
  have nonempty: "\<forall>x \<in> set (sort (map ?range rs)). fst x < snd x" using tiled_ranges rs by fastforce
  have apart: "distinct (map ?range rs)" "\<forall>a \<in> set (map ?range rs). \<forall>b \<in> set (map ?range rs). a \<noteq> b \<longrightarrow> snd a \<le> fst b \<or> snd b \<le> fst a"
    using ranges_apart [OF not_overlapping [OF d(5) nonempty] nonempty] unfolding distinct_sort set_sort by blast+
  have far: "zr_data_end (rs ! i) \<le> zr_local (rs ! j) \<or> zr_data_end (rs ! j) \<le> zr_local (rs ! i)"
    if "i < length rs" "j < length rs" "i \<noteq> j" for i j
  proof -
    have "map ?range rs ! i \<noteq> map ?range rs ! j" using apart(1) that by (metis length_map nth_eq_iff_index_eq)
    then have "?range (rs ! i) \<noteq> ?range (rs ! j)" using that by simp
    moreover have "?range (rs ! i) \<in> set (map ?range rs)" "?range (rs ! j) \<in> set (map ?range rs)" using that by auto
    ultimately show ?thesis using apart(2) by fastforce
  qed
  have marker: "zip_end_at bytes stop" using d(1) by (auto simp: zip_end_def find_Some_iff)
  then have "stop + 22 \<le> length bytes" by (auto simp: zip_end_at_def split: sum.splits)
  moreover have "rs \<noteq> []" using rs d(3) by auto
  moreover have "start \<le> stop" "size = stop - start" using n(7) by simp_all
  ultimately show ?thesis using marker rs d(4) far n(1-6) by (intro exI [of _ start] exI [of _ stop] exI [of _ rs]) simp
qed

section \<open>What an accepted inventory says\<close>

lemma prefix_between: "p \<le> k \<Longrightarrow> k \<le> p @ r \<Longrightarrow> \<exists>t. k = p @ (t :: 'a::linorder list)"
proof (induction p arbitrary: k)
  case (Cons a p)
  then obtain b k' where "k = b # k'" by (cases k) auto
  with Cons show ?case by auto
qed simp

lemma prefix_le: "p \<le> p @ (r :: 'a::linorder list)"
  by (induction p) auto

lemma below_file_iff:
  assumes "bt_wf names"
  shows "below_file names n \<longleftrightarrow> (\<exists>k d. (k, d) \<in> set names \<and> starts_with (n @ ''/'') k)"
proof
  assume "below_file names n"
  then show "\<exists>k d. (k, d) \<in> set names \<and> starts_with (n @ ''/'') k"
    by (auto simp: below_file_def find_Some_iff split: option.splits) (metis nth_mem)
next
  let ?p = "n @ ''/''"
  assume "\<exists>k d. (k, d) \<in> set names \<and> starts_with ?p k"
  then obtain k d t where k: "(k, d) \<in> set names" "k = ?p @ t" by (auto simp: starts_with_iff)
  show "below_file names n"
  proof (cases "find (\<lambda>(k, _). ?p \<le> k) names")
    case None
    have "?p \<le> k" unfolding k(2) by (rule prefix_le)
    then show ?thesis using None k(1) by (auto simp: find_None_iff)
  next
    case (Some first)
    obtain q e where q: "first = (q, e)" by (cases first)
    obtain i where i: "i < length names" "?p \<le> q" "names ! i = (q, e)" "\<forall>j < i. \<not> ?p \<le> fst (names ! j)"
      using Some unfolding q find_Some_iff split_def by (metis fst_conv)
    obtain m where m: "m < length names" "names ! m = (k, d)" using k(1) by (auto simp: in_set_conv_nth)
    have pk: "?p \<le> k" unfolding k(2) by (rule prefix_le)
    then have "i \<le> m" using i(4) m(2) by (metis fst_conv not_le_imp_less)
    then have "q \<le> k"
      using assms i m sorted_wrt_nth_less [of "(<)" "map fst names" i m] by (cases "i = m") (auto simp: bt_wf_def)
    then obtain u where "q = ?p @ u" using prefix_between [of ?p q t] i(2) unfolding k(2) by blast
    then show ?thesis by (simp add: below_file_def Some q starts_with_iff)
  qed
qed

definition entry_name :: "zip_entry \<Rightarrow> string" where
  "entry_name e = (case strip_suffix ''/'' (ze_name e) of None \<Rightarrow> ze_name e | Some m \<Rightarrow> m)"

definition entry_ok :: "pkg_env \<Rightarrow> zip_entry \<Rightarrow> bool" where
  "entry_ok P e \<longleftrightarrow> entry_path P (ze_name e) = Inr (entry_name e) \<and> \<not> entry_unsafe e \<and>
     (if ze_is_dir e then ze_size e = 0
      else (\<exists>c. read_entry (ze_size e) [] (ze_reads e) = Inr c \<and> length c = ze_size e))"

definition entry_digest :: "pkg_env \<Rightarrow> zip_entry \<Rightarrow> string" where
  "entry_digest P e = (case read_entry (ze_size e) [] (ze_reads e) of Inl _ \<Rightarrow> [] | Inr c \<Rightarrow> px_sha P c)"

lemma entry_path_name: "entry_path P (ze_name e) = Inr n \<Longrightarrow> n = entry_name e"
  by (auto simp: entry_path_def entry_name_def bindR_Inr_iff Let_def)

lemma read_entry_length: "read_entry expected acc cs = Inr c \<Longrightarrow> length c = expected"
  by (induction expected acc cs rule: read_entry.induct) (auto simp: bindR_Inr_iff split: if_splits)

definition with_entry :: "pkg_env \<Rightarrow> zip_entry \<Rightarrow> inspect_state \<Rightarrow> inspect_state" where
  "with_entry P e st =
     \<lparr>is_names = bt_insert (px_folded P (entry_name e)) (ze_is_dir e) (is_names st), is_total = is_total st + ze_size e,
      is_files = (if ze_is_dir e then is_files st else bt_insert (entry_name e) (entry_digest P e) (is_files st))\<rparr>"

lemma inspect_entry_Inr:
  assumes "inspect_entry P expanded x st = Inr st'"
  shows "\<exists>e. x = Some e \<and> entry_ok P e \<and> bt_get (is_names st) (px_folded P (entry_name e)) = None \<and>
    is_total st + ze_size e \<le> expanded \<and> st' = with_entry P e st"
proof -
  obtain e where x: "x = Some e" using assms by (cases x) (auto simp: inspect_entry_def)
  obtain n where n: "entry_path P (ze_name e) = Inr n" using assms by (auto simp: inspect_entry_def x bindR_Inr_iff)
  note run = assms [unfolded inspect_entry_def x ok_or_simps bindR_simps n Let_def entry_path_name [OF n]]
  show ?thesis
    using run read_entry_length [of "ze_size e" "[]" "ze_reads e"] n entry_path_name [OF n]
    by (auto simp: x bindR_Inr_iff entry_ok_def with_entry_def entry_digest_def split: if_splits)
qed

lemma inspect_entries_Inr:
  "inspect_entries P expanded xs st = Inr st' \<Longrightarrow> is_total st \<le> expanded \<Longrightarrow>
     \<exists>es. xs = map Some es \<and> (\<forall>e \<in> set es. entry_ok P e) \<and> st' = fold (with_entry P) es st \<and> is_total st' \<le> expanded \<and>
       distinct (map (\<lambda>e. px_folded P (entry_name e)) es) \<and>
       (\<forall>e \<in> set es. bt_get (is_names st) (px_folded P (entry_name e)) = None)"
proof (induction xs arbitrary: st)
  case (Cons x xs)
  obtain st1 where run: "inspect_entry P expanded x st = Inr st1" "inspect_entries P expanded xs st1 = Inr st'"
    using Cons.prems(1) by (auto simp: bindR_Inr_iff)
  obtain e where e: "x = Some e" "entry_ok P e" "bt_get (is_names st) (px_folded P (entry_name e)) = None"
      "is_total st + ze_size e \<le> expanded" "st1 = with_entry P e st"
    using inspect_entry_Inr [OF run(1)] by blast
  have total: "is_total st1 \<le> expanded" using e(4,5) by (simp add: with_entry_def)
  obtain es where es: "xs = map Some es" "\<forall>e \<in> set es. entry_ok P e" "st' = fold (with_entry P) es st1" "is_total st' \<le> expanded"
      "distinct (map (\<lambda>e. px_folded P (entry_name e)) es)" "\<forall>e \<in> set es. bt_get (is_names st1) (px_folded P (entry_name e)) = None"
    using Cons.IH [OF run(2) total] by blast
  have new: "px_folded P (entry_name f) \<noteq> px_folded P (entry_name e)" "bt_get (is_names st) (px_folded P (entry_name f)) = None"
    if "f \<in> set es" for f using es(6) that e(5) by (auto simp: with_entry_def split: if_splits)
  then have "px_folded P (entry_name e) \<notin> (\<lambda>e. px_folded P (entry_name e)) ` set es" by (metis imageE)
  then show ?case using e es new(2) by (intro exI [of _ "e # es"]) auto
qed auto

lemma fold_with_entry:
  "is_names (fold (with_entry P) es st) = fold (\<lambda>(k, v). bt_insert k v) (map (\<lambda>e. (px_folded P (entry_name e), ze_is_dir e)) es) (is_names st)"
  "is_total (fold (with_entry P) es st) = is_total st + sum_list (map ze_size es)"
  "is_files (fold (with_entry P) es st) =
     fold (\<lambda>(k, v). bt_insert k v) (map (\<lambda>e. (entry_name e, entry_digest P e)) (filter (\<lambda>e. \<not> ze_is_dir e) es)) (is_files st)"
  by (induction es arbitrary: st) (simp_all add: with_entry_def)

lemma bt_get_fold_distinct:
  assumes "distinct (map fst kvs)"
  shows "bt_get (fold (\<lambda>(k, v). bt_insert k v) kvs []) k = Some v \<longleftrightarrow> (k, v) \<in> set kvs"
proof -
  have "distinct (map fst (rev kvs))" using assms by (simp flip: rev_map)
  then have "map_of (rev kvs) k = Some v \<longleftrightarrow> (k, v) \<in> set kvs" by (simp add: map_of_eq_Some_iff)
  then show ?thesis by (cases "map_of (rev kvs) k") (simp_all add: bt.get_fold_ins)
qed

lemma distinct_names:
  assumes "distinct (map (\<lambda>e. px_folded P (entry_name e)) es)" shows "distinct (map entry_name es)"
  using distinct_map [of "px_folded P" "map entry_name es"] assms by (simp add: comp_def)

lemma select_manifest_Inr:
  assumes "select_manifest required names = Inr m"
  shows "name \<in> set names \<and> (name = required \<or> ends_with (''/'' @ required) name) \<longleftrightarrow> name = m"
proof -
  have "filter (\<lambda>name. name = required \<or> ends_with (''/'' @ required) name) names = [m]"
    using assms by (auto simp: select_manifest_def split: list.splits)
  then have "set (filter (\<lambda>name. name = required \<or> ends_with (''/'' @ required) name) names) = {m}" by simp
  then show ?thesis unfolding set_filter by blast
qed

text \<open>
  C14. An accepted package is the announced one and its inventory is exact and safe: the release is
  well formed and the archive has the size and the digest it announces, within the limits of its
  kind for the archive, the number of entries and the expanded size; every entry of the archive has a
  portable relative name without parent steps or device names, is a plain file or directory,
  and was read to exactly its declared size; no two entries agree after Unicode case folding and
  no file stands where another entry needs a directory; the inventory lists precisely the files
  with the digest of their contents, the expanded size is the sum of all entries, and exactly one
  file is the manifest of the package's kind.
\<close>

theorem inspect_inventory_exact:
  assumes "inspect P r bytes = Inr listing"
  shows "release_valid P r \<and> length bytes = xr_size r \<and> px_sha P bytes = xr_sha256 r \<and>
    length bytes \<le> (if xr_kind r = ''theme'' then 5242880 else 10485760) \<and>
    (\<exists>es. px_zip P bytes = Some (map Some es) \<and> (\<forall>e \<in> set es. entry_ok P e) \<and>
    length es \<le> (if xr_kind r = ''theme'' then 100 else 2048) \<and>
    distinct (map (\<lambda>e. px_folded P (entry_name e)) es) \<and>
    (\<forall>e \<in> set es. \<forall>f \<in> set es. \<not> ze_is_dir e \<longrightarrow>
       \<not> starts_with (px_folded P (entry_name e) @ ''/'') (px_folded P (entry_name f))) \<and>
    zi_expanded_size listing = sum_list (map ze_size es) \<and>
    zi_expanded_size listing \<le> (if xr_kind r = ''theme'' then 10485760 else 52428800) \<and>
    (\<forall>name d. bt_get (zi_files listing) name = Some d \<longleftrightarrow>
       (\<exists>e \<in> set es. \<not> ze_is_dir e \<and> entry_name e = name \<and> entry_digest P e = d)) \<and>
    (\<forall>name. bt_get (zi_files listing) name \<noteq> None \<and> (name = required_manifest (xr_kind r) \<or>
       ends_with (''/'' @ required_manifest (xr_kind r)) name) \<longleftrightarrow> name = zi_manifest listing))"
  (is "_ \<and> _ \<and> _ \<and> _ \<and> ?inner")
proof -
  obtain compressed expanded entries where lim: "zip_limits (xr_kind r) = (compressed, expanded, entries)" by (cases "zip_limits (xr_kind r)")
  let ?want = "\<lambda>name. name = required_manifest (xr_kind r) \<or> ends_with (''/'' @ required_manifest (xr_kind r)) name"
  obtain archive st where a: "px_zip P bytes = Some archive"
      "inspect_entries P expanded archive \<lparr>is_names = [], is_total = 0, is_files = []\<rparr> = Inr st"
      "\<not> list_ex (\<lambda>(name, is_dir). \<not> is_dir \<and> below_file (is_names st) name) (is_names st)"
      "select_manifest (required_manifest (xr_kind r)) (map fst (is_files st)) = Inr (zi_manifest listing)" "zi_files listing = is_files st" "zi_expanded_size listing = is_total st"
      and head: "release_valid P r" "length bytes = xr_size r" "px_sha P bytes = xr_sha256 r" "length bytes \<le> compressed" "length archive \<le> entries"
    using assms unfolding inspect_def release_validate_def lim prod.case bindR_Inr_iff require_simps ok_or_simps by auto
  obtain es where es: "archive = map Some es" "\<forall>e \<in> set es. entry_ok P e" "is_total st \<le> expanded"
      "distinct (map (\<lambda>e. px_folded P (entry_name e)) es)"
      and st: "st = fold (with_entry P) es \<lparr>is_names = [], is_total = 0, is_files = []\<rparr>"
    using inspect_entries_Inr [OF a(2)] by auto
  let ?names = "map (\<lambda>e. (px_folded P (entry_name e), ze_is_dir e)) es"
  let ?files = "map (\<lambda>e. (entry_name e, entry_digest P e)) (filter (\<lambda>e. \<not> ze_is_dir e) es)"
  have parts: "is_names st = fold (\<lambda>(k, v). bt_insert k v) ?names []" "is_total st = sum_list (map ze_size es)"
      "is_files st = fold (\<lambda>(k, v). bt_insert k v) ?files []"
    unfolding st by (simp_all only: fold_with_entry inspect_state.simps add_0)
  have wf: "bt_wf (is_names st)" "bt_wf (is_files st)" unfolding parts by (rule bt.wf_fold_ins [OF bt_wf_Nil])+
  have files: "bt_get (is_files st) name = Some d \<longleftrightarrow> (\<exists>e \<in> set es. \<not> ze_is_dir e \<and> entry_name e = name \<and> entry_digest P e = d)" for name d
    using bt_get_fold_distinct [of ?files name d] distinct_map_filter [OF distinct_names [OF es(4)], of "\<lambda>e. \<not> ze_is_dir e"]
    by (auto simp: parts comp_def)
  have names: "(k, d) \<in> set (is_names st) \<longleftrightarrow> (k, d) \<in> set ?names" for k d
    using bt_get_fold_distinct [of ?names k d] bt_get_Some_iff [OF wf(1)] es(4) by (simp add: parts comp_def)
  have "\<not> starts_with (px_folded P (entry_name e) @ ''/'') (px_folded P (entry_name f))"
    if "e \<in> set es" "f \<in> set es" "\<not> ze_is_dir e" for e f
  proof -
    have "(px_folded P (entry_name e), False) \<in> set (is_names st)" "(px_folded P (entry_name f), ze_is_dir f) \<in> set (is_names st)"
      using that by (force simp: names)+
    then show ?thesis using a(3) below_file_iff [OF wf(1)] by (auto simp: list_ex_iff)
  qed
  moreover have "bt_get (is_files st) name \<noteq> None \<and> ?want name \<longleftrightarrow> name = zi_manifest listing" for name
    using select_manifest_Inr [OF a(4), of name] by (simp add: bt_get_None_iff)
  moreover have lim': "is_total st \<le> (if xr_kind r = ''theme'' then 10485760 else 52428800)"
      "length bytes \<le> (if xr_kind r = ''theme'' then 5242880 else 10485760)" "length es \<le> (if xr_kind r = ''theme'' then 100 else 2048)"
    using es(1,3) head(4,5) lim by (auto simp: zip_limits_def split: if_splits)
  ultimately have "?inner" using a(1,5,6) es parts(2) files by (intro exI [of _ es]) auto
  then show ?thesis using head(1-3) lim'(2) by blast
qed

section \<open>Example values\<close>

text \<open>An archive with one empty file \<open>theme.yaml\<close>.\<close>

definition demo_zip :: string where
  "demo_zip =
     [CHR ''P'', CHR ''K'', CHR 0x03, CHR 0x04] @ replicate 22 (CHR 0x00) @ [CHR 0x0A, CHR 0x00, CHR 0x00, CHR 0x00] @ ''theme.yaml'' @
     [CHR ''P'', CHR ''K'', CHR 0x01, CHR 0x02] @ replicate 24 (CHR 0x00) @ [CHR 0x0A, CHR 0x00] @ replicate 16 (CHR 0x00) @ ''theme.yaml'' @
     [CHR ''P'', CHR ''K'', CHR 0x05, CHR 0x06, CHR 0x00, CHR 0x00, CHR 0x00, CHR 0x00, CHR 0x01, CHR 0x00, CHR 0x01, CHR 0x00,
      CHR 0x38, CHR 0x00, CHR 0x00, CHR 0x00, CHR 0x28, CHR 0x00, CHR 0x00, CHR 0x00, CHR 0x00, CHR 0x00]"

lemma le_zeros: "le_bytes (replicate n (CHR 0x00)) = 0" "le_bytes (replicate n (CHR 0x00) @ s) = 256 ^ n * le_bytes s"
  by (induction n) simp_all

lemma demo_zip_end: "length demo_zip = 118" "zip_end_at demo_zip 96" "zip_end demo_zip = Some 96"
proof -
  show l: "length demo_zip = 118" by (simp add: demo_zip_def)
  show e: "zip_end_at demo_zip 96" by (simp add: zip_end_at_def u16at_def slice_def l) (simp add: demo_zip_def)
  have "rev [0..<97] = 96 # rev [0..<(96::nat)]" using upt_Suc_append [of 0 96] by simp
  then show "zip_end demo_zip = Some 96" using e by (simp add: zip_end_def l)
qed

lemma demo_zip_directory: "zip_directory demo_zip 100 = Inr ()"
  by (simp add: zip_directory_def demo_zip_end u16at_def u32at_def slice_def Let_def)
     (simp add: demo_zip_def le_zeros zip_record_at_def u16at_def u32at_def slice_def Let_def)

theorem zip_directory_sound_witness:
  "\<exists>start stop rs. zip_end_at demo_zip stop \<and> zip_tiled demo_zip start stop start rs \<and> rs \<noteq> []"
  using zip_directory_sound [OF demo_zip_directory] by blast

definition demo_pkg_env :: pkg_env where
  "demo_pkg_env = \<lparr>px_sha = (\<lambda>_. replicate 64 (CHR ''0'')), px_version = (\<lambda>_. True), px_precedes = (\<lambda>_ _. False), px_json = (\<lambda>_. None),
     px_text = (\<lambda>_. []), px_base64 = (\<lambda>_. None), px_signature = (\<lambda>_. True), px_key = (\<lambda>_. True),
     px_verify_strict = (\<lambda>_ _ _. True), px_nfc = (\<lambda>s. s), px_folded = (\<lambda>s. s),
     px_zip = (\<lambda>_. Some [Some \<lparr>ze_name = ''theme.yaml'', ze_is_dir = False, ze_unix_mode = None, ze_encrypted = False,
       ze_plain = True, ze_size = 0, ze_reads = []\<rparr>])\<rparr>"

definition demo_theme :: ext_release where
  "demo_theme = \<lparr>xr_schema_version = 1, xr_namespace = ''aa'', xr_package_id = ''bb'', xr_kind = ''theme'', xr_version = ''1.0.0'',
     xr_name = ''n'', xr_author_id = ''a'', xr_license = ''mit'', xr_description = [], xr_sha256 = replicate 64 (CHR ''0''),
     xr_size = length demo_zip, xr_platforms = [], xr_architectures = [], xr_min_app_version = ''1.0.0'', xr_max_app_version = None,
     xr_dependencies = [], xr_permissions = [], xr_changelog = [], xr_published_at = [], xr_key_id = ''k'', xr_signature = []\<rparr>"

lemma demo_theme_valid: "release_valid demo_pkg_env demo_theme"
proof -
  have "is_sha256_hex (replicate 64 (CHR ''0''))" by (simp add: is_sha256_hex_def list_all_iff ascii_defs)
  then show ?thesis
    by (simp add: release_valid_def demo_theme_def demo_pkg_env_def identity_slug_def version_ok_def release_bounded_def chars_count_def
        utf8_tail_def byte_in_def ascii_defs license_unknown_def demo_zip_end)
qed

lemma demo_entry_path: "entry_path demo_pkg_env ''theme.yaml'' = Inr ''theme.yaml''"
  by (simp add: entry_path_def demo_pkg_env_def utf8_tail_def byte_in_def char_is_control_def strip_suffix_def entry_part_ok_def
      ascii_defs first_part_def strip_prefix_def ends_with_def starts_with_def)

lemma demo_inspect:
  "inspect demo_pkg_env demo_theme demo_zip =
     Inr \<lparr>zi_files = [(''theme.yaml'', replicate 64 (CHR ''0''))], zi_expanded_size = 0, zi_manifest = ''theme.yaml''\<rparr>"
proof -
  have "inspect_entries demo_pkg_env 10485760 (the (px_zip demo_pkg_env demo_zip)) \<lparr>is_names = [], is_total = 0, is_files = []\<rparr> =
      Inr \<lparr>is_names = [(''theme.yaml'', False)], is_total = 0, is_files = [(''theme.yaml'', replicate 64 (CHR ''0''))]\<rparr>"
    using demo_entry_path
    by (simp add: inspect_entry_def demo_pkg_env_def entry_unsafe_def entry_kind_def Let_def)
  then show ?thesis
    using demo_theme_valid demo_zip_directory
    by (simp add: inspect_def release_validate_def zip_limits_def demo_theme_def demo_zip_end required_manifest_def select_manifest_def
        demo_pkg_env_def below_file_def starts_with_def)
qed

theorem inspect_inventory_exact_witness:
  "\<exists>es. px_zip demo_pkg_env demo_zip = Some (map Some es) \<and> sum_list (map ze_size es) = 0"
  using inspect_inventory_exact [OF demo_inspect] by auto

end
