(* ===== verification/Extension_Launch.thy ===== *)
theory Extension_Launch
  imports Credentials Extension_Launch_Data Extension_Package
begin

text \<open>
  Execution permits (\<open>extension_permit.rs\<close>) and the start of an extension under one
  (\<open>extension_launch_authorization.rs\<close>). A permit is a MAC over the reviewed claims and the
  authority's generation; a revocation moves the generation, a lock of the credentials moves their
  epoch, and both may happen on other threads while a start is prepared: each atomic load reads the
  counters at its own moment. URL parsing, semantic versions, UUIDs, JSON, HMAC and SHA-256 are
  parameters.
\<close>

section \<open>Claims\<close>

datatype env_declaration = EnvLiteral string | EnvCredential string

datatype execution_kind = ExecPlugin | ExecMcp

record claims =
  cl_kind :: execution_kind
  cl_source :: string
  cl_namespace :: string
  cl_package_id :: string
  cl_version :: string
  cl_archive_sha256 :: string
  cl_tree_sha256 :: string
  cl_signer_sha256 :: string
  cl_entry :: string
  cl_arguments :: "string list"
  cl_environment :: "(string \<times> env_declaration) list"
  cl_permissions :: "string list"
  cl_vault_id :: string
  cl_platform :: string
  cl_policy_version :: string
  cl_expires_at_ms :: nat

record source_url =
  su_scheme :: string
  su_host :: "string option"
  su_username :: string
  su_password :: "string option"
  su_query :: "string option"
  su_fragment :: "string option"
  su_text :: string

record permit_env =
  qx_url :: "string \<Rightarrow> source_url option"
  qx_semver :: "string \<Rightarrow> bool"
  qx_uuid :: "string \<Rightarrow> bool"
  qx_json :: "claims \<Rightarrow> string option"
  qx_hmac :: "string \<Rightarrow> string \<Rightarrow> string"
  qx_sha :: "string \<Rightarrow> string"

definition source_url_ok :: "source_url \<Rightarrow> bool" where
  "source_url_ok u \<longleftrightarrow>
     su_scheme u = ''https'' \<and> su_host u \<noteq> None \<and> su_username u = [] \<and> su_password u = None \<and>
     su_query u = None \<and> su_fragment u = None"

definition entry_component_ok :: "string \<Rightarrow> bool" where
  "entry_component_ok p \<longleftrightarrow>
     p \<noteq> [] \<and> p \<noteq> ''.'' \<and> p \<noteq> ''..'' \<and> CHR 0x5C \<notin> set p \<and> CHR '':'' \<notin> set p \<and> \<not> list_ex char_is_control (str_chars p)"

fun declared_value :: "env_declaration \<Rightarrow> string" where
  "declared_value (EnvLiteral v) = v"
| "declared_value (EnvCredential v) = v"

definition declaration_ok :: "string \<times> env_declaration \<Rightarrow> bool" where
  "declaration_ok = (\<lambda>(name, d). env_name_ok name \<and> length (declared_value d) \<le> 8192 \<and> CHR 0x00 \<notin> set (declared_value d))"

definition claims_ok :: "permit_env \<Rightarrow> claims \<Rightarrow> bool" where
  "claims_ok Q c \<longleftrightarrow>
     (case qx_url Q (cl_source c) of None \<Rightarrow> False | Some u \<Rightarrow> source_url_ok u) \<and> length (cl_source c) \<le> 2048 \<and>
     list_all identity_slug [cl_namespace c, cl_package_id c] \<and>
     qx_semver Q (cl_version c) \<and> qx_uuid Q (cl_vault_id c) \<and>
     list_all is_sha256_hex [cl_archive_sha256 c, cl_tree_sha256 c, cl_signer_sha256 c] \<and>
     length (cl_entry c) \<le> 1024 \<and> list_all entry_component_ok (split_on (CHR ''/'') (cl_entry c)) \<and>
     length (cl_arguments c) \<le> 128 \<and> length (cl_environment c) \<le> 128 \<and> length (cl_permissions c) \<le> 128 \<and>
     list_all (\<lambda>s. length s \<le> 8192 \<and> CHR 0x00 \<notin> set s) (cl_arguments c) \<and>
     list_all (\<lambda>s. s \<noteq> [] \<and> length s \<le> 256 \<and> \<not> list_ex char_is_control (str_chars s)) (cl_permissions c) \<and>
     cl_platform c \<noteq> [] \<and> length (cl_platform c) \<le> 64 \<and>
     cl_policy_version c \<noteq> [] \<and> length (cl_policy_version c) \<le> 128 \<and>
     list_all declaration_ok (cl_environment c)"

text \<open>\<open>Claims::encoded\<close>\<close>

definition encoded_claims :: "permit_env \<Rightarrow> claims \<Rightarrow> nat \<Rightarrow> string result" where
  "encoded_claims Q c now_ms =
     bindR (require (now_ms < cl_expires_at_ms c) ''EXTENSION_PERMIT_EXPIRED'') (\<lambda>_.
     bindR (require (claims_ok Q c) ''EXTENSION_PERMIT_INVALID'') (\<lambda>_.
     bindR (ok_or (qx_json Q c) ''EXTENSION_PERMIT_INVALID'') (\<lambda>bytes.
     bindR (require (length bytes \<le> 256 * 1024) ''EXTENSION_PERMIT_INVALID'') (\<lambda>_.
     Inr bytes))))"

section \<open>Permits\<close>

fun le_digits :: "nat \<Rightarrow> nat \<Rightarrow> string" where
  "le_digits 0 n = []"
| "le_digits (Suc k) n = char_of (n mod 256) # le_digits k (n div 256)"

text \<open>\<open>u64::to_be_bytes\<close>\<close>

definition be_u64 :: "nat \<Rightarrow> string" where
  "be_u64 n = rev (le_digits 8 n)"

record authority =
  au_key :: string
  au_generation :: "64 word"

record permit =
  pm_mac :: string
  pm_generation :: "64 word"

definition permit_message :: "64 word \<Rightarrow> string \<Rightarrow> string" where
  "permit_message generation encoded =
     ''OpenNexus execution permit v2'' @ [CHR 0x00] @ be_u64 (unat generation) @ encoded"

definition authority_revoke :: "authority \<Rightarrow> authority" where
  "authority_revoke A = A\<lparr>au_generation := au_generation A + 1\<rparr>"

definition invalidate_all :: "string \<Rightarrow> authority \<Rightarrow> authority" where
  "invalidate_all key A = (authority_revoke A)\<lparr>au_key := key\<rparr>"

definition authority_issue :: "permit_env \<Rightarrow> authority \<Rightarrow> claims \<Rightarrow> nat \<Rightarrow> permit result" where
  "authority_issue Q A c now_ms =
     bindR (encoded_claims Q c now_ms) (\<lambda>encoded.
     Inr \<lparr>pm_mac = qx_hmac Q (au_key A) (permit_message (au_generation A) encoded), pm_generation = au_generation A\<rparr>)"

text \<open>\<open>Authority::verify\<close>; the generation is loaded before and after.\<close>

definition authority_verify :: "permit_env \<Rightarrow> string \<Rightarrow> 64 word \<Rightarrow> 64 word \<Rightarrow> permit \<Rightarrow> claims \<Rightarrow> nat \<Rightarrow> unit result" where
  "authority_verify Q key generation later p actual now_ms =
     bindR (require (generation = pm_generation p) ''EXTENSION_PERMIT_REVOKED'') (\<lambda>_.
     bindR (encoded_claims Q actual now_ms) (\<lambda>encoded.
     bindR (require (pm_mac p = qx_hmac Q key (permit_message generation encoded)) ''PERMISSION_CHANGED'') (\<lambda>_.
     require (later = generation) ''EXTENSION_PERMIT_REVOKED'')))"

datatype permit_event = EvIssue claims nat | EvVerify permit claims nat | EvRevoke | EvInvalidate string

fun permit_step :: "permit_event \<Rightarrow> authority \<Rightarrow> authority" where
  "permit_step (EvIssue c now_ms) A = A"
| "permit_step (EvVerify p c now_ms) A = A"
| "permit_step EvRevoke A = authority_revoke A"
| "permit_step (EvInvalidate key) A = invalidate_all key A"

fun revoking :: "permit_event \<Rightarrow> bool" where
  "revoking EvRevoke = True"
| "revoking (EvInvalidate _) = True"
| "revoking _ = False"

section \<open>Leases\<close>

text \<open>What the atomic loads and the clock read at a moment; instants are in nanoseconds.\<close>

record launch_view =
  lv_generation :: "64 word"
  lv_epoch :: "64 word"
  lv_now :: nat

record lease =
  le_generation :: "64 word"
  le_credential :: "64 word option"
  le_expires :: nat

definition max_instant :: nat where "max_instant = 2 ^ 64 * 10 ^ 9 - 1"

text \<open>\<open>Lease::check\<close>: three loads.\<close>

definition lease_check :: "(nat \<Rightarrow> launch_view) \<Rightarrow> nat \<Rightarrow> lease \<Rightarrow> unit result" where
  "lease_check V t l =
     bindR (require (lv_generation (V t) = le_generation l) ''EXTENSION_PERMIT_REVOKED'') (\<lambda>_.
     bindR (require (case le_credential l of None \<Rightarrow> True | Some epoch \<Rightarrow> lv_epoch (V (t + 1)) = epoch) ''CREDENTIALS_LOCKED'') (\<lambda>_.
     require (lv_now (V (t + 2)) < le_expires l) ''EXTENSION_PERMIT_EXPIRED''))"

text \<open>\<open>Authority::lease\<close>; the subtraction cannot wrap, since the claims verified.\<close>

definition authority_lease :: "permit_env \<Rightarrow> string \<Rightarrow> (nat \<Rightarrow> launch_view) \<Rightarrow> nat \<Rightarrow> permit \<Rightarrow> claims \<Rightarrow> nat \<Rightarrow> lease result" where
  "authority_lease Q key V t p c now_ms =
     (let started = lv_now (V t)
      in bindR (authority_verify Q key (lv_generation (V (t + 1))) (lv_generation (V (t + 2))) p c now_ms) (\<lambda>_.
         let expires = started + (cl_expires_at_ms c - now_ms) * 10 ^ 6
         in bindR (require (expires \<le> max_instant) ''EXTENSION_PERMIT_INVALID'') (\<lambda>_.
            let l = \<lparr>le_generation = pm_generation p, le_credential = None, le_expires = expires\<rparr>
            in bindR (lease_check V (t + 3) l) (\<lambda>_. Inr l))))"

section \<open>Preparing a start\<close>

definition framed_part :: "string \<Rightarrow> string" where
  "framed_part v = be_u64 (length v) @ v"

definition owner_message :: "string \<Rightarrow> string \<Rightarrow> string \<Rightarrow> string" where
  "owner_message source namespace package_id =
     ''OpenNexus extension credential owner v1'' @ [CHR 0x00] @ framed_part source @ framed_part namespace @ framed_part package_id"

text \<open>\<open>credential_id\<close>: the credentials of a package live in a scope derived from its identity.\<close>

definition credential_id :: "permit_env \<Rightarrow> claims \<Rightarrow> string \<Rightarrow> cred_id result" where
  "credential_id Q c reference =
     bindR (require (cred_name_ok reference) ''CREDENTIAL_ID_INVALID'') (\<lambda>_.
     bindR (ok_or (qx_url Q (cl_source c)) ''EXTENSION_PERMIT_INVALID'') (\<lambda>source.
     bindR (require (source_url_ok source) ''EXTENSION_PERMIT_INVALID'') (\<lambda>_.
     let owner = ''ext.'' @ qx_sha Q (owner_message (su_text source) (cl_namespace c) (cl_package_id c))
     in Inr \<lparr>ci_scope = (case cl_kind c of ExecPlugin \<Rightarrow> ScopePlugin owner | ExecMcp \<Rightarrow> ScopeMcp owner), ci_id = reference\<rparr>)))"

record launch_context =
  lc_vault_id :: string
  lc_policy_version :: string
  lc_os :: string
  lc_system_root :: win_path
  lc_container_data :: win_path
  lc_scratch :: win_path

record bound_entry =
  be_name :: string
  be_tree :: string
  be_path :: win_path
  be_launch_path :: win_path

text \<open>The broker is borrowed for the whole preparation; only its epoch moves.\<close>

definition broker_at :: "'b broker \<Rightarrow> 64 word \<Rightarrow> 'b broker" where
  "broker_at b epoch = b\<lparr>br_epoch := epoch\<rparr>"

definition credential_failure :: "'a result \<Rightarrow> 'a result" where
  "credential_failure r =
     (case r of
        Inr x \<Rightarrow> Inr x
      | Inl e \<Rightarrow>
          if err_code e \<in> {''CREDENTIALS_LOCKED'', ''CREDENTIAL_SCOPE_DENIED'', ''CREDENTIAL_ID_INVALID''} then Err (err_code e)
          else Err ''EXTENSION_CREDENTIAL_UNAVAILABLE'')"

definition secret_value :: "permit_env \<Rightarrow> 'b cred_env \<Rightarrow> cred_world \<Rightarrow> 'b broker \<Rightarrow> claims \<Rightarrow> string \<Rightarrow> string result" where
  "secret_value Q E W b c reference =
     bindR (credential_id Q c reference) (\<lambda>i.
     bindR (credential_failure (cred_resolve E W (ci_scope i) i b)) (\<lambda>found.
     bindR (ok_or found ''EXTENSION_CREDENTIAL_MISSING'') (\<lambda>v.
     bindR (require (utf8_valid v) ''EXTENSION_CREDENTIAL_ENCODING_INVALID'') (\<lambda>_.
     Inr v))))"

fun launch_values ::
  "permit_env \<Rightarrow> 'b cred_env \<Rightarrow> cred_world \<Rightarrow> 'b broker \<Rightarrow> (nat \<Rightarrow> launch_view) \<Rightarrow> claims \<Rightarrow> nat \<Rightarrow>
   (string \<times> env_declaration) list \<Rightarrow> (string \<times> string) list \<Rightarrow> ((string \<times> string) list \<times> nat) result" where
  "launch_values Q E W b V c t [] vals = Inr (vals, t)"
| "launch_values Q E W b V c t ((name, EnvLiteral v) # rest) vals =
     launch_values Q E W b V c t rest (bt_insert name v vals)"
| "launch_values Q E W b V c t ((name, EnvCredential reference) # rest) vals =
     bindR (secret_value Q E W (broker_at b (lv_epoch (V t))) c reference) (\<lambda>v.
     launch_values Q E W b V c (t + 1) rest (bt_insert name v vals))"

definition uses_secret :: "claims \<Rightarrow> bool" where
  "uses_secret c \<longleftrightarrow> list_ex (\<lambda>(_, d). case d of EnvCredential _ \<Rightarrow> True | EnvLiteral _ \<Rightarrow> False) (cl_environment c)"

text \<open>\<open>Context::build\<close>; with the data it yields the moment after its last load.\<close>

definition launch_build ::
  "permit_env \<Rightarrow> 'b cred_env \<Rightarrow> cred_world \<Rightarrow> string \<Rightarrow> 'b broker \<Rightarrow> (nat \<Rightarrow> launch_view) \<Rightarrow> nat \<Rightarrow> launch_context \<Rightarrow>
   permit \<Rightarrow> claims \<Rightarrow> bound_entry \<Rightarrow> nat \<Rightarrow> (launch_data \<times> nat) result" where
  "launch_build Q E W key b V t C p c entry now_ms =
     bindR (authority_verify Q key (lv_generation (V t)) (lv_generation (V (t + 1))) p c now_ms) (\<lambda>_.
     bindR (require (cl_vault_id c = lc_vault_id C \<and> cl_policy_version c = lc_policy_version C \<and> cl_platform c = lc_os C)
       ''EXTENSION_EXECUTION_CONTEXT_CHANGED'') (\<lambda>_.
     bindR (require (cl_entry c = be_name entry \<and> cl_tree_sha256 c = be_tree entry) ''EXTENSION_ENTRY_PERMIT_MISMATCH'') (\<lambda>_.
     let epoch = lv_epoch (V (t + 2))
     in bindR (launch_values Q E W b V c (t + 3) (cl_environment c) []) (\<lambda>(vals, t).
        bindR (launch_data_new (be_launch_path entry) (cl_arguments c) (lc_system_root C) (lc_container_data C) (lc_scratch C) vals) (\<lambda>data.
        bindR (require (\<not> (uses_secret c \<and> (is_locked (broker_at b (lv_epoch (V t))) \<or> lv_epoch (V (t + 1)) \<noteq> epoch))) ''CREDENTIALS_LOCKED'') (\<lambda>_.
        Inr (data, t + 2)))))))"

record call_identity =
  id_instance :: string
  id_kind :: execution_kind
  id_source :: string
  id_namespace :: string
  id_package_id :: string
  id_version :: string
  id_vault_id :: string
  id_permissions :: "string list"
  id_digest :: string

text \<open>\<open>Identity::from_claims\<close> (\<open>extension_call_authorization.rs\<close>)\<close>

definition identity_of :: "permit_env \<Rightarrow> string \<Rightarrow> claims \<Rightarrow> call_identity result" where
  "identity_of Q instance_id c =
     bindR (ok_or (qx_json Q c) ''EXTENSION_CALL_BINDING_INVALID'') (\<lambda>bytes.
     Inr \<lparr>id_instance = instance_id, id_kind = cl_kind c, id_source = cl_source c, id_namespace = cl_namespace c,
       id_package_id = cl_package_id c, id_version = cl_version c, id_vault_id = cl_vault_id c, id_permissions = cl_permissions c,
       id_digest = qx_sha Q (''OpenNexus execution identity v1'' @ [CHR 0x00] @ bytes)\<rparr>)"

record prepared_launch =
  pl_data :: launch_data
  pl_lease :: lease
  pl_identity :: call_identity
  pl_path :: win_path
  pl_entry :: string
  pl_tree :: string

text \<open>\<open>Context::prepare\<close>, from moment 0 on; the moment after its last load comes with the result.\<close>

definition launch_prepare ::
  "permit_env \<Rightarrow> 'b cred_env \<Rightarrow> cred_world \<Rightarrow> string \<Rightarrow> 'b broker \<Rightarrow> (nat \<Rightarrow> launch_view) \<Rightarrow> launch_context \<Rightarrow>
   permit \<Rightarrow> claims \<Rightarrow> bound_entry \<Rightarrow> nat \<Rightarrow> string \<Rightarrow> (prepared_launch \<times> nat) result" where
  "launch_prepare Q E W key b V C p c entry now_ms instance_id =
     bindR (authority_lease Q key V 0 p c now_ms) (\<lambda>l.
     let l = l\<lparr>le_credential := Some (lv_epoch (V 6))\<rparr>
     in bindR (require (\<not> is_locked (broker_at b (lv_epoch (V 7)))) ''CREDENTIALS_LOCKED'') (\<lambda>_.
        bindR (launch_build Q E W key b V 8 C p c entry now_ms) (\<lambda>(data, t).
        bindR (lease_check V t l) (\<lambda>_.
        bindR (identity_of Q instance_id c) (\<lambda>identity.
        Inr (\<lparr>pl_data = data, pl_lease = l, pl_identity = identity, pl_path = be_path entry, pl_entry = be_name entry,
          pl_tree = be_tree entry\<rparr>, t + 3))))))"

text \<open>\<open>PreparedLaunch::create_suspended\<close>; creating the process is the system's.\<close>

definition create_suspended :: "(nat \<Rightarrow> launch_view) \<Rightarrow> nat \<Rightarrow> prepared_launch \<Rightarrow> bound_entry \<Rightarrow> unit result \<Rightarrow> (lease \<times> call_identity) result" where
  "create_suspended V t P entry created =
     bindR (lease_check V t (pl_lease P)) (\<lambda>_.
     bindR (require (pl_path P = be_path entry \<and> pl_entry P = be_name entry \<and> pl_tree P = be_tree entry)
       ''EXTENSION_ENTRY_PERMIT_MISMATCH'') (\<lambda>_.
     bindR created (\<lambda>_.
     bindR (lease_check V (t + 3) (pl_lease P)) (\<lambda>_.
     Inr (pl_lease P, pl_identity P)))))"

section \<open>What a permit stands for\<close>

lemma generation_run:
  "au_generation (fold permit_step es A) = au_generation A + of_nat (length (filter revoking es))"
proof (induction es arbitrary: A)
  case (Cons e es)
  then show ?case by (cases e) (simp_all add: authority_revoke_def invalidate_all_def)
qed simp

lemma quiet_run: "\<not> list_ex revoking es \<Longrightarrow> fold permit_step es A = A"
proof (induction es arbitrary: A)
  case (Cons e es)
  then show ?case by (cases e) simp_all
qed simp

lemma of_nat_word_nonzero: "0 < k \<Longrightarrow> k < 2 ^ 64 \<Longrightarrow> (of_nat k :: 64 word) \<noteq> 0"
  by (auto simp: word_of_nat_eq_0_iff dest: dvd_imp_le)

lemma generation_moves:
  assumes "length es < 2 ^ 64" "list_ex revoking es"
  shows "au_generation (fold permit_step es A) \<noteq> au_generation A"
proof -
  have "filter revoking es \<noteq> []" using assms(2) by (auto simp: list_ex_iff filter_empty_conv)
  moreover have "length (filter revoking es) < 2 ^ 64" using assms(1) length_filter_le [of revoking es] by (rule le_less_trans [rotated])
  ultimately show ?thesis using of_nat_word_nonzero by (simp add: generation_run)
qed

lemma encoded_later: "encoded_claims Q c issued = Inr e \<Longrightarrow> encoded_claims Q c now_ms = Inr e' \<longleftrightarrow> now_ms < cl_expires_at_ms c \<and> e' = e"
  by (auto simp: encoded_claims_def bindR_Inr_iff)

lemma permit_message_eq [simp]: "permit_message g e = permit_message g e' \<longleftrightarrow> e = e'"
  by (simp add: permit_message_def)

text \<open>
  A permit stands for exactly the claims it was issued for: after any events of the authority,
  fewer than \<open>2 ^ 64\<close>, it verifies if and only if none of them was a revocation or an invalidation,
  the presented claims are those issued in every field, and they have not expired. HMAC and JSON
  are relied on not to give two messages or two claims the same result.
\<close>

theorem permit_verifies_exactly:
  assumes "authority_issue Q A c issued_ms = Inr p"
    and "\<And>m m'. qx_hmac Q (au_key A) m = qx_hmac Q (au_key A) m' \<Longrightarrow> m = m'"
    and "\<And>d d' e. qx_json Q d = Some e \<Longrightarrow> qx_json Q d' = Some e \<Longrightarrow> d = d'"
    and "length es < 2 ^ 64"
  shows "authority_verify Q (au_key (fold permit_step es A)) (au_generation (fold permit_step es A))
      (au_generation (fold permit_step es A)) p actual now_ms = Inr () \<longleftrightarrow>
    \<not> list_ex revoking es \<and> actual = c \<and> now_ms < cl_expires_at_ms c"
proof (cases "list_ex revoking es")
  case True
  have "pm_generation p = au_generation A" using assms(1) by (auto simp: authority_issue_def bindR_Inr_iff)
  then show ?thesis
    using generation_moves [OF assms(4) True, of A] True by (auto simp: authority_verify_def bindR_Inr_iff)
next
  case False
  obtain e where e: "encoded_claims Q c issued_ms = Inr e" "p = \<lparr>pm_mac = qx_hmac Q (au_key A) (permit_message (au_generation A) e),
      pm_generation = au_generation A\<rparr>"
    using assms(1) by (auto simp: authority_issue_def bindR_Inr_iff)
  have json: "qx_json Q d = Some f" if "encoded_claims Q d now = Inr f" for d now f
    using that by (auto simp: encoded_claims_def bindR_Inr_iff)
  have same: "actual = c \<and> now_ms < cl_expires_at_ms c" if "encoded_claims Q actual now_ms = Inr e"
  proof -
    have "actual = c" using assms(3) json [OF that] json [OF e(1)] by blast
    then show ?thesis using that encoded_later [OF e(1)] by simp
  qed
  have mac: "qx_hmac Q (au_key A) m = qx_hmac Q (au_key A) m' \<longleftrightarrow> m = m'" for m m'
    using assms(2) by blast
  have "authority_verify Q (au_key A) (au_generation A) (au_generation A) p actual now_ms = Inr () \<longleftrightarrow>
      encoded_claims Q actual now_ms = Inr e"
    by (auto simp: authority_verify_def bindR_Inr_iff e(2) mac)
  also have "\<dots> \<longleftrightarrow> actual = c \<and> now_ms < cl_expires_at_ms c"
    using same encoded_later [OF e(1), of now_ms e] by auto
  finally show ?thesis using False by (simp add: quiet_run)
qed

section \<open>Scopes of packages\<close>

lemma length_le_digits [simp]: "length (le_digits k n) = k"
  by (induction k arbitrary: n) auto

lemma le_bytes_digits: "le_bytes (le_digits k n) = n mod 256 ^ k"
proof (induction k arbitrary: n)
  case (Suc k)
  have "n mod (256 * 256 ^ k) = n mod 256 + 256 * (n div 256 mod 256 ^ k)" by (simp add: mod_mult2_eq)
  then show ?case using Suc by simp
qed simp

lemma be_u64_eq: "m < 2 ^ 64 \<Longrightarrow> n < 2 ^ 64 \<Longrightarrow> be_u64 m = be_u64 n \<longleftrightarrow> m = n"
proof -
  assume small: "m < 2 ^ 64" "n < 2 ^ 64"
  have "le_bytes (rev (be_u64 k)) = k" if "k < 2 ^ 64" for k
    using that le_bytes_digits [of 8 k] by (simp add: be_u64_def del: le_digits.simps)
  then show "be_u64 m = be_u64 n \<longleftrightarrow> m = n" using small by metis
qed

lemma framed_eq:
  assumes "length a < 2 ^ 64" "length b < 2 ^ 64"
  shows "framed_part a @ x = framed_part b @ y \<longleftrightarrow> a = b \<and> x = y"
proof
  assume eq: "framed_part a @ x = framed_part b @ y"
  have "length (be_u64 n) = 8" for n by (simp add: be_u64_def)
  then have "be_u64 (length a) = be_u64 (length b) \<and> a @ x = b @ y"
    using eq by (simp add: framed_part_def)
  then show "a = b \<and> x = y" using be_u64_eq [OF assms] by auto
qed auto

lemma owner_message_eq:
  assumes "length a < 2 ^ 64" "length b < 2 ^ 64" "length c < 2 ^ 64" "length a' < 2 ^ 64" "length b' < 2 ^ 64" "length c' < 2 ^ 64"
  shows "owner_message a b c = owner_message a' b' c' \<longleftrightarrow> a = a' \<and> b = b' \<and> c = c'"
  using assms framed_eq [of c c' "[]" "[]"] by (simp add: owner_message_def framed_eq)

text \<open>
  The credentials of two packages never share a scope: identifiers in the same scope come from
  claims with the same kind, source, namespace and package, whatever their names are made of, if
  SHA-256 is relied on not to collide.
\<close>

theorem credential_scopes_isolated:
  assumes "credential_id Q c r = Inr i" "credential_id Q c' r' = Inr i'" "ci_scope i = ci_scope i'"
    and "\<And>m m'. qx_sha Q m = qx_sha Q m' \<Longrightarrow> m = m'"
    and "qx_url Q (cl_source c) = Some u" "qx_url Q (cl_source c') = Some u'"
    and "list_all (\<lambda>s. length s < 2 ^ 64) [su_text u, su_text u', cl_namespace c, cl_namespace c', cl_package_id c, cl_package_id c']"
  shows "cl_kind c = cl_kind c' \<and> su_text u = su_text u' \<and> cl_namespace c = cl_namespace c' \<and> cl_package_id c = cl_package_id c'"
proof -
  have "cl_kind c = cl_kind c' \<and> qx_sha Q (owner_message (su_text u) (cl_namespace c) (cl_package_id c)) =
      qx_sha Q (owner_message (su_text u') (cl_namespace c') (cl_package_id c'))"
    using assms(1-3,5,6) by (auto simp: credential_id_def bindR_Inr_iff Let_def split: execution_kind.splits)
  with assms(4) have "cl_kind c = cl_kind c'" "owner_message (su_text u) (cl_namespace c) (cl_package_id c) =
      owner_message (su_text u') (cl_namespace c') (cl_package_id c')" by auto
  then show ?thesis using assms(7) by (simp add: owner_message_eq)
qed

section \<open>What a start was prepared under\<close>

text \<open>A 64-bit counter that only grows, without wrapping around.\<close>

definition counter_run :: "(nat \<Rightarrow> 64 word) \<Rightarrow> bool" where
  "counter_run f \<longleftrightarrow> (\<exists>g. mono g \<and> (\<forall>t. g t < 2 ^ 64 \<and> f t = of_nat (g t)))"

lemma counter_between:
  assumes "counter_run f" "f s = f u" "s \<le> t" "t \<le> u"
  shows "f t = f s"
proof -
  obtain g :: "nat \<Rightarrow> nat" where g: "mono g" "\<And>t. g t < 2 ^ 64" "\<And>t. f t = of_nat (g t)"
    using assms(1) by (auto simp: counter_run_def)
  have "unat (f t) = g t" for t using g(2) [of t] by (simp add: g(3) unat_of_nat)
  then have "g s = g u" using assms(2) by metis
  then have "g t = g s" using monoD [OF g(1) assms(3)] monoD [OF g(1) assms(4)] by simp
  then show ?thesis by (simp add: g(3))
qed

fun value_held :: "permit_env \<Rightarrow> 'b cred_env \<Rightarrow> cred_world \<Rightarrow> 'b broker \<Rightarrow> claims \<Rightarrow> env_declaration \<Rightarrow> string \<Rightarrow> bool" where
  "value_held Q E W b c (EnvLiteral w) v = (v = w)"
| "value_held Q E W b c (EnvCredential reference) v = (secret_value Q E W b c reference = Inr v)"

lemma launch_values_later: "launch_values Q E W b V c t env vals = Inr (vals', t') \<Longrightarrow> t \<le> t'"
proof (induction Q E W b V c t env vals rule: launch_values.induct)
  case (3 Q E W b V c t name reference rest vals)
  then show ?case by (fastforce simp: bindR_Inr_iff)
qed auto

lemma launch_values_held:
  assumes "launch_values Q E W b V c t env vals = Inr (vals', t')"
    and "\<And>s. t \<le> s \<Longrightarrow> s < t' \<Longrightarrow> lv_epoch (V s) = epoch"
  shows "fst ` set vals' = fst ` set vals \<union> fst ` set env \<and>
    (\<forall>n v. bt_get vals' n = Some v \<longrightarrow>
       bt_get vals n = Some v \<or> (\<exists>d. (n, d) \<in> set env \<and> value_held Q E W (broker_at b epoch) c d v))"
  using assms
proof (induction Q E W b V c t env vals rule: launch_values.induct)
  case (2 Q E W b V c t name v rest vals)
  show ?case using "2.IH" "2.prems" by (auto simp: keys_bt_insert split: if_splits; metis value_held.simps(1))
next
  case (3 Q E W b V c t name reference rest vals)
  from "3.prems"(1) obtain v where v: "secret_value Q E W (broker_at b (lv_epoch (V t))) c reference = Inr v"
      "launch_values Q E W b V c (t + 1) rest (bt_insert name v vals) = Inr (vals', t')"
    by (auto simp: bindR_Inr_iff)
  have "lv_epoch (V t) = epoch" using "3.prems"(2) [of t] launch_values_later [OF v(2)] by simp
  then have held: "value_held Q E W (broker_at b epoch) c (EnvCredential reference) v" using v(1) by simp
  have rest: "fst ` set vals' = fst ` set (bt_insert name v vals) \<union> fst ` set rest \<and>
     (\<forall>n w. bt_get vals' n = Some w \<longrightarrow>
       bt_get (bt_insert name v vals) n = Some w \<or> (\<exists>d. (n, d) \<in> set rest \<and> value_held Q E W (broker_at b epoch) c d w))"
    using "3.prems"(2) by (intro "3.IH" [OF v(2)]) simp_all
  then show ?case using held by (auto simp: keys_bt_insert split: if_splits; metis option.inject)
qed auto

lemma lease_check_Inr:
  "lease_check V t l = Inr () \<longleftrightarrow>
     lv_generation (V t) = le_generation l \<and> (\<forall>epoch. le_credential l = Some epoch \<longrightarrow> lv_epoch (V (t + 1)) = epoch) \<and>
     lv_now (V (t + 2)) < le_expires l"
  by (auto simp: lease_check_def bindR_Inr_iff split: option.splits)

lemma launch_build_Inr:
  assumes "launch_build Q E W key b V t C p c entry now_ms = Inr (data, t')"
  shows "\<exists>vals encoded. encoded_claims Q c now_ms = Inr encoded \<and> pm_mac p = qx_hmac Q key (permit_message (pm_generation p) encoded) \<and>
    cl_vault_id c = lc_vault_id C \<and> cl_policy_version c = lc_policy_version C \<and> cl_platform c = lc_os C \<and>
    cl_entry c = be_name entry \<and> cl_tree_sha256 c = be_tree entry \<and>
    launch_values Q E W b V c (t + 3) (cl_environment c) [] = Inr (vals, t' - 2) \<and> t + 3 \<le> t' - 2 \<and> 2 \<le> t' \<and>
    launch_data_new (be_launch_path entry) (cl_arguments c) (lc_system_root C) (lc_container_data C) (lc_scratch C) vals = Inr data"
proof -
  from assms [unfolded launch_build_def bindR_Inr_iff require_simps Let_def]
  obtain vals t0 where "authority_verify Q key (lv_generation (V t)) (lv_generation (V (t + 1))) p c now_ms = Inr ()"
      "cl_vault_id c = lc_vault_id C \<and> cl_policy_version c = lc_policy_version C \<and> cl_platform c = lc_os C"
      "cl_entry c = be_name entry \<and> cl_tree_sha256 c = be_tree entry"
      "launch_values Q E W b V c (t + 3) (cl_environment c) [] = Inr (vals, t0)"
      "launch_data_new (be_launch_path entry) (cl_arguments c) (lc_system_root C) (lc_container_data C) (lc_scratch C) vals = Inr data"
      "t' = t0 + 2"
    by (auto simp: bindR_Inr_iff)
  then show ?thesis
    using launch_values_later [of Q E W b V c "t + 3" "cl_environment c" "[]" vals t0]
    by (auto simp: authority_verify_def bindR_Inr_iff)
qed

text \<open>
  A start that was prepared was authorised all the way: whatever other threads do, if the
  generation and the lock epoch only grow, then between the check of the permit and the end of the
  preparation nothing was revoked and the credentials were never locked; the permit's MAC covers
  exactly the claims presented, which name this vault, policy, platform, entry and package tree; and
  the process gets only the declared variables, each with its literal or with the secret that the
  unlocked session holds under the package's own scope.
\<close>

theorem launch_prepared_authorized:
  assumes "launch_prepare Q E W key b V C p c entry now_ms instance_id = Inr (P, t)"
    and "counter_run (\<lambda>s. lv_generation (V s))" "counter_run (\<lambda>s. lv_epoch (V s))"
  shows "\<exists>vals encoded. (\<forall>s. 1 \<le> s \<and> s \<le> t - 3 \<longrightarrow> lv_generation (V s) = pm_generation p) \<and>
    br_session b \<noteq> None \<and> (\<forall>s. 6 \<le> s \<and> s \<le> t - 2 \<longrightarrow> lv_epoch (V s) = br_unlocked_epoch b) \<and>
    encoded_claims Q c now_ms = Inr encoded \<and> pm_mac p = qx_hmac Q key (permit_message (pm_generation p) encoded) \<and>
    cl_vault_id c = lc_vault_id C \<and> cl_policy_version c = lc_policy_version C \<and> cl_platform c = lc_os C \<and>
    cl_entry c = pl_entry P \<and> cl_tree_sha256 c = pl_tree P \<and>
    launch_data_new (be_launch_path entry) (cl_arguments c) (lc_system_root C) (lc_container_data C) (lc_scratch C) vals = Inr (pl_data P) \<and>
    fst ` set vals = fst ` set (cl_environment c) \<and>
    (\<forall>n v. bt_get vals n = Some v \<longrightarrow>
       (\<exists>d. (n, d) \<in> set (cl_environment c) \<and> value_held Q E W (broker_at b (br_unlocked_epoch b)) c d v))"
proof -
  from assms(1) [unfolded launch_prepare_def bindR_Inr_iff require_simps Let_def]
  obtain l data t0 identity where l: "authority_lease Q key V 0 p c now_ms = Inr l"
    and open': "\<not> is_locked (broker_at b (lv_epoch (V 7)))"
    and build: "launch_build Q E W key b V 8 C p c entry now_ms = Inr (data, t0)"
    and last: "lease_check V t0 (l\<lparr>le_credential := Some (lv_epoch (V 6))\<rparr>) = Inr ()"
    and P: "pl_data P = data" "pl_entry P = be_name entry" "pl_tree P = be_tree entry" "t = t0 + 3"
    by (auto simp: bindR_Inr_iff)
  obtain vals encoded where built: "encoded_claims Q c now_ms = Inr encoded"
      "pm_mac p = qx_hmac Q key (permit_message (pm_generation p) encoded)"
      "cl_vault_id c = lc_vault_id C \<and> cl_policy_version c = lc_policy_version C \<and> cl_platform c = lc_os C"
      "cl_entry c = be_name entry \<and> cl_tree_sha256 c = be_tree entry"
      "launch_values Q E W b V c 11 (cl_environment c) [] = Inr (vals, t0 - 2)" "11 \<le> t0 - 2" "2 \<le> t0"
      "launch_data_new (be_launch_path entry) (cl_arguments c) (lc_system_root C) (lc_container_data C) (lc_scratch C) vals = Inr data"
    using launch_build_Inr [OF build] by auto
  have gen1: "lv_generation (V 1) = pm_generation p" "le_generation l = pm_generation p"
    using l by (auto simp: authority_lease_def authority_verify_def bindR_Inr_iff Let_def)
  have end': "lv_generation (V t0) = pm_generation p" "lv_epoch (V (t0 + 1)) = lv_epoch (V 6)"
    using last gen1(2) by (simp_all add: lease_check_Inr)
  have gens: "lv_generation (V s) = pm_generation p" if "1 \<le> s" "s \<le> t0" for s
    using counter_between [OF assms(2), of 1 t0 s] gen1(1) end'(1) that by simp
  have open'': "br_session b \<noteq> None" "lv_epoch (V 7) = br_unlocked_epoch b"
    using open' by (auto simp: is_locked_def broker_at_def)
  have eps6: "lv_epoch (V s) = lv_epoch (V 6)" if "6 \<le> s" "s \<le> t0 + 1" for s
    using counter_between [OF assms(3), of 6 "t0 + 1" s] end'(2) that by simp
  have eps: "lv_epoch (V s) = br_unlocked_epoch b" if "6 \<le> s" "s \<le> t0 + 1" for s
    using eps6 [OF that] eps6 [of 7] built(6) open''(2) by simp
  have held: "fst ` set vals = fst ` set (cl_environment c) \<and>
      (\<forall>n v. bt_get vals n = Some v \<longrightarrow>
         (\<exists>d. (n, d) \<in> set (cl_environment c) \<and> value_held Q E W (broker_at b (br_unlocked_epoch b)) c d v))"
    using launch_values_held [OF built(5), of "br_unlocked_epoch b"] eps by simp
  show ?thesis using gens open'' eps built held P by (intro exI [of _ vals] exI [of _ encoded]) auto
qed

section \<open>Example values\<close>

definition demo_claims :: claims where
  "demo_claims = \<lparr>cl_kind = ExecMcp, cl_source = ''u'', cl_namespace = ''ab'', cl_package_id = ''cd'', cl_version = ''1'',
     cl_archive_sha256 = replicate 64 (CHR ''0''), cl_tree_sha256 = replicate 64 (CHR ''1''), cl_signer_sha256 = replicate 64 (CHR ''2''),
     cl_entry = ''a.EXE'', cl_arguments = [''a \"'', [], [CHR 0x5C]], cl_environment = [(''mode'', EnvCredential ''t'')],
     cl_permissions = [], cl_vault_id = ''v'', cl_platform = ''windows'', cl_policy_version = ''1'', cl_expires_at_ms = 100\<rparr>"

definition demo_url :: source_url where
  "demo_url = \<lparr>su_scheme = ''https'', su_host = Some ''c'', su_username = [], su_password = None, su_query = None,
     su_fragment = None, su_text = ''u''\<rparr>"

definition demo_permit_env :: "(string \<Rightarrow> string) \<Rightarrow> permit_env" where
  "demo_permit_env sha = \<lparr>qx_url = (\<lambda>_. Some demo_url), qx_semver = (\<lambda>_. True), qx_uuid = (\<lambda>_. True),
     qx_json = (\<lambda>c. if c = demo_claims then Some ''j'' else None), qx_hmac = (\<lambda>k m. k @ m), qx_sha = sha\<rparr>"

definition demo_authority :: authority where
  "demo_authority = \<lparr>au_key = ''k'', au_generation = 0\<rparr>"

definition demo_permit :: permit where
  "demo_permit = \<lparr>pm_mac = ''k'' @ permit_message 0 ''j'', pm_generation = 0\<rparr>"

lemma demo_launch_hex:
  "is_sha256_hex (replicate 64 (CHR ''0''))" "is_sha256_hex (replicate 64 (CHR ''1''))" "is_sha256_hex (replicate 64 (CHR ''2''))"
  by (simp_all add: is_sha256_hex_def list_all_iff ascii_defs)

lemma demo_component: "entry_component_ok ''a.EXE''"
proof -
  have "str_chars ''a.EXE'' = [97, 46, 69, 88, 69]" by (simp add: str_chars_ascii byte_in_def del: str_chars.simps)
  then show ?thesis by (simp add: entry_component_ok_def char_is_control_def del: str_chars.simps)
qed

lemma demo_claims_fields: "pm_generation demo_permit = 0" "cl_expires_at_ms demo_claims = 100"
  by (simp_all add: demo_permit_def demo_claims_def)

lemma demo_encoded: "encoded_claims (demo_permit_env sha) demo_claims now_ms = Inr ''j''" if "now_ms < 100"
proof -
  have "identity_slug ''ab''" "identity_slug ''cd''" "env_name_ok ''mode''"
    by (simp_all add: identity_slug_def ascii_defs env_name_ok_def)
  then have "claims_ok (demo_permit_env sha) demo_claims"
    by (simp add: claims_ok_def demo_permit_env_def demo_claims_def demo_url_def source_url_ok_def demo_launch_hex
        demo_component declaration_ok_def)
  then show ?thesis using that
    by (simp add: encoded_claims_def) (simp add: demo_permit_env_def demo_claims_def)
qed

lemma demo_issue: "authority_issue (demo_permit_env sha) demo_authority demo_claims 1 = Inr demo_permit"
  by (simp add: authority_issue_def demo_encoded) (simp add: demo_permit_env_def demo_authority_def demo_permit_def)

lemma demo_permit_env_laws:
  "qx_hmac (demo_permit_env sha) k m = qx_hmac (demo_permit_env sha) k m' \<Longrightarrow> m = m'"
  "qx_json (demo_permit_env sha) d = Some e \<Longrightarrow> qx_json (demo_permit_env sha) d' = Some e \<Longrightarrow> d = d'"
  "qx_json (demo_permit_env sha) demo_claims = Some ''j''"
  by (simp_all add: demo_permit_env_def split: if_splits)

lemma demo_authority_simps: "au_key demo_authority = ''k''" "au_generation demo_authority = 0"
    "au_key (authority_revoke demo_authority) = ''k''" "au_generation (authority_revoke demo_authority) = 1"
  by (simp_all add: demo_authority_def authority_revoke_def)

theorem permit_verifies_exactly_witness:
  "authority_verify (demo_permit_env id) ''k'' 0 0 demo_permit demo_claims 50 = Inr () \<and>
   authority_verify (demo_permit_env id) ''k'' 1 1 demo_permit demo_claims 50 \<noteq> Inr ()"
proof -
  note exact = permit_verifies_exactly [OF demo_issue [of id] demo_permit_env_laws(1,2), where actual = demo_claims and now_ms = 50]
  show ?thesis
    using exact [where es = "[EvVerify demo_permit demo_claims 2]"] exact [where es = "[EvRevoke]"]
    by (simp add: demo_authority_simps demo_claims_fields)
qed

theorem credential_scopes_isolated_witness:
  "\<exists>i. credential_id (demo_permit_env id) demo_claims ''t'' = Inr i"
proof -
  obtain i where i: "credential_id (demo_permit_env id) demo_claims ''t'' = Inr i"
    by (simp add: credential_id_def cred_name_ok_def ascii_defs demo_permit_env_def source_url_ok_def demo_url_def Let_def)
  have "cl_kind demo_claims = cl_kind demo_claims"
    using credential_scopes_isolated [OF i i refl, of demo_url demo_url]
    by (simp add: demo_permit_env_def demo_url_def demo_claims_def)
  then show ?thesis using i by blast
qed

definition demo_context :: launch_context where
  "demo_context = \<lparr>lc_vault_id = ''v'', lc_policy_version = ''1'', lc_os = ''windows'', lc_system_root = demo_root,
     lc_container_data = demo_data [], lc_scratch = demo_data [[116]]\<rparr>"

definition demo_entry :: bound_entry where
  "demo_entry = \<lparr>be_name = ''a.EXE'', be_tree = replicate 64 (CHR ''1''), be_path = demo_program, be_launch_path = demo_program\<rparr>"

definition demo_view :: "nat \<Rightarrow> launch_view" where
  "demo_view s = \<lparr>lv_generation = 0, lv_epoch = 1, lv_now = s\<rparr>"

definition demo_unlocked_vault :: "(string \<times> cred_store) broker" where
  "demo_unlocked_vault = demo_broker 1 [(''2ext.o|t'', demo_sealed ''x y'')]"

lemma demo_secret:
  "secret_value (demo_permit_env (\<lambda>_. ''o'')) demo_cred_env demo_cred_world demo_unlocked_vault demo_claims ''t'' = Inr ''x y''"
proof -
  let ?i = "\<lparr>ci_scope = ScopeMcp ''ext.o'', ci_id = ''t''\<rparr>"
  have i: "credential_id (demo_permit_env (\<lambda>_. ''o'')) demo_claims ''t'' = Inr ?i"
    by (simp add: credential_id_def cred_name_ok_def ascii_defs demo_permit_env_def source_url_ok_def demo_url_def)
      (simp add: demo_claims_def)
  have "cred_key demo_cred_env ?i = Inr ''2ext.o|t''"
    by (simp add: cred_key_def cred_name_ok_def ascii_defs demo_cred_env_def)
  then have "cred_resolve demo_cred_env demo_cred_world (ScopeMcp ''ext.o'') ?i demo_unlocked_vault = Inr (Some ''x y'')"
    by (simp add: cred_resolve_def demo_unlocked_vault_def demo_session demo_read bt_get_def)
  then show ?thesis by (simp add: secret_value_def i credential_failure_def utf8_tail_def byte_in_def)
qed

lemma demo_broker_at: "broker_at demo_unlocked_vault 1 = demo_unlocked_vault"
  by (simp add: broker_at_def demo_unlocked_vault_def demo_broker_def)

lemma demo_prepare:
  "\<exists>P. launch_prepare (demo_permit_env (\<lambda>_. ''o'')) demo_cred_env demo_cred_world ''k'' demo_unlocked_vault demo_view demo_context demo_permit
     demo_claims demo_entry 1 ''i'' = Inr (P, 17)"
proof -
  obtain d where d: "launch_data_new demo_program [''a \"'', [], [CHR 0x5C]] demo_root (demo_data []) (demo_data [[116]])
    [(''mode'', ''x y'')] = Inr d" using demo_launch by blast
  have verify: "authority_verify (demo_permit_env (\<lambda>_. ''o'')) ''k'' 0 0 demo_permit demo_claims 1 = Inr ()"
    by (simp add: authority_verify_def demo_encoded demo_permit_def) (simp add: demo_permit_env_def)
  have unlocked: "\<not> is_locked demo_unlocked_vault" by (simp add: is_locked_def demo_unlocked_vault_def demo_broker_def)
  have lease: "authority_lease (demo_permit_env (\<lambda>_. ''o'')) ''k'' demo_view 0 demo_permit demo_claims 1 =
      Inr \<lparr>le_generation = 0, le_credential = None, le_expires = 99000000\<rparr>"
    by (simp add: authority_lease_def verify [unfolded One_nat_def] demo_view_def lease_check_def max_instant_def demo_claims_fields)
  have env: "cl_environment demo_claims = [(''mode'', EnvCredential ''t'')]" "cl_arguments demo_claims = [''a \"'', [], [CHR 0x5C]]"
    by (simp_all add: demo_claims_def)
  have "launch_build (demo_permit_env (\<lambda>_. ''o'')) demo_cred_env demo_cred_world ''k'' demo_unlocked_vault demo_view 8 demo_context demo_permit
      demo_claims demo_entry 1 = Inr (d, 14)"
    by (simp add: launch_build_def demo_view_def verify [unfolded One_nat_def] env demo_broker_at demo_secret unlocked)
      (simp add: demo_claims_def demo_context_def demo_entry_def d)
  then show ?thesis
    by (simp add: launch_prepare_def lease [unfolded One_nat_def] demo_view_def demo_broker_at unlocked lease_check_def identity_of_def
        demo_permit_env_laws(3))
qed

theorem launch_prepared_authorized_witness:
  "\<exists>vals. (\<exists>d. launch_data_new demo_program [''a \"'', [], [CHR 0x5C]] demo_root (demo_data []) (demo_data [[116]]) vals = Inr d) \<and>
     fst ` set vals = {''mode''}"
proof -
  obtain P where P: "launch_prepare (demo_permit_env (\<lambda>_. ''o'')) demo_cred_env demo_cred_world ''k'' demo_unlocked_vault demo_view demo_context
      demo_permit demo_claims demo_entry 1 ''i'' = Inr (P, 17)" using demo_prepare by blast
  have const: "counter_run (\<lambda>_. w)" for w
    unfolding counter_run_def
    by (rule exI [of _ "\<lambda>_. unat w"]) (use unsigned_less [of w, where ?'a = nat] in \<open>simp add: mono_def\<close>)
  have runs: "counter_run (\<lambda>s. lv_generation (demo_view s))" "counter_run (\<lambda>s. lv_epoch (demo_view s))"
    by (simp_all add: demo_view_def const)
  from launch_prepared_authorized [OF P runs] show ?thesis
    by (auto simp: demo_entry_def demo_context_def demo_claims_def)
qed

end
