(* ===== verification/Host_Requests.thy ===== *)
theory Host_Requests
  imports Host_Prelude
begin

text \<open>
  The life of a request to the core (\<open>request_lifecycle.rs\<close>): it is prepared with a deadline, claimed
  at most once by the call that runs it, and may be cancelled at any moment before or after. An
  entry's watch channel is a number: it is cancelled when its value is true and closed when its
  sender is gone. The leases that running calls hold are part of the state, and each call reads the
  clock once.
\<close>

section \<open>Entries and leases\<close>

record request_entry =
  en_deadline :: nat
  en_claimed :: bool
  en_cancel :: nat

record request_lease =
  ls_id :: string
  ls_deadline :: nat
  ls_cancel :: nat

record requests =
  rq_entries :: "(string \<times> request_entry) list"
  rq_cancelled :: "nat list"
  rq_closed :: "nat list"
  rq_channels :: nat
  rq_leases :: "request_lease list"

definition requests_new :: requests where
  "requests_new = \<lparr>rq_entries = [], rq_cancelled = [], rq_closed = [], rq_channels = 0, rq_leases = []\<rparr>"

definition max_requests :: nat where "max_requests = 64"

definition without_entry :: "string \<Rightarrow> (string \<times> request_entry) list \<Rightarrow> (string \<times> request_entry) list" where
  "without_entry i entries = filter (\<lambda>e. fst e \<noteq> i) entries"

text \<open>The senders of the entries that a change drops are gone.\<close>

definition dropped_channels :: "(string \<times> request_entry) list \<Rightarrow> (string \<times> request_entry) list \<Rightarrow> nat list" where
  "dropped_channels before after = map (en_cancel \<circ> snd) (filter (\<lambda>e. e \<notin> set after) before)"

definition set_entries :: "(string \<times> request_entry) list \<Rightarrow> requests \<Rightarrow> requests" where
  "set_entries entries s =
     s\<lparr>rq_entries := entries, rq_closed := dropped_channels (rq_entries s) entries @ rq_closed s\<rparr>"

text \<open>\<open>entries.retain\<close>: what is claimed or not yet due.\<close>

definition alive_entries :: "nat \<Rightarrow> (string \<times> request_entry) list \<Rightarrow> (string \<times> request_entry) list" where
  "alive_entries now entries = filter (\<lambda>(_, e). en_claimed e \<or> now < en_deadline e) entries"

definition request_prepare :: "nat \<Rightarrow> nat \<Rightarrow> string \<Rightarrow> (requests, string) host_op" where
  "request_prepare timeout_ms now uuid =
     bindS (readS (\<lambda>_. require (1 \<le> timeout_ms \<and> timeout_ms \<le> 600000) ''CORE_TIMEOUT_INVALID'')) (\<lambda>_.
     bindS (modS (\<lambda>s. set_entries (alive_entries now (rq_entries s)) s)) (\<lambda>_.
     bindS (readS (\<lambda>s. require (length (rq_entries s) < max_requests) ''CORE_REQUEST_LIMIT'')) (\<lambda>_.
     bindS (modS (\<lambda>s.
       (set_entries ((uuid, \<lparr>en_deadline = now + timeout_ms, en_claimed = False, en_cancel = rq_channels s\<rparr>) #
           without_entry uuid (rq_entries s)) s)\<lparr>rq_channels := rq_channels s + 1\<rparr>)) (\<lambda>_.
     retS uuid))))"

definition request_claim :: "string \<Rightarrow> nat \<Rightarrow> (requests, request_lease) host_op" where
  "request_claim i now s =
     (case map_of (rq_entries s) i of
        None \<Rightarrow> (Err ''CORE_REQUEST_NOT_PREPARED'', s)
      | Some e \<Rightarrow>
          if en_claimed e then (Err ''CORE_REQUEST_ALREADY_STARTED'', s)
          else if en_deadline e \<le> now then (Err ''REQUEST_TIMEOUT'', set_entries (without_entry i (rq_entries s)) s)
          else let l = \<lparr>ls_id = i, ls_deadline = en_deadline e, ls_cancel = en_cancel e\<rparr>
               in (Inr l, s\<lparr>rq_entries := map (\<lambda>(j, f). (j, if j = i then f\<lparr>en_claimed := True\<rparr> else f)) (rq_entries s),
                    rq_leases := l # rq_leases s\<rparr>))"

definition request_cancel :: "string \<Rightarrow> requests \<Rightarrow> requests" where
  "request_cancel i s =
     (case map_of (rq_entries s) i of
        None \<Rightarrow> s
      | Some e \<Rightarrow> (set_entries (without_entry i (rq_entries s)) s)\<lparr>rq_cancelled := en_cancel e # rq_cancelled s\<rparr>)"

text \<open>A call that ends drops its lease, whatever its outcome.\<close>

definition lease_drop :: "request_lease \<Rightarrow> requests \<Rightarrow> requests" where
  "lease_drop l s = (set_entries (without_entry (ls_id l) (rq_entries s)) s)\<lparr>rq_leases := filter (\<lambda>k. k \<noteq> l) (rq_leases s)\<rparr>"

definition lease_checkpoint :: "request_lease \<Rightarrow> nat \<Rightarrow> requests \<Rightarrow> unit result" where
  "lease_checkpoint l now s =
     (if ls_cancel l \<in> set (rq_cancelled s) then Err ''REQUEST_CANCELLED''
      else if ls_deadline l \<le> now then Err ''REQUEST_TIMEOUT''
      else Inr ())"

text \<open>
  \<open>Lease::run\<close>: the state is looked at once, and then at every wake-up in the order of the biased
  \<open>select!\<close>: a change or the end of the channel, the deadline, and only then the operation, which
  is done or pending. Each wake-up is the shared state, the clock and what polling the operation
  would give. The second component counts the polls of the operation.
\<close>

fun request_polls :: "request_lease \<Rightarrow> (requests \<times> nat \<times> 'a result option) list \<Rightarrow> 'a result option \<times> nat" where
  "request_polls l [] = (None, 0)"
| "request_polls l ((s, now, polled) # wakes) =
     (if ls_cancel l \<in> set (rq_cancelled s) \<union> set (rq_closed s) then (Some (Err ''REQUEST_CANCELLED''), 0)
      else if ls_deadline l \<le> now then (Some (Err ''REQUEST_TIMEOUT''), 0)
      else (case polled of
              Some r \<Rightarrow> (Some r, 1)
            | None \<Rightarrow> (let (r, n) = request_polls l wakes in (r, n + 1))))"

definition request_run :: "request_lease \<Rightarrow> requests \<Rightarrow> nat \<Rightarrow> (requests \<times> nat \<times> 'a result option) list \<Rightarrow> 'a result option \<times> nat" where
  "request_run l s now wakes =
     (case lease_checkpoint l now s of Inl e \<Rightarrow> (Some (Inl e), 0) | Inr _ \<Rightarrow> request_polls l wakes)"

section \<open>Histories\<close>

datatype request_event =
    RqPrepare nat nat string
  | RqClaim string nat
  | RqCancel string
  | RqDrop request_lease

fun request_step :: "request_event \<Rightarrow> requests \<Rightarrow> requests" where
  "request_step (RqPrepare timeout_ms now uuid) s = snd (request_prepare timeout_ms now uuid s)"
| "request_step (RqClaim i now) s = snd (request_claim i now s)"
| "request_step (RqCancel i) s = request_cancel i s"
| "request_step (RqDrop l) s = (if l \<in> set (rq_leases s) then lease_drop l s else s)"

definition requests_run :: "request_event list \<Rightarrow> requests \<Rightarrow> requests" where
  "requests_run es s = fold request_step es s"

text \<open>The identifiers drawn for new requests belong to no request that is still around.\<close>

fun fresh_event :: "request_event \<Rightarrow> requests \<Rightarrow> bool" where
  "fresh_event (RqPrepare _ _ uuid) s = (uuid \<notin> fst ` set (rq_entries s) \<and> uuid \<notin> ls_id ` set (rq_leases s))"
| "fresh_event _ s = True"

fun fresh_history :: "request_event list \<Rightarrow> requests \<Rightarrow> bool" where
  "fresh_history [] s = True"
| "fresh_history (ev # es) s = (fresh_event ev s \<and> fresh_history es (request_step ev s))"

text \<open>What holds of a lease: its entry is still there, claimed and silent, or the request was cancelled.\<close>

definition lease_backed :: "requests \<Rightarrow> request_lease \<Rightarrow> bool" where
  "lease_backed s l \<longleftrightarrow>
     (case map_of (rq_entries s) (ls_id l) of
        None \<Rightarrow> ls_cancel l \<in> set (rq_cancelled s)
      | Some e \<Rightarrow> en_claimed e \<and> en_cancel e = ls_cancel l \<and> en_deadline e = ls_deadline l)"

definition request_entry_ok :: "requests \<Rightarrow> string \<times> request_entry \<Rightarrow> bool" where
  "request_entry_ok s = (\<lambda>(i, e).
     (en_claimed e \<longrightarrow> i \<in> ls_id ` set (rq_leases s)) \<and> en_cancel e \<notin> set (rq_cancelled s) \<union> set (rq_closed s) \<and>
     en_cancel e < rq_channels s)"

definition requests_ok :: "requests \<Rightarrow> bool" where
  "requests_ok s \<longleftrightarrow>
     distinct (map fst (rq_entries s)) \<and> distinct (map (en_cancel \<circ> snd) (rq_entries s)) \<and>
     length (rq_entries s) \<le> max_requests \<and> (\<forall>e \<in> set (rq_entries s). request_entry_ok s e) \<and>
     distinct (map ls_id (rq_leases s)) \<and> (\<forall>l \<in> set (rq_leases s). lease_backed s l) \<and>
     (\<forall>c \<in> set (rq_cancelled s) \<union> set (rq_closed s). c < rq_channels s)"

section \<open>The invariant\<close>

lemma map_of_without: "map_of (without_entry i entries) j = (if j = i then None else map_of entries j)"
  by (induction entries) (auto simp: without_entry_def)

lemma dropped_iff:
  "c \<in> set (dropped_channels before after) \<longleftrightarrow> (\<exists>e \<in> set before. e \<notin> set after \<and> c = en_cancel (snd e))"
  by (auto simp: dropped_channels_def)

lemma lease_backed_cong:
  "map_of (rq_entries t) (ls_id l) = map_of (rq_entries s) (ls_id l) \<Longrightarrow> rq_cancelled t = rq_cancelled s \<Longrightarrow>
     lease_backed t l = lease_backed s l"
  unfolding lease_backed_def by (simp split: option.split)

text \<open>Dropping entries and leases keeps the invariant when every lease that stays and loses its entry
  is told so.\<close>

lemma shrink_ok:
  assumes "requests_ok s" "set ls \<subseteq> set (rq_leases s)" "distinct (map ls_id ls)"
    and "\<And>i e. (i, e) \<in> set (rq_entries s) \<Longrightarrow> keep (i, e) \<Longrightarrow> en_claimed e \<Longrightarrow> i \<in> ls_id ` set ls"
    and "\<And>i e. (i, e) \<in> set (rq_entries s) \<Longrightarrow> \<not> keep (i, e) \<Longrightarrow> en_claimed e \<Longrightarrow> i \<in> ls_id ` set ls \<Longrightarrow> en_cancel e \<in> set cs"
    and "\<And>c. c \<in> set cs \<Longrightarrow> \<exists>e \<in> set (rq_entries s). \<not> keep e \<and> c = en_cancel (snd e)"
  shows "requests_ok ((set_entries (filter keep (rq_entries s)) s)\<lparr>rq_cancelled := cs @ rq_cancelled s, rq_leases := ls\<rparr>)"
proof -
  let ?es = "rq_entries s"
  let ?t = "(set_entries (filter keep ?es) s)\<lparr>rq_cancelled := cs @ rq_cancelled s, rq_leases := ls\<rparr>"
  have d: "distinct (map fst ?es)" "distinct (map (en_cancel \<circ> snd) ?es)" using assms(1) by (simp_all add: requests_ok_def)
  have same: "e = f" if "e \<in> set ?es" "f \<in> set ?es" "en_cancel (snd e) = en_cancel (snd f)" for e f
    using d(2) that unfolding distinct_map inj_on_def comp_def by blast
  have below: "en_cancel (snd e) < rq_channels s" if "e \<in> set ?es" for e
    using assms(1) that by (cases e) (auto simp: requests_ok_def request_entry_ok_def dest!: bspec)
  have entries: "request_entry_ok ?t e" if "e \<in> set (filter keep ?es)" for e
  proof -
    have old: "request_entry_ok s e" using assms(1) that by (simp add: requests_ok_def)
    have "en_cancel (snd e) \<notin> set (dropped_channels ?es (filter keep ?es))"
      using same [of e] that unfolding dropped_iff by auto
    moreover have "en_cancel (snd e) \<notin> set cs"
    proof
      assume "en_cancel (snd e) \<in> set cs"
      from assms(6) [OF this] obtain f where "f \<in> set ?es" "\<not> keep f" "en_cancel (snd e) = en_cancel (snd f)" by blast
      then show False using same [of e f] that by simp
    qed
    ultimately show ?thesis using old that assms(4) by (cases e) (auto simp: request_entry_ok_def set_entries_def)
  qed
  have backed: "lease_backed ?t l" if l: "l \<in> set ls" for l
  proof (cases "map_of ?es (ls_id l)")
    case None
    have "lease_backed s l" using assms(1,2) l by (auto simp: requests_ok_def)
    moreover have "map_of (filter keep ?es) (ls_id l) = None" using None by (auto simp: map_of_eq_None_iff)
    ultimately show ?thesis using None by (simp add: lease_backed_def set_entries_def)
  next
    case (Some e)
    have "lease_backed s l" using assms(1,2) l by (auto simp: requests_ok_def)
    then have e: "(ls_id l, e) \<in> set ?es" "en_claimed e" "en_cancel e = ls_cancel l" "en_deadline e = ls_deadline l"
      using Some by (auto simp: lease_backed_def dest: map_of_SomeD)
    show ?thesis
    proof (cases "keep (ls_id l, e)")
      case True
      then have "map_of (filter keep ?es) (ls_id l) = Some e"
        using e(1) d(1) by (simp add: map_of_eq_Some_iff distinct_map_filter)
      then show ?thesis using e by (simp add: lease_backed_def set_entries_def)
    next
      case False
      have "map_of (filter keep ?es) (ls_id l) = None"
        using False e(1) d(1) by (auto simp: map_of_eq_None_iff) (metis Some eq_key_imp_eq_value map_of_SomeD)
      then show ?thesis using assms(5) [OF e(1) False e(2)] l e(3) by (auto simp: lease_backed_def set_entries_def)
    qed
  qed
  have "c < rq_channels s" if "c \<in> set cs \<or> c \<in> set (dropped_channels ?es (filter keep ?es))" for c
    using that assms(6) [of c] below by (auto simp: dropped_iff)
  moreover have "length (filter keep ?es) \<le> max_requests"
    using assms(1) by (auto simp: requests_ok_def intro: le_trans [OF length_filter_le])
  ultimately show ?thesis
    using assms(1,3) entries backed d
    by (auto simp: requests_ok_def set_entries_def distinct_map_filter)
qed

lemma filtered_ok:
  assumes "requests_ok s" "\<And>i e. (i, e) \<in> set (rq_entries s) \<Longrightarrow> \<not> keep (i, e) \<Longrightarrow> \<not> en_claimed e"
  shows "requests_ok (set_entries (filter keep (rq_entries s)) s)"
proof -
  have "requests_ok ((set_entries (filter keep (rq_entries s)) s)\<lparr>rq_cancelled := [] @ rq_cancelled s, rq_leases := rq_leases s\<rparr>)"
    using assms by (intro shrink_ok) (auto simp: requests_ok_def request_entry_ok_def dest!: bspec)
  then show ?thesis by (simp add: set_entries_def)
qed

lemma insert_ok:
  assumes "requests_ok s" "uuid \<notin> fst ` set (rq_entries s)" "uuid \<notin> ls_id ` set (rq_leases s)" "length (rq_entries s) < max_requests"
  shows "requests_ok ((set_entries ((uuid, \<lparr>en_deadline = d, en_claimed = False, en_cancel = rq_channels s\<rparr>) #
      without_entry uuid (rq_entries s)) s)\<lparr>rq_channels := rq_channels s + 1\<rparr>)"
proof -
  have same: "without_entry uuid (rq_entries s) = rq_entries s"
    using assms(2) by (auto simp: without_entry_def filter_id_conv)
  have none: "dropped_channels es (e # es) = []" for e and es :: "(string \<times> request_entry) list"
    by (auto simp: dropped_channels_def)
  have backed: "lease_backed (s\<lparr>rq_entries := (uuid, e) # rq_entries s, rq_closed := rq_closed s, rq_channels := Suc (rq_channels s)\<rparr>) l"
    if "l \<in> set (rq_leases s)" for l e
  proof -
    have "ls_id l \<noteq> uuid" using assms(3) that by auto
    then show ?thesis using assms(1) that by (subst lease_backed_cong [of _ l s]) (auto simp: requests_ok_def)
  qed
  show ?thesis
    using assms backed unfolding same none set_entries_def
    by (auto simp: requests_ok_def request_entry_ok_def less_Suc_eq)
qed


lemma prepare_ok:
  assumes "requests_ok s" "uuid \<notin> fst ` set (rq_entries s)" "uuid \<notin> ls_id ` set (rq_leases s)"
  shows "requests_ok (snd (request_prepare timeout_ms now uuid s))"
proof (cases "1 \<le> timeout_ms \<and> timeout_ms \<le> 600000")
  case True
  let ?t = "set_entries (alive_entries now (rq_entries s)) s"
  have t: "requests_ok ?t" unfolding alive_entries_def by (rule filtered_ok [OF assms(1)]) auto
  have fresh: "uuid \<notin> fst ` set (rq_entries ?t)" "uuid \<notin> ls_id ` set (rq_leases ?t)"
    using assms(2,3) by (auto simp: set_entries_def alive_entries_def)
  show ?thesis
    using True t insert_ok [OF t fresh, of "now + timeout_ms"]
    by (cases "length (rq_entries ?t) < max_requests") (simp_all add: request_prepare_def op_run require_def)
next
  case False
  then show ?thesis using assms(1) by (auto simp: request_prepare_def bindS_def readS_def require_def)
qed

lemma map_of_mark:
  "map_of (map (\<lambda>(j, f). (j, if j = i then g f else f)) entries) j =
     (if j = i then map_option g (map_of entries i) else map_of entries j)"
  by (induction entries) auto

lemma claim_ok:
  assumes "requests_ok s"
  shows "requests_ok (snd (request_claim i now s))"
proof (cases "map_of (rq_entries s) i")
  case (Some e)
  let ?es = "map (\<lambda>(j, f). (j, if j = i then f\<lparr>en_claimed := True\<rparr> else f)) (rq_entries s)"
  let ?l = "\<lparr>ls_id = i, ls_deadline = en_deadline e, ls_cancel = en_cancel e\<rparr>"
  have e: "(i, e) \<in> set (rq_entries s)" using Some by (rule map_of_SomeD)
  have keys: "map fst ?es = map fst (rq_entries s)" "map (en_cancel \<circ> snd) ?es = map (en_cancel \<circ> snd) (rq_entries s)"
    by auto
  have get: "map_of ?es j = (if j = i then Some (e\<lparr>en_claimed := True\<rparr>) else map_of (rq_entries s) j)" for j
    using Some by (simp add: map_of_mark)
  have none: "i \<notin> ls_id ` set (rq_leases s)" if "\<not> en_claimed e"
    using assms Some that by (auto simp: requests_ok_def lease_backed_def)
  have timeout: "requests_ok (set_entries (without_entry i (rq_entries s)) s)" if "\<not> en_claimed e"
  proof -
    have "f = e" if "(i, f) \<in> set (rq_entries s)" for f
      using that Some assms by (simp add: requests_ok_def map_of_eq_Some_iff)
    then show ?thesis unfolding without_entry_def using that by (intro filtered_ok [OF assms]) auto
  qed
  have granted: "requests_ok (s\<lparr>rq_entries := ?es, rq_leases := ?l # rq_leases s\<rparr>)" if "\<not> en_claimed e"
  proof -
    have "lease_backed (s\<lparr>rq_entries := ?es, rq_leases := ?l # rq_leases s\<rparr>) l" if "l \<in> set (?l # rq_leases s)" for l
    proof (cases "l = ?l")
      case True
      then show ?thesis by (simp add: lease_backed_def get)
    next
      case False
      then have l: "l \<in> set (rq_leases s)" using that by simp
      then have "ls_id l \<noteq> i" using none \<open>\<not> en_claimed e\<close> by auto
      then show ?thesis using l assms by (subst lease_backed_cong [of _ l s]) (auto simp: get requests_ok_def)
    qed
    moreover have "request_entry_ok (s\<lparr>rq_entries := ?es, rq_leases := ?l # rq_leases s\<rparr>) f" if "f \<in> set ?es" for f
    proof -
      obtain a b where f: "(a, b) \<in> set (rq_entries s)" "f = (a, if a = i then b\<lparr>en_claimed := True\<rparr> else b)"
        using \<open>f \<in> set ?es\<close> by auto
      have "request_entry_ok s (a, b)" using assms f(1) unfolding requests_ok_def by blast
      then show ?thesis by (cases "a = i") (auto simp: request_entry_ok_def f(2))
    qed
    moreover have "distinct (map fst ?es)" "distinct (map (en_cancel \<circ> snd) ?es)" "length ?es = length (rq_entries s)"
      using assms unfolding keys by (simp_all add: requests_ok_def)
    ultimately show ?thesis using assms none [OF that] unfolding requests_ok_def by simp
  qed
  show ?thesis using timeout granted assms Some by (simp add: request_claim_def Let_def)
qed (use assms in \<open>simp add: request_claim_def\<close>)

lemma cancel_ok: "requests_ok s \<Longrightarrow> requests_ok (request_cancel i s)"
proof (cases "map_of (rq_entries s) i")
  case (Some e)
  assume ok: "requests_ok s"
  have only: "f = e" if "(i, f) \<in> set (rq_entries s)" for f
    using that Some ok by (simp add: requests_ok_def map_of_eq_Some_iff)
  have e: "(i, e) \<in> set (rq_entries s)" using Some by (rule map_of_SomeD)
  have held: "j \<in> ls_id ` set (rq_leases s)" if "(j, f) \<in> set (rq_entries s)" "en_claimed f" for j f
  proof -
    have "request_entry_ok s (j, f)" using ok that(1) unfolding requests_ok_def by blast
    then show ?thesis using that(2) by (simp add: request_entry_ok_def)
  qed
  have "distinct (map ls_id (rq_leases s))" using ok by (simp add: requests_ok_def)
  then have "requests_ok ((set_entries (filter (\<lambda>f. fst f \<noteq> i) (rq_entries s)) s)\<lparr>rq_cancelled := [en_cancel e] @ rq_cancelled s,
      rq_leases := rq_leases s\<rparr>)"
  proof (intro shrink_ok [OF ok])
    fix j f assume f: "(j, f) \<in> set (rq_entries s)" "\<not> fst (j, f) \<noteq> i"
    then have "f = e" using only by simp
    then show "en_cancel f \<in> set [en_cancel e]" by simp
  next
    fix c assume "c \<in> set [en_cancel e]"
    then show "\<exists>f \<in> set (rq_entries s). \<not> fst f \<noteq> i \<and> c = en_cancel (snd f)" using e by force
  qed (simp_all add: held)
  then show ?thesis using Some by (simp add: request_cancel_def without_entry_def set_entries_def)
qed (simp add: request_cancel_def)

lemma drop_ok:
  assumes "requests_ok s" "l \<in> set (rq_leases s)"
  shows "requests_ok (lease_drop l s)"
proof -
  have d: "distinct (map ls_id (rq_leases s))" using assms(1) by (simp add: requests_ok_def)
  then have other: "ls_id k \<noteq> ls_id l" if "k \<in> set (rq_leases s)" "k \<noteq> l" for k
    using assms(2) that by (auto simp: distinct_map inj_on_def)
  let ?ls = "filter (\<lambda>k. k \<noteq> l) (rq_leases s)"
  have gone: "ls_id l \<notin> ls_id ` set ?ls" using other by (metis (mono_tags, lifting) filter_is_subset imageE mem_Collect_eq set_filter subsetD)
  have kept: "i \<in> ls_id ` set ?ls" if "(i, e) \<in> set (rq_entries s)" "en_claimed e" "i \<noteq> ls_id l" for i e
  proof -
    have "request_entry_ok s (i, e)" using assms(1) that(1) unfolding requests_ok_def by blast
    then obtain k where "k \<in> set (rq_leases s)" "ls_id k = i" using \<open>en_claimed e\<close> by (auto simp: request_entry_ok_def)
    then show ?thesis using \<open>i \<noteq> ls_id l\<close> by auto
  qed
  have "requests_ok ((set_entries (filter (\<lambda>f. fst f \<noteq> ls_id l) (rq_entries s)) s)\<lparr>rq_cancelled := [] @ rq_cancelled s,
      rq_leases := ?ls\<rparr>)"
    using d gone kept by (intro shrink_ok [OF assms(1)]) (simp_all add: distinct_map_filter)
  then show ?thesis by (simp add: lease_drop_def without_entry_def set_entries_def)
qed


lemma request_step_ok: "requests_ok s \<Longrightarrow> fresh_event ev s \<Longrightarrow> requests_ok (request_step ev s)"
  by (cases ev) (simp_all add: prepare_ok claim_ok cancel_ok drop_ok)

lemma requests_run_ok: "requests_ok s \<Longrightarrow> fresh_history es s \<Longrightarrow> requests_ok (requests_run es s)"
  by (induction es arbitrary: s) (simp_all add: requests_run_def request_step_ok)

lemma new_ok: "requests_ok requests_new"
  by (simp add: requests_ok_def requests_new_def)

lemma fresh_append: "fresh_history (es @ fs) s \<longleftrightarrow> fresh_history es s \<and> fresh_history fs (requests_run es s)"
  by (induction es arbitrary: s) (simp_all add: requests_run_def)

section \<open>One run for each request\<close>

text \<open>
  A prepared request runs at most once and the table of requests stays small: over any history,
  if identifiers are drawn fresh, at most 64 requests are known, no two running calls hold the same
  one, and a request that a call holds, or held and was cancelled under, cannot be claimed again.
\<close>

theorem requests_claimed_once:
  assumes "fresh_history es requests_new" "s = requests_run es requests_new"
  shows "length (rq_entries s) \<le> 64 \<and> distinct (map ls_id (rq_leases s)) \<and>
    (\<forall>l \<in> set (rq_leases s). \<forall>now. isl (fst (request_claim (ls_id l) now s)))"
proof -
  have ok: "requests_ok s" unfolding assms(2) by (rule requests_run_ok [OF new_ok assms(1)])
  have "isl (fst (request_claim (ls_id l) now s))" if "l \<in> set (rq_leases s)" for l now
  proof -
    have "lease_backed s l" using ok that by (simp add: requests_ok_def)
    then show ?thesis by (auto simp: request_claim_def lease_backed_def split: option.splits)
  qed
  then show ?thesis using ok by (simp add: requests_ok_def max_requests_def)
qed

text \<open>A cancelled channel stays cancelled.\<close>

lemma cancelled_grows: "set (rq_cancelled s) \<subseteq> set (rq_cancelled (request_step ev s))"
  by (cases ev)
    (auto simp: request_prepare_def request_claim_def request_cancel_def lease_drop_def set_entries_def bindS_def readS_def modS_def
      retS_def require_def Let_def split: option.splits)

definition prepares :: "string \<Rightarrow> request_event \<Rightarrow> bool" where
  "prepares i ev \<longleftrightarrow> (case ev of RqPrepare _ _ uuid \<Rightarrow> uuid = i | _ \<Rightarrow> False)"

lemma step_entries:
  "i \<notin> fst ` set (rq_entries s) \<Longrightarrow> \<not> prepares i ev \<Longrightarrow> i \<notin> fst ` set (rq_entries (request_step ev s))"
  by (cases ev)
    (auto simp: request_prepare_def request_claim_def request_cancel_def lease_drop_def set_entries_def bindS_def readS_def modS_def
      retS_def require_def Let_def alive_entries_def without_entry_def prepares_def image_iff split: option.splits)

lemma run_entries:
  "i \<notin> fst ` set (rq_entries s) \<Longrightarrow> \<not> list_ex (prepares i) es \<Longrightarrow> i \<notin> fst ` set (rq_entries (requests_run es s))"
  by (induction es arbitrary: s) (auto simp: requests_run_def dest: step_entries)

text \<open>
  A cancellation is final: whatever happens after it, as long as the identifier is not given to a
  new request, the request cannot be claimed; a call that holds it is refused at its next checkpoint
  with \<open>REQUEST_CANCELLED\<close>, and if its run begins then, the operation is never polled.
\<close>

theorem request_cancel_final:
  assumes "fresh_history (es @ RqCancel i # fs) requests_new" "\<not> list_ex (prepares i) fs"
    and "s = requests_run (es @ RqCancel i # fs) requests_new"
  shows "fst (request_claim i now s) = Err ''CORE_REQUEST_NOT_PREPARED'' \<and>
    (\<forall>l \<in> set (rq_leases s). ls_id l = i \<longrightarrow>
       lease_checkpoint l now s = Err ''REQUEST_CANCELLED'' \<and>
       request_run l s now wakes = (Some (Err ''REQUEST_CANCELLED''), 0))"
proof -
  let ?mid = "request_step (RqCancel i) (requests_run es requests_new)"
  have s: "s = requests_run fs ?mid" by (simp add: assms(3) requests_run_def)
  have "i \<notin> fst ` set (rq_entries ?mid)"
    by (auto simp: request_cancel_def set_entries_def without_entry_def map_of_eq_None_iff split: option.split)
  then have gone: "i \<notin> fst ` set (rq_entries s)" unfolding s by (rule run_entries [OF _ assms(2)])
  then have none: "map_of (rq_entries s) i = None" by (simp add: map_of_eq_None_iff)
  have ok: "requests_ok s" unfolding assms(3) by (rule requests_run_ok [OF new_ok assms(1)])
  have check: "lease_checkpoint l now s = Err ''REQUEST_CANCELLED''" if "l \<in> set (rq_leases s)" "ls_id l = i" for l
  proof -
    have "lease_backed s l" using ok that(1) by (simp add: requests_ok_def)
    then show ?thesis using none that(2) by (simp add: lease_backed_def lease_checkpoint_def)
  qed
  then show ?thesis using none by (simp add: request_claim_def request_run_def)
qed

text \<open>
  Work is polled only in time: each poll of the operation happens at a wake-up at which the
  request is neither cancelled nor past its deadline, and the answer is the operation's own or the
  refusal that names the reason.
\<close>

theorem request_polled_in_time:
  assumes "request_run l s now wakes = (r, n)"
  shows "n \<le> length wakes \<and>
    list_all (\<lambda>(t, time, _). ls_cancel l \<notin> set (rq_cancelled t) \<and> time < ls_deadline l) (take n wakes) \<and>
    (r \<in> {None, Some (Err ''REQUEST_CANCELLED''), Some (Err ''REQUEST_TIMEOUT'')} \<or>
     (0 < n \<and> r = snd (snd (wakes ! (n - 1)))))"
proof -
  have polls: "request_polls l wakes = (r, n) \<Longrightarrow> n \<le> length wakes \<and>
      list_all (\<lambda>(t, time, _). ls_cancel l \<notin> set (rq_cancelled t) \<and> time < ls_deadline l) (take n wakes) \<and>
      (r \<in> {None, Some (Err ''REQUEST_CANCELLED''), Some (Err ''REQUEST_TIMEOUT'')} \<or>
       (0 < n \<and> r = snd (snd (wakes ! (n - 1)))))" for r n
  proof (induction wakes arbitrary: r n)
    case (Cons w wakes)
    obtain t time polled where w: "w = (t, time, polled)" by (cases w)
    obtain r' n' where rest: "request_polls l wakes = (r', n')" by force
    show ?case
      using Cons.prems Cons.IH [OF rest] rest
      by (cases polled) (auto simp: w nth_Cons' split: if_splits)
  qed simp
  show ?thesis
    using assms polls by (auto simp: request_run_def lease_checkpoint_def split: if_splits)
qed

section \<open>Example values\<close>

definition demo_request_events :: "request_event list" where
  "demo_request_events = [RqPrepare 1000 0 ''a'', RqClaim ''a'' 2]"

definition demo_lease :: request_lease where
  "demo_lease = \<lparr>ls_id = ''a'', ls_deadline = 1000, ls_cancel = 0\<rparr>"

lemma demo_claimed: "requests_run demo_request_events requests_new =
    \<lparr>rq_entries = [(''a'', \<lparr>en_deadline = 1000, en_claimed = True, en_cancel = 0\<rparr>)], rq_cancelled = [], rq_closed = [],
      rq_channels = 1, rq_leases = [demo_lease]\<rparr>"
  by (simp add: demo_request_events_def requests_run_def requests_new_def request_prepare_def op_run set_entries_def alive_entries_def dropped_channels_def
      without_entry_def max_requests_def request_claim_def Let_def demo_lease_def)

lemma demo_fresh: "fresh_history demo_request_events requests_new"
  by (simp add: demo_request_events_def requests_new_def)

theorem requests_claimed_once_witness:
  "isl (fst (request_claim ''a'' 2 (requests_run demo_request_events requests_new)))"
  using requests_claimed_once [OF demo_fresh refl] by (simp add: demo_claimed demo_lease_def)

theorem request_cancel_final_witness:
  "lease_checkpoint demo_lease 3 (requests_run (demo_request_events @ [RqCancel ''a'']) requests_new) = Err ''REQUEST_CANCELLED''"
proof -
  have "requests_run (demo_request_events @ [RqCancel ''a'']) requests_new = request_cancel ''a'' (requests_run demo_request_events requests_new)"
    by (simp add: requests_run_def)
  then have "demo_lease \<in> set (rq_leases (requests_run (demo_request_events @ [RqCancel ''a'']) requests_new))"
    by (simp add: demo_claimed request_cancel_def set_entries_def)
  moreover have "fresh_history (demo_request_events @ [RqCancel ''a'']) requests_new" using demo_fresh by (simp add: fresh_append)
  moreover have "ls_id demo_lease = ''a''" by (simp add: demo_lease_def)
  ultimately show ?thesis
    using request_cancel_final [of demo_request_events "''a''" "[]" "requests_run (demo_request_events @ [RqCancel ''a'']) requests_new" 3] by auto
qed

theorem request_polled_in_time_witness:
  "\<exists>n. request_run demo_lease (requests_run demo_request_events requests_new) 2
     [(requests_run demo_request_events requests_new, 3, Some (Inr ()))] = (Some (Inr ()), n) \<and> n \<le> 1"
proof -
  have "request_run demo_lease (requests_run demo_request_events requests_new) 2
     [(requests_run demo_request_events requests_new, 3, Some (Inr ()))] = (Some (Inr ()), 1)"
    by (simp add: request_run_def lease_checkpoint_def demo_claimed) (simp add: demo_lease_def)
  from request_polled_in_time [OF this] this show ?thesis by auto
qed

end
