(* ===== verification/Core_Update.thy ===== *)
theory Core_Update
  imports BTree_Map
begin

text \<open>
  The Core release pointer (\<open>core_update.rs\<close>) and the bundle check it relies on
  (\<open>verify_bundle\<close> of \<open>core.rs\<close>). A release is accepted only when its manifest is signed by the
  trusted key and describes exactly the files of the bundle; switching to it is journaled, and
  a release that does not start is put back. Ed25519, SHA-256, semantic versions, UUIDs and
  JSON are parameters; the file system is a tree.
\<close>

section \<open>Verifying a bundle\<close>

text \<open>
  A node of the file system as \<open>symlink_metadata\<close>, \<open>read_dir\<close> and \<open>read\<close> show it. \<open>FsLink\<close> is a
  symbolic link or a reparse point; \<open>None\<close> marks a file or directory that cannot be read and
  \<open>FsGone\<close> one whose metadata cannot be had.
\<close>

datatype fs_node =
    FsFile "string option"
  | FsDir "(string \<times> fs_node) list option"
  | FsLink
  | FsOther
  | FsGone

record bundle_manifest =
  bm_protocol :: nat
  bm_product :: string
  bm_files :: "(string \<times> string) list"

abbreviation replace_backslash :: "string \<Rightarrow> string" where
  "replace_backslash s \<equiv> map (\<lambda>c. if c = CHR 0x5C then CHR ''/'' else c) s"

text \<open>\<open>inventory\<close>; \<open>rel\<close> is the path below the root. The error is the text the function returns.\<close>

fun inventory ::
    "(string \<Rightarrow> string) \<Rightarrow> string list \<Rightarrow> fs_node \<Rightarrow> (string \<times> string) list \<Rightarrow> string + (string \<times> string) list"
  and inventory_entries ::
    "(string \<Rightarrow> string) \<Rightarrow> string list \<Rightarrow> (string \<times> fs_node) list \<Rightarrow> (string \<times> string) list \<Rightarrow>
       string + (string \<times> string) list" where
  "inventory sha rel FsGone files = Inl ''CORE_INTEGRITY_FAILED''"
| "inventory sha rel FsLink files = Inl ''CORE_INTEGRITY_FAILED''"
| "inventory sha rel FsOther files = Inl ''CORE_INTEGRITY_FAILED''"
| "inventory sha rel (FsDir None) files = Inl ''CORE_INTEGRITY_FAILED''"
| "inventory sha rel (FsDir (Some es)) files = inventory_entries sha rel es files"
| "inventory sha rel (FsFile None) files = Inl ''CORE_INTEGRITY_FAILED''"
| "inventory sha rel (FsFile (Some content)) files =
     (let name = join_with (CHR ''/'') rel in
      if utf8_valid name then Inr (bt_insert (replace_backslash name) (sha content) files)
      else Inl ''CORE_INTEGRITY_FAILED'')"
| "inventory_entries sha rel [] files = Inr files"
| "inventory_entries sha rel ((name, node) # es) files =
     (case inventory sha (rel @ [name]) node files of
        Inl e \<Rightarrow> Inl e
      | Inr files' \<Rightarrow> inventory_entries sha rel es files')"

definition verify_bundle ::
  "(string \<Rightarrow> string) \<Rightarrow> (string \<Rightarrow> bundle_manifest option) \<Rightarrow> fs_node \<Rightarrow> string \<Rightarrow> string + unit" where
  "verify_bundle sha parse root manifest =
     (case parse manifest of
        None \<Rightarrow> Inl ''CORE_MANIFEST_INVALID''
      | Some expected \<Rightarrow>
          if bm_protocol expected \<noteq> 1 \<or> bm_product expected \<noteq> ''OpenNexus'' \<or> bm_files expected = []
          then Inl ''CORE_MANIFEST_INVALID''
          else (case inventory sha [] root [] of
            Inl e \<Rightarrow> Inl e
          | Inr actual \<Rightarrow> if actual \<noteq> bm_files expected then Inl ''CORE_INTEGRITY_FAILED'' else Inr ()))"

section \<open>Releases\<close>

record release_manifest =
  rm_protocol :: nat
  rm_product :: string
  rm_host_version :: string
  rm_core_version :: string
  rm_files :: "(string \<times> string) list"
  rm_lock_sha256 :: "string option"

record release =
  rel_host_version :: string
  rel_core_version :: string
  rel_protocol :: nat
  rel_root :: string
  rel_manifest :: string
  rel_manifest_sha256 :: string
  rel_signer_sha256 :: string

record active_release =
  act_release :: release
  act_pending :: "string option"

record core_receipt =
  cr_operation_id :: string
  cr_state :: string

text \<open>\<open>core_active\<close> has a single possible key, so it is at most one row.\<close>

record core_active_row =
  ca_release :: string
  ca_pending :: "string option"

record core_update_row =
  cu_id :: string
  cu_fingerprint :: string
  cu_before :: "string option"
  cu_after :: string
  cu_state :: string

record core_db =
  core_active :: "core_active_row option"
  core_updates :: "core_update_row list"

text \<open>
  The store's configuration (\<open>host_version\<close>, \<open>trusted_key\<close>) and its calls into \<open>serde_json\<close>,
  \<open>sha2\<close>, \<open>uuid\<close>, \<open>semver\<close> and \<open>ed25519_dalek\<close>, and the file system.
\<close>

record core_env =
  host_version :: string
  trusted_key :: string
  enc_release :: "release \<Rightarrow> string option"
  dec_release :: "string \<Rightarrow> release option"
  dec_manifest :: "string \<Rightarrow> release_manifest option"
  dec_bundle :: "string \<Rightarrow> bundle_manifest option"
  core_sha :: "string \<Rightarrow> string"
  is_uuid :: "string \<Rightarrow> bool"
  is_semver :: "string \<Rightarrow> bool"
  is_key :: "string \<Rightarrow> bool"
  signature_of :: "string \<Rightarrow> string option"
  verify_strict :: "string \<Rightarrow> string \<Rightarrow> string \<Rightarrow> bool"
  canonicalize :: "string \<Rightarrow> string option"
  node_at :: "string \<Rightarrow> fs_node"

fun is_dir :: "fs_node \<Rightarrow> bool" where
  "is_dir (FsDir _) = True"
| "is_dir _ = False"

definition is_hex_digit :: "char \<Rightarrow> bool" where
  "is_hex_digit c \<longleftrightarrow> is_lower_hex c \<or> (65 \<le> (of_char c :: nat) \<and> (of_char c :: nat) \<le> 70)"

definition core_schema :: core_db where
  "core_schema = \<lparr>core_active = None, core_updates = []\<rparr>"

definition core_active_release :: "core_env \<Rightarrow> core_db \<Rightarrow> active_release option result" where
  "core_active_release E db =
     (case core_active db of
        None \<Rightarrow> Inr None
      | Some row \<Rightarrow>
          bindR (ok_or (dec_release E (ca_release row)) ''CORE_UPDATE_STATE_INVALID'') (\<lambda>rel.
          Inr (Some \<lparr>act_release = rel, act_pending = ca_pending row\<rparr>)))"

text \<open>
  \<open>Path::to_string_lossy\<close>: the bytes of the path when they are Unicode; otherwise every maximal part of
  an ill-formed sequence is replaced by \<open>U+FFFD\<close>. The first function counts the bytes after the
  first one that belong to such a part.
\<close>

definition utf8_broken :: "char \<Rightarrow> string \<Rightarrow> nat" where
  "utf8_broken a r =
     (case r of
        [] \<Rightarrow> 0
      | b # r1 \<Rightarrow>
          if byte_in 224 239 a then (if second_of_3 a b then 1 else 0)
          else if byte_in 240 244 a \<and> second_of_4 a b then
            (case r1 of [] \<Rightarrow> 1 | c # _ \<Rightarrow> if byte_in 128 191 c then 2 else 1)
          else 0)"

fun to_string_lossy :: "string \<Rightarrow> string" where
  "to_string_lossy [] = []"
| "to_string_lossy (a # r) =
     (case utf8_tail a r of
        None \<Rightarrow> [CHR 0xEF, CHR 0xBF, CHR 0xBD] @ to_string_lossy (drop (utf8_broken a r) r)
      | Some n \<Rightarrow> a # take n r @ to_string_lossy (drop n r))"

lemma to_string_lossy_valid: "utf8_valid s \<Longrightarrow> to_string_lossy s = s"
  by (induction s rule: utf8_valid.induct) (auto split: option.splits)

definition verify_release :: "core_env \<Rightarrow> string \<Rightarrow> string \<Rightarrow> string \<Rightarrow> release result" where
  "verify_release E root manifest signature =
     bindR (ok_or (dec_manifest E manifest) ''CORE_UPDATE_MANIFEST_INVALID'') (\<lambda>parsed.
     bindR (require (\<not> (rm_product parsed \<noteq> ''OpenNexus'' \<or> rm_protocol parsed \<noteq> 1 \<or>
                rm_host_version parsed \<noteq> host_version E \<or> rm_files parsed = [] \<or>
                \<not> is_semver E (rm_core_version parsed) \<or>
                (case rm_lock_sha256 parsed of
                   None \<Rightarrow> False
                 | Some digest \<Rightarrow> length digest \<noteq> 64 \<or> \<not> list_all is_hex_digit digest)))
              ''CORE_UPDATE_INCOMPATIBLE'') (\<lambda>_.
     bindR (ok_or (signature_of E signature) ''CORE_UPDATE_SIGNATURE_INVALID'') (\<lambda>sig.
     bindR (require (is_key E (trusted_key E)) ''CORE_UPDATE_KEY_INVALID'') (\<lambda>_.
     bindR (require (verify_strict E (trusted_key E) manifest sig) ''CORE_UPDATE_SIGNATURE_INVALID'') (\<lambda>_.
     bindR (ok_or (canonicalize E root) ''CORE_UPDATE_BUNDLE_INVALID'') (\<lambda>canonical.
     bindR (require (is_dir (node_at E canonical)) ''CORE_UPDATE_BUNDLE_INVALID'') (\<lambda>_.
     bindR (require (utf8_valid manifest) ''CORE_UPDATE_MANIFEST_INVALID'') (\<lambda>_.
     bindR (require (verify_bundle (core_sha E) (dec_bundle E) (node_at E canonical) manifest = Inr ())
              ''CORE_UPDATE_BUNDLE_INVALID'') (\<lambda>_.
     Inr \<lparr>rel_host_version = rm_host_version parsed, rel_core_version = rm_core_version parsed,
          rel_protocol = rm_protocol parsed, rel_root = to_string_lossy canonical, rel_manifest = manifest,
          rel_manifest_sha256 = core_sha E manifest,
          rel_signer_sha256 = core_sha E (trusted_key E)\<rparr>)))))))))"

section \<open>Switching, finishing, recovering\<close>

definition core_switch_tx ::
  "core_env \<Rightarrow> checkpoint \<Rightarrow> string \<Rightarrow> string \<Rightarrow> (core_db, core_receipt \<times> bool) host_op" where
  "core_switch_tx E cp operation after =
     bindS (getS (\<lambda>db. tbl_get cu_id operation (core_updates db))) (\<lambda>prior.
     case prior of
       Some row \<Rightarrow>
         bindS (readS (\<lambda>_. require (cu_fingerprint row = core_sha E after) ''OPERATION_REUSED'')) (\<lambda>_.
         retS (\<lparr>cr_operation_id = operation, cr_state = cu_state row\<rparr>, False))
     | None \<Rightarrow>
         bindS (getS (\<lambda>db. map_option ca_release (core_active db))) (\<lambda>before.
         bindS (modS (\<lambda>db. db\<lparr>core_updates := core_updates db @
                  [\<lparr>cu_id = operation, cu_fingerprint = core_sha E after, cu_before = before,
                    cu_after = after, cu_state = ''checking''\<rparr>]\<rparr>)) (\<lambda>_.
         bindS (readS (\<lambda>_. pass (cp 0 ''journal_recorded''))) (\<lambda>_.
         bindS (modS (\<lambda>db. db\<lparr>core_active := Some \<lparr>ca_release = after, ca_pending = Some operation\<rparr>\<rparr>)) (\<lambda>_.
         bindS (readS (\<lambda>_. pass (cp 1 ''pointer_recorded''))) (\<lambda>_.
         retS (\<lparr>cr_operation_id = operation, cr_state = ''checking''\<rparr>, True)))))))"

definition core_switch ::
  "core_env \<Rightarrow> checkpoint \<Rightarrow> string \<Rightarrow> release \<Rightarrow> (core_db, core_receipt) host_op" where
  "core_switch E cp operation rel =
     bindS (readS (\<lambda>_. require (is_uuid E operation \<and> rel_host_version rel = host_version E)
              ''CORE_UPDATE_INVALID'')) (\<lambda>_.
     bindS (readS (\<lambda>_. ok_or (enc_release E rel) ''CORE_UPDATE_STATE_INVALID'')) (\<lambda>after.
     bindS (atomicS (core_switch_tx E cp operation after)) (\<lambda>(rcpt, committed).
     bindS (readS (\<lambda>_. if committed then pass (cp 2 ''switch_committed'') else Inr ())) (\<lambda>_.
     retS rcpt))))"

definition core_install ::
  "core_env \<Rightarrow> string \<Rightarrow> string \<Rightarrow> string \<Rightarrow> string \<Rightarrow> (core_db, core_receipt) host_op" where
  "core_install E operation root manifest signature =
     bindS (readS (\<lambda>_. verify_release E root manifest signature)) (\<lambda>rel.
     core_switch E (\<lambda>_ _. None) operation rel)"

definition core_restore :: "string option \<Rightarrow> core_db \<Rightarrow> core_db" where
  "core_restore before db =
     (case before of
        Some previous \<Rightarrow>
          db\<lparr>core_active := map_option (\<lambda>r. r\<lparr>ca_release := previous, ca_pending := None\<rparr>) (core_active db)\<rparr>
      | None \<Rightarrow> db\<lparr>core_active := None\<rparr>)"

definition core_finish :: "core_env \<Rightarrow> string \<Rightarrow> bool \<Rightarrow> (core_db, core_receipt) host_op" where
  "core_finish E operation healthy =
     atomicS (
     bindS (readS (\<lambda>db. ok_or (tbl_get cu_id operation (core_updates db)) ''DATABASE_ERROR'')) (\<lambda>row.
     if cu_state row \<noteq> ''checking'' then
       retS \<lparr>cr_operation_id = operation, cr_state = cu_state row\<rparr>
     else
       bindS (readS (\<lambda>db. ok_or (core_active db) ''DATABASE_ERROR'')) (\<lambda>a.
       bindS (readS (\<lambda>_. require (ca_release a = cu_after row \<and> ca_pending a = Some operation)
                ''CORE_UPDATE_STATE_INVALID'')) (\<lambda>_.
       bindS (modS (if healthy
                    then (\<lambda>db. db\<lparr>core_active := map_option (\<lambda>r. r\<lparr>ca_pending := None\<rparr>) (core_active db)\<rparr>)
                    else core_restore (cu_before row))) (\<lambda>_.
       let state = (if healthy then ''complete'' else ''rolled_back'') in
       bindS (modS (\<lambda>db. db\<lparr>core_updates :=
                tbl_update (\<lambda>r. cu_id r = operation) (\<lambda>r. r\<lparr>cu_state := state\<rparr>) (core_updates db)\<rparr>)) (\<lambda>_.
       retS \<lparr>cr_operation_id = operation, cr_state = state\<rparr>))))))"

fun core_finish_each :: "core_env \<Rightarrow> string list \<Rightarrow> (core_db, unit) host_op" where
  "core_finish_each E [] = retS ()"
| "core_finish_each E (i # is) = bindS (core_finish E i False) (\<lambda>_. core_finish_each E is)"

definition core_checking :: "core_db \<Rightarrow> string list" where
  "core_checking db = sort (map cu_id (filter (\<lambda>r. cu_state r = ''checking'') (core_updates db)))"

definition core_recover :: "core_env \<Rightarrow> (core_db, nat) host_op" where
  "core_recover E =
     bindS (getS core_checking) (\<lambda>ids.
     bindS (core_finish_each E ids) (\<lambda>_. retS (length ids)))"

text \<open>\<open>Store::open\<close> on the database found at the path.\<close>

definition core_open :: "core_env \<Rightarrow> (core_db, unit) host_op" where
  "core_open E =
     bindS (readS (\<lambda>_. require (is_semver E (host_version E)) ''CORE_UPDATE_HOST_INVALID'')) (\<lambda>_.
     bindS (readS (\<lambda>_. require (is_key E (trusted_key E)) ''CORE_UPDATE_KEY_INVALID'')) (\<lambda>_.
     bindS (core_recover E) (\<lambda>_. retS ())))"

section \<open>What a verified bundle holds\<close>

text \<open>
  The specification of the bundle check, independent of the order in which directories are
  read: the content of the regular file at a path, and the trees that have nothing but readable
  directories and regular files.
\<close>

fun tree_at :: "string list \<Rightarrow> fs_node \<Rightarrow> string option" where
  "tree_at [] (FsFile c) = c"
| "tree_at (n # ns) (FsDir (Some es)) =
     (case map_of es n of None \<Rightarrow> None | Some t \<Rightarrow> tree_at ns t)"
| "tree_at _ _ = None"

fun regular_tree :: "fs_node \<Rightarrow> bool" where
  "regular_tree (FsFile c) \<longleftrightarrow> c \<noteq> None"
| "regular_tree (FsDir None) \<longleftrightarrow> False"
| "regular_tree (FsDir (Some es)) \<longleftrightarrow> (\<forall>e \<in> set es. regular_tree (snd e))"
| "regular_tree _ \<longleftrightarrow> False"

text \<open>What every file system guarantees of a directory: distinct, nonempty entry names without a slash.\<close>

definition entry_named :: "string \<Rightarrow> bool" where
  "entry_named n \<longleftrightarrow> n \<noteq> [] \<and> CHR ''/'' \<notin> set n"

fun fs_tree :: "fs_node \<Rightarrow> bool" where
  "fs_tree (FsDir (Some es)) \<longleftrightarrow> distinct (map fst es) \<and> (\<forall>e \<in> set es. entry_named (fst e) \<and> fs_tree (snd e))"
| "fs_tree _ \<longleftrightarrow> True"

text \<open>The files of a tree in the order in which they are read, each with its path below the root.\<close>

fun tree_files :: "fs_node \<Rightarrow> (string list \<times> string) list" where
  "tree_files (FsFile (Some c)) = [([], c)]"
| "tree_files (FsDir (Some es)) =
     concat (map (\<lambda>e. map (\<lambda>(p, c). (fst e # p, c)) (tree_files (snd e))) es)"
| "tree_files _ = []"

lemma tree_files_iff: "fs_tree t \<Longrightarrow> (p, c) \<in> set (tree_files t) \<longleftrightarrow> tree_at p t = Some c"
proof (induction t arbitrary: p rule: tree_files.induct)
  case (2 es)
  show ?case
  proof (cases p)
    case (Cons n ns)
    have "(p, c) \<in> set (tree_files (FsDir (Some es))) \<longleftrightarrow>
        (\<exists>t. (n, t) \<in> set es \<and> (ns, c) \<in> set (tree_files t))"
      by (force simp: Cons)
    also have "\<dots> \<longleftrightarrow> (\<exists>t. (n, t) \<in> set es \<and> tree_at ns t = Some c)"
      using 2 by fastforce
    also have "\<dots> \<longleftrightarrow> tree_at p (FsDir (Some es)) = Some c"
      using 2(2) by (auto simp: Cons split: option.splits dest: map_of_SomeD eq_key_imp_eq_value)
    finally show ?thesis .
  qed auto
qed (auto simp: neq_Nil_conv elim: tree_at.elims)

lemma tree_files_names:
  "fs_tree t \<Longrightarrow> (p, c) \<in> set (tree_files t) \<Longrightarrow> n \<in> set p \<Longrightarrow> entry_named n"
  by (induction t arbitrary: p rule: tree_files.induct) fastforce+

text \<open>The name under which the manifest lists the file at a path: every backslash is a separator.\<close>

definition listed_name :: "string list \<Rightarrow> string" where
  "listed_name p = replace_backslash (join_with (CHR ''/'') p)"

definition inventory_rows ::
  "(string \<Rightarrow> string) \<Rightarrow> string list \<Rightarrow> (string list \<times> string) list \<Rightarrow> (string \<times> string) list" where
  "inventory_rows sha rel fs = map (\<lambda>(p, c). (listed_name (rel @ p), sha c)) fs"

definition paths_unicode :: "string list \<Rightarrow> fs_node \<Rightarrow> bool" where
  "paths_unicode rel t \<longleftrightarrow> (\<forall>(p, c) \<in> set (tree_files t). utf8_valid (join_with (CHR ''/'') (rel @ p)))"

text \<open>The content listed under a name: of several files with the same listed name, the last one read.\<close>

definition listed :: "fs_node \<Rightarrow> string \<Rightarrow> string option" where
  "listed t name = (case filter (\<lambda>(p, c). listed_name p = name) (tree_files t) of
     [] \<Rightarrow> None | files \<Rightarrow> Some (snd (last files)))"

text \<open>The inventory is total: it fails exactly on trees with something irregular in them or a path
  that is not Unicode, and otherwise enters every file under its listed name.\<close>

lemma paths_unicode_Cons:
  "paths_unicode rel (FsDir (Some ((name, node) # es))) \<longleftrightarrow>
     paths_unicode (rel @ [name]) node \<and> paths_unicode rel (FsDir (Some es))"
proof -
  have "tree_files (FsDir (Some ((name, node) # es))) =
      map (\<lambda>(p, c). (name # p, c)) (tree_files node) @ tree_files (FsDir (Some es))" by simp
  then show ?thesis by (simp only: paths_unicode_def set_append set_map ball_Un) (simp add: case_prod_beta)
qed

lemma inventory_result:
  "inventory sha rel t files =
     (if regular_tree t \<and> paths_unicode rel t
      then Inr (fold (\<lambda>(k, v). bt_insert k v) (inventory_rows sha rel (tree_files t)) files)
      else Inl ''CORE_INTEGRITY_FAILED'')"
  "inventory_entries sha rel es files =
     (if (\<forall>e \<in> set es. regular_tree (snd e)) \<and> paths_unicode rel (FsDir (Some es))
      then Inr (fold (\<lambda>(k, v). bt_insert k v)
             (inventory_rows sha rel (tree_files (FsDir (Some es)))) files)
      else Inl ''CORE_INTEGRITY_FAILED'')"
proof (induction sha rel t files and sha rel es files rule: inventory_inventory_entries.induct)
  case (9 sha rel name node es files)
  have "inventory_rows sha rel (tree_files (FsDir (Some ((name, node) # es)))) =
      inventory_rows sha (rel @ [name]) (tree_files node) @
      inventory_rows sha rel (tree_files (FsDir (Some es)))"
    by (simp add: inventory_rows_def comp_def case_prod_beta)
  with 9 show ?case by (auto simp: paths_unicode_Cons)
qed (auto simp: inventory_rows_def paths_unicode_def listed_name_def Let_def)

lemma listed_inventory:
  "bt_get (fold (\<lambda>(k, v). bt_insert k v) (inventory_rows sha [] (tree_files t)) []) name = map_option sha (listed t name)"
proof -
  have "map_of (rev (inventory_rows sha [] fs)) name =
      (case filter (\<lambda>(p, c). listed_name p = name) fs of [] \<Rightarrow> None | xs \<Rightarrow> Some (sha (snd (last xs))))" for fs
    by (induction fs rule: rev_induct) (auto simp: inventory_rows_def split: list.split)
  then show ?thesis by (simp add: bt.get_fold_ins listed_def split: list.split option.split)
qed

lemma listed_name_plain:
  assumes "\<forall>n \<in> set p. CHR 0x5C \<notin> set n" shows "listed_name p = join_with (CHR ''/'') p"
proof -
  have "set (join_with (CHR ''/'') p) \<subseteq> {CHR ''/''} \<union> \<Union> (set ` set p)"
    by (induction "CHR ''/''" p rule: join_with.induct) auto
  then have "CHR 0x5C \<notin> set (join_with (CHR ''/'') p)" using assms by auto
  then show ?thesis unfolding listed_name_def by (intro map_idI) auto
qed

definition no_backslash :: "fs_node \<Rightarrow> bool" where
  "no_backslash t \<longleftrightarrow> (\<forall>p c. tree_at p t = Some c \<longrightarrow> (\<forall>n \<in> set p. CHR 0x5C \<notin> set n))"

text \<open>Where no name has a backslash, what is listed under a name is the file at that path.\<close>

lemma listed_walk:
  assumes "fs_tree t" "is_dir t" "no_backslash t"
  shows "listed t name = tree_at (split_on (CHR ''/'') name) t"
proof -
  have path: "listed_name p = name \<longleftrightarrow> p = split_on (CHR ''/'') name" if "(p, c) \<in> set (tree_files t)" for p c
  proof -
    have at: "tree_at p t = Some c" using that tree_files_iff [OF assms(1)] by simp
    then have "p \<noteq> []" using assms(2) by (cases t) auto
    then have "split_on (CHR ''/'') (join_with (CHR ''/'') p) = p"
      using tree_files_names [OF assms(1) that] by (auto simp: entry_named_def intro!: split_join)
    moreover have "listed_name p = join_with (CHR ''/'') p" using at assms(3) by (auto simp: no_backslash_def intro: listed_name_plain)
    ultimately show ?thesis using join_split [of "CHR ''/''" name] by auto
  qed
  then have same: "filter (\<lambda>(p, c). listed_name p = name) (tree_files t) = filter (\<lambda>(p, c). p = split_on (CHR ''/'') name) (tree_files t)"
    by (intro filter_cong) auto
  show ?thesis
  proof (cases "filter (\<lambda>(p, c). p = split_on (CHR ''/'') name) (tree_files t)")
    case Nil
    then have "tree_at (split_on (CHR ''/'') name) t \<noteq> Some c" for c
      using tree_files_iff [OF assms(1), of "split_on (CHR ''/'') name" c] by (auto simp: filter_empty_conv)
    then have "tree_at (split_on (CHR ''/'') name) t = None" by (cases "tree_at (split_on (CHR ''/'') name) t") blast+
    then show ?thesis using Nil by (simp add: listed_def same)
  next
    case (Cons a list)
    let ?found = "filter (\<lambda>(p, c). p = split_on (CHR ''/'') name) (tree_files t)"
    obtain q d where l: "last ?found = (q, d)" by force
    have "last ?found \<in> set ?found" using Cons by (intro last_in_set) simp
    then have "(q, d) \<in> set (tree_files t) \<and> q = split_on (CHR ''/'') name"
      unfolding l set_filter mem_Collect_eq prod.case .
    then have "tree_at (split_on (CHR ''/'') name) t = Some (snd (last ?found))"
      using tree_files_iff [OF assms(1), of q d] l by auto
    then show ?thesis using Cons by (simp add: listed_def same)
  qed
qed

text \<open>
  C8. The bundle check is exact. On a directory, with the entry names every file system guarantees
  (distinct, not empty, without a slash), the check passes if and only if the manifest is a protocol 1
  OpenNexus manifest, the tree has no link, special file or unreadable entry anywhere and no
  path to a file that is not Unicode, and the manifest's digest for each name is the digest of the file
  listed under it: no listed name is left out and none is added. A file is listed under its
  path with every backslash taken for a separator, and of several files listed alike the one read
  last counts; where no file's path has a backslash, as always on Windows, the file listed under a
  name is the regular file found by walking that path. The manifest's files is a BTreeMap,
  whose keys are sorted.
\<close>

theorem verify_bundle_exact:
  assumes "fs_tree root" "is_dir root" "\<forall>m. parse manifest = Some m \<longrightarrow> bt_wf (bm_files m)"
  shows "(verify_bundle sha parse root manifest = Inr () \<longleftrightarrow>
    (\<exists>m. parse manifest = Some m \<and> bm_protocol m = 1 \<and> bm_product m = ''OpenNexus'' \<and>
       bm_files m \<noteq> [] \<and> regular_tree root \<and>
       (\<forall>p c. tree_at p root = Some c \<longrightarrow> utf8_valid (join_with (CHR ''/'') p)) \<and>
       (\<forall>name. bt_get (bm_files m) name = map_option sha (listed root name)))) \<and>
    (no_backslash root \<longrightarrow> (\<forall>name. listed root name = tree_at (split_on (CHR ''/'') name) root))"
proof -
  let ?inv = "fold (\<lambda>(k, v). bt_insert k v) (inventory_rows sha [] (tree_files root)) []"
  have eq: "?inv = bm_files m \<longleftrightarrow> (\<forall>name. bt_get (bm_files m) name = map_option sha (listed root name))"
    if "parse manifest = Some m" for m
    using bt_ext [of ?inv "bm_files m"] listed_inventory [of sha root]
      bt.wf_fold_ins [OF bt_wf_Nil] that assms(3) by metis
  have unicode: "paths_unicode [] root \<longleftrightarrow> (\<forall>p c. tree_at p root = Some c \<longrightarrow> utf8_valid (join_with (CHR ''/'') p))"
    by (simp add: paths_unicode_def Ball_def split_paired_All tree_files_iff [OF assms(1)])
  have "verify_bundle sha parse root manifest = Inr () \<longleftrightarrow>
    (\<exists>m. parse manifest = Some m \<and> bm_protocol m = 1 \<and> bm_product m = ''OpenNexus'' \<and> bm_files m \<noteq> [] \<and>
       regular_tree root \<and> paths_unicode [] root \<and> ?inv = bm_files m)"
    by (auto simp: verify_bundle_def inventory_result(1) split: option.splits)
  then show ?thesis using eq listed_walk [OF assms(1,2)] unfolding unicode by blast
qed

text \<open>
  Elsewhere than on Windows the backslash is an ordinary character: a bundle that has a file named
  \<open>a\b\<close> in its root passes for one that has \<open>b\<close> in a directory \<open>a\<close>, although nothing stands there.
\<close>

lemma backslash_taken_for_separator:
  "verify_bundle sha (\<lambda>_. Some \<lparr>bm_protocol = 1, bm_product = ''OpenNexus'', bm_files = [(''a/b'', sha c)]\<rparr>)
     (FsDir (Some [([CHR ''a'', CHR 0x5C, CHR ''b''], FsFile (Some c))])) [] = Inr ()"
  "tree_at [''a'', ''b''] (FsDir (Some [([CHR ''a'', CHR 0x5C, CHR ''b''], FsFile (Some c))])) = None"
  by (simp_all add: verify_bundle_def utf8_tail_def byte_in_def)

definition demo_bundle :: fs_node where
  "demo_bundle = FsDir (Some [(''lib'', FsDir (Some [(''b'', FsFile (Some ''BB''))])), (''a'', FsFile (Some ''A''))])"

definition demo_parse :: "string \<Rightarrow> bundle_manifest option" where
  "demo_parse t = Some \<lparr>bm_protocol = 1, bm_product = ''OpenNexus'',
     bm_files = [(''a'', ''Ax''), (''lib/b'', ''BBx'')]\<rparr>"

theorem verify_bundle_exact_witness:
  "bt_get [(''a'', ''Ax''), (''lib/b'', ''BBx'')] ''lib/b'' =
     map_option (\<lambda>c. c @ ''x'') (tree_at (split_on (CHR ''/'') ''lib/b'') demo_bundle)"
proof -
  have "fs_tree demo_bundle" "is_dir demo_bundle"
    by (simp_all add: demo_bundle_def entry_named_def)
  moreover have "\<forall>n \<in> set p. CHR 0x5C \<notin> set n" if "tree_at p demo_bundle = Some c" for p c
  proof -
    have "(p, c) \<in> set (tree_files demo_bundle)" using that tree_files_iff [of demo_bundle p c] \<open>fs_tree demo_bundle\<close> by simp
    also have "set (tree_files demo_bundle) = {([''lib'', ''b''], ''BB''), ([''a''], ''A'')}" by (simp add: demo_bundle_def)
    finally have "p = [''lib'', ''b''] \<or> p = [''a'']" by blast
    then show ?thesis by (elim disjE) simp_all
  qed
  then have "no_backslash demo_bundle" unfolding no_backslash_def by (intro allI impI)
  moreover have "\<forall>m. demo_parse [] = Some m \<longrightarrow> bt_wf (bm_files m)"
    by (auto simp: demo_parse_def bt_wf_def)
  moreover have "verify_bundle (\<lambda>c. c @ ''x'') demo_parse demo_bundle [] = Inr ()"
    by (simp add: verify_bundle_def demo_parse_def demo_bundle_def utf8_tail_def byte_in_def)
  ultimately show ?thesis
    using verify_bundle_exact [of demo_bundle demo_parse "[]" "\<lambda>c. c @ ''x''"]
    by (simp add: demo_parse_def)
qed

section \<open>The pointer's journal\<close>

abbreviation core_journal :: "core_db \<Rightarrow> string \<Rightarrow> core_update_row option" where
  "core_journal db i \<equiv> tbl_get cu_id i (core_updates db)"

abbreviation core_rcpt :: "string \<Rightarrow> string \<Rightarrow> core_receipt" where
  "core_rcpt i st \<equiv> \<lparr>cr_operation_id = i, cr_state = st\<rparr>"

text \<open>The database after a committed switch.\<close>

definition core_committed :: "core_env \<Rightarrow> string \<Rightarrow> string \<Rightarrow> core_db \<Rightarrow> core_db" where
  "core_committed E operation after db =
     db\<lparr>core_active := Some \<lparr>ca_release = after, ca_pending = Some operation\<rparr>,
        core_updates := core_updates db @ [\<lparr>cu_id = operation, cu_fingerprint = core_sha E after,
          cu_before = map_option ca_release (core_active db), cu_after = after, cu_state = ''checking''\<rparr>]\<rparr>"

lemma core_switch_outcome:
  assumes "core_switch E cp operation rel db = (r, db')"
  shows "db' = db \<or> (\<exists>after. enc_release E rel = Some after \<and> core_journal db operation = None \<and>
           db' = core_committed E operation after db)"
  using assms
  by (auto simp: core_switch_def core_switch_tx_def op_run atomicS_def bindS_def core_committed_def
        require_def ok_or_def split: option.splits sum.splits if_splits prod.splits)

lemma core_switch_Inr:
  assumes "core_switch E cp operation rel db = (Inr rcpt, db')"
  shows "is_uuid E operation \<and> rel_host_version rel = host_version E \<and>
    (\<exists>after. enc_release E rel = Some after \<and>
      (case core_journal db operation of
         Some row \<Rightarrow> db' = db \<and> cu_fingerprint row = core_sha E after \<and> rcpt = core_rcpt operation (cu_state row)
       | None \<Rightarrow> db' = core_committed E operation after db \<and> rcpt = core_rcpt operation ''checking''))"
  using assms
  by (auto simp: core_switch_def core_switch_tx_def op_run atomicS_def bindS_def core_committed_def
        require_def ok_or_def split: option.splits sum.splits if_splits prod.splits)

lemma core_switch_plain:
  assumes "is_uuid E operation" "rel_host_version rel = host_version E" "enc_release E rel = Some after"
  shows "core_switch E (\<lambda>_ _. None) operation rel db =
    (case core_journal db operation of
       Some row \<Rightarrow> (if cu_fingerprint row = core_sha E after
                    then (Inr (core_rcpt operation (cu_state row)), db) else (Err ''OPERATION_REUSED'', db))
     | None \<Rightarrow> (Inr (core_rcpt operation ''checking''), core_committed E operation after db))"
  using assms
  by (simp add: core_switch_def core_switch_tx_def op_run atomicS_def bindS_def core_committed_def
        pass_def require_def split: option.splits)

definition core_accepted :: "core_env \<Rightarrow> string \<Rightarrow> release \<Rightarrow> bool" where
  "core_accepted E operation rel \<longleftrightarrow>
     is_uuid E operation \<and> rel_host_version rel = host_version E \<and> enc_release E rel \<noteq> None"

definition core_fingerprint :: "core_env \<Rightarrow> release \<Rightarrow> string" where
  "core_fingerprint E rel = core_sha E (the (enc_release E rel))"

definition core_ledger :: "core_db \<Rightarrow> string \<Rightarrow> (string \<times> string) option" where
  "core_ledger db i = map_option (\<lambda>r. (cu_fingerprint r, cu_state r)) (core_journal db i)"

lemma core_journal_committed:
  "core_journal db operation = None \<Longrightarrow>
     core_journal (core_committed E operation after db) i =
       (if i = operation
        then Some \<lparr>cu_id = operation, cu_fingerprint = core_sha E after,
          cu_before = map_option ca_release (core_active db), cu_after = after, cu_state = ''checking''\<rparr>
        else core_journal db i)"
  by (auto simp: core_committed_def tbl_get_append tbl_get_Cons split: option.splits)

text \<open>Switching to a release is an operation with a ledger, for every checkpoint behaviour that
  lets it succeed.\<close>

interpretation core_ops: operation_ledger "core_switch E (\<lambda>_ _. None)" core_ledger "core_fingerprint E"
  "core_accepted E" core_rcpt "''OPERATION_REUSED''" for E
proof unfold_locales
  fix i p s st
  assume "core_accepted E i p" "core_ledger s i = Some (core_fingerprint E p, st)"
  then show "core_switch E (\<lambda>_ _. None) i p s = (Inr (core_rcpt i st), s)"
    using core_switch_plain [of E i p _ s]
    by (auto simp: core_accepted_def core_ledger_def core_fingerprint_def)
next
  fix i p s f st
  assume "core_accepted E i p" "core_ledger s i = Some (f, st)" "f \<noteq> core_fingerprint E p"
  then show "core_switch E (\<lambda>_ _. None) i p s = (Err ''OPERATION_REUSED'', s)"
    using core_switch_plain [of E i p _ s]
    by (auto simp: core_accepted_def core_ledger_def core_fingerprint_def)
next
  fix i p s r t
  assume "core_switch E (\<lambda>_ _. None) i p s = (Inr r, t)"
  from core_switch_Inr [OF this]
  show "core_accepted E i p \<and> (\<exists>st. core_ledger t i = Some (core_fingerprint E p, st) \<and> r = core_rcpt i st)"
    by (cases "core_journal s i")
       (auto simp: core_accepted_def core_ledger_def core_fingerprint_def core_journal_committed)
qed

text \<open>
  The state of a store whose caller finishes one update before it starts the next: update
  identifiers are unique, and an update is being checked exactly when the pointer names it.
\<close>

definition core_inv :: "core_db \<Rightarrow> bool" where
  "core_inv db \<longleftrightarrow> tbl_unique cu_id (core_updates db) \<and>
     (\<forall>u \<in> set (core_updates db). cu_state u = ''checking'' \<longrightarrow>
        core_active db = Some \<lparr>ca_release = cu_after u, ca_pending = Some (cu_id u)\<rparr>) \<and>
     (\<forall>row. core_active db = Some row \<longrightarrow> ca_pending row \<noteq> None \<longrightarrow> core_checking db \<noteq> [])"

lemma core_checking_set:
  "set (core_checking db) = cu_id ` {u \<in> set (core_updates db). cu_state u = ''checking''}"
  by (simp add: core_checking_def)

lemma core_checking_Nil: "core_checking db = [] \<longleftrightarrow> (\<forall>u \<in> set (core_updates db). cu_state u \<noteq> ''checking'')"
  by (auto simp: core_checking_def filter_empty_conv)

lemma core_inv_schema: "core_inv core_schema"
  by (simp add: core_inv_def core_schema_def tbl_unique_def)

lemma core_inv_committed:
  assumes "core_inv db" "core_checking db = []" "core_journal db operation = None"
  shows "core_inv (core_committed E operation after db)"
    "core_checking (core_committed E operation after db) = [operation]"
proof -
  have "filter (\<lambda>r. cu_state r = ''checking'') (core_updates db) = []"
    using assms(2) by (simp add: core_checking_def)
  then show *: "core_checking (core_committed E operation after db) = [operation]"
    by (simp add: core_checking_def core_committed_def)
  show "core_inv (core_committed E operation after db)"
    using assms * by (auto simp: core_inv_def core_committed_def tbl_unique_append core_checking_Nil)
qed

text \<open>Rolling back the update the pointer names.\<close>

lemma core_finish_pending:
  assumes "core_journal db operation = Some u" "cu_state u = ''checking''"
    "core_active db = Some \<lparr>ca_release = cu_after u, ca_pending = Some operation\<rparr>"
  shows "core_finish E operation healthy db =
    (Inr (core_rcpt operation (if healthy then ''complete'' else ''rolled_back'')),
     db\<lparr>core_active := (if healthy then Some \<lparr>ca_release = cu_after u, ca_pending = None\<rparr>
          else map_option (\<lambda>p. \<lparr>ca_release = p, ca_pending = None\<rparr>) (cu_before u)),
        core_updates := tbl_update (\<lambda>r. cu_id r = operation)
          (\<lambda>r. r\<lparr>cu_state := (if healthy then ''complete'' else ''rolled_back'')\<rparr>) (core_updates db)\<rparr>)"
  using assms
  by (auto simp: core_finish_def atomicS_def op_run Let_def core_restore_def split: option.splits)

lemma core_finish_idle:
  "core_journal db operation = Some u \<Longrightarrow> cu_state u \<noteq> ''checking'' \<Longrightarrow>
     core_finish E operation healthy db = (Inr (core_rcpt operation (cu_state u)), db)"
  by (simp add: core_finish_def atomicS_def op_run)

lemma core_inv_lookup:
  "core_inv db \<Longrightarrow> u \<in> set (core_updates db) \<Longrightarrow> core_journal db (cu_id u) = Some u"
  by (auto simp: core_inv_def intro: tbl_unique_get)

lemma core_checking_after_finish:
  "core_checking (db\<lparr>core_active := a, core_updates :=
      tbl_update (\<lambda>r. cu_id r = operation) (\<lambda>r. r\<lparr>cu_state := st\<rparr>) (core_updates db)\<rparr>) = []"
  if "core_checking db = [operation]" "st \<noteq> ''checking''"
proof -
  have "cu_id u = operation" if "u \<in> set (core_updates db)" "cu_state u = ''checking''" for u
    using that \<open>core_checking db = [operation]\<close> core_checking_set [of db] by auto
  then show ?thesis using that by (auto simp: core_checking_Nil tbl_update_def)
qed

lemma core_recover_one:
  assumes "core_inv db" "u \<in> set (core_updates db)" "cu_state u = ''checking''" "core_checking db = [cu_id u]"
  shows "\<exists>db'. core_recover E db = (Inr 1, db') \<and> core_checking db' = [] \<and>
    core_active db' = map_option (\<lambda>p. \<lparr>ca_release = p, ca_pending = None\<rparr>) (cu_before u)"
proof -
  have "core_finish E (cu_id u) False db = (Inr (core_rcpt (cu_id u) ''rolled_back''),
     db\<lparr>core_active := map_option (\<lambda>p. \<lparr>ca_release = p, ca_pending = None\<rparr>) (cu_before u),
        core_updates := tbl_update (\<lambda>r. cu_id r = cu_id u)
          (\<lambda>r. r\<lparr>cu_state := ''rolled_back''\<rparr>) (core_updates db)\<rparr>)"
    using core_finish_pending [of "cu_id u" db u E False] assms core_inv_lookup
    by (simp add: core_inv_def)
  then show ?thesis
    using assms(4) core_checking_after_finish [OF assms(4)]
    by (simp add: core_recover_def op_run bindS_step)
qed

text \<open>
  C9. An interrupted Core update is undone. Starting with no update in progress, whatever
  checkpoint of the switch fails, opening the store again succeeds, and afterwards the Core
  pointer is exactly what it was before the update, with nothing pending.
\<close>

theorem core_switch_crash_recovers:
  assumes "core_inv db" "core_checking db = []" "core_switch E cp operation rel db = (r, db')"
    "is_semver E (host_version E)" "is_key E (trusted_key E)"
  shows "\<exists>db''. core_open E db' = (Inr (), db'') \<and> core_checking db'' = [] \<and>
    core_active db'' = core_active db"
proof -
  have "\<exists>n db''. core_recover E db' = (Inr n, db'') \<and> core_checking db'' = [] \<and>
    core_active db'' = core_active db"
    using core_switch_outcome [OF assms(3)]
  proof (elim disjE exE conjE)
    assume "db' = db"
    then show ?thesis using assms(2) by (simp add: core_recover_def op_run bindS_step)
  next
    fix after
    assume none: "core_journal db operation = None" and db': "db' = core_committed E operation after db"
    obtain u where u: "u \<in> set (core_updates db')" "cu_id u = operation" "cu_state u = ''checking''"
        "cu_before u = map_option ca_release (core_active db)"
      by (fastforce simp: db' core_committed_def)
    have restored: "map_option (\<lambda>p. \<lparr>ca_release = p, ca_pending = None\<rparr>)
        (map_option ca_release (core_active db)) = core_active db"
      using assms(1,2) by (cases "core_active db") (auto simp: core_inv_def)
    show ?thesis
      using core_recover_one [of db' u E] core_inv_committed [OF assms(1,2) none, of E after] u restored
      by (force simp: db')
  qed
  then show ?thesis
    using assms(4,5) by (auto simp: core_open_def op_run bindS_step)
qed

text \<open>
  C7. Only a verified release is ever pointed at. When an install under a fresh operation
  succeeds, the manifest bytes carry a valid signature of the trusted key, name this host
  version and protocol, the bundle on disk passed the bundle check against those very bytes, and
  the pointer now holds that release as pending, with the canonical path as the text it records
  (the path itself when that is Unicode). An install that fails changes nothing, and
  repeating one that succeeded returns its receipt and changes nothing.
\<close>

theorem core_install_trusted:
  assumes "core_install E operation root manifest signature db = (res, db')"
    "\<forall>v t. enc_release E v = Some t \<longrightarrow> dec_release E t = Some v"
  shows "(\<forall>e. res = Inl e \<longrightarrow> db' = db) \<and>
    (\<forall>rcpt. res = Inr rcpt \<longrightarrow>
       core_install E operation root manifest signature db' = (Inr rcpt, db') \<and>
       (\<exists>sig canonical rel. signature_of E signature = Some sig \<and>
          verify_strict E (trusted_key E) manifest sig \<and>
          canonicalize E root = Some canonical \<and>
          verify_bundle (core_sha E) (dec_bundle E) (node_at E canonical) manifest = Inr () \<and>
          rel_root rel = to_string_lossy canonical \<and> (utf8_valid canonical \<longrightarrow> rel_root rel = canonical) \<and>
          rel_manifest rel = manifest \<and>
          rel_manifest_sha256 rel = core_sha E manifest \<and>
          rel_host_version rel = host_version E \<and> rel_protocol rel = 1 \<and>
          (core_journal db operation = None \<longrightarrow>
             core_active_release E db' = Inr (Some \<lparr>act_release = rel, act_pending = Some operation\<rparr>))))"
proof (cases "verify_release E root manifest signature")
  case (Inl e)
  then show ?thesis using assms(1) by (auto simp: core_install_def op_run)
next
  case (Inr rel)
  have sw: "core_switch E (\<lambda>_ _. None) operation rel db = (res, db')"
    using assms(1) Inr by (simp add: core_install_def op_run)
  show ?thesis
  proof (cases res)
    case (Inl e)
    have "db' = db"
    proof (cases "core_accepted E operation rel")
      case True
      then obtain after where "is_uuid E operation" "rel_host_version rel = host_version E"
          "enc_release E rel = Some after"
        by (auto simp: core_accepted_def)
      then show ?thesis
        using sw Inl core_switch_plain [of E operation rel after db]
        by (auto split: option.splits if_splits)
    next
      case False
      then show ?thesis
        using sw by (auto simp: core_switch_def core_accepted_def op_run require_def split: if_splits)
    qed
    with Inl show ?thesis by simp
  next
    fix rcpt assume ok: "res = Inr rcpt"
    from Inr obtain sig canonical where checks:
        "signature_of E signature = Some sig" "verify_strict E (trusted_key E) manifest sig"
        "canonicalize E root = Some canonical"
        "verify_bundle (core_sha E) (dec_bundle E) (node_at E canonical) manifest = Inr ()"
        "rel_root rel = to_string_lossy canonical" "rel_manifest rel = manifest"
        "rel_manifest_sha256 rel = core_sha E manifest" "rel_host_version rel = host_version E"
        "rel_protocol rel = 1"
      by (auto simp: verify_release_def bindR_Inr_iff)
    have root: "utf8_valid canonical \<Longrightarrow> rel_root rel = canonical" by (simp add: checks(5) to_string_lossy_valid)
    have new: "core_active_release E db' = Inr (Some \<lparr>act_release = rel, act_pending = Some operation\<rparr>)"
      if "core_journal db operation = None"
      using core_switch_Inr [OF sw [unfolded ok]] that assms(2)
      by (auto simp: core_committed_def core_active_release_def)
    have again: "core_install E operation root manifest signature db' = (Inr rcpt, db')"
      using core_ops.resubmit [OF sw [unfolded ok]] Inr by (simp add: core_install_def op_run)
    show ?thesis using checks root new again by (auto simp: ok intro!: exI [of _ rel])
  qed
qed

text \<open>
  C10. A release that proved healthy becomes the active one with nothing pending, one that did
  not is replaced by the release before it, and in both cases finishing again under the same
  operation returns the recorded state and changes nothing.
\<close>

theorem core_finish_settles:
  assumes "core_inv db" "core_checking db = []" "core_journal db operation = None"
    "core_switch E (\<lambda>_ _. None) operation rel db = (Inr rcpt, db1)"
    "\<forall>v t. enc_release E v = Some t \<longrightarrow> dec_release E t = Some v"
  shows "\<exists>db2. core_finish E operation healthy db1 =
      (Inr (core_rcpt operation (if healthy then ''complete'' else ''rolled_back'')), db2) \<and>
    (if healthy then core_active_release E db2 = Inr (Some \<lparr>act_release = rel, act_pending = None\<rparr>)
     else core_active db2 = core_active db) \<and>
    core_checking db2 = [] \<and>
    (\<forall>again. core_finish E operation again db2 =
       (Inr (core_rcpt operation (if healthy then ''complete'' else ''rolled_back'')), db2))"
proof -
  from core_switch_Inr [OF assms(4)] assms(3) obtain after where
    after: "enc_release E rel = Some after" "db1 = core_committed E operation after db" by auto
  let ?st = "if healthy then ''complete'' else ''rolled_back''"
  let ?u = "\<lparr>cu_id = operation, cu_fingerprint = core_sha E after,
          cu_before = map_option ca_release (core_active db), cu_after = after, cu_state = ''checking''\<rparr>"
  have u: "core_journal db1 operation = Some ?u"
    by (simp add: after core_journal_committed [OF assms(3)])
  let ?db2 = "db1\<lparr>core_active := (if healthy then Some \<lparr>ca_release = after, ca_pending = None\<rparr>
          else map_option (\<lambda>p. \<lparr>ca_release = p, ca_pending = None\<rparr>) (cu_before ?u)),
        core_updates := tbl_update (\<lambda>r. cu_id r = operation) (\<lambda>r. r\<lparr>cu_state := ?st\<rparr>) (core_updates db1)\<rparr>"
  have fin: "core_finish E operation healthy db1 = (Inr (core_rcpt operation ?st), ?db2)"
    using core_finish_pending [OF u, of E healthy] by (simp add: after core_committed_def)
  have check: "core_checking ?db2 = []"
    using core_checking_after_finish core_inv_committed(2) [OF assms(1-3), of E after] by (simp add: after)
  have "core_journal ?db2 operation = Some (?u\<lparr>cu_state := ?st\<rparr>)"
    using u by (simp add: tbl_get_update)
  from core_finish_idle [OF this]
  have again: "\<forall>a. core_finish E operation a ?db2 = (Inr (core_rcpt operation ?st), ?db2)" by simp
  have act: "if healthy then core_active_release E ?db2 = Inr (Some \<lparr>act_release = rel, act_pending = None\<rparr>)
     else core_active ?db2 = core_active db"
    using assms(1,2,5) after
    by (cases "core_active db") (auto simp: core_active_release_def core_inv_def)
  show ?thesis by (rule exI [of _ ?db2]) (use fin check again act in blast)
qed

section \<open>Overlapping updates\<close>

text \<open>An update that is being checked but that the pointer no longer names.\<close>

definition core_stuck :: "string \<Rightarrow> core_db \<Rightarrow> bool" where
  "core_stuck i db \<longleftrightarrow>
     (\<exists>u. core_journal db i = Some u \<and> cu_state u = ''checking'') \<and>
     (\<forall>row. core_active db = Some row \<longrightarrow> ca_pending row \<noteq> Some i)"

datatype core_event =
    CoreSwitch checkpoint string release
  | CoreFinish string bool
  | CoreRecover

fun core_step :: "core_env \<Rightarrow> core_event \<Rightarrow> core_db \<Rightarrow> core_db" where
  "core_step E (CoreSwitch cp operation rel) db = snd (core_switch E cp operation rel db)"
| "core_step E (CoreFinish operation healthy) db = snd (core_finish E operation healthy db)"
| "core_step E CoreRecover db = snd (core_recover E db)"

lemma core_finish_outcome:
  assumes "core_finish E j healthy db = (r, db')"
  shows "db' = db \<or>
    (\<forall>i. i \<noteq> j \<longrightarrow> core_journal db' i = core_journal db i) \<and>
    (\<exists>row. core_active db = Some row \<and> ca_pending row = Some j) \<and>
    (\<forall>row. core_active db' = Some row \<longrightarrow> ca_pending row = None)"
  using assms
  by (auto simp: core_finish_def atomicS_def bindS_def op_run Let_def core_restore_def ok_or_def
        require_def tbl_get_update_other split: option.splits if_splits sum.splits prod.splits)

lemma core_stuck_finish:
  assumes "core_stuck i db" "core_finish E j healthy db = (r, db')"
  shows "core_stuck i db'" "i = j \<Longrightarrow> \<exists>e. r = Inl e"
proof -
  show fail: "\<exists>e. r = Inl e" if "i = j"
    using assms that
    by (cases "core_active db") (auto simp: core_stuck_def core_finish_def atomicS_def op_run require_def)
  show "core_stuck i db'"
    using core_finish_outcome [OF assms(2)] assms(1) by (auto simp: core_stuck_def)
qed

lemma core_stuck_finish_each:
  assumes "core_stuck i db" "core_finish_each E ids db = (r, db')"
  shows "core_stuck i db' \<and> (i \<in> set ids \<longrightarrow> (\<exists>e. r = Inl e))"
  using assms
proof (induction ids arbitrary: db)
  case (Cons j ids)
  obtain q db1 where f: "core_finish E j False db = (q, db1)" by force
  note kept = core_stuck_finish [OF Cons.prems(1) f]
  show ?case
  proof (cases q)
    case (Inl e)
    then show ?thesis using kept Cons.prems(2) f by (auto simp: bindS_stop)
  next
    case (Inr x)
    then show ?thesis
      using kept Cons.IH [OF kept(1)] Cons.prems(2) f by (auto simp: bindS_step)
  qed
qed (simp add: op_run)

lemma core_stuck_recover:
  assumes "core_stuck i db"
  shows "core_stuck i (snd (core_recover E db))" "\<exists>e. fst (core_recover E db) = Inl e"
proof -
  obtain r db' where f: "core_finish_each E (core_checking db) db = (r, db')" by force
  have "i \<in> set (core_checking db)"
    using assms by (auto simp: core_stuck_def core_checking_set dest: tbl_get_SomeD)
  with core_stuck_finish_each [OF assms f] obtain e where "core_stuck i db'" "r = Inl e" by blast
  with f show "core_stuck i (snd (core_recover E db))" "\<exists>e. fst (core_recover E db) = Inl e"
    by (simp_all add: core_recover_def op_run bindS_stop)
qed

lemma core_stuck_switch:
  assumes "core_stuck i db" shows "core_stuck i (snd (core_switch E cp operation rel db))"
proof -
  obtain r db' where sw: "core_switch E cp operation rel db = (r, db')" by force
  show ?thesis
    using core_switch_outcome [OF sw] assms sw
    by (auto simp: core_stuck_def core_committed_def tbl_get_append)
qed

interpretation core_overlap: invariant_component "core_stuck i" "core_step E" for i E
proof unfold_locales
  fix s e assume stuck: "core_stuck i s"
  show "core_stuck i (core_step E e s)"
  proof (cases e)
    case (CoreFinish operation healthy)
    then show ?thesis using core_stuck_finish(1) [OF stuck prod.collapse [symmetric]] by simp
  qed (use stuck core_stuck_switch core_stuck_recover(1) in auto)
qed

text \<open>
  C11. Starting a second update before the first is finished makes the store unrecoverable. The
  switch does not look at the pointer's pending operation, so both updates stay in the checking
  state while the pointer names only the second; from then on, whatever operations follow,
  recovery fails and the store cannot be opened.
\<close>

theorem core_overlap_blocks_recovery:
  assumes "core_switch E cp1 op1 rel1 db = (Inr r1, db1)" "core_journal db op1 = None"
    "core_switch E cp2 op2 rel2 db1 = (Inr r2, db2)" "core_journal db1 op2 = None"
  shows "\<exists>e. fst (core_open E (fold (core_step E) events db2)) = Inl e"
proof -
  from core_switch_Inr [OF assms(1)] assms(2) obtain a1 where db1: "db1 = core_committed E op1 a1 db" by auto
  from core_switch_Inr [OF assms(3)] assms(4) obtain a2 where db2: "db2 = core_committed E op2 a2 db1" by auto
  have j1: "\<exists>u. core_journal db1 op1 = Some u \<and> cu_state u = ''checking''"
    by (simp add: db1 core_journal_committed [OF assms(2)])
  with assms(4) have "op1 \<noteq> op2" by auto
  with j1 have "core_stuck op1 db2"
    by (simp add: core_stuck_def db2 core_journal_committed [OF assms(4)])
       (simp add: core_committed_def)
  from core_stuck_recover(2) [OF core_overlap.run_keeps [OF this, of E events], of E]
  obtain e d where "core_recover E (fold (core_step E) events db2) = (Inl e, d)"
    by (metis prod.collapse)
  then show ?thesis by (auto simp: core_open_def op_run bindS_stop require_def)
qed

section \<open>A concrete store\<close>

definition demo_release :: release where
  "demo_release = \<lparr>rel_host_version = ''1.0.0'', rel_core_version = ''2.0.0'', rel_protocol = 1,
     rel_root = ''/r'', rel_manifest = ''m'', rel_manifest_sha256 = ''mx'', rel_signer_sha256 = ''kx''\<rparr>"

definition demo_core :: core_env where
  "demo_core = \<lparr>host_version = ''1.0.0'', trusted_key = ''k'',
     enc_release = (\<lambda>v. if v = demo_release then Some ''R'' else None),
     dec_release = (\<lambda>t. if t = ''R'' then Some demo_release else None),
     dec_manifest = (\<lambda>t. Some \<lparr>rm_protocol = 1, rm_product = ''OpenNexus'', rm_host_version = ''1.0.0'',
        rm_core_version = ''2.0.0'', rm_files = [(''a'', ''Ax''), (''lib/b'', ''BBx'')], rm_lock_sha256 = None\<rparr>),
     dec_bundle = demo_parse, core_sha = (\<lambda>c. c @ ''x''), is_uuid = (\<lambda>_. True), is_semver = (\<lambda>_. True),
     is_key = (\<lambda>_. True), signature_of = Some, verify_strict = (\<lambda>k m s. s = k @ m),
     canonicalize = (\<lambda>_. Some ''/r''), node_at = (\<lambda>_. demo_bundle)\<rparr>"

lemma demo_core_serde: "\<forall>v t. enc_release demo_core v = Some t \<longrightarrow> dec_release demo_core t = Some v"
  by (simp add: demo_core_def split: if_splits)

lemma demo_core_switch:
  "core_journal db operation = None \<Longrightarrow>
   core_switch demo_core (\<lambda>_ _. None) operation demo_release db =
     (Inr (core_rcpt operation ''checking''), core_committed demo_core operation ''R'' db)"
  using core_switch_plain [of demo_core operation demo_release "''R''" db]
  by (simp add: demo_core_def demo_release_def)

theorem core_switch_crash_recovers_witness:
  "\<exists>db''. core_open demo_core (core_committed demo_core ''o'' ''R'' core_schema) = (Inr (), db'') \<and>
     core_checking db'' = [] \<and> core_active db'' = core_active core_schema"
  by (rule core_switch_crash_recovers [OF core_inv_schema _ demo_core_switch])
     (simp_all add: core_schema_def core_checking_def demo_core_def)

lemma demo_verify: "verify_release demo_core ''/r'' ''m'' ''km'' = Inr demo_release"
  by (simp add: verify_release_def demo_core_def verify_bundle_def demo_parse_def demo_bundle_def
        demo_release_def utf8_tail_def byte_in_def)

theorem core_install_trusted_witness:
  "core_install demo_core ''o'' ''/r'' ''m'' ''km'' (core_committed demo_core ''o'' ''R'' core_schema) =
     (Inr (core_rcpt ''o'' ''checking''), core_committed demo_core ''o'' ''R'' core_schema)"
proof -
  have "core_install demo_core ''o'' ''/r'' ''m'' ''km'' core_schema =
      (Inr (core_rcpt ''o'' ''checking''), core_committed demo_core ''o'' ''R'' core_schema)"
    using demo_core_switch [of "''o''" core_schema] demo_verify
    by (simp add: core_install_def op_run core_schema_def)
  from core_install_trusted [OF this demo_core_serde] show ?thesis by blast
qed

theorem core_finish_settles_witness:
  "\<exists>db2. core_finish demo_core ''o'' True (core_committed demo_core ''o'' ''R'' core_schema) =
      (Inr (core_rcpt ''o'' ''complete''), db2) \<and>
    core_active_release demo_core db2 = Inr (Some \<lparr>act_release = demo_release, act_pending = None\<rparr>) \<and>
    core_checking db2 = []"
proof -
  have none: "core_checking core_schema = []" "core_journal core_schema ''o'' = None"
    by (simp_all add: core_schema_def core_checking_def)
  show ?thesis
    using core_finish_settles [OF core_inv_schema none demo_core_switch [OF none(2)] demo_core_serde, of True]
    by auto
qed

theorem core_overlap_blocks_recovery_witness:
  "\<exists>e. fst (core_open demo_core (core_committed demo_core ''p'' ''R''
        (core_committed demo_core ''o'' ''R'' core_schema))) = Inl e"
proof -
  have none: "core_journal core_schema ''o'' = None" by (simp add: core_schema_def)
  have none': "core_journal (core_committed demo_core ''o'' ''R'' core_schema) ''p'' = None"
    unfolding core_journal_committed [OF none] by (simp add: core_schema_def)
  show ?thesis
    using core_overlap_blocks_recovery [OF demo_core_switch [OF none] none demo_core_switch [OF none'] none',
      of "[]"] by simp
qed

end
