(* ===== verification/Extension_Frames.thy ===== *)
theory Extension_Frames
  imports Host_Prelude
begin

text \<open>
  The line frames of an extension's standard streams (\<open>Frames\<close> and \<open>write_frame\<close> of
  \<open>extension_stdio.rs\<close>). The reader under the decoder returns whatever amount of the stream it
  has buffered, so the decoder is shown to be independent of how the stream is fragmented, and
  to give back exactly the frames that were written.
\<close>

section \<open>Writing and reading\<close>

definition max_frame_bytes :: nat where
  "max_frame_bytes = 2 * 1024 * 1024"

abbreviation newline :: char where "newline \<equiv> CHR 0x0A"
abbreviation carriage :: char where "carriage \<equiv> CHR 0x0D"

text \<open>
  A decoder over a stream: its position, what remains, and whether it failed. The buffered
  reader is a function of the position: the number of bytes it has there, or an error.
\<close>

record frames =
  fr_pos :: nat
  fr_rest :: string
  fr_failed :: bool

type_synonym buffered = "nat \<Rightarrow> nat option"

definition finish_frame :: "string \<Rightarrow> string option result" where
  "finish_frame frame =
     (let f = (if frame \<noteq> [] \<and> last frame = carriage then butlast frame else frame) in
      if f = [] then Err ''EXTENSION_PIPE_EMPTY_FRAME'' else Inr (Some f))"

function read_inner :: "buffered \<Rightarrow> nat \<Rightarrow> string \<Rightarrow> string \<Rightarrow> string option result \<times> nat \<times> string" where
  "read_inner fill pos rest frame =
     (case fill pos of
        None \<Rightarrow> (Err ''EXTENSION_PIPE_READ_FAILED'', pos, rest)
      | Some n \<Rightarrow>
          let available = take n rest;
              line = takeWhile (\<lambda>b. b \<noteq> newline) available;
              count = length line in
          if available = [] then
            (if frame = [] then Inr None else Err ''EXTENSION_PIPE_TRUNCATED_FRAME'', pos, rest)
          else if max_frame_bytes - length frame < count then
            (Err ''EXTENSION_BROKER_REQUEST_TOO_LARGE'', pos, rest)
          else if line \<noteq> available then
            (finish_frame (frame @ line), pos + Suc count, drop (Suc count) rest)
          else read_inner fill (pos + count) (drop count rest) (frame @ line))"
  by pat_completeness auto
termination
proof (relation "measure (\<lambda>(fill, pos, rest, frame). length rest)", goal_cases)
  case (2 fill pos rest frame n available line count)
  then have "count = length (take n rest)" "take n rest \<noteq> []" by metis+
  then show ?case by (cases rest) auto
qed simp

declare read_inner.simps [simp del]

definition frames_new :: "string \<Rightarrow> frames" where
  "frames_new stream = \<lparr>fr_pos = 0, fr_rest = stream, fr_failed = False\<rparr>"

definition frames_read :: "buffered \<Rightarrow> frames \<Rightarrow> string option result \<times> frames" where
  "frames_read fill fr =
     (if fr_failed fr then (Err ''EXTENSION_PIPE_CLOSED'', fr)
      else (case read_inner fill (fr_pos fr) (fr_rest fr) [] of
        (Inl e, pos, rest) \<Rightarrow> (Inl e, \<lparr>fr_pos = pos, fr_rest = rest, fr_failed = True\<rparr>)
      | (Inr r, pos, rest) \<Rightarrow> (Inr r, \<lparr>fr_pos = pos, fr_rest = rest, fr_failed = False\<rparr>)))"

text \<open>Writing: the writer either takes the whole frame, or fails after some of its bytes.\<close>

definition write_frame :: "nat option \<Rightarrow> string \<Rightarrow> string \<Rightarrow> unit result \<times> string" where
  "write_frame broken frame out =
     (if frame = [] \<or> max_frame_bytes < length frame \<or> newline \<in> set frame \<or> carriage \<in> set frame
      then (Err ''EXTENSION_PIPE_INVALID_FRAME'', out)
      else (case broken of
        Some n \<Rightarrow> (Err ''EXTENSION_PIPE_WRITE_FAILED'', out @ take n (frame @ [newline]))
      | None \<Rightarrow> (Inr (), out @ frame @ [newline])))"

section \<open>Fragmentation does not matter\<close>

definition steady_reader :: "buffered \<Rightarrow> bool" where
  "steady_reader fill \<longleftrightarrow> (\<forall>p. \<exists>n. fill p = Some n \<and> 0 < n)"

text \<open>What a read gives, in terms of the stream alone.\<close>

definition next_line :: "string \<Rightarrow> string option result" where
  "next_line rest =
     (let line = takeWhile (\<lambda>b. b \<noteq> newline) rest in
      if max_frame_bytes < length line then Err ''EXTENSION_BROKER_REQUEST_TOO_LARGE''
      else if newline \<notin> set rest then (if line = [] then Inr None else Err ''EXTENSION_PIPE_TRUNCATED_FRAME'')
      else finish_frame line)"

definition after_line :: "string \<Rightarrow> string" where
  "after_line rest = tl (dropWhile (\<lambda>b. b \<noteq> newline) rest)"

lemma takeWhile_cut:
  assumes "takeWhile P (take n xs) \<noteq> take n xs"
  shows "takeWhile P (take n xs) = takeWhile P xs" "\<exists>x \<in> set xs. \<not> P x"
proof -
  obtain x where x: "x \<in> set (take n xs)" "\<not> P x" using assms by (auto simp: takeWhile_eq_all_conv)
  then have "takeWhile P (take n xs @ drop n xs) = takeWhile P (take n xs)" by (rule takeWhile_append1)
  then show "takeWhile P (take n xs) = takeWhile P xs" by simp
  show "\<exists>x \<in> set xs. \<not> P x" using x in_set_takeD by fast
qed

lemma drop_line: "drop (Suc (length (takeWhile P xs))) xs = tl (dropWhile P xs)"
  by (simp add: dropWhile_eq_drop drop_Suc tl_drop)

lemma takeWhile_of_take: "takeWhile P (take n xs) = take n (takeWhile P xs)"
  by (induction xs arbitrary: n) (simp_all add: take_Cons split: nat.splits)

abbreviation line_read :: "string option result \<Rightarrow> string \<Rightarrow> string \<Rightarrow> bool" where
  "line_read r s stream \<equiv> r = next_line stream \<and> (\<forall>f. r = Inr f \<longrightarrow> s = after_line stream)"

text \<open>One iteration of the loop that does not reach the end of the line.\<close>

lemma read_inner_step:
  assumes "fill pos = Some n" "take n rest \<noteq> []"
  shows "read_inner fill pos rest frame =
    (let line = takeWhile (\<lambda>b. b \<noteq> newline) (take n rest) in
     if max_frame_bytes - length frame < length line then (Err ''EXTENSION_BROKER_REQUEST_TOO_LARGE'', pos, rest)
     else if line \<noteq> take n rest then (finish_frame (frame @ line), pos + Suc (length line), drop (Suc (length line)) rest)
     else read_inner fill (pos + length line) (drop (length line) rest) (frame @ line))"
  using assms by (subst read_inner.simps) (simp add: Let_def)

lemma read_inner_line:
  assumes "steady_reader fill"
  shows "newline \<notin> set frame \<Longrightarrow> length frame \<le> max_frame_bytes \<Longrightarrow> read_inner fill pos rest frame = (r, p, s) \<Longrightarrow>
    line_read r s (frame @ rest)"
proof (induction "length rest" arbitrary: pos rest frame rule: less_induct)
  case less
  obtain n where n: "fill pos = Some n" "0 < n" using assms by (auto simp: steady_reader_def)
  let ?a = "take n rest" and ?P = "\<lambda>b. b \<noteq> newline"
  let ?l = "takeWhile ?P ?a"
  have frame: "takeWhile ?P (frame @ xs) = frame @ takeWhile ?P xs" "dropWhile ?P (frame @ xs) = dropWhile ?P xs" for xs
    using less.prems(1) by (induction frame) auto
  show ?case
  proof (cases "?a = []")
    case True
    then have "rest = []" using n(2) by simp
    moreover from this have "r = (if frame = [] then Inr None else Err ''EXTENSION_PIPE_TRUNCATED_FRAME'')" "s = []"
      using less.prems(3) n(1) by (auto simp: read_inner.simps [of fill pos] Let_def split: if_splits)
    moreover have line: "takeWhile ?P frame = frame" using frame [of "[]"] by simp
    ultimately show ?thesis using less.prems(1,2) frame(2) [of "[]"] by (simp add: next_line_def after_line_def Let_def line)
  next
    case False
    note step = less.prems(3) [unfolded read_inner_step [of fill pos n rest, OF n(1) False] Let_def]
    consider (big) "max_frame_bytes - length frame < length ?l"
      | (whole) "\<not> max_frame_bytes - length frame < length ?l" "?l \<noteq> ?a"
      | (more) "\<not> max_frame_bytes - length frame < length ?l" "?l = ?a" by blast
    then show ?thesis
    proof cases
      case big
      have "length ?l \<le> length (takeWhile ?P rest)"
        by (simp add: takeWhile_of_take)
      then have "max_frame_bytes < length (takeWhile ?P (frame @ rest))" using big less.prems(2) frame(1) [of rest] by simp
      moreover have "r = Err ''EXTENSION_BROKER_REQUEST_TOO_LARGE''" using step big by simp
      ultimately show ?thesis by (simp add: next_line_def Let_def)
    next
      case whole
      have l: "?l = takeWhile ?P rest" "newline \<in> set rest" using takeWhile_cut [OF whole(2)] by auto
      then have "r = finish_frame (frame @ takeWhile ?P rest)" "s = tl (dropWhile ?P rest)"
        using step whole by (simp_all add: drop_line)
      moreover have "\<not> max_frame_bytes < length frame + length (takeWhile ?P rest)" using whole(1) less.prems(2) by (simp add: l(1))
      ultimately show ?thesis using l(2) frame [of rest] by (simp add: next_line_def after_line_def Let_def)
    next
      case more
      have "read_inner fill (pos + length ?a) (drop (length ?a) rest) (frame @ ?a) = (r, p, s)"
        using step more(1) unfolding more(2) by (simp only: if_False simp_thms)
      moreover have "newline \<notin> set ?a" using more(2) by (auto simp: takeWhile_eq_all_conv)
      moreover have "length (drop (length ?a) rest) < length rest" using False by (cases rest) auto
      moreover have "length (frame @ ?a) \<le> max_frame_bytes" using more(1) less.prems(2) unfolding more(2) length_append by linarith
      ultimately have "line_read r s ((frame @ ?a) @ drop (length ?a) rest)"
        using less.hyps [of "drop (length ?a) rest" "frame @ ?a"] less.prems(1) by simp
      moreover have "(frame @ ?a) @ drop (length ?a) rest = frame @ rest"
        using append_take_drop_id [of n rest] by (cases "n \<le> length rest") (simp_all add: min_def)
      ultimately show ?thesis by metis
    qed
  qed
qed

lemma frames_read_line:
  assumes "steady_reader fill" "\<not> fr_failed fr" "frames_read fill fr = (r, fr')"
  shows "r = next_line (fr_rest fr) \<and> (\<forall>f. r = Inr f \<longrightarrow> \<not> fr_failed fr' \<and> fr_rest fr' = after_line (fr_rest fr))"
proof -
  obtain q p s where i: "read_inner fill (fr_pos fr) (fr_rest fr) [] = (q, p, s)" by (cases "read_inner fill (fr_pos fr) (fr_rest fr) []")
  have "line_read q s (fr_rest fr)" using read_inner_line [OF assms(1) _ _ i] by simp
  then show ?thesis using assms(2,3) i by (cases "next_line (fr_rest fr)") (auto simp: frames_read_def)
qed

section \<open>Frames come back as they were written\<close>

fun write_frames :: "string list \<Rightarrow> string \<Rightarrow> unit result \<times> string" where
  "write_frames [] out = (Inr (), out)"
| "write_frames (f # fs) out =
     (case write_frame None f out of (Inl e, out') \<Rightarrow> (Inl e, out') | (Inr _, out') \<Rightarrow> write_frames fs out')"

text \<open>Reading until the end of the stream, at most \<open>n\<close> times.\<close>

fun read_frames :: "buffered \<Rightarrow> nat \<Rightarrow> frames \<Rightarrow> string list result \<times> frames" where
  "read_frames fill 0 fr = (Inr [], fr)"
| "read_frames fill (Suc n) fr =
     (case frames_read fill fr of
        (Inl e, fr') \<Rightarrow> (Inl e, fr')
      | (Inr None, fr') \<Rightarrow> (Inr [], fr')
      | (Inr (Some f), fr') \<Rightarrow>
          (case read_frames fill n fr' of (Inl e, fr'') \<Rightarrow> (Inl e, fr'') | (Inr fs, fr'') \<Rightarrow> (Inr (f # fs), fr'')))"

definition good_frame :: "string \<Rightarrow> bool" where
  "good_frame f \<longleftrightarrow> f \<noteq> [] \<and> length f \<le> max_frame_bytes \<and> newline \<notin> set f \<and> carriage \<notin> set f"

lemma write_frames_ok:
  "write_frames fs out = (Inr (), out') \<Longrightarrow> list_all good_frame fs \<and> out' = out @ concat (map (\<lambda>f. f @ [newline]) fs)"
  by (induction fs arbitrary: out) (fastforce simp: write_frame_def good_frame_def split: if_splits)+

lemma next_line_frame:
  assumes "good_frame f" shows "next_line (f @ newline # rest) = Inr (Some f)" "after_line (f @ newline # rest) = rest"
proof -
  have "newline \<notin> set f" using assms by (simp add: good_frame_def)
  then have "takeWhile (\<lambda>b. b \<noteq> newline) (f @ newline # rest) = f" "dropWhile (\<lambda>b. b \<noteq> newline) (f @ newline # rest) = newline # rest"
    by (induction f) auto
  moreover have "last f \<noteq> carriage" using assms last_in_set [of f] unfolding good_frame_def by metis
  ultimately show "next_line (f @ newline # rest) = Inr (Some f)" "after_line (f @ newline # rest) = rest"
    using assms by (simp_all add: next_line_def after_line_def finish_frame_def good_frame_def Let_def)
qed

text \<open>
  C16. Framing round trip: frames written to an extension's stream are read back exactly and in
  order, followed by the end of the stream, however the reader fragments the bytes, for any
  frames the writer accepts.
\<close>

theorem frames_roundtrip:
  assumes "steady_reader fill" "write_frames fs [] = (Inr (), out)"
  shows "fst (read_frames fill (Suc (length fs)) (frames_new out)) = Inr fs"
proof -
  have "fst (read_frames fill (Suc (length gs)) fr) = Inr gs"
    if "list_all good_frame gs" "\<not> fr_failed fr" "fr_rest fr = concat (map (\<lambda>f. f @ [newline]) gs)" for gs fr
    using that
  proof (induction gs arbitrary: fr)
    case Nil
    obtain r fr' where run: "frames_read fill fr = (r, fr')" by (cases "frames_read fill fr")
    have "r = Inr None" using frames_read_line [OF assms(1) Nil(2) run] Nil(3) by (simp add: next_line_def)
    then show ?case using run by simp
  next
    case (Cons g gs)
    obtain r fr' where run: "frames_read fill fr = (r, fr')" by (cases "frames_read fill fr")
    have rest: "fr_rest fr = g @ newline # concat (map (\<lambda>f. f @ [newline]) gs)" "good_frame g" using Cons.prems by simp_all
    have r: "r = Inr (Some g)" "\<not> fr_failed fr'" "fr_rest fr' = concat (map (\<lambda>f. f @ [newline]) gs)"
      using frames_read_line [OF assms(1) Cons.prems(2) run] next_line_frame [OF rest(2)] by (simp_all add: rest(1))
    have "fst (read_frames fill (Suc (length gs)) fr') = Inr gs" using Cons.IH [OF _ r(2,3)] Cons.prems(1) by simp
    then show ?case using run r(1) by (auto simp del: read_frames.simps(2) simp: read_frames.simps(2) [of fill "Suc (length gs)"] split: prod.splits sum.splits)
  qed
  then show ?thesis using write_frames_ok [OF assms(2)] by (simp add: frames_new_def)
qed

theorem frames_roundtrip_witness:
  "fst (read_frames (\<lambda>_. Some 1) 3 (frames_new (''{}'' @ [CHR 0x0A] @ ''[1]'' @ [CHR 0x0A]))) = Inr [''{}'', ''[1]'']"
proof -
  have "write_frames [''{}'', ''[1]''] [] = (Inr (), ''{}'' @ [CHR 0x0A] @ ''[1]'' @ [CHR 0x0A])"
    by (simp add: write_frame_def max_frame_bytes_def)
  then show ?thesis using frames_roundtrip [of "\<lambda>_. Some 1" "[''{}'', ''[1]'']"] by (simp add: steady_reader_def eval_nat_numeral)
qed

end
