(* ===== verification/Extension_Dependencies.thy ===== *)
theory Extension_Dependencies
  imports Extension_Package
begin

text \<open>
  The dependency planner of extensions (\<open>extension_dependencies.rs\<close>): a backtracking search with a
  budget of 10000 calls over the candidates of one source, and the order in which the chosen
  packages are installed. Versions and requirements are kept as their texts; \<open>semver\<close> is a
  parameter.
\<close>

section \<open>Candidates\<close>

record dep_candidate =
  dc_package_key :: string
  dc_source :: string
  dc_release :: ext_release
  dc_signer_sha256 :: string

record locked_package =
  lp_package_key :: string
  lp_source :: string
  lp_namespace :: string
  lp_package_id :: string
  lp_kind :: string
  lp_version :: string
  lp_archive_sha256 :: string
  lp_signer_sha256 :: string
  lp_release_sha256 :: string
  lp_permissions :: "string list"

record dep_plan =
  pl_fingerprint :: string
  pl_packages :: "locked_package list"

record dep_env =
  dv_pkg :: pkg_env
  dv_less :: "string \<Rightarrow> string \<Rightarrow> bool"
  dv_requirement :: "string \<Rightarrow> bool"
  dv_matches :: "string \<Rightarrow> string \<Rightarrow> bool"
  dv_release_text :: "ext_release \<Rightarrow> string"
  dv_plan_text :: "locked_package list \<times> string \<times> string \<times> string \<Rightarrow> string"

abbreviation dv_version :: "dep_env \<Rightarrow> string \<Rightarrow> bool" where
  "dv_version E \<equiv> px_version (dv_pkg E)"

definition release_name :: "ext_release \<Rightarrow> string" where
  "release_name r = xr_namespace r @ ''/'' @ xr_package_id r"

definition dependency :: "ext_release \<Rightarrow> string \<Rightarrow> string result" where
  "dependency owner i =
     (let resolved = (if CHR ''/'' \<in> set i then i else xr_namespace owner @ ''/'' @ i);
          parts = split_on (CHR ''/'') resolved in
      bindR (require (length parts = 2 \<and> list_all identity_slug parts) ''EXTENSION_DEPENDENCY_INVALID'') (\<lambda>_.
      Inr resolved))"

definition requirement :: "dep_env \<Rightarrow> string \<Rightarrow> string result" where
  "requirement E v =
     (let text' = (if dv_version E v then ''='' @ v else v) in
      bindR (require (dv_requirement E text') ''EXTENSION_DEPENDENCY_REQUIREMENT'') (\<lambda>_. Inr text'))"

type_synonym chosen = "(string \<times> nat) list"
type_synonym requirements = "(string \<times> string list) list"

abbreviation release_of :: "dep_candidate list \<Rightarrow> nat \<Rightarrow> ext_release" where
  "release_of cs i \<equiv> dc_release (cs ! i)"

section \<open>The installation order\<close>

record visit_state =
  vs_active :: "nat list"
  vs_done :: "nat list"
  vs_output :: "nat list"

text \<open>The loop over the dependencies of one package; the recursion is as deep as packages can be nested.\<close>

fun visit_each :: "dep_candidate list \<Rightarrow> chosen \<Rightarrow> (nat \<Rightarrow> visit_state \<Rightarrow> visit_state result option) \<Rightarrow> ext_release \<Rightarrow>
    (string \<times> string) list \<Rightarrow> visit_state \<Rightarrow> visit_state result option" where
  "visit_each cs ch visit owner [] st = Some (Inr st)"
| "visit_each cs ch visit owner ((i, _) # deps) st =
     (case bindR (dependency owner i) (\<lambda>key. ok_or (bt_get ch key) ''EXTENSION_DEPENDENCY_MISSING'') of
        Inl e \<Rightarrow> Some (Inl e)
      | Inr index \<Rightarrow>
          (case visit index st of
             None \<Rightarrow> None
           | Some (Inl e) \<Rightarrow> Some (Inl e)
           | Some (Inr st') \<Rightarrow> visit_each cs ch visit owner deps st'))"

primrec visit :: "dep_candidate list \<Rightarrow> chosen \<Rightarrow> nat \<Rightarrow> nat \<Rightarrow> visit_state \<Rightarrow> visit_state result option" where
  "visit cs ch 0 = (\<lambda>index st. None)"
| "visit cs ch (Suc fuel) = (\<lambda>index st.
     if index \<in> set (vs_done st) then Some (Inr st)
     else if index \<in> set (vs_active st) then Some (Err ''EXTENSION_DEPENDENCY_CYCLE'')
     else (case visit_each cs ch (visit cs ch fuel) (release_of cs index) (xr_dependencies (release_of cs index))
                  (st\<lparr>vs_active := index # vs_active st\<rparr>) of
         None \<Rightarrow> None
       | Some (Inl e) \<Rightarrow> Some (Inl e)
       | Some (Inr st') \<Rightarrow> Some (Inr (st'\<lparr>vs_active := removeAll index (vs_active st'), vs_done := index # vs_done st',
             vs_output := vs_output st' @ [index]\<rparr>))))"

definition dep_order :: "dep_candidate list \<Rightarrow> chosen \<Rightarrow> nat \<Rightarrow> nat list result option" where
  "dep_order cs ch root =
     map_option (\<lambda>r. bindR r (\<lambda>st. Inr (vs_output st)))
       (visit cs ch (Suc (Suc (length cs))) root \<lparr>vs_active = [], vs_done = [], vs_output = []\<rparr>)"

section \<open>The solver\<close>

record solver =
  sv_remaining :: nat
  sv_failure :: string

definition unmatched :: "dep_env \<Rightarrow> string list \<Rightarrow> string \<Rightarrow> bool" where
  "unmatched E reqs v \<longleftrightarrow> list_ex (\<lambda>r. \<not> dv_matches E r v) reqs"

text \<open>The loop over the chosen packages: whether all of them still meet the requirements.\<close>

fun still_matching :: "dep_env \<Rightarrow> dep_candidate list \<Rightarrow> requirements \<Rightarrow> chosen \<Rightarrow> bool result" where
  "still_matching E cs reqs [] = Inr True"
| "still_matching E cs reqs ((key, i) # rest) =
     bindR (require (dv_version E (xr_version (release_of cs i))) ''EXTENSION_DEPENDENCY_VERSION'') (\<lambda>_.
     if (case bt_get reqs key of None \<Rightarrow> False | Some all \<Rightarrow> unmatched E all (xr_version (release_of cs i))) then Inr False
     else still_matching E cs reqs rest)"

fun add_requirements :: "dep_env \<Rightarrow> ext_release \<Rightarrow> (string \<times> string) list \<Rightarrow> requirements \<Rightarrow> requirements result" where
  "add_requirements E owner [] reqs = Inr reqs"
| "add_requirements E owner ((i, wanted) # deps) reqs =
     bindR (dependency owner i) (\<lambda>key.
     bindR (requirement E wanted) (\<lambda>req.
     add_requirements E owner deps (bt_push key req reqs)))"

text \<open>The loop over the candidates of the next package.\<close>

fun solve_each :: "dep_env \<Rightarrow> dep_candidate list \<Rightarrow> nat \<Rightarrow> (solver \<Rightarrow> chosen \<Rightarrow> requirements \<Rightarrow> chosen option result \<times> solver) \<Rightarrow>
    string \<Rightarrow> string list \<Rightarrow> chosen \<Rightarrow> requirements \<Rightarrow> nat list \<Rightarrow> solver \<Rightarrow> chosen option result \<times> solver" where
  "solve_each E cs root solve next constraints ch reqs [] s = (Inr None, s)"
| "solve_each E cs root solve next constraints ch reqs (index # indices) s =
     (if next = release_name (release_of cs root) \<and> index \<noteq> root
      then solve_each E cs root solve next constraints ch reqs indices s
      else if \<not> dv_version E (xr_version (release_of cs index)) then (Err ''EXTENSION_DEPENDENCY_VERSION'', s)
      else if unmatched E constraints (xr_version (release_of cs index))
      then solve_each E cs root solve next constraints ch reqs indices s
      else (case add_requirements E (release_of cs index) (xr_dependencies (release_of cs index)) reqs of
          Inl e \<Rightarrow> (Inl e, s)
        | Inr required \<Rightarrow>
            (case solve s (bt_insert next index ch) required of
               (Inl e, s') \<Rightarrow> (Inl e, s')
             | (Inr (Some solution), s') \<Rightarrow> (Inr (Some solution), s')
             | (Inr None, s') \<Rightarrow> solve_each E cs root solve next constraints ch reqs indices s')))"

text \<open>Every call takes one from the budget, so a budget's worth of nesting is never exceeded.\<close>

primrec solve :: "dep_env \<Rightarrow> dep_candidate list \<Rightarrow> (string \<times> nat list) list \<Rightarrow> nat \<Rightarrow> nat \<Rightarrow> solver \<Rightarrow> chosen \<Rightarrow> requirements \<Rightarrow>
    chosen option result \<times> solver" where
  "solve E cs groups root 0 = (\<lambda>s ch reqs. (Err ''EXTENSION_DEPENDENCY_COMPLEXITY'', s))"
| "solve E cs groups root (Suc fuel) = (\<lambda>s ch reqs.
     if sv_remaining s = 0 then (Err ''EXTENSION_DEPENDENCY_COMPLEXITY'', s)
     else
       let s1 = s\<lparr>sv_remaining := sv_remaining s - 1\<rparr> in
       if 200 < length reqs then (Err ''EXTENSION_DEPENDENCY_COMPLEXITY'', s1)
       else (case still_matching E cs reqs ch of
           Inl e \<Rightarrow> (Inl e, s1)
         | Inr False \<Rightarrow> (Inr None, s1)
         | Inr True \<Rightarrow>
             (case find (\<lambda>(key, _). bt_get ch key = None) reqs of
                None \<Rightarrow>
                  (case dep_order cs ch root of
                     Some (Inr _) \<Rightarrow> (Inr (Some ch), s1)
                   | _ \<Rightarrow> (Inr None, s1\<lparr>sv_failure := ''EXTENSION_DEPENDENCY_CYCLE''\<rparr>))
              | Some (next, constraints) \<Rightarrow>
                  (case bt_get groups next of
                     None \<Rightarrow> (Inr None, s1\<lparr>sv_failure := ''EXTENSION_DEPENDENCY_MISSING''\<rparr>)
                   | Some indices \<Rightarrow> solve_each E cs root (solve E cs groups root fuel) next constraints ch reqs indices s1))))"

section \<open>Planning\<close>

definition incompatible :: "dep_env \<Rightarrow> string \<Rightarrow> string \<Rightarrow> string \<Rightarrow> ext_release \<Rightarrow> bool" where
  "incompatible E app platform architecture r \<longleftrightarrow>
     dv_less E app (xr_min_app_version r) \<or>
     (case xr_max_app_version r of None \<Rightarrow> False | Some m \<Rightarrow> dv_less E m app) \<or>
     (xr_platforms r \<noteq> [] \<and> platform \<notin> set (xr_platforms r)) \<or>
     (xr_architectures r \<noteq> [] \<and> architecture \<notin> set (xr_architectures r))"

fun build_groups :: "dep_env \<Rightarrow> dep_candidate list \<Rightarrow> nat \<Rightarrow> string \<Rightarrow> string \<Rightarrow> string \<Rightarrow> nat list \<Rightarrow>
    (string \<times> nat list) list \<Rightarrow> (string \<times> nat list) list result" where
  "build_groups E cs root app platform architecture [] groups = Inr groups"
| "build_groups E cs root app platform architecture (index # rest) groups =
     (let r = release_of cs index in
      if dc_source (cs ! index) \<noteq> dc_source (cs ! root) then build_groups E cs root app platform architecture rest groups
      else
        bindR (release_validate (dv_pkg E) r) (\<lambda>_.
        bindR (require (dv_version E (xr_min_app_version r)) ''EXTENSION_APP_VERSION'') (\<lambda>_.
        bindR (require (case xr_max_app_version r of None \<Rightarrow> True | Some m \<Rightarrow> dv_version E m) ''EXTENSION_APP_VERSION'') (\<lambda>_.
        if incompatible E app platform architecture r then
          (if index = root then Err ''EXTENSION_PLATFORM_INCOMPATIBLE''
           else build_groups E cs root app platform architecture rest groups)
        else
          bindR (require (dv_version E (xr_version r)) ''EXTENSION_DEPENDENCY_VERSION'') (\<lambda>_.
          build_groups E cs root app platform architecture rest (bt_push (release_name r) index groups))))))"

text \<open>The newest version first, then by package key.\<close>

definition preferred :: "dep_env \<Rightarrow> dep_candidate list \<Rightarrow> nat \<Rightarrow> nat \<Rightarrow> bool" where
  "preferred E cs a b \<longleftrightarrow>
     (let va = xr_version (release_of cs a); vb = xr_version (release_of cs b) in
      dv_less E vb va \<or> (\<not> dv_less E va vb \<and> dc_package_key (cs ! a) < dc_package_key (cs ! b)))"

fun insert_by :: "('a \<Rightarrow> 'a \<Rightarrow> bool) \<Rightarrow> 'a \<Rightarrow> 'a list \<Rightarrow> 'a list" where
  "insert_by lt x [] = [x]"
| "insert_by lt x (y # ys) = (if lt y x then y # insert_by lt x ys else x # y # ys)"

definition sort_by :: "('a \<Rightarrow> 'a \<Rightarrow> bool) \<Rightarrow> 'a list \<Rightarrow> 'a list" where
  "sort_by lt xs = foldr (insert_by lt) xs []"

definition lock_package :: "dep_env \<Rightarrow> dep_candidate \<Rightarrow> locked_package" where
  "lock_package E c =
     (let r = dc_release c in
      \<lparr>lp_package_key = dc_package_key c, lp_source = dc_source c, lp_namespace = xr_namespace r, lp_package_id = xr_package_id r,
       lp_kind = xr_kind r, lp_version = xr_version r, lp_archive_sha256 = xr_sha256 r, lp_signer_sha256 = dc_signer_sha256 c,
       lp_release_sha256 = px_sha (dv_pkg E) (dv_release_text E r), lp_permissions = xr_permissions r\<rparr>)"

definition position :: "('a \<Rightarrow> bool) \<Rightarrow> 'a list \<Rightarrow> nat option" where
  "position P xs = find (\<lambda>i. P (xs ! i)) [0..<length xs]"

definition plan_groups :: "dep_env \<Rightarrow> dep_candidate list \<Rightarrow> nat \<Rightarrow> string \<Rightarrow> string \<Rightarrow> string \<Rightarrow> (string \<times> nat list) list result" where
  "plan_groups E cs root app platform architecture =
     bindR (build_groups E cs root app platform architecture [0..<length cs] []) (\<lambda>groups.
     Inr (map (\<lambda>(k, is). (k, sort_by (preferred E cs) is)) groups))"

definition plan_dependencies :: "dep_env \<Rightarrow> dep_candidate list \<Rightarrow> string \<Rightarrow> string \<Rightarrow> string \<Rightarrow> string \<Rightarrow> dep_plan result" where
  "plan_dependencies E cs root_key app platform architecture =
     bindR (require (length cs \<le> 4096) ''EXTENSION_DEPENDENCY_COMPLEXITY'') (\<lambda>_.
     bindR (require (dv_version E app) ''EXTENSION_APP_VERSION'') (\<lambda>_.
     bindR (ok_or (position (\<lambda>c. dc_package_key c = root_key) cs) ''EXTENSION_DEPENDENCY_MISSING'') (\<lambda>root.
     bindR (plan_groups E cs root app platform architecture) (\<lambda>groups.
     bindR (requirement E (xr_version (release_of cs root))) (\<lambda>req.
     bindR (case solve E cs groups root 10000 \<lparr>sv_remaining = 10000, sv_failure = ''EXTENSION_DEPENDENCY_CONFLICT''\<rparr> []
                [(release_name (release_of cs root), [req])] of
              (Inl e, _) \<Rightarrow> Inl e
            | (Inr None, s) \<Rightarrow> Err (sv_failure s)
            | (Inr (Some ch), _) \<Rightarrow> Inr ch) (\<lambda>ch.
     bindR (case dep_order cs ch root of None \<Rightarrow> Err ''EXTENSION_DEPENDENCY_CYCLE'' | Some r \<Rightarrow> r) (\<lambda>order.
     let packages = map (\<lambda>i. lock_package E (cs ! i)) order;
         encoded = dv_plan_text E (packages, app, platform, architecture) in
     bindR (require (length encoded \<le> 4 * 1024 * 1024) ''EXTENSION_DEPENDENCY_COMPLEXITY'') (\<lambda>_.
     Inr \<lparr>pl_fingerprint = px_sha (dv_pkg E) encoded, pl_packages = packages\<rparr>))))))))"

section \<open>The order puts dependencies first\<close>

definition provider :: "dep_candidate list \<Rightarrow> chosen \<Rightarrow> nat \<Rightarrow> string \<Rightarrow> nat \<Rightarrow> bool" where
  "provider cs ch i d j \<longleftrightarrow> (\<exists>key. dependency (release_of cs i) d = Inr key \<and> bt_get ch key = Some j)"

definition provided :: "dep_candidate list \<Rightarrow> chosen \<Rightarrow> nat set \<Rightarrow> nat \<Rightarrow> bool" where
  "provided cs ch here i \<longleftrightarrow> (\<forall>d \<in> fst ` set (xr_dependencies (release_of cs i)). \<exists>j \<in> here. provider cs ch i d j)"

definition topological :: "dep_candidate list \<Rightarrow> chosen \<Rightarrow> nat list \<Rightarrow> bool" where
  "topological cs ch out \<longleftrightarrow> distinct out \<and> (\<forall>k < length out. provided cs ch (set (take k out)) (out ! k))"

definition visit_inv :: "dep_candidate list \<Rightarrow> chosen \<Rightarrow> visit_state \<Rightarrow> bool" where
  "visit_inv cs ch st \<longleftrightarrow> set (vs_done st) = set (vs_output st) \<and> topological cs ch (vs_output st) \<and>
     set (vs_active st) \<inter> set (vs_done st) = {}"

text \<open>What a visit adds: only packages that were neither placed nor being placed.\<close>

definition visit_adds :: "dep_candidate list \<Rightarrow> chosen \<Rightarrow> nat set \<Rightarrow> visit_state \<Rightarrow> visit_state \<Rightarrow> bool" where
  "visit_adds cs ch new st st' \<longleftrightarrow> visit_inv cs ch st' \<and> vs_active st' = vs_active st \<and> set (vs_done st) \<subseteq> set (vs_done st') \<and>
     new \<subseteq> set (vs_done st') \<and> set (vs_done st') \<subseteq> set (vs_done st) \<union> new \<union> ran (bt_get ch)"

lemma topological_snoc:
  assumes "topological cs ch out" "i \<notin> set out" "provided cs ch (set out) i"
  shows "topological cs ch (out @ [i])"
  using assms unfolding topological_def by (auto simp: nth_append less_Suc_eq)

lemma visit_each_adds:
  assumes "\<And>index st st'. v index st = Some (Inr st') \<Longrightarrow> visit_inv cs ch st \<Longrightarrow> visit_adds cs ch {index} st st'"
  shows "visit_each cs ch v (release_of cs i) deps st = Some (Inr st') \<Longrightarrow> visit_inv cs ch st \<Longrightarrow>
    visit_adds cs ch {} st st' \<and> (\<forall>d \<in> fst ` set deps. \<exists>j \<in> set (vs_done st'). provider cs ch i d j)"
proof (induction deps arbitrary: st)
  case (Cons p deps)
  obtain d w where p: "p = (d, w)" by (cases p)
  from Cons.prems(1) obtain j st1 where j: "provider cs ch i d j" "v j st = Some (Inr st1)"
      "visit_each cs ch v (release_of cs i) deps st1 = Some (Inr st')"
    unfolding p by (auto simp: provider_def bindR_Inr_iff split: sum.splits option.splits)
  have one: "visit_adds cs ch {j} st st1" by (rule assms [OF j(2) Cons.prems(2)])
  then have "visit_inv cs ch st1" by (simp add: visit_adds_def)
  note rest = Cons.IH [OF j(3) this]
  have "j \<in> set (vs_done st')" using one rest unfolding visit_adds_def by blast
  moreover have "j \<in> ran (bt_get ch)" using j(1) by (auto simp: provider_def ran_def)
  ultimately show ?case using one rest j(1) unfolding p visit_adds_def by auto
qed (simp add: visit_adds_def)

lemma visit_adds_index:
  "visit cs ch fuel index st = Some (Inr st') \<Longrightarrow> visit_inv cs ch st \<Longrightarrow> visit_adds cs ch {index} st st'"
proof (induction fuel arbitrary: index st st')
  case (Suc fuel)
  show ?case
  proof (cases "index \<in> set (vs_done st)")
    case True
    then show ?thesis using Suc.prems by (auto simp: visit_adds_def)
  next
    case False
    let ?in = "st\<lparr>vs_active := index # vs_active st\<rparr>"
    obtain st1 where st1: "visit_each cs ch (visit cs ch fuel) (release_of cs index) (xr_dependencies (release_of cs index)) ?in = Some (Inr st1)"
        "st' = st1\<lparr>vs_active := removeAll index (vs_active st1), vs_done := index # vs_done st1, vs_output := vs_output st1 @ [index]\<rparr>"
        and fresh: "index \<notin> set (vs_active st)"
      using Suc.prems(1) False by (auto split: if_splits option.splits sum.splits)
    have inv: "visit_inv cs ch ?in" using Suc.prems(2) False by (auto simp: visit_inv_def)
    note each = visit_each_adds [OF Suc.IH, OF _ _ st1(1) inv]
    have a: "visit_inv cs ch st1" "vs_active st1 = index # vs_active st" "set (vs_done st) \<subseteq> set (vs_done st1)"
        "set (vs_done st1) \<subseteq> set (vs_done st) \<union> ran (bt_get ch)"
      using each by (simp_all add: visit_adds_def)
    have out: "set (vs_done st1) = set (vs_output st1)" "topological cs ch (vs_output st1)" "index \<notin> set (vs_output st1)"
        "set (vs_active st) \<inter> set (vs_done st1) = {}"
      using a(1,2) unfolding visit_inv_def by auto
    have "provided cs ch (set (vs_output st1)) index" using each out(1) by (simp add: provided_def)
    then have "topological cs ch (vs_output st1 @ [index])" by (rule topological_snoc [OF out(2,3)])
    moreover have "removeAll index (vs_active st1) = vs_active st" using fresh by (simp add: a(2))
    ultimately show ?thesis using a(3,4) out(1,4) fresh unfolding st1(2) visit_adds_def visit_inv_def by auto
  qed
qed simp

lemma dep_order_topological:
  assumes "dep_order cs ch root = Some (Inr out)"
  shows "topological cs ch out \<and> out \<noteq> [] \<and> last out = root \<and> set out \<subseteq> insert root (ran (bt_get ch))"
proof -
  let ?s = "\<lparr>vs_active = [], vs_done = [], vs_output = []\<rparr>"
  obtain st where st: "visit cs ch (Suc (Suc (length cs))) root ?s = Some (Inr st)" "out = vs_output st"
    using assms by (auto simp: dep_order_def bindR_Inr_iff)
  have "visit_inv cs ch ?s" by (simp add: visit_inv_def topological_def)
  then have "topological cs ch out" "set out \<subseteq> insert root (ran (bt_get ch))"
    using visit_adds_index [OF st(1)] st(2) by (auto simp: visit_adds_def visit_inv_def)
  moreover have "out \<noteq> [] \<and> last out = root" using st by (auto simp del: visit.simps(1) split: option.splits sum.splits)
  ultimately show ?thesis by blast
qed

text \<open>The nesting never exceeds the number of candidates, so the order is always determined.\<close>

lemma visit_active:
  "visit cs ch fuel index st = Some (Inr st') \<Longrightarrow> vs_active st' = vs_active st"
proof (induction fuel arbitrary: index st st')
  case (Suc fuel)
  have each: "visit_each cs ch (visit cs ch fuel) o' deps s = Some (Inr s') \<Longrightarrow> vs_active s' = vs_active s" for o' deps s s'
    using Suc.IH by (induction deps arbitrary: s) (fastforce split: sum.splits option.splits)+
  show ?case using Suc.prems each by (auto split: if_splits option.splits sum.splits dest!: each)
qed simp

lemma visit_ends:
  assumes "ran (bt_get ch) \<subseteq> {..<n}"
  shows "index < n \<Longrightarrow> distinct (vs_active st) \<Longrightarrow> set (vs_active st) \<subseteq> {..<n} \<Longrightarrow> n < fuel + length (vs_active st) \<Longrightarrow>
    visit cs ch fuel index st \<noteq> None"
proof (induction fuel arbitrary: index st)
  case 0
  have "length (vs_active st) \<le> n" using 0 by (metis card_lessThan card_mono distinct_card finite_lessThan)
  then show ?case using 0 by simp
next
  case (Suc fuel)
  have each: "visit_each cs ch (visit cs ch fuel) o' deps s \<noteq> None"
    if "distinct (vs_active s)" "set (vs_active s) \<subseteq> {..<n}" "n < fuel + length (vs_active s)" for o' deps s
    using that
  proof (induction deps arbitrary: s)
    case (Cons p deps)
    obtain d w where p: "p = (d, w)" by (cases p)
    show ?case
    proof (cases "bindR (dependency o' d) (\<lambda>key. ok_or (bt_get ch key) ''EXTENSION_DEPENDENCY_MISSING'')")
      case (Inr j)
      then have "j < n" using assms by (auto simp: bindR_Inr_iff ran_def)
      then obtain r where r: "visit cs ch fuel j s = Some r" using Suc.IH [of j s] Cons.prems by blast
      show ?thesis
      proof (cases r)
        case inr: (Inr s1)
        then have "vs_active s1 = vs_active s" using visit_active r by blast
        then show ?thesis using Cons.IH [of s1] Cons.prems Inr r inr by (simp add: p)
      qed (simp add: p Inr r)
    qed (simp add: p)
  qed simp
  show ?case
  proof (cases "index \<in> set (vs_done st) \<or> index \<in> set (vs_active st)")
    case False
    then show ?thesis
      using each [of "st\<lparr>vs_active := index # vs_active st\<rparr>" "release_of cs index" "xr_dependencies (release_of cs index)"] Suc.prems
      by (auto split: option.splits sum.splits)
  qed auto
qed

lemma dep_order_ends:
  assumes "ran (bt_get ch) \<subseteq> {..<length cs}" "root < length cs" shows "\<exists>r. dep_order cs ch root = Some r"
  using visit_ends [OF assms(1), of root "\<lparr>vs_active = [], vs_done = [], vs_output = []\<rparr>" "Suc (Suc (length cs))"] assms(2)
  by (auto simp: dep_order_def simp del: visit.simps)

section \<open>The solver only accepts what fits\<close>

text \<open>The dependencies of the chosen packages are among the requirements.\<close>

definition demanded :: "dep_env \<Rightarrow> dep_candidate list \<Rightarrow> requirements \<Rightarrow> nat \<Rightarrow> bool" where
  "demanded E cs reqs i \<longleftrightarrow> (\<forall>(d, w) \<in> set (xr_dependencies (release_of cs i)). \<exists>key req all.
     dependency (release_of cs i) d = Inr key \<and> requirement E w = Inr req \<and> bt_get reqs key = Some all \<and> req \<in> set all)"

definition search_inv :: "dep_env \<Rightarrow> dep_candidate list \<Rightarrow> nat \<Rightarrow> (string \<Rightarrow> nat \<Rightarrow> bool) \<Rightarrow> chosen \<Rightarrow> requirements \<Rightarrow> bool" where
  "search_inv E cs root usable ch reqs \<longleftrightarrow> bt_wf ch \<and> bt_wf reqs \<and>
     (\<forall>k i. bt_get ch k = Some i \<longrightarrow> usable k i \<and> demanded E cs reqs i) \<and>
     bt_get reqs (release_name (release_of cs root)) \<noteq> None \<and>
     (\<forall>i. bt_get ch (release_name (release_of cs root)) = Some i \<longrightarrow> i = root)"

definition fulfilled :: "dep_env \<Rightarrow> dep_candidate list \<Rightarrow> chosen \<Rightarrow> nat \<Rightarrow> bool" where
  "fulfilled E cs ch i \<longleftrightarrow> (\<forall>(d, w) \<in> set (xr_dependencies (release_of cs i)). \<exists>key req j.
     dependency (release_of cs i) d = Inr key \<and> requirement E w = Inr req \<and> bt_get ch key = Some j \<and>
     dv_matches E req (xr_version (release_of cs j)))"

definition good_choice :: "dep_env \<Rightarrow> dep_candidate list \<Rightarrow> nat \<Rightarrow> (string \<Rightarrow> nat \<Rightarrow> bool) \<Rightarrow> chosen \<Rightarrow> bool" where
  "good_choice E cs root usable ch \<longleftrightarrow>
     (\<forall>k i. bt_get ch k = Some i \<longrightarrow> usable k i \<and> fulfilled E cs ch i) \<and>
     bt_get ch (release_name (release_of cs root)) = Some root"

lemma still_matching_True:
  "still_matching E cs reqs ch = Inr True \<Longrightarrow> (k, i) \<in> set ch \<Longrightarrow> bt_get reqs k = Some all \<Longrightarrow> req \<in> set all \<Longrightarrow>
     dv_matches E req (xr_version (release_of cs i))"
  by (induction E cs reqs ch rule: still_matching.induct)
     (auto simp: bindR_Inr_iff unmatched_def list_ex_iff split: if_splits)

lemma solution_found:
  assumes "search_inv E cs root usable ch reqs" "still_matching E cs reqs ch = Inr True"
    "find (\<lambda>(key, _). bt_get ch key = None) reqs = None"
  shows "good_choice E cs root usable ch"
proof -
  have wf: "bt_wf ch" "bt_wf reqs" using assms(1) by (simp_all add: search_inv_def)
  have all: "bt_get ch key \<noteq> None" if "bt_get reqs key = Some x" for key x
    using that assms(3) bt_get_Some_iff [OF wf(2)] by (auto simp: find_None_iff)
  have "fulfilled E cs ch i" if "demanded E cs reqs i" for i
    unfolding fulfilled_def
  proof (clarify, goal_cases)
    case (1 d w)
    then obtain key req x where x: "dependency (release_of cs i) d = Inr key" "requirement E w = Inr req" "bt_get reqs key = Some x" "req \<in> set x"
      using \<open>demanded E cs reqs i\<close> unfolding demanded_def by blast
    then obtain j where j: "bt_get ch key = Some j" using all by blast
    then have "(key, j) \<in> set ch" using bt_get_Some_iff [OF wf(1)] by simp
    then show ?case using x j still_matching_True [OF assms(2) _ x(3,4)] by blast
  qed
  moreover have "bt_get ch (release_name (release_of cs root)) = Some root"
    using assms(1) all unfolding search_inv_def by (metis not_None_eq)
  ultimately show ?thesis using assms(1) unfolding good_choice_def search_inv_def by blast
qed

lemma bt_push_keeps: "bt_get reqs k = Some x \<Longrightarrow> req \<in> set x \<Longrightarrow> \<exists>y. bt_get (bt_push key v reqs) k = Some y \<and> req \<in> set y"
  by (auto simp: bt_get_push)

lemma add_requirements_keeps:
  "add_requirements E owner deps reqs = Inr reqs' \<Longrightarrow> bt_wf reqs \<Longrightarrow>
     bt_wf reqs' \<and> (\<forall>k x req. bt_get reqs k = Some x \<longrightarrow> req \<in> set x \<longrightarrow> (\<exists>y. bt_get reqs' k = Some y \<and> req \<in> set y)) \<and>
     (\<forall>k. bt_get reqs k \<noteq> None \<longrightarrow> bt_get reqs' k \<noteq> None) \<and>
     (\<forall>(d, w) \<in> set deps. \<exists>key req all. dependency owner d = Inr key \<and> requirement E w = Inr req \<and>
        bt_get reqs' key = Some all \<and> req \<in> set all)"
proof (induction E owner deps reqs rule: add_requirements.induct)
  case (2 E owner i w deps reqs)
  then obtain key req where k: "dependency owner i = Inr key" "requirement E w = Inr req"
      "add_requirements E owner deps (bt_push key req reqs) = Inr reqs'"
    by (auto simp: bindR_Inr_iff)
  note rest = "2.IH" [OF k(3) bt_wf_push [OF "2.prems"(2)]]
  have "bt_get (bt_push key req reqs) key = Some ((case bt_get reqs key of None \<Rightarrow> [] | Some xs \<Rightarrow> xs) @ [req])" by (simp add: bt_get_push)
  then obtain x where "bt_get (bt_push key req reqs) key = Some x" "req \<in> set x" by simp
  then have "\<exists>y. bt_get reqs' key = Some y \<and> req \<in> set y" using rest by blast
  moreover have "\<exists>y. bt_get reqs' k = Some y \<and> r \<in> set y" if "bt_get reqs k = Some x" "r \<in> set x" for k x r
    using bt_push_keeps [OF that, of key req] rest by blast
  moreover have "bt_get reqs' k \<noteq> None" if "bt_get reqs k \<noteq> None" for k
    using rest that by (simp add: bt_get_push split: if_splits)
  ultimately show ?case using rest k(1,2) by auto
qed auto

lemma search_inv_choose:
  assumes "search_inv E cs root usable ch reqs" "bt_get ch next = None" "usable next index"
    "next = release_name (release_of cs root) \<Longrightarrow> index = root"
    "add_requirements E (release_of cs index) (xr_dependencies (release_of cs index)) reqs = Inr reqs'"
  shows "search_inv E cs root usable (bt_insert next index ch) reqs'"
proof -
  have wf: "bt_wf ch" "bt_wf reqs" using assms(1) by (simp_all add: search_inv_def)
  note add = add_requirements_keeps [OF assms(5) wf(2)]
  have "demanded E cs reqs' i" if "demanded E cs reqs i" for i
    using that add unfolding demanded_def by fast
  moreover have "demanded E cs reqs' index" using add unfolding demanded_def by blast
  ultimately show ?thesis
    using assms(1-4) add bt_wf_insert [OF wf(1)] unfolding search_inv_def by auto
qed

lemma solve_each_good:
  assumes "\<And>s ch reqs sol s'. f s ch reqs = (Inr (Some sol), s') \<Longrightarrow> search_inv E cs root usable ch reqs \<Longrightarrow> good_choice E cs root usable sol \<and> (\<exists>out. dep_order cs sol root = Some (Inr out))"
    and "search_inv E cs root usable ch reqs" "bt_get ch next = None"
  shows "solve_each E cs root f next constraints ch reqs indices s = (Inr (Some sol), s') \<Longrightarrow> \<forall>i \<in> set indices. usable next i \<Longrightarrow>
    good_choice E cs root usable sol \<and> (\<exists>out. dep_order cs sol root = Some (Inr out))"
proof (induction indices arbitrary: s)
  case (Cons index indices)
  show ?case
  proof (cases "(next = release_name (release_of cs root) \<and> index \<noteq> root) \<or> unmatched E constraints (xr_version (release_of cs index))")
    case True
    then have "solve_each E cs root f next constraints ch reqs indices s = (Inr (Some sol), s')"
      using Cons.prems(1) by (auto split: if_splits)
    then show ?thesis using Cons.IH Cons.prems(2) by simp
  next
    case False
    obtain reqs' where add: "add_requirements E (release_of cs index) (xr_dependencies (release_of cs index)) reqs = Inr reqs'"
      using Cons.prems(1) False by (auto split: if_splits sum.splits)
    have inv: "search_inv E cs root usable (bt_insert next index ch) reqs'"
      using search_inv_choose [OF assms(2,3) _ _ add] Cons.prems(2) False by auto
    obtain r s1 where r: "f s (bt_insert next index ch) reqs' = (r, s1)" by (cases "f s (bt_insert next index ch) reqs'")
    show ?thesis
    proof (cases "r = Inr None")
      case True
      then have "solve_each E cs root f next constraints ch reqs indices s1 = (Inr (Some sol), s')"
        using Cons.prems(1) False add r by (auto split: if_splits)
      then show ?thesis using Cons.IH Cons.prems(2) by simp
    next
      case no: False
      then have "r = Inr (Some sol)" using Cons.prems(1) False add r by (auto split: if_splits sum.splits option.splits)
      then show ?thesis using assms(1) [OF _ inv] r by blast
    qed
  qed
qed simp

lemma solve_good:
  assumes "\<And>k is i. bt_get groups k = Some is \<Longrightarrow> i \<in> set is \<Longrightarrow> usable k i"
  shows "solve E cs groups root fuel s ch reqs = (Inr (Some sol), s') \<Longrightarrow> search_inv E cs root usable ch reqs \<Longrightarrow>
    good_choice E cs root usable sol \<and> (\<exists>out. dep_order cs sol root = Some (Inr out))"
proof (induction fuel arbitrary: s ch reqs sol s')
  case (Suc fuel)
  let ?s = "s\<lparr>sv_remaining := sv_remaining s - 1\<rparr>"
  have ok: "still_matching E cs reqs ch = Inr True"
    using Suc.prems(1) by (auto simp: Let_def split: if_splits sum.splits bool.splits)
  show ?case
  proof (cases "find (\<lambda>(key, _). bt_get ch key = None) reqs")
    case None
    then have "sol = ch \<and> (\<exists>out. dep_order cs ch root = Some (Inr out))"
      using Suc.prems(1) ok by (auto simp: Let_def split: if_splits option.splits sum.splits)
    then show ?thesis using solution_found [OF Suc.prems(2) ok None] by simp
  next
    case (Some p)
    obtain name constraints where p: "p = (name, constraints)" by (cases p)
    have free: "bt_get ch name = None" using Some by (auto simp: p find_Some_iff split_def) (metis fst_conv)
    obtain indices where g: "bt_get groups name = Some indices"
        "solve_each E cs root (solve E cs groups root fuel) name constraints ch reqs indices ?s = (Inr (Some sol), s')"
      using Suc.prems(1) ok Some by (auto simp: p Let_def split: if_splits option.splits)
    show ?thesis
      by (rule solve_each_good [OF Suc.IH Suc.prems(2) free g(2)]) (use assms [OF g(1)] in blast)+
  qed
qed simp

section \<open>Plans\<close>

definition usable :: "dep_env \<Rightarrow> dep_candidate list \<Rightarrow> nat \<Rightarrow> string \<Rightarrow> string \<Rightarrow> string \<Rightarrow> string \<Rightarrow> nat \<Rightarrow> bool" where
  "usable E cs root app platform architecture k i \<longleftrightarrow>
     i < length cs \<and> release_name (release_of cs i) = k \<and> dc_source (cs ! i) = dc_source (cs ! root) \<and>
     release_valid (dv_pkg E) (release_of cs i) \<and> \<not> incompatible E app platform architecture (release_of cs i)"

text \<open>Each candidate is passed over or added to the group of its name.\<close>

lemma build_groups_step:
  assumes "build_groups E cs root app platform architecture (index # rest) groups = Inr groups'" "index < length cs"
  shows "build_groups E cs root app platform architecture rest groups = Inr groups' \<and>
      \<not> usable E cs root app platform architecture (release_name (release_of cs index)) index \<or>
    build_groups E cs root app platform architecture rest (bt_push (release_name (release_of cs index)) index groups) = Inr groups' \<and>
      usable E cs root app platform architecture (release_name (release_of cs index)) index"
proof (cases "dc_source (cs ! index) = dc_source (cs ! root)")
  case False
  then show ?thesis using assms by (simp add: usable_def)
next
  case True
  then have v: "release_valid (dv_pkg E) (release_of cs index)"
    using assms(1) by (simp add: Let_def bindR_Inr_iff release_validate_def)
  show ?thesis
  proof (cases "incompatible E app platform architecture (release_of cs index)")
    case inc: True
    then show ?thesis using assms(1) True by (simp add: Let_def bindR_Inr_iff usable_def split: if_splits)
  next
    case False
    then show ?thesis using assms True v by (simp add: Let_def bindR_Inr_iff usable_def)
  qed
qed

definition groups_usable :: "dep_env \<Rightarrow> dep_candidate list \<Rightarrow> nat \<Rightarrow> string \<Rightarrow> string \<Rightarrow> string \<Rightarrow> (string \<times> nat list) list \<Rightarrow> bool" where
  "groups_usable E cs root app platform architecture groups \<longleftrightarrow>
     (\<forall>k is i. bt_get groups k = Some is \<longrightarrow> i \<in> set is \<longrightarrow> usable E cs root app platform architecture k i)"

lemma groups_usable_push:
  assumes "groups_usable E cs root app platform architecture groups" "usable E cs root app platform architecture name index"
  shows "groups_usable E cs root app platform architecture (bt_push name index groups)"
  unfolding groups_usable_def
proof (intro allI impI)
  fix k "is" i
  assume get: "bt_get (bt_push name index groups) k = Some is" and i: "i \<in> set is"
  have old: "i \<in> set js \<Longrightarrow> usable E cs root app platform architecture k i" if "bt_get groups k = Some js" for js
    using assms(1) that unfolding groups_usable_def by blast
  show "usable E cs root app platform architecture k i"
  proof (cases "k = name")
    case True
    then have "i = index \<or> (\<exists>js. bt_get groups k = Some js \<and> i \<in> set js)"
      using get i by (cases "bt_get groups name") (auto simp: bt_get_push)
    then show ?thesis using old assms(2) True by blast
  next
    case False
    then show ?thesis using get i old by (simp add: bt_get_push)
  qed
qed

lemma build_groups_usable:
  "build_groups E cs root app platform architecture rest groups = Inr groups' \<Longrightarrow> \<forall>i \<in> set rest. i < length cs \<Longrightarrow>
     groups_usable E cs root app platform architecture groups \<Longrightarrow> groups_usable E cs root app platform architecture groups'"
proof (induction rest arbitrary: groups)
  case (Cons index rest)
  have rest: "index < length cs" "\<forall>i \<in> set rest. i < length cs" using Cons.prems(2) by simp_all
  from build_groups_step [OF Cons.prems(1) rest(1)] show ?case
    by (elim disjE conjE) (rule Cons.IH [OF _ rest(2)], assumption, (rule Cons.prems(3) | rule groups_usable_push [OF Cons.prems(3)], assumption))+
qed simp

lemma set_insert_by: "set (insert_by lt x ys) = insert x (set ys)"
  by (induction lt x ys rule: insert_by.induct) auto

lemma set_sort_by: "set (sort_by lt xs) = set xs"
proof -
  have "set (foldr (insert_by lt) xs []) = set xs" by (induction xs) (simp_all add: set_insert_by)
  then show ?thesis by (simp add: sort_by_def)
qed

lemma plan_groups_usable:
  assumes "plan_groups E cs root app platform architecture = Inr groups" "bt_get groups k = Some is" "i \<in> set is"
  shows "usable E cs root app platform architecture k i"
proof -
  obtain g where g: "build_groups E cs root app platform architecture [0..<length cs] [] = Inr g"
      "groups = map (\<lambda>(k, is). (k, sort_by (preferred E cs) is)) g"
    using assms(1) by (auto simp: plan_groups_def bindR_Inr_iff)
  have "\<exists>js. bt_get g k = Some js \<and> is = sort_by (preferred E cs) js"
    using assms(2) by (auto simp: g(2) bt_get_def map_of_map)
  moreover have "groups_usable E cs root app platform architecture g"
    by (rule build_groups_usable [OF g(1)]) (simp_all add: groups_usable_def)
  ultimately show ?thesis using assms(3) by (auto simp: set_sort_by groups_usable_def)
qed

lemma position_Some: "position P xs = Some i \<Longrightarrow> i < length xs \<and> P (xs ! i)"
  by (auto simp: position_def find_Some_iff)

lemma choice_injective:
  "good_choice E cs root (usable E cs root' app platform architecture) ch \<Longrightarrow> i \<in> ran (bt_get ch) \<Longrightarrow> bt_get ch (release_name (release_of cs i)) = Some i"
  by (auto simp: good_choice_def usable_def ran_def)

lemma answer_iffs:
  "(case x of (Inl e, _) \<Rightarrow> Inl e | (Inr None, s) \<Rightarrow> Err (sv_failure s) | (Inr (Some ch), _) \<Rightarrow> Inr ch) = Inr ch' \<longleftrightarrow>
     (\<exists>s. x = (Inr (Some ch'), s))"
  "(case y of None \<Rightarrow> Err c | Some r \<Rightarrow> r) = Inr z \<longleftrightarrow> y = Some (Inr z)"
  by (auto split: prod.splits sum.splits option.splits)

text \<open>
  C13. A dependency plan can be installed in its order: it ends with the requested package, names no
  package twice, every package comes from the same source, is well formed and compatible with
  the application and platform, and each dependency of each package is met, at a version its
  requirement accepts, by a package that stands earlier in the plan.
\<close>

theorem dependency_plan_installable:
  assumes "plan_dependencies E cs root_key app platform architecture = Inr p"
  shows "\<exists>order root. root < length cs \<and> dc_package_key (cs ! root) = root_key \<and> order \<noteq> [] \<and> last order = root \<and>
    pl_packages p = map (\<lambda>i. lock_package E (cs ! i)) order \<and> distinct (map (\<lambda>i. release_name (release_of cs i)) order) \<and>
    (\<forall>i \<in> set order. usable E cs root app platform architecture (release_name (release_of cs i)) i) \<and>
    (\<forall>k < length order. \<forall>(d, w) \<in> set (xr_dependencies (release_of cs (order ! k))). \<exists>j < k. \<exists>req.
       dependency (release_of cs (order ! k)) d = Inr (release_name (release_of cs (order ! j))) \<and>
       requirement E w = Inr req \<and> dv_matches E req (xr_version (release_of cs (order ! j))))"
proof -
  from assms obtain root groups req s ch order where
      root: "position (\<lambda>c. dc_package_key c = root_key) cs = Some root" and
      groups: "plan_groups E cs root app platform architecture = Inr groups" and
      solved: "solve E cs groups root 10000 \<lparr>sv_remaining = 10000, sv_failure = ''EXTENSION_DEPENDENCY_CONFLICT''\<rparr> []
        [(release_name (release_of cs root), [req])] = (Inr (Some ch), s)" and
      order: "dep_order cs ch root = Some (Inr order)" and packages: "pl_packages p = map (\<lambda>i. lock_package E (cs ! i)) order"
    unfolding plan_dependencies_def bindR_Inr_iff Let_def require_simps ok_or_simps answer_iffs by auto
  let ?use = "usable E cs root app platform architecture"
  have "search_inv E cs root ?use [] [(release_name (release_of cs root), [req])]"
    by (simp add: search_inv_def bt_get_def bt_wf_def)
  then have good: "good_choice E cs root ?use ch"
    using solve_good [of groups ?use, OF _ solved] plan_groups_usable [OF groups] by blast
  have r: "root < length cs" "dc_package_key (cs ! root) = root_key" using position_Some [OF root] by auto
  note topo = dep_order_topological [OF order]
  have ran: "set order \<subseteq> ran (bt_get ch)"
    using topo good by (auto simp: good_choice_def ran_def)
  have back': "bt_get ch (release_name (release_of cs i)) = Some i" if "i \<in> set order" for i
    using choice_injective [OF good] ran that by blast
  have use: "?use (release_name (release_of cs i)) i" if "i \<in> set order" for i
    using back' [OF that] good by (simp add: good_choice_def)
  have names: "distinct (map (\<lambda>i. release_name (release_of cs i)) order)"
    using topo back' by (auto simp: topological_def distinct_map inj_on_def) (metis option.inject)
  have deps: "\<exists>j < k. \<exists>req. dependency (release_of cs (order ! k)) d = Inr (release_name (release_of cs (order ! j))) \<and>
       requirement E w = Inr req \<and> dv_matches E req (xr_version (release_of cs (order ! j)))"
    if k: "k < length order" and dw: "(d, w) \<in> set (xr_dependencies (release_of cs (order ! k)))" for k d w
  proof -
    have "provided cs ch (set (take k order)) (order ! k)" using topo k by (simp add: topological_def)
    then obtain j where "j \<in> set (take k order)" "provider cs ch (order ! k) d j" using dw unfolding provided_def by force
    then obtain m where m: "m < k" "provider cs ch (order ! k) d (order ! m)" using k by (auto simp: in_set_conv_nth)
    have "fulfilled E cs ch (order ! k)" using good back' [OF nth_mem [OF k]] by (simp add: good_choice_def)
    then obtain key req j where q: "dependency (release_of cs (order ! k)) d = Inr key" "requirement E w = Inr req" "bt_get ch key = Some j"
        "dv_matches E req (xr_version (release_of cs j))" using dw unfolding fulfilled_def by blast
    then have j: "j = order ! m" using m(2) by (simp add: provider_def)
    have "key = release_name (release_of cs j)" using good q(3) by (simp add: good_choice_def usable_def)
    then show ?thesis using q m(1) j by blast
  qed
  show ?thesis using r topo packages names use deps by (intro exI [of _ order] exI [of _ root]) auto
qed

section \<open>The search is exhaustive\<close>

definition extended_by :: "dep_env \<Rightarrow> dep_candidate list \<Rightarrow> chosen \<Rightarrow> requirements \<Rightarrow> chosen \<Rightarrow> bool" where
  "extended_by E cs ch reqs T \<longleftrightarrow>
     (\<forall>k i. bt_get ch k = Some i \<longrightarrow> bt_get T k = Some i) \<and>
     (\<forall>k all. bt_get reqs k = Some all \<longrightarrow> (\<exists>j. bt_get T k = Some j \<and> (\<forall>r \<in> set all. dv_matches E r (xr_version (release_of cs j)))))"

lemma still_matching_extended:
  assumes "bt_wf ch0" "extended_by E cs ch0 reqs T" "\<forall>i \<in> ran (bt_get ch0). dv_version E (xr_version (release_of cs i))"
  shows "set ch \<subseteq> set ch0 \<Longrightarrow> still_matching E cs reqs ch = Inr True"
proof (induction ch)
  case (Cons p ch)
  obtain k i where p: "p = (k, i)" by (cases p)
  then have k: "bt_get ch0 k = Some i" using Cons.prems bt_get_Some_iff [OF assms(1)] by simp
  have "\<not> unmatched E all (xr_version (release_of cs i))" if "bt_get reqs k = Some all" for all
    using assms(2) k that unfolding extended_by_def unmatched_def list_ex_iff by (metis option.inject)
  moreover have "dv_version E (xr_version (release_of cs i))" using assms(3) k by (auto simp: ran_def)
  ultimately show ?case using Cons by (simp add: p split: option.splits)
qed simp

lemma visit_agree:
  assumes "\<forall>i \<in> ran (bt_get ch). \<forall>d \<in> fst ` set (xr_dependencies (release_of cs i)).
      \<exists>key j. dependency (release_of cs i) d = Inr key \<and> bt_get ch key = Some j \<and> bt_get T key = Some j"
  shows "i \<in> ran (bt_get ch) \<Longrightarrow> visit cs ch fuel i st = visit cs T fuel i st"
proof (induction fuel arbitrary: i st)
  case (Suc fuel)
  have "visit_each cs ch (visit cs ch fuel) (release_of cs i) deps s = visit_each cs T (visit cs T fuel) (release_of cs i) deps s"
    if "set deps \<subseteq> set (xr_dependencies (release_of cs i))" for deps s
    using that
  proof (induction deps arbitrary: s)
    case (Cons p deps)
    obtain d w where p: "p = (d, w)" by (cases p)
    then have "d \<in> fst ` set (xr_dependencies (release_of cs i))" using Cons.prems by force
    then obtain key j where k: "dependency (release_of cs i) d = Inr key" "bt_get ch key = Some j" "bt_get T key = Some j"
      using assms Suc.prems by blast
    then have "visit cs ch fuel j s = visit cs T fuel j s" using Suc.IH by (auto simp: ran_def)
    then show ?case using Cons.IH Cons.prems k by (auto simp: p split: option.splits sum.splits)
  qed simp
  then show ?case by simp
qed simp

lemma solve_each_exhausts:
  "solve_each E cs root f name constraints ch reqs indices s = (Inr None, s') \<Longrightarrow> index \<in> set indices \<Longrightarrow>
     \<not> (name = release_name (release_of cs root) \<and> index \<noteq> root) \<Longrightarrow> \<not> unmatched E constraints (xr_version (release_of cs index)) \<Longrightarrow>
     add_requirements E (release_of cs index) (xr_dependencies (release_of cs index)) reqs = Inr reqs' \<Longrightarrow>
     \<exists>s1 s2. f s1 (bt_insert name index ch) reqs' = (Inr None, s2)"
proof (induction indices arbitrary: s)
  case (Cons i indices)
  show ?case
  proof (cases "i = index")
    case True
    then show ?thesis using Cons.prems by (auto split: if_splits prod.splits sum.splits option.splits)
  next
    case False
    then obtain s1 where "solve_each E cs root f name constraints ch reqs indices s1 = (Inr None, s')"
      using Cons.prems(1) by (auto split: if_splits prod.splits sum.splits option.splits)
    then show ?thesis using Cons.IH Cons.prems False by auto
  qed
qed simp

lemma add_requirements_fulfilled:
  assumes "extended_by E cs ch reqs T" "fulfilled E cs T i" "set deps \<subseteq> set (xr_dependencies (release_of cs i))"
  shows "\<exists>reqs'. add_requirements E (release_of cs i) deps reqs = Inr reqs' \<and> extended_by E cs ch reqs' T"
  using assms(1,3)
proof (induction deps arbitrary: reqs)
  case (Cons p deps)
  obtain d w where p: "p = (d, w)" by (cases p)
  then obtain key req j where k: "dependency (release_of cs i) d = Inr key" "requirement E w = Inr req" "bt_get T key = Some j"
      "dv_matches E req (xr_version (release_of cs j))"
    using assms(2) Cons.prems(2) unfolding fulfilled_def by force
  have "extended_by E cs ch (bt_push key req reqs) T"
    unfolding extended_by_def
  proof (intro conjI allI impI)
    show "bt_get T x = Some m" if "bt_get ch x = Some m" for x m using Cons.prems(1) that by (simp add: extended_by_def)
    fix x all
    assume x: "bt_get (bt_push key req reqs) x = Some all"
    have old: "\<exists>m. bt_get T x = Some m \<and> (\<forall>r \<in> set b. dv_matches E r (xr_version (release_of cs m)))" if "bt_get reqs x = Some b" for b
      using Cons.prems(1) that by (simp add: extended_by_def)
    show "\<exists>m. bt_get T x = Some m \<and> (\<forall>r \<in> set all. dv_matches E r (xr_version (release_of cs m)))"
    proof (cases "x = key")
      case True
      then show ?thesis using x old k(3,4) by (cases "bt_get reqs key") (auto simp: bt_get_push)
    next
      case False
      then show ?thesis using x old by (simp add: bt_get_push)
    qed
  qed
  then show ?case using Cons.IH Cons.prems(2) k by (simp add: p)
qed simp

text \<open>
  Which packages need which, and that no package needed for the requested one needs itself. Neither
  mentions the order the program computes.
\<close>

definition depends :: "dep_candidate list \<Rightarrow> chosen \<Rightarrow> nat \<Rightarrow> nat \<Rightarrow> bool" where
  "depends cs ch i j \<longleftrightarrow> (\<exists>(d, w) \<in> set (xr_dependencies (release_of cs i)). provider cs ch i d j)"

definition no_cycle :: "dep_candidate list \<Rightarrow> chosen \<Rightarrow> nat \<Rightarrow> bool" where
  "no_cycle cs ch root \<longleftrightarrow> (\<forall>i. (depends cs ch)\<^sup>*\<^sup>* root i \<longrightarrow> \<not> (depends cs ch)\<^sup>+\<^sup>+ i i)"

definition installable :: "dep_env \<Rightarrow> dep_candidate list \<Rightarrow> nat \<Rightarrow> (string \<Rightarrow> nat \<Rightarrow> bool) \<Rightarrow> chosen \<Rightarrow> bool" where
  "installable E cs root use T \<longleftrightarrow> good_choice E cs root use T \<and> no_cycle cs T root"

text \<open>In a topological list every package needed, directly or not, stands earlier.\<close>

lemma topological_depends:
  assumes "topological cs ch out" "k < length out" "depends cs ch (out ! k) j"
  shows "\<exists>m < k. out ! m = j"
proof -
  obtain d w where d: "(d, w) \<in> set (xr_dependencies (release_of cs (out ! k)))" "provider cs ch (out ! k) d j"
    using assms(3) by (auto simp: depends_def)
  have "provided cs ch (set (take k out)) (out ! k)" using assms(1,2) by (simp add: topological_def)
  then obtain j' where j': "j' \<in> set (take k out)" "provider cs ch (out ! k) d j'"
    using d(1) unfolding provided_def by force
  then have "j' = j" using d(2) by (auto simp: provider_def)
  then show ?thesis using j'(1) assms(2) by (auto simp: in_set_conv_nth)
qed

lemma topological_trancl:
  assumes "topological cs ch out"
  shows "(depends cs ch)\<^sup>+\<^sup>+ i j \<Longrightarrow> k < length out \<Longrightarrow> out ! k = i \<Longrightarrow> \<exists>m < k. out ! m = j"
proof (induction arbitrary: k rule: tranclp_induct)
  case (base j)
  then show ?case using topological_depends [OF assms] by blast
next
  case (step j j')
  then obtain m where "m < k" "out ! m = j" by blast
  then show ?case using topological_depends [OF assms, of m j'] step.hyps(2) step.prems(1) by (metis dual_order.strict_trans)
qed

lemma dep_order_no_cycle:
  assumes "dep_order cs ch root = Some (Inr out)" shows "no_cycle cs ch root"
proof -
  have topo: "topological cs ch out" and root: "root \<in> set out"
    using dep_order_topological [OF assms] by auto
  have "i \<in> set out" if "(depends cs ch)\<^sup>*\<^sup>* root i" for i
    using that root
  proof (induction rule: rtranclp_induct)
    case (step j k)
    then obtain m where "m < length out" "out ! m = j" by (metis in_set_conv_nth)
    then show ?case using topological_depends [OF topo, of m k] step.hyps(2) by (metis dual_order.strict_trans nth_mem)
  qed
  moreover have "\<not> (depends cs ch)\<^sup>+\<^sup>+ i i" if "i \<in> set out" for i
  proof
    assume cycle: "(depends cs ch)\<^sup>+\<^sup>+ i i"
    obtain k where k: "k < length out" "out ! k = i" using \<open>i \<in> set out\<close> by (auto simp: in_set_conv_nth)
    then obtain m where "m < k" "out ! m = i" using topological_trancl [OF topo cycle] by blast
    then show False using k topo by (auto simp: topological_def nth_eq_iff_index_eq)
  qed
  ultimately show ?thesis by (simp add: no_cycle_def)
qed

text \<open>Conversely, a visit only fails when a package is missing or is needed by itself.\<close>

lemma visit_each_accepts:
  assumes "\<And>j st e. depends cs ch i j \<Longrightarrow> vs_active st = active \<Longrightarrow> v j st \<noteq> Some (Inl e)"
    and "\<And>j st st'. v j st = Some (Inr st') \<Longrightarrow> vs_active st' = vs_active st" and "provided cs ch UNIV i"
  shows "set deps \<subseteq> set (xr_dependencies (release_of cs i)) \<Longrightarrow> vs_active st = active \<Longrightarrow>
    visit_each cs ch v (release_of cs i) deps st \<noteq> Some (Inl e)"
proof (induction deps arbitrary: st)
  case (Cons p deps)
  obtain d w where p: "p = (d, w)" by (cases p)
  then have dep: "(d, w) \<in> set (xr_dependencies (release_of cs i))" using Cons.prems(1) by simp
  then obtain j where j: "provider cs ch i d j" using assms(3) unfolding provided_def by force
  then have no: "v j st \<noteq> Some (Inl e)" for e using assms(1) [OF _ Cons.prems(2)] dep unfolding depends_def by blast
  have "bindR (dependency (release_of cs i) d) (\<lambda>key. ok_or (bt_get ch key) ''EXTENSION_DEPENDENCY_MISSING'') = Inr j"
    using j by (auto simp: provider_def)
  moreover have "visit_each cs ch v (release_of cs i) deps st1 \<noteq> Some (Inl e)" if "v j st = Some (Inr st1)" for st1
    using Cons.IH [of st1] Cons.prems assms(2) [OF that] by simp
  ultimately show ?case using no by (auto simp: p split: option.split sum.split)
qed simp

lemma visit_accepts:
  assumes "no_cycle cs ch root" "\<And>i. (depends cs ch)\<^sup>*\<^sup>* root i \<Longrightarrow> provided cs ch UNIV i"
  shows "(depends cs ch)\<^sup>*\<^sup>* root index \<Longrightarrow> \<forall>a \<in> set (vs_active st). (depends cs ch)\<^sup>+\<^sup>+ a index \<Longrightarrow>
    visit cs ch fuel index st \<noteq> Some (Inl e)"
proof (induction fuel arbitrary: index st e)
  case (Suc fuel)
  let ?in = "st\<lparr>vs_active := index # vs_active st\<rparr>"
  have new: "index \<notin> set (vs_active st)" using assms(1) Suc.prems unfolding no_cycle_def by blast
  have "visit cs ch fuel j s \<noteq> Some (Inl e)" if "depends cs ch index j" "vs_active s = index # vs_active st" for j s e
  proof (rule Suc.IH)
    show "(depends cs ch)\<^sup>*\<^sup>* root j" using Suc.prems(1) that(1) by (rule rtranclp.rtrancl_into_rtrancl)
    show "\<forall>a \<in> set (vs_active s). (depends cs ch)\<^sup>+\<^sup>+ a j"
      using Suc.prems(2) that by (auto intro: tranclp.trancl_into_trancl)
  qed
  then have "visit_each cs ch (visit cs ch fuel) (release_of cs index) (xr_dependencies (release_of cs index)) ?in \<noteq> Some (Inl e)" for e
    by (intro visit_each_accepts [where active = "index # vs_active st"]) (auto intro: visit_active assms(2) Suc.prems(1))
  then show ?case using new by (auto split: option.split sum.split)
qed simp

text \<open>So the order exists exactly when the choice has no cycle, and packages may be needed twice.\<close>

lemma dep_order_iff_no_cycle:
  assumes "good_choice E cs root use ch" "\<And>k i. use k i \<Longrightarrow> i < length cs"
  shows "(\<exists>out. dep_order cs ch root = Some (Inr out)) \<longleftrightarrow> no_cycle cs ch root"
proof
  assume cycle: "no_cycle cs ch root"
  have root: "root \<in> ran (bt_get ch)" using assms(1) by (auto simp: good_choice_def ran_def)
  have provided: "provided cs ch UNIV i" if "i \<in> ran (bt_get ch)" for i
    using assms(1) that unfolding good_choice_def provided_def fulfilled_def provider_def ran_def by fastforce
  have "i \<in> ran (bt_get ch)" if "(depends cs ch)\<^sup>*\<^sup>* root i" for i
    using that root by (induction rule: rtranclp_induct) (auto simp: depends_def provider_def ran_def)
  then have "visit cs ch n root \<lparr>vs_active = [], vs_done = [], vs_output = []\<rparr> \<noteq> Some (Inl e)" for n e
    using provided by (intro visit_accepts [OF cycle]) auto
  moreover have "ran (bt_get ch) \<subseteq> {..<length cs}" using assms by (auto simp: good_choice_def ran_def)
  then obtain r where "dep_order cs ch root = Some r" using dep_order_ends root by blast
  ultimately show "\<exists>out. dep_order cs ch root = Some (Inr out)"
    unfolding dep_order_def by (cases r) (auto simp: bindR_def split: sum.splits simp del: visit.simps)
next
  assume "\<exists>out. dep_order cs ch root = Some (Inr out)"
  then show "no_cycle cs ch root" using dep_order_no_cycle by blast
qed

lemma order_of_part:
  assumes "search_inv E cs root use ch reqs" "find (\<lambda>(key, _). bt_get ch key = None) reqs = None" "extended_by E cs ch reqs T"
  shows "dep_order cs ch root = dep_order cs T root"
proof -
  have all: "\<exists>j. bt_get ch key = Some j" if "bt_get reqs key = Some x" for key x
    using that assms(1,2) bt_get_Some_iff [of reqs] by (auto simp: find_None_iff search_inv_def)
  have agree: "\<exists>key j. dependency (release_of cs i) d = Inr key \<and> bt_get ch key = Some j \<and> bt_get T key = Some j"
    if i: "i \<in> ran (bt_get ch)" and d: "d \<in> fst ` set (xr_dependencies (release_of cs i))" for i d
  proof -
    have "demanded E cs reqs i" using i assms(1) by (auto simp: search_inv_def ran_def)
    then obtain key x where "dependency (release_of cs i) d = Inr key" "bt_get reqs key = Some x"
      using d unfolding demanded_def by force
    then show ?thesis using all assms(3) unfolding extended_by_def by blast
  qed
  obtain x where "bt_get reqs (release_name (release_of cs root)) = Some x" using assms(1) by (auto simp: search_inv_def)
  then obtain j where "bt_get ch (release_name (release_of cs root)) = Some j" using all by blast
  then have "root \<in> ran (bt_get ch)" using assms(1) by (auto simp: search_inv_def ran_def)
  then have "visit cs ch n root st = visit cs T n root st" for n st
    by (rule visit_agree [rotated]) (intro ballI agree)
  then show ?thesis unfolding dep_order_def by (simp only:)
qed

lemma solve_exhausts:
  assumes groups: "\<And>k i. use k i \<Longrightarrow> dv_version E (xr_version (release_of cs i)) \<and> (\<exists>is. bt_get groups k = Some is \<and> i \<in> set is)"
    and T: "good_choice E cs root use T" "\<exists>out. dep_order cs T root = Some (Inr out)"
  shows "solve E cs groups root fuel s ch reqs = (Inr None, s') \<Longrightarrow> search_inv E cs root use ch reqs \<Longrightarrow> extended_by E cs ch reqs T \<Longrightarrow> False"
proof (induction fuel arbitrary: s ch reqs s')
  case (Suc fuel)
  let ?s = "s\<lparr>sv_remaining := sv_remaining s - 1\<rparr>"
  have good: "\<forall>k i. bt_get T k = Some i \<longrightarrow> use k i \<and> fulfilled E cs T i" "bt_get T (release_name (release_of cs root)) = Some root"
    using T(1) by (simp_all add: good_choice_def)
  have "\<forall>i \<in> ran (bt_get ch). dv_version E (xr_version (release_of cs i))"
    using Suc.prems(2) groups by (fastforce simp: search_inv_def ran_def)
  then have ok: "still_matching E cs reqs ch = Inr True"
    using still_matching_extended [of ch E cs reqs T ch] Suc.prems(2,3) by (simp add: search_inv_def)
  have run: "sv_remaining s \<noteq> 0" "\<not> 200 < length reqs" using Suc.prems(1) by (auto simp: Let_def split: if_splits)
  show ?case
  proof (cases "find (\<lambda>(key, _). bt_get ch key = None) reqs")
    case None
    have "\<exists>out. dep_order cs ch root = Some (Inr out)"
      using order_of_part [OF Suc.prems(2) None Suc.prems(3)] T(2) by simp
    then show ?thesis using Suc.prems(1) ok None run by (auto simp: Let_def)
  next
    case (Some p)
    obtain name constraints where p: "p = (name, constraints)" by (cases p)
    have free: "bt_get ch name = None" and at: "bt_get reqs name = Some constraints"
      using Some Suc.prems(2) bt_get_Some_iff [of reqs name constraints] by (auto simp: p search_inv_def find_Some_iff split_def) (metis fst_conv nth_mem snd_conv)+
    obtain index where i: "bt_get T name = Some index" "\<forall>r \<in> set constraints. dv_matches E r (xr_version (release_of cs index))"
      using Suc.prems(3) at unfolding extended_by_def by blast
    then have u: "use name index" "fulfilled E cs T index" using good(1) by blast+
    obtain indices where g: "bt_get groups name = Some indices" "index \<in> set indices" using groups u(1) by blast
    have each: "solve_each E cs root (solve E cs groups root fuel) name constraints ch reqs indices ?s = (Inr None, s')"
      using Suc.prems(1) ok Some run g(1) by (simp add: p Let_def)
    obtain reqs' where r: "add_requirements E (release_of cs index) (xr_dependencies (release_of cs index)) reqs = Inr reqs'"
        "extended_by E cs ch reqs' T"
      using add_requirements_fulfilled [OF Suc.prems(3) u(2)] by blast
    have root: "name = release_name (release_of cs root) \<Longrightarrow> index = root" using i(1) good(2) by simp
    have m: "\<not> unmatched E constraints (xr_version (release_of cs index))" using i(2) by (simp add: unmatched_def list_ex_iff)
    obtain s1 s2 where rec: "solve E cs groups root fuel s1 (bt_insert name index ch) reqs' = (Inr None, s2)"
      using solve_each_exhausts [OF each g(2) _ m r(1)] root by blast
    have "extended_by E cs (bt_insert name index ch) reqs' T" using r(2) i(1) by (simp add: extended_by_def)
    then show ?thesis using Suc.IH [OF rec] search_inv_choose [OF Suc.prems(2) free u(1) root r(1)] by blast
  qed
qed simp

lemma build_groups_complete:
  "build_groups E cs root app platform architecture rest groups = Inr groups' \<Longrightarrow>
     (\<exists>is. bt_get groups k = Some is \<and> i \<in> set is) \<or> (i \<in> set rest \<and> usable E cs root app platform architecture k i) \<Longrightarrow> \<forall>i \<in> set rest. i < length cs \<Longrightarrow>
     \<exists>is. bt_get groups' k = Some is \<and> i \<in> set is"
proof (induction rest arbitrary: groups)
  case (Cons index rest)
  let ?r = "release_of cs index" and ?use = "usable E cs root app platform architecture"
  consider (skip) "build_groups E cs root app platform architecture rest groups = Inr groups'" "\<not> ?use k index"
    | (push) "build_groups E cs root app platform architecture rest (bt_push (release_name ?r) index groups) = Inr groups'"
    using build_groups_step [OF Cons.prems(1)] Cons.prems(3) by (auto simp: usable_def)
  then show ?case
  proof cases
    case skip
    show ?thesis by (rule Cons.IH [OF skip(1)]) (use Cons.prems(2,3) skip(2) in auto)
  next
    case push
    have "\<exists>is. bt_get (bt_push (release_name ?r) index groups) k = Some is \<and> i \<in> set is"
      if "(\<exists>is. bt_get groups k = Some is \<and> i \<in> set is) \<or> (i = index \<and> ?use k index)"
      using that by (auto simp: bt_get_push usable_def)
    then show ?thesis using Cons.IH [OF push] Cons.prems(2,3) by auto
  qed
qed simp

lemma plan_groups_complete:
  assumes "plan_groups E cs root app platform architecture = Inr groups" "usable E cs root app platform architecture k i"
  shows "dv_version E (xr_version (release_of cs i)) \<and> (\<exists>is. bt_get groups k = Some is \<and> i \<in> set is)"
proof -
  obtain g where g: "build_groups E cs root app platform architecture [0..<length cs] [] = Inr g"
      "groups = map (\<lambda>(k, is). (k, sort_by (preferred E cs) is)) g"
    using assms(1) by (auto simp: plan_groups_def bindR_Inr_iff)
  have "i < length cs" "dv_version E (xr_version (release_of cs i))"
    using assms(2) by (simp_all add: usable_def release_valid_def version_ok_def)
  moreover have "\<exists>is. bt_get g k = Some is \<and> i \<in> set is"
    by (rule build_groups_complete [OF g(1)]) (use assms(2) calculation in simp_all)
  ultimately show ?thesis by (auto simp: g(2) bt_get_def map_of_map set_sort_by)
qed

text \<open>
  C12. The search for a plan is exact: when it answers within its budget, it finds a choice of packages
  if and only if there is one that contains the requested package, meets every requirement of
  every chosen package with a usable candidate, and in which no package that the requested one
  needs, directly or not, needs itself. Backtracking never misses a solution, two packages may need
  the same third one, and whatever the search returns is a solution.
\<close>

theorem dependency_search_exact:
  assumes "plan_groups E cs root app platform architecture = Inr groups"
    and "dv_matches E req (xr_version (release_of cs root))"
    and "solve E cs groups root fuel s [] [(release_name (release_of cs root), [req])] = (Inr answer, s')"
  shows "(\<forall>T. answer = Some T \<longrightarrow> installable E cs root (usable E cs root app platform architecture) T) \<and>
    (answer = None \<longleftrightarrow> \<not> (\<exists>T. installable E cs root (usable E cs root app platform architecture) T))"
proof -
  let ?use = "usable E cs root app platform architecture"
  have start: "search_inv E cs root ?use [] [(release_name (release_of cs root), [req])]"
    by (simp add: search_inv_def bt_get_def bt_wf_def)
  have fits: "installable E cs root ?use T \<longleftrightarrow> good_choice E cs root ?use T \<and> (\<exists>out. dep_order cs T root = Some (Inr out))" for T
    using dep_order_iff_no_cycle [of E cs root ?use T] by (auto simp: installable_def usable_def)
  have sound: "installable E cs root ?use T" if "answer = Some T" for T
    using solve_good [of groups ?use E cs root fuel s "[]" _ T s'] plan_groups_usable [OF assms(1)] assms(3) start that
    by (simp add: fits)
  have "\<not> installable E cs root ?use T" if "answer = None" for T
  proof
    assume T: "installable E cs root ?use T"
    then have "extended_by E cs [] [(release_name (release_of cs root), [req])] T"
      using assms(2) by (simp add: extended_by_def installable_def good_choice_def bt_get_def)
    then show False
      using solve_exhausts [OF plan_groups_complete [OF assms(1)]] T assms(3) start that unfolding fits by blast
  qed
  then show ?thesis using sound by (cases answer) auto
qed

section \<open>Example values\<close>

definition demo_dep_env :: dep_env where
  "demo_dep_env = \<lparr>dv_pkg = demo_pkg_env, dv_less = (\<lambda>_ _. False), dv_requirement = (\<lambda>_. True), dv_matches = (\<lambda>_ _. True),
     dv_release_text = (\<lambda>_. []), dv_plan_text = (\<lambda>_. [])\<rparr>"

definition demo_candidate :: "string \<Rightarrow> (string \<times> string) list \<Rightarrow> dep_candidate" where
  "demo_candidate i deps = \<lparr>dc_package_key = i, dc_source = [], dc_release = demo_theme\<lparr>xr_package_id := i, xr_dependencies := deps\<rparr>,
     dc_signer_sha256 = []\<rparr>"

definition demo_candidates :: "dep_candidate list" where
  "demo_candidates = [demo_candidate ''bb'' [(''cc'', ''1.0.0'')], demo_candidate ''cc'' []]"

lemma demo_candidate_valid:
  "release_valid demo_pkg_env (demo_theme\<lparr>xr_package_id := ''bb'', xr_dependencies := [(''cc'', ''1.0.0'')]\<rparr>)"
  "release_valid demo_pkg_env (demo_theme\<lparr>xr_package_id := ''cc'', xr_dependencies := []\<rparr>)"
  using demo_theme_valid
  by (simp_all add: release_valid_def demo_theme_def identity_slug_def ascii_defs release_bounded_def chars_count_def utf8_tail_def byte_in_def)

lemma sort_by_single: "sort_by lt [x] = [x]"
  by (simp add: sort_by_def)

lemma demo_theme_fields:
  "xr_namespace demo_theme = ''aa''" "xr_version demo_theme = ''1.0.0''" "xr_min_app_version demo_theme = ''1.0.0''"
  "xr_max_app_version demo_theme = None" "xr_platforms demo_theme = []" "xr_architectures demo_theme = []"
  by (simp_all add: demo_theme_def)

lemma demo_dep_env_fields:
  "dv_pkg demo_dep_env = demo_pkg_env" "px_version demo_pkg_env v" "dv_matches demo_dep_env r v" "\<not> dv_less demo_dep_env v w"
  "requirement demo_dep_env v = Inr (''='' @ v)" "dv_plan_text demo_dep_env x = []"
  by (simp_all add: demo_dep_env_def demo_pkg_env_def requirement_def)

lemma demo_groups:
  "plan_groups demo_dep_env demo_candidates 0 ''1.0.0'' ''windows'' ''x86_64'' = Inr [(''aa/bb'', [0]), (''aa/cc'', [1])]"
  using demo_candidate_valid
  by (simp add: plan_groups_def demo_candidates_def demo_candidate_def upt_rec release_validate_def demo_dep_env_fields incompatible_def
      release_name_def bt_push_def bt_get_def sort_by_single demo_theme_fields)

lemma demo_dependency:
  "dependency (demo_theme\<lparr>xr_package_id := ''bb'', xr_dependencies := [(''cc'', ''1.0.0'')]\<rparr>) ''cc'' = Inr ''aa/cc''"
  by (simp add: dependency_def demo_theme_def identity_slug_def ascii_defs)

lemma demo_root_name:
  "release_name (release_of demo_candidates 0) = ''aa/bb''" "xr_version (release_of demo_candidates 0) = ''1.0.0''"
  by (simp_all add: demo_candidates_def demo_candidate_def release_name_def demo_theme_fields)

lemma demo_order:
  "dep_order demo_candidates [(''aa/bb'', 0), (''aa/cc'', 1)] 0 = Some (Inr [1, 0])"
  using demo_dependency
  by (simp add: dep_order_def demo_candidates_def demo_candidate_def bt_get_def)

lemma demo_solve:
  "solve demo_dep_env demo_candidates [(''aa/bb'', [0]), (''aa/cc'', [1])] 0 (Suc (Suc (Suc n))) \<lparr>sv_remaining = 10000, sv_failure = f\<rparr> []
     [(''aa/bb'', [''=1.0.0''])] =
     (Inr (Some [(''aa/bb'', 0), (''aa/cc'', 1)]), \<lparr>sv_remaining = 9997, sv_failure = f\<rparr>)"
proof -
  have unmatched: "\<not> unmatched demo_dep_env rs v" for rs v by (simp add: unmatched_def demo_dep_env_fields list_ex_iff)
  have deps: "xr_dependencies (release_of demo_candidates 0) = [(''cc'', ''1.0.0'')]" "xr_dependencies (release_of demo_candidates 1) = []"
      "dependency (release_of demo_candidates 0) ''cc'' = Inr ''aa/cc''"
    using demo_dependency by (simp_all add: demo_candidates_def demo_candidate_def)
  show ?thesis
    using demo_order by (simp add: demo_dep_env_fields unmatched demo_root_name deps bt_get_def bt_push_def Let_def del: One_nat_def)
qed

lemma demo_planned:
  "plan_dependencies demo_dep_env demo_candidates ''bb'' ''1.0.0'' ''windows'' ''x86_64'' =
     Inr \<lparr>pl_fingerprint = px_sha demo_pkg_env [], pl_packages = map (\<lambda>i. lock_package demo_dep_env (demo_candidates ! i)) [1, 0]\<rparr>"
proof -
  have root: "position (\<lambda>c. dc_package_key c = ''bb'') demo_candidates = Some 0" "length demo_candidates = 2"
    by (simp_all add: position_def demo_candidates_def demo_candidate_def upt_rec)
  have "(10000 :: nat) = Suc (Suc (Suc 9997))" by simp
  then have solved: "solve demo_dep_env demo_candidates [(''aa/bb'', [0]), (''aa/cc'', [1])] 0 10000
      \<lparr>sv_remaining = 10000, sv_failure = f\<rparr> [] [(''aa/bb'', [''=1.0.0''])] =
      (Inr (Some [(''aa/bb'', 0), (''aa/cc'', 1)]), \<lparr>sv_remaining = 9997, sv_failure = f\<rparr>)" for f
    using demo_solve [of 9997 f] by argo
  show ?thesis
    using demo_order by (simp add: plan_dependencies_def root demo_root_name demo_dep_env_fields demo_groups solved del: One_nat_def)
qed

theorem dependency_plan_installable_witness:
  "\<exists>order root. root < length demo_candidates \<and> dc_package_key (demo_candidates ! root) = ''bb'' \<and> order \<noteq> [] \<and> last order = root \<and>
     map (\<lambda>i. lock_package demo_dep_env (demo_candidates ! i)) [1, 0] = map (\<lambda>i. lock_package demo_dep_env (demo_candidates ! i)) order"
  using dependency_plan_installable [OF demo_planned] unfolding dep_plan.simps by blast

theorem dependency_search_exact_witness:
  "installable demo_dep_env demo_candidates 0 (usable demo_dep_env demo_candidates 0 ''1.0.0'' ''windows'' ''x86_64'')
     [(''aa/bb'', 0), (''aa/cc'', 1)]"
  using dependency_search_exact [OF demo_groups, of "''=1.0.0''" "Suc (Suc (Suc 0))" "\<lparr>sv_remaining = 10000, sv_failure = []\<rparr>"]
    demo_solve [of 0 "[]"] by (simp add: demo_dep_env_fields demo_root_name)

end
