(* ===== verification/Content_Contracts.thy ===== *)
theory Content_Contracts
  imports Path_Policy
begin

text \<open>
  What may be stored under a path: JSON Canvas documents (\<open>canvas_contract.rs\<close>), versioned
  logical records (\<open>records.rs\<close>) and the portable settings records carry
  (\<open>preference_records.rs\<close>). Parsing JSON text, decoding a JSON value into a struct and parsing
  a URL are parameters; every check the host makes on the result is a definition here.
\<close>

section \<open>Canvas documents\<close>

record parsed_url =
  url_scheme :: string
  url_host :: "string option"
  url_username :: string
  url_password :: "string option"
  url_port :: "nat option"

record canvas_env =
  json_from_slice :: "string \<Rightarrow> json option"
  url_parse :: "string \<Rightarrow> parsed_url option"

definition max_canvas_bytes :: nat where "max_canvas_bytes = 4 * 1024 * 1024"
definition max_nodes :: nat where "max_nodes = 2000"
definition max_edges :: nat where "max_edges = 4000"

definition coordinate :: "json \<Rightarrow> bool" where
  "coordinate v \<longleftrightarrow> json_in_range (- 1000000) 1000000 v"

definition dimension :: "json \<Rightarrow> bool" where
  "dimension v \<longleftrightarrow> json_in_range 1 100000 v"

definition vault_part :: "string \<Rightarrow> bool" where
  "vault_part part \<longleftrightarrow>
     part \<noteq> [] \<and> part \<noteq> ''.'' \<and> part \<noteq> ''..'' \<and> \<not> starts_with ''.'' part \<and>
     \<not> (part \<noteq> [] \<and> last part \<in> {CHR ''.'', CHR '' ''}) \<and>
     \<not> reserved_stem (to_ascii_uppercase (first_part (CHR ''.'') part)) \<and>
     \<not> eq_ignore_ascii_case part ''opennexus-records''"

definition vault_file :: "string \<Rightarrow> bool" where
  "vault_file v \<longleftrightarrow>
     v \<noteq> [] \<and> \<not> starts_with ''/'' v \<and> CHR 0x5C \<notin> set v \<and> CHR '':'' \<notin> set v \<and> CHR 0x00 \<notin> set v \<and>
     \<not> list_ex (\<lambda>c. char_is_control c \<or> c \<in> {63, 42, 34, 60, 62, 124}) (str_chars v) \<and>
     list_all vault_part (split_on (CHR ''/'') v)"

definition web_url :: "canvas_env \<Rightarrow> string \<Rightarrow> bool" where
  "web_url E v \<longleftrightarrow>
     \<not> list_ex char_is_whitespace (str_chars v) \<and>
     (case url_parse E v of
        None \<Rightarrow> False
      | Some u \<Rightarrow> url_scheme u \<in> {''http'', ''https''} \<and>
          (case url_host u of None \<Rightarrow> False | Some h \<Rightarrow> h \<noteq> []) \<and>
          url_username u = [] \<and> url_password u = None \<and> url_port u \<noteq> Some 0)"

definition optional_field :: "json \<Rightarrow> string \<Rightarrow> (string \<Rightarrow> bool) \<Rightarrow> bool" where
  "optional_field item key valid \<longleftrightarrow>
     (case json_get item key of
        None \<Rightarrow> True
      | Some v \<Rightarrow> (case as_str v of None \<Rightarrow> False | Some s \<Rightarrow> valid s))"

definition field_ok :: "json \<Rightarrow> string \<Rightarrow> (json \<Rightarrow> bool) \<Rightarrow> bool" where
  "field_ok item key valid \<longleftrightarrow> (case json_get item key of None \<Rightarrow> False | Some v \<Rightarrow> valid v)"

definition str_field :: "json \<Rightarrow> string \<Rightarrow> string option" where
  "str_field item key = (case json_get item key of None \<Rightarrow> None | Some v \<Rightarrow> as_str v)"

definition is_ascii_hexdigit :: "char \<Rightarrow> bool" where
  "is_ascii_hexdigit c \<longleftrightarrow> is_lower_hex c \<or> (65 \<le> (of_char c :: nat) \<and> (of_char c :: nat) \<le> 70)"

definition canvas_color :: "string \<Rightarrow> bool" where
  "canvas_color v \<longleftrightarrow>
     v \<in> {''1'', ''2'', ''3'', ''4'', ''5'', ''6''} \<or>
     (length v = 7 \<and> starts_with ''#'' v \<and> list_all is_ascii_hexdigit (drop 1 v))"

definition node_kind_ok :: "canvas_env \<Rightarrow> json \<Rightarrow> bool" where
  "node_kind_ok E node \<longleftrightarrow>
     (case str_field node ''type'' of
        None \<Rightarrow> False
      | Some t \<Rightarrow>
          (t = ''text'' \<and> str_field node ''text'' \<noteq> None) \<or>
          (t = ''file'' \<and> (case str_field node ''file'' of None \<Rightarrow> False | Some f \<Rightarrow> vault_file f)) \<or>
          (t = ''link'' \<and> (case str_field node ''url'' of None \<Rightarrow> False | Some u \<Rightarrow> web_url E u)) \<or>
          t = ''group'')"

text \<open>The loop over the nodes; it returns the identifiers seen.\<close>

fun check_nodes :: "canvas_env \<Rightarrow> string list \<Rightarrow> json list \<Rightarrow> string list result" where
  "check_nodes E ids [] = Inr ids"
| "check_nodes E ids (node # nodes) =
     bindR (require (is_object node) ''CANVAS_INVALID'') (\<lambda>_.
     bindR (ok_or (str_field node ''id'') ''CANVAS_INVALID'') (\<lambda>i.
     bindR (require (i \<noteq> [] \<and> length i \<le> 128 \<and> i \<notin> set ids) ''CANVAS_INVALID'') (\<lambda>_.
     bindR (require (field_ok node ''x'' coordinate \<and> field_ok node ''y'' coordinate \<and>
                     field_ok node ''width'' dimension \<and> field_ok node ''height'' dimension)
              ''CANVAS_INVALID'') (\<lambda>_.
     bindR (require (optional_field node ''color'' canvas_color \<and>
                     optional_field node ''subpath'' (starts_with ''#'') \<and>
                     optional_field node ''label'' (\<lambda>_. True) \<and>
                     optional_field node ''background'' vault_file \<and>
                     optional_field node ''backgroundStyle'' (\<lambda>v. v \<in> {''cover'', ''ratio'', ''repeat''}))
              ''CANVAS_INVALID'') (\<lambda>_.
     bindR (require (node_kind_ok E node) ''CANVAS_INVALID'') (\<lambda>_.
     check_nodes E (i # ids) nodes))))))"

fun check_edges :: "string list \<Rightarrow> string list \<Rightarrow> json list \<Rightarrow> unit result" where
  "check_edges ids seen [] = Inr ()"
| "check_edges ids seen (edge # edges) =
     bindR (require (is_object edge) ''CANVAS_INVALID'') (\<lambda>_.
     bindR (ok_or (str_field edge ''id'') ''CANVAS_INVALID'') (\<lambda>i.
     bindR (ok_or (str_field edge ''fromNode'') ''CANVAS_INVALID'') (\<lambda>from'.
     bindR (ok_or (str_field edge ''toNode'') ''CANVAS_INVALID'') (\<lambda>to'.
     bindR (require (i \<noteq> [] \<and> length i \<le> 128 \<and> i \<notin> set seen \<and> from' \<in> set ids \<and> to' \<in> set ids)
              ''CANVAS_INVALID'') (\<lambda>_.
     bindR (require (optional_field edge ''color'' canvas_color \<and> optional_field edge ''label'' (\<lambda>_. True) \<and>
                     list_all (\<lambda>key. optional_field edge key (\<lambda>v. v \<in> {''left'', ''right'', ''top'', ''bottom''}))
                       [''fromSide'', ''toSide''] \<and>
                     list_all (\<lambda>key. optional_field edge key (\<lambda>v. v \<in> {''none'', ''arrow''}))
                       [''fromEnd'', ''toEnd'']) ''CANVAS_INVALID'') (\<lambda>_.
     check_edges ids (i # seen) edges))))))"

definition array_field :: "json \<Rightarrow> string \<Rightarrow> json list result" where
  "array_field root key =
     (case json_get root key of
        None \<Rightarrow> Inr []
      | Some (JArr vs) \<Rightarrow> Inr vs
      | Some _ \<Rightarrow> Err ''CANVAS_INVALID'')"

definition canvas_validate :: "canvas_env \<Rightarrow> string \<Rightarrow> unit result" where
  "canvas_validate E bytes =
     bindR (require (length bytes \<le> max_canvas_bytes) ''CANVAS_TOO_LARGE'') (\<lambda>_.
     bindR (ok_or (json_from_slice E bytes) ''CANVAS_INVALID'') (\<lambda>document.
     bindR (require (is_object document) ''CANVAS_INVALID'') (\<lambda>_.
     bindR (array_field document ''nodes'') (\<lambda>nodes.
     bindR (array_field document ''edges'') (\<lambda>edges.
     bindR (require (length nodes \<le> max_nodes \<and> length edges \<le> max_edges) ''CANVAS_TOO_COMPLEX'') (\<lambda>_.
     bindR (check_nodes E [] nodes) (\<lambda>ids.
     check_edges ids [] edges)))))))"

section \<open>Portable settings\<close>

type_synonym f64 = "int \<times> int"

definition f64_within :: "int \<Rightarrow> int \<Rightarrow> f64 \<Rightarrow> bool" where
  "f64_within lo hi x \<longleftrightarrow> f64_ge (fst x) (snd x) lo \<and> f64_le (fst x) (snd x) hi"

record dialogue_pair = dp_user :: string dp_assistant :: string

record persona =
  pe_version :: nat
  pe_name :: string
  pe_system_prompt :: string
  pe_dialogue_pairs :: "dialogue_pair list"

record user_skill_retrieval = us_top_k :: nat us_rerank :: bool us_citation :: bool

record user_skill =
  us_version :: nat
  us_name :: string
  us_description :: string
  us_prompt :: string
  us_tools :: "string list"
  us_permissions :: "string list"
  us_retrieval :: user_skill_retrieval
  us_required_capabilities :: "string list"
  us_created_at_ms :: int
  us_updated_at_ms :: int

record layout = la_primary_expanded :: bool la_workspace_width :: f64 la_chat_width :: f64

record heading_level = hl_size :: f64 hl_weight :: nat

record headings =
  hd_custom :: bool
  hd_center_title :: bool
  hd_markers :: bool
  hd_family :: string
  hd_levels :: "heading_level list"

record theme =
  th_theme_id :: string
  th_font_editor_size :: f64
  th_font_editor_family :: string
  th_line_height :: f64
  th_code_block_theme :: string
  th_headings :: headings

record markdown_prefs =
  md_heading :: string
  md_bullet :: string
  md_increment_list :: bool
  md_fence :: string
  md_math :: bool
  md_callouts :: bool
  md_diagrams :: bool
  md_auto_links :: bool
  md_line_numbers :: bool
  md_wrap_code :: bool
  md_indent :: nat
  md_default_language :: string

record preset = ps_name :: string ps_preferences :: markdown_prefs

record preferences =
  pr_restore_last_vault :: bool
  pr_auto_save_interval :: nat
  pr_language :: string
  pr_default_editor_mode :: string
  pr_editor_line_width :: nat
  pr_spell_check :: bool
  pr_markdown :: markdown_prefs
  pr_presets :: "preset list"

record conversation_message =
  cm_message_id :: string
  cm_parent_message_id :: "string option"
  cm_role :: string
  cm_content :: string
  cm_thinking :: "string option"
  cm_attachments :: "string list"
  cm_created_at_ms :: int

record conversation =
  cv_title :: string
  cv_active_leaf :: "string option"
  cv_created_at_ms :: int
  cv_updated_at_ms :: int
  cv_messages :: "conversation_message list"

record agent_history =
  ah_status :: string
  ah_input :: string
  ah_output :: "string option"
  ah_model :: string
  ah_skill_id :: "string option"
  ah_error_code :: "string option"
  ah_error_message :: "string option"
  ah_token_usage :: nat
  ah_created_at_ms :: int
  ah_updated_at_ms :: int

record provider_settings =
  pv_version :: nat
  pv_provider_type :: string
  pv_name :: string
  pv_base_url :: "string option"
  pv_default_model :: "string option"
  pv_enabled :: bool
  pv_capabilities :: "string list"

record extension_installation =
  ei_package_kind :: string
  ei_package_id :: string
  ei_source :: string
  ei_version :: string
  ei_sha256 :: string

definition markdown_ok :: "markdown_prefs \<Rightarrow> bool" where
  "markdown_ok v \<longleftrightarrow>
     md_heading v \<in> {''atx'', ''setext''} \<and> md_bullet v \<in> {''-'', ''*'', ''+''} \<and>
     md_fence v \<in> {[CHR 0x60], ''~''} \<and> md_indent v \<in> {2, 4, 8} \<and> length (md_default_language v) \<le> 40 \<and>
     list_all (\<lambda>b. is_ascii_alphanumeric b \<or> b \<in> set ''_+-'') (md_default_language v)"

definition all_distinct :: "string list \<Rightarrow> bool" where
  "all_distinct vs \<longleftrightarrow> list_all (\<lambda>i. vs ! i \<notin> set (take i vs)) [0..<length vs]"

definition unique_bounded :: "string list \<Rightarrow> nat \<Rightarrow> nat \<Rightarrow> bool" where
  "unique_bounded vs max_items max_chars \<longleftrightarrow>
     length vs \<le> max_items \<and>
     list_all (\<lambda>v. v \<noteq> [] \<and> chars_count v \<le> max_chars \<and>
        list_all (\<lambda>b. is_ascii_alphanumeric b \<or> b \<in> set ''._-'') v) vs \<and>
     all_distinct vs"

definition bounded_identifier :: "string \<Rightarrow> nat \<Rightarrow> bool" where
  "bounded_identifier v max_chars \<longleftrightarrow>
     v \<noteq> [] \<and> chars_count v \<le> max_chars \<and> list_all (\<lambda>b. is_ascii_alphanumeric b \<or> b \<in> set ''._:-'') v"

definition portable_reference :: "string \<Rightarrow> nat \<Rightarrow> bool" where
  "portable_reference v max_chars \<longleftrightarrow>
     v \<noteq> [] \<and> chars_count v \<le> max_chars \<and> \<not> starts_with ''/'' v \<and> CHR 0x5C \<notin> set v \<and> CHR 0x00 \<notin> set v \<and>
     list_all (\<lambda>part. part \<noteq> [] \<and> part \<noteq> ''.'' \<and> part \<noteq> ''..'') (split_on (CHR ''/'') v)"

definition model_identifier :: "string \<Rightarrow> bool" where
  "model_identifier v \<longleftrightarrow>
     v \<noteq> [] \<and> chars_count v \<le> 256 \<and> list_all (\<lambda>b. is_ascii_alphanumeric b \<or> b \<in> set ''._:/+-'') v"

definition timestamp_ok :: "int \<Rightarrow> bool" where
  "timestamp_ok v \<longleftrightarrow> 0 \<le> v \<and> v \<le> 253402300799999"

definition is_ascii_control :: "char \<Rightarrow> bool" where
  "is_ascii_control c \<longleftrightarrow> (of_char c :: nat) < 32 \<or> (of_char c :: nat) = 127"

definition safe_base_url :: "string \<Rightarrow> bool" where
  "safe_base_url v \<longleftrightarrow>
     (case (case strip_prefix ''https://'' v of Some r \<Rightarrow> Some r | None \<Rightarrow> strip_prefix ''http://'' v) of
        None \<Rightarrow> False
      | Some rest \<Rightarrow> rest \<noteq> [] \<and> \<not> list_ex is_ascii_control rest \<and>
          \<not> list_ex (\<lambda>c. c \<in> {CHR ''@'', CHR ''?'', CHR ''#'', CHR 0x5C}) rest \<and>
          first_part (CHR ''/'') rest \<noteq> [])"

definition opt_ok :: "('a \<Rightarrow> bool) \<Rightarrow> 'a option \<Rightarrow> bool" where
  "opt_ok P x \<longleftrightarrow> (case x of None \<Rightarrow> True | Some v \<Rightarrow> P v)"

definition known_permissions :: "string list" where
  "known_permissions = [''notes.read'', ''notes.search'', ''notes.write'', ''notes.delete'', ''tasks.read'',
     ''tasks.write'', ''attachments.read'', ''network.request'', ''secrets.use'', ''ui.command'', ''ui.settings'',
     ''ui.sidebar'']"

definition known_capabilities :: "string list" where
  "known_capabilities = [''chat'', ''vision'', ''tool_calling'', ''reasoning'', ''streaming'',
     ''structured_output'', ''embedding'', ''transcription'', ''speaker_matching'']"

definition max_safe_integer :: nat where "max_safe_integer = 9007199254740991"

definition persona_ok :: "persona \<Rightarrow> bool" where
  "persona_ok v \<longleftrightarrow>
     pe_version v \<le> max_safe_integer \<and> chars_count (pe_name v) \<le> 128 \<and>
     chars_count (pe_system_prompt v) \<le> 16000 \<and> length (pe_dialogue_pairs v) \<le> 20 \<and>
     list_all (\<lambda>p. chars_count (dp_user p) \<le> 8000 \<and> chars_count (dp_assistant p) \<le> 8000) (pe_dialogue_pairs v)"

definition layout_ok :: "layout \<Rightarrow> bool" where
  "layout_ok v \<longleftrightarrow> f64_within 200 520 (la_workspace_width v) \<and> f64_within 200 520 (la_chat_width v)"

definition user_skill_ok :: "user_skill \<Rightarrow> bool" where
  "user_skill_ok v \<longleftrightarrow>
     us_version v \<le> max_safe_integer \<and> \<not> blank (us_name v) \<and> chars_count (us_name v) \<le> 128 \<and>
     chars_count (us_description v) \<le> 2000 \<and> chars_count (us_prompt v) \<le> 64000 \<and>
     unique_bounded (us_tools v) 64 128 \<and> unique_bounded (us_permissions v) 32 64 \<and>
     list_all (\<lambda>p. p \<in> set known_permissions) (us_permissions v) \<and>
     unique_bounded (us_required_capabilities v) 16 64 \<and>
     list_all (\<lambda>c. c \<in> set known_capabilities) (us_required_capabilities v) \<and>
     1 \<le> us_top_k (us_retrieval v) \<and> us_top_k (us_retrieval v) \<le> 100 \<and>
     timestamp_ok (us_created_at_ms v) \<and> timestamp_ok (us_updated_at_ms v) \<and>
     us_created_at_ms v \<le> us_updated_at_ms v"

definition theme_ok :: "theme \<Rightarrow> bool" where
  "theme_ok v \<longleftrightarrow>
     th_theme_id v \<noteq> [] \<and> length (th_theme_id v) \<le> 128 \<and>
     list_all (\<lambda>b. is_ascii_alphanumeric b \<or> b \<in> set ''._-'') (th_theme_id v) \<and>
     f64_within 6 72 (th_font_editor_size v) \<and> f64_within 1 3 (th_line_height v) \<and>
     th_font_editor_family v \<noteq> [] \<and> length (th_font_editor_family v) \<le> 256 \<and>
     \<not> list_ex (\<lambda>c. char_is_control c \<or> c \<in> {59, 123, 125, 92}) (str_chars (th_font_editor_family v)) \<and>
     th_code_block_theme v \<in> {''auto'', ''github-light'', ''github-dark''} \<and>
     hd_family (th_headings v) \<in> {''inherit'', ''serif'', ''sans-serif'', ''monospace''} \<and>
     length (hd_levels (th_headings v)) = 6 \<and>
     list_all (\<lambda>l. f64_within 12 72 (hl_size l) \<and> hl_weight l \<in> {400, 500, 600, 700, 800})
       (hd_levels (th_headings v))"

definition preferences_ok :: "preferences \<Rightarrow> bool" where
  "preferences_ok v \<longleftrightarrow>
     50 \<le> pr_auto_save_interval v \<and> pr_auto_save_interval v \<le> 60000 \<and>
     pr_language v \<in> {''zh-CN'', ''en''} \<and> pr_default_editor_mode v \<in> {''source'', ''wysiwyg''} \<and>
     40 \<le> pr_editor_line_width v \<and> pr_editor_line_width v \<le> 200 \<and> markdown_ok (pr_markdown v) \<and>
     length (pr_presets v) \<le> 20 \<and>
     list_all (\<lambda>p. \<not> blank (ps_name p) \<and> chars_count (ps_name p) \<le> 40 \<and> markdown_ok (ps_preferences p))
       (pr_presets v)"

definition message_ok :: "conversation_message list \<Rightarrow> nat \<Rightarrow> bool" where
  "message_ok ms index \<longleftrightarrow>
     (let m = ms ! index in
      bounded_identifier (cm_message_id m) 128 \<and>
      cm_message_id m \<notin> cm_message_id ` set (take index ms) \<and>
      opt_ok (\<lambda>i. bounded_identifier i 128 \<and> i \<noteq> cm_message_id m \<and> i \<in> cm_message_id ` set ms)
        (cm_parent_message_id m) \<and>
      cm_role m \<in> {''user'', ''assistant'', ''system''} \<and>
      chars_count (cm_content m) \<le> 262144 \<and>
      opt_ok (\<lambda>t. chars_count t \<le> 262144) (cm_thinking m) \<and>
      length (cm_attachments m) \<le> 64 \<and>
      list_all (\<lambda>p. portable_reference p 512) (cm_attachments m) \<and> all_distinct (cm_attachments m) \<and>
      timestamp_ok (cm_created_at_ms m))"

definition conversation_ok :: "conversation \<Rightarrow> bool" where
  "conversation_ok v \<longleftrightarrow>
     \<not> blank (cv_title v) \<and> chars_count (cv_title v) \<le> 120 \<and>
     timestamp_ok (cv_created_at_ms v) \<and> timestamp_ok (cv_updated_at_ms v) \<and>
     cv_created_at_ms v \<le> cv_updated_at_ms v \<and> length (cv_messages v) \<le> 2000 \<and>
     opt_ok (\<lambda>i. bounded_identifier i 128 \<and> i \<in> cm_message_id ` set (cv_messages v)) (cv_active_leaf v) \<and>
     list_all (message_ok (cv_messages v)) [0..<length (cv_messages v)]"

definition agent_history_ok :: "agent_history \<Rightarrow> bool" where
  "agent_history_ok v \<longleftrightarrow>
     ah_status v \<in> {''completed'', ''failed'', ''cancelled''} \<and> chars_count (ah_input v) \<le> 262144 \<and>
     opt_ok (\<lambda>t. chars_count t \<le> 524288) (ah_output v) \<and> model_identifier (ah_model v) \<and>
     opt_ok (\<lambda>i. bounded_identifier i 128) (ah_skill_id v) \<and>
     opt_ok (\<lambda>c. bounded_identifier c 128) (ah_error_code v) \<and>
     opt_ok (\<lambda>t. chars_count t \<le> 4096) (ah_error_message v) \<and>
     ah_token_usage v \<le> max_safe_integer \<and>
     timestamp_ok (ah_created_at_ms v) \<and> timestamp_ok (ah_updated_at_ms v) \<and>
     ah_created_at_ms v \<le> ah_updated_at_ms v"

definition provider_ok :: "provider_settings \<Rightarrow> bool" where
  "provider_ok v \<longleftrightarrow>
     pv_version v \<le> max_safe_integer \<and>
     pv_provider_type v \<in> {''mock'', ''openai_responses'', ''openai_chat'', ''openai_compatible'',
       ''anthropic_messages'', ''ollama''} \<and>
     \<not> blank (pv_name v) \<and> chars_count (pv_name v) \<le> 128 \<and>
     opt_ok (\<lambda>u. length u \<le> 2048 \<and> safe_base_url u) (pv_base_url v) \<and>
     opt_ok model_identifier (pv_default_model v) \<and>
     unique_bounded (pv_capabilities v) 16 64 \<and>
     list_all (\<lambda>c. c \<in> set known_capabilities) (pv_capabilities v)"

fun has_dotdot :: "string \<Rightarrow> bool" where
  "has_dotdot (a # b # s) \<longleftrightarrow> (a = CHR ''.'' \<and> b = CHR ''.'') \<or> has_dotdot (b # s)"
| "has_dotdot _ \<longleftrightarrow> False"

definition installation_ok :: "extension_installation \<Rightarrow> bool" where
  "installation_ok v \<longleftrightarrow>
     ei_package_kind v \<in> {''skill'', ''plugin'', ''theme''} \<and> bounded_identifier (ei_package_id v) 128 \<and>
     ei_source v \<noteq> [] \<and> length (ei_source v) \<le> 512 \<and>
     list_all (\<lambda>b. is_ascii_alphanumeric b \<or> b \<in> set ''._:/-'') (ei_source v) \<and>
     \<not> has_dotdot (ei_source v) \<and> CHR ''@'' \<notin> set (ei_source v) \<and>
     \<not> list_ex (\<lambda>c. c \<in> {CHR ''?'', CHR ''#'', CHR 0x5C}) (ei_source v) \<and>
     ei_version v \<noteq> [] \<and> length (ei_version v) \<le> 128 \<and>
     list_all (\<lambda>b. is_ascii_alphanumeric b \<or> b \<in> set ''.+-_'') (ei_version v) \<and>
     is_sha256_hex (ei_sha256 v)"

text \<open>The decoders \<open>serde\<close> derives for the structs above and for records.\<close>

record task_schedule =
  ts_schedule_type :: string
  ts_run_at :: "string option"
  ts_cron :: "string option"
  ts_timezone :: string
  ts_enabled :: bool
  ts_provider_id :: string
  ts_model :: string
  ts_skill_id :: "string option"
  ts_max_steps :: nat
  ts_allow_network :: bool
  ts_status :: string
  ts_next_run_at :: "string option"
  ts_last_run_at :: "string option"
  ts_last_run_id :: "string option"
  ts_error :: "string option"

record task_data =
  td_title :: string
  td_description :: string
  td_status :: string
  td_note_id :: "string option"
  td_due_at_ms :: "int option"
  td_agent_schedule :: "task_schedule option"
  td_created_at_ms :: int
  td_updated_at_ms :: int

record host_record =
  rc_schema :: nat
  rc_kind :: string
  rc_id :: string
  rc_data :: json

record serde_env =
  dec_record :: "string \<Rightarrow> host_record option"
  dec_task :: "json \<Rightarrow> task_data option"
  dec_persona :: "json \<Rightarrow> persona option"
  dec_layout :: "json \<Rightarrow> layout option"
  dec_user_skill :: "json \<Rightarrow> user_skill option"
  dec_theme :: "json \<Rightarrow> theme option"
  dec_preferences :: "json \<Rightarrow> preferences option"
  dec_conversation :: "json \<Rightarrow> conversation option"
  dec_agent_history :: "json \<Rightarrow> agent_history option"
  dec_provider :: "json \<Rightarrow> provider_settings option"
  dec_installation :: "json \<Rightarrow> extension_installation option"

definition decoded_ok :: "(json \<Rightarrow> 'a option) \<Rightarrow> ('a \<Rightarrow> bool) \<Rightarrow> json \<Rightarrow> unit result" where
  "decoded_ok dec ok v =
     bindR (ok_or (dec v) ''RECORD_SCHEMA_INVALID'') (\<lambda>x. require (ok x) ''RECORD_DATA_INVALID'')"

definition preference_validate :: "serde_env \<Rightarrow> string \<Rightarrow> json \<Rightarrow> unit result" where
  "preference_validate E kind v =
     (if kind = ''persona'' then decoded_ok (dec_persona E) persona_ok v
      else if kind = ''layout'' then decoded_ok (dec_layout E) layout_ok v
      else if kind = ''user_skill'' then decoded_ok (dec_user_skill E) user_skill_ok v
      else if kind = ''theme_settings'' then decoded_ok (dec_theme E) theme_ok v
      else if kind = ''preferences'' then decoded_ok (dec_preferences E) preferences_ok v
      else if kind = ''conversation'' then decoded_ok (dec_conversation E) conversation_ok v
      else if kind = ''agent_history'' then decoded_ok (dec_agent_history E) agent_history_ok v
      else if kind = ''provider_settings'' then decoded_ok (dec_provider E) provider_ok v
      else if kind = ''extension_installation'' then decoded_ok (dec_installation E) installation_ok v
      else Err ''RECORD_SCHEMA_UNSUPPORTED'')"

section \<open>Logical records\<close>

definition schedule_ok :: "task_schedule \<Rightarrow> bool" where
  "schedule_ok s \<longleftrightarrow>
     ts_schedule_type s \<in> {''once'', ''cron''} \<and>
     ts_status s \<in> {''pending'', ''running'', ''completed'', ''failed''} \<and>
     \<not> blank (ts_provider_id s) \<and> length (ts_provider_id s) \<le> 128 \<and>
     \<not> blank (ts_model s) \<and> length (ts_model s) \<le> 256 \<and>
     \<not> blank (ts_timezone s) \<and> length (ts_timezone s) \<le> 64 \<and>
     1 \<le> ts_max_steps s \<and> ts_max_steps s \<le> 100 \<and>
     opt_ok (\<lambda>v. length v \<le> 128) (ts_cron s) \<and> opt_ok (\<lambda>v. length v \<le> 128) (ts_skill_id s) \<and>
     opt_ok (\<lambda>v. length v \<le> 128) (ts_last_run_id s) \<and> opt_ok (\<lambda>v. length v \<le> 2000) (ts_error s) \<and>
     (ts_schedule_type s \<noteq> ''once'' \<or> ts_run_at s \<noteq> None) \<and>
     (ts_schedule_type s \<noteq> ''cron'' \<or> (case ts_cron s of None \<Rightarrow> False | Some v \<Rightarrow> \<not> blank v))"

definition task_ok :: "task_data \<Rightarrow> bool" where
  "task_ok d \<longleftrightarrow>
     \<not> (blank (td_title d) \<or> 4096 < length (td_title d) \<or> 262144 < length (td_description d) \<or>
        td_status d \<notin> {''todo'', ''in_progress'', ''done'', ''cancelled''} \<or>
        \<not> timestamp_ok (td_created_at_ms d) \<or> \<not> timestamp_ok (td_updated_at_ms d) \<or>
        \<not> opt_ok timestamp_ok (td_due_at_ms d) \<or> \<not> opt_ok schedule_ok (td_agent_schedule d) \<or>
        \<not> opt_ok (\<lambda>v. v \<noteq> [] \<and> length v \<le> 128 \<and>
             list_all (\<lambda>b. is_ascii_alphanumeric b \<or> b \<in> set ''_-'') v) (td_note_id d))"

definition record_validate :: "serde_env \<Rightarrow> string \<Rightarrow> string \<Rightarrow> host_record result" where
  "record_validate E path content =
     bindR (require (length content \<le> 1024 * 1024) ''RECORD_TOO_LARGE'') (\<lambda>_.
     bindR (ok_or (dec_record E content) ''RECORD_SCHEMA_INVALID'') (\<lambda>rec.
     if rc_schema rec \<noteq> 1 then Err ''RECORD_SCHEMA_UNSUPPORTED''
     else bindR (path_for (rc_kind rec) (rc_id rec)) (\<lambda>p.
       if p \<noteq> path then Err ''RECORD_SCHEMA_UNSUPPORTED''
       else if rc_kind rec \<noteq> ''task'' then
         bindR (preference_validate E (rc_kind rec) (rc_data rec)) (\<lambda>_. Inr rec)
       else
         bindR (ok_or (dec_task E (rc_data rec)) ''RECORD_SCHEMA_INVALID'') (\<lambda>d.
         bindR (require (task_ok d) ''RECORD_DATA_INVALID'') (\<lambda>_. Inr rec)))))"

section \<open>Parts of a UTF-8 string\<close>

lemma slash_not_continuation:
  "\<not> byte_in 128 191 (CHR ''/'')" "\<not> second_of_3 a (CHR ''/'')" "\<not> second_of_4 a (CHR ''/'')"
  by (simp_all add: byte_in_def second_of_3_def second_of_4_def)

lemma byte_not_continuation:
  assumes "utf8_tail a (r @ CHR ''/'' # s) = Some n"
  shows "n \<le> length r \<and> utf8_tail a r = Some n"
proof (cases "byte_in 0 127 a")
  case True
  with assms show ?thesis by (simp add: utf8_tail_def)
next
  case multi: False
  consider "r = []" | b where "r = [b]" | b c where "r = [b, c]" | b c d u where "r = b # c # d # u"
    by (cases r; cases "tl r"; cases "tl (tl r)") auto
  then show ?thesis
  proof cases
    case 1
    with assms multi show ?thesis
      by (cases s; cases "tl s") (simp_all add: utf8_tail_def slash_not_continuation split: if_split_asm)
  next
    case (2 b)
    with assms multi show ?thesis
      by (cases s) (simp_all add: utf8_tail_def slash_not_continuation split: if_split_asm)
  next
    case (3 b c)
    with assms multi show ?thesis
      by (simp add: utf8_tail_def slash_not_continuation split: if_split_asm)
  next
    case (4 b c d u)
    have "utf8_tail a (r @ CHR ''/'' # s) = utf8_tail a r" by (simp add: 4 utf8_tail_def)
    with assms utf8_tail_append [of a r n "[]"] show ?thesis by simp
  qed
qed

lemma utf8_valid_split: "utf8_valid (a @ CHR ''/'' # b) \<Longrightarrow> utf8_valid a \<and> utf8_valid b"
proof (induction a rule: utf8_valid.induct)
  case 1
  have "utf8_tail (CHR ''/'') b = Some 0" by (simp add: utf8_tail_def byte_in_def)
  with 1 show ?case by simp
next
  case (2 c r)
  then obtain n where n: "utf8_tail c (r @ CHR ''/'' # b) = Some n"
      and rest: "utf8_valid (drop n (r @ CHR ''/'' # b))"
    by (auto split: option.splits)
  note t = byte_not_continuation [OF n]
  with rest have "utf8_valid (drop n r @ CHR ''/'' # b)" by simp
  with 2(1) t show ?case by simp
qed

lemma str_chars_append: "utf8_valid a \<Longrightarrow> str_chars (a @ b) = str_chars a @ str_chars b"
proof (induction a rule: utf8_valid.induct)
  case (2 c r)
  then obtain n where n: "utf8_tail c r = Some n" "utf8_valid (drop n r)" by (auto split: option.splits)
  with utf8_tail_append [OF n(1), of b] 2(1) show ?case by simp
qed simp

lemma split_on_Cons_append: "split_on d s = p # ps \<Longrightarrow> ps \<noteq> [] \<Longrightarrow> s = p @ d # join_with d ps"
  using join_split [of d s] by (cases ps) auto

lemma str_chars_part:
  "utf8_valid s \<Longrightarrow> p \<in> set (split_on (CHR ''/'') s) \<Longrightarrow> set (str_chars p) \<subseteq> set (str_chars s)"
proof (induction "length (split_on (CHR ''/'') s)" arbitrary: s p)
  case (Suc k)
  obtain q qs where q: "split_on (CHR ''/'') s = q # qs" by (cases "split_on (CHR ''/'') s") auto
  show ?case
  proof (cases "qs = []")
    case True
    then have "s = q" using join_split [of "CHR ''/''" s] by (simp add: q)
    with Suc.prems q True show ?thesis by auto
  next
    case False
    let ?rest = "join_with (CHR ''/'') qs"
    have s: "s = q @ CHR ''/'' # ?rest" using split_on_Cons_append [OF q False] .
    have "utf8_valid (q @ CHR ''/'' # ?rest)" using Suc.prems(1) by (simp only: s [symmetric])
    then have v: "utf8_valid q" "utf8_valid ?rest" using utf8_valid_split by blast+
    have noslash: "\<forall>x \<in> set qs. CHR ''/'' \<notin> set x" using split_on_no_sep [of _ "CHR ''/''" s] q by auto
    have sp: "split_on (CHR ''/'') ?rest = qs" using False noslash by (rule split_join)
    have "str_chars (q @ CHR ''/'' # ?rest) = str_chars q @ str_chars (CHR ''/'' # ?rest)"
      using v(1) by (rule str_chars_append)
    then have "str_chars s = str_chars q @ str_chars (CHR ''/'' # ?rest)" by (simp only: s [symmetric])
    moreover have "utf8_tail (CHR ''/'') ?rest = Some 0" by (simp add: utf8_tail_def byte_in_def)
    ultimately have "set (str_chars q) \<subseteq> set (str_chars s)" "set (str_chars ?rest) \<subseteq> set (str_chars s)" by auto
    moreover have "set (str_chars x) \<subseteq> set (str_chars ?rest)" if "x \<in> set qs" for x
      using Suc.hyps(1) [of ?rest x] Suc.hyps(2) v that by (simp add: sp q)
    ultimately show ?thesis using Suc.prems(2) q by auto
  qed
qed simp

section \<open>Canvas documents refer only to the vault\<close>

lemma lower_dot: "to_ascii_lower c = CHR ''.'' \<Longrightarrow> c = CHR ''.''"
proof -
  assume a: "to_ascii_lower c = CHR ''.''"
  have False if "is_ascii_uppercase c"
  proof -
    from a that have "char_of ((of_char c :: nat) + 32) = CHR ''.''" by (simp add: to_ascii_lower_def)
    then have "of_char (char_of ((of_char c :: nat) + 32)) = (of_char (CHR ''.'') :: nat)" by simp
    then have "((of_char c :: nat) + 32) mod 256 = 46" by simp
    moreover have "65 \<le> (of_char c :: nat)" "(of_char c :: nat) \<le> 90"
      using that by (simp_all add: is_ascii_uppercase_def)
    ultimately show False by simp
  qed
  with a show ?thesis by (auto simp: to_ascii_lower_def split: if_splits)
qed

lemma scalar_value_wide:
  assumes "utf8_tail a r = Some n" "0 < n"
  shows "128 \<le> scalar_value a (take n r)"
proof -
  have na: "\<not> byte_in 0 127 a" using assms by (auto simp: utf8_tail_def)
  consider "r = []" | b where "r = [b]" | b c where "r = [b, c]" | b c d u where "r = b # c # d # u"
    by (cases r; cases "tl r"; cases "tl (tl r)") auto
  then show ?thesis
    by cases (use assms na in \<open>auto simp: utf8_tail_def byte_in_def second_of_3_def second_of_4_def split: if_splits\<close>)
qed

lemma str_chars_low:
  "utf8_valid s \<Longrightarrow> c \<in> set (str_chars s) \<Longrightarrow> c < 128 \<Longrightarrow> char_of c \<in> set s"
proof (induction s rule: utf8_valid.induct)
  case (2 a r)
  then obtain n where n: "utf8_tail a r = Some n" "utf8_valid (drop n r)" by (auto split: option.splits)
  show ?case
  proof (cases "c = scalar_value a (take n r)")
    case True
    with 2(4) scalar_value_wide [OF n(1)] have "n = 0" by (cases n) auto
    with True show ?thesis by simp
  next
    case False
    with 2(3) n have "c \<in> set (str_chars (drop n r))" by simp
    from 2(1) [OF n(1) n(2) this 2(4)] show ?thesis using set_drop_subset [of n r] by auto
  qed
qed simp

lemma vault_part_safe:
  assumes "vault_part p" "\<forall>c \<in> set (str_chars p). \<not> char_is_control c \<and> c \<notin> {60, 62, 58, 34, 124, 63, 42}"
  shows "\<not> unsafe_component p"
proof -
  from assms(1) obtain c cs where p: "p = c # cs" "c \<noteq> CHR ''.''"
    by (cases p) (auto simp: vault_part_def starts_with_def)
  have "\<not> eq_ignore_ascii_case p (CHR ''.'' # q)" for q
    using p lower_dot [of c] by (auto simp: eq_ignore_ascii_case_def to_ascii_lowercase_def to_ascii_lower_def
        is_ascii_uppercase_def)
  then show ?thesis
    using assms by (auto simp: unsafe_component_def vault_part_def list_ex_iff)
qed

lemma vault_file_resolves:
  assumes "utf8_valid v" "vault_file v"
  shows "resolve_names v = Inr (split_on (CHR ''/'') v)"
proof -
  let ?ps = "split_on (CHR ''/'') v"
  have parts: "vault_part q" if "q \<in> set ?ps" for q
    using that assms(2) by (simp add: vault_file_def list_all_iff)
  have chars: "\<not> char_is_control c \<and> c \<notin> {60, 62, 58, 34, 124, 63, 42}" if "c \<in> set (str_chars v)" for c
  proof -
    have "c \<noteq> 58"
    proof
      assume "c = 58"
      with str_chars_low [OF assms(1) that] have "char_of (58 :: nat) \<in> set v" by simp
      moreover have "char_of (58 :: nat) = CHR '':''"
        using char_of_char [where ?'a = nat, of "CHR '':''"] by simp
      ultimately show False using assms(2) by (simp add: vault_file_def)
    qed
    with that assms(2) show ?thesis by (auto simp: vault_file_def list_ex_iff)
  qed
  have safe: "\<not> unsafe_component q" if "q \<in> set ?ps" for q
    using parts [OF that] chars str_chars_part [OF assms(1) that] by (intro vault_part_safe) auto
  obtain q qs where q: "?ps = q # qs" by (cases ?ps) auto
  have names: "x \<noteq> [] \<and> x \<noteq> ''.'' \<and> x \<noteq> ''..''" if "x \<in> set ?ps" for x
    using parts [OF that] by (simp add: vault_part_def)
  then have "filter (\<lambda>x. x \<noteq> [] \<and> x \<noteq> ''.'') qs = qs" "map component_of qs = map Normal qs"
    by (auto simp: q component_of_def intro!: filter_True)
  moreover have "component_of q = Normal q" "q \<noteq> []" "q \<noteq> ''.''"
    using names by (simp_all add: q component_of_def)
  ultimately have comps: "path_components v = map Normal ?ps"
    unfolding path_components_def by (simp add: q)
  have all: "check_components (map Normal xs) = Inr xs" if "\<forall>x \<in> set xs. \<not> unsafe_component x" for xs
    using that by (induction xs) auto
  show ?thesis
    using assms(2) comps all [of ?ps] safe by (simp add: resolve_names_def vault_file_def)
qed

lemma check_nodes_ids:
  "check_nodes E ids nodes = Inr out \<Longrightarrow>
     \<exists>new. map (\<lambda>n. str_field n ''id'') nodes = map Some new \<and> out = rev new @ ids \<and>
       (distinct ids \<longrightarrow> distinct out)"
proof (induction nodes arbitrary: ids)
  case (Cons node nodes)
  then obtain i where i: "str_field node ''id'' = Some i" "i \<notin> set ids" "check_nodes E (i # ids) nodes = Inr out"
    by (auto simp: bindR_Inr_iff)
  from Cons.IH [OF i(3)] obtain new where "map (\<lambda>n. str_field n ''id'') nodes = map Some new"
      "out = rev new @ i # ids" "distinct (i # ids) \<longrightarrow> distinct out" by auto
  with i show ?case by (intro exI [of _ "i # new"]) auto
qed simp

lemma check_nodes_each:
  "check_nodes E ids nodes = Inr out \<Longrightarrow> node \<in> set nodes \<Longrightarrow>
     node_kind_ok E node \<and> optional_field node ''background'' vault_file"
  by (induction nodes arbitrary: ids) (auto simp: bindR_Inr_iff)

lemma check_edges_each:
  "check_edges ids seen edges = Inr u \<Longrightarrow> edge \<in> set edges \<Longrightarrow>
     \<exists>from' to'. str_field edge ''fromNode'' = Some from' \<and> str_field edge ''toNode'' = Some to' \<and>
       from' \<in> set ids \<and> to' \<in> set ids"
  by (induction edges arbitrary: seen) (auto simp: bindR_Inr_iff)

lemma check_edges_ids:
  "check_edges ids seen edges = Inr u \<Longrightarrow>
     \<exists>es. map (\<lambda>e. str_field e ''id'') edges = map Some es \<and> distinct es \<and> set es \<inter> set seen = {}"
proof (induction edges arbitrary: seen)
  case (Cons edge edges)
  then obtain i where i: "str_field edge ''id'' = Some i" "i \<notin> set seen" "check_edges ids (i # seen) edges = Inr u"
    by (auto simp: bindR_Inr_iff)
  from Cons.IH [OF i(3)] obtain es where "map (\<lambda>e. str_field e ''id'') edges = map Some es" "distinct es"
      "set es \<inter> set (i # seen) = {}" by auto
  with i show ?case by (intro exI [of _ "i # es"]) auto
qed simp

text \<open>
  C35. A canvas that passes validation is a well-formed graph over the vault: node and edge
  identifiers are unique, both ends of every edge are nodes of the document, and every file a
  node shows or uses as a background resolves inside the vault by the same rule the workspace
  applies to paths.
\<close>

theorem canvas_validate_sound:
  assumes "canvas_validate E bytes = Inr ()"
    and "json_from_slice E bytes = Some document"
    and "array_field document ''nodes'' = Inr nodes" "array_field document ''edges'' = Inr edges"
  shows "length nodes \<le> 2000 \<and> length edges \<le> 4000 \<and>
    (\<exists>ids es. map (\<lambda>n. str_field n ''id'') nodes = map Some ids \<and> distinct ids \<and>
       map (\<lambda>e. str_field e ''id'') edges = map Some es \<and> distinct es \<and>
       (\<forall>edge \<in> set edges. \<exists>from' to'. str_field edge ''fromNode'' = Some from' \<and>
          str_field edge ''toNode'' = Some to' \<and> from' \<in> set ids \<and> to' \<in> set ids)) \<and>
    (\<forall>node \<in> set nodes. \<forall>f. utf8_valid f \<longrightarrow>
       (str_field node ''type'' = Some ''file'' \<and> str_field node ''file'' = Some f) \<or>
        json_get node ''background'' = Some (JStr f) \<longrightarrow>
       resolve_names f = Inr (split_on (CHR ''/'') f))"
proof -
  from assms obtain out where len: "length nodes \<le> 2000" "length edges \<le> 4000"
      and n: "check_nodes E [] nodes = Inr out" and e: "check_edges out [] edges = Inr ()"
    by (auto simp: canvas_validate_def bindR_Inr_iff max_nodes_def max_edges_def)
  from check_nodes_ids [OF n] obtain ids where ids: "map (\<lambda>n. str_field n ''id'') nodes = map Some ids"
      "out = rev ids" "distinct ids" by auto
  from check_edges_ids [OF e] obtain es where es: "map (\<lambda>e. str_field e ''id'') edges = map Some es" "distinct es"
    by blast
  have refs: "resolve_names f = Inr (split_on (CHR ''/'') f)"
    if "node \<in> set nodes" "utf8_valid f"
      "(str_field node ''type'' = Some ''file'' \<and> str_field node ''file'' = Some f) \<or>
        json_get node ''background'' = Some (JStr f)" for node f
  proof (rule vault_file_resolves [OF that(2)])
    show "vault_file f"
      using check_nodes_each [OF n that(1)] that(3) by (auto simp: node_kind_ok_def optional_field_def)
  qed
  show ?thesis
    using len ids es refs check_edges_each [OF e] by (intro conjI exI [of _ ids] exI [of _ es]) auto
qed

definition demo_canvas :: json where
  "demo_canvas = JObj [(''nodes'', JArr [JObj [(''id'', JStr ''a''), (''x'', JInt 0), (''y'', JInt 0),
     (''width'', JInt 10), (''height'', JFloat 5 1), (''type'', JStr ''file''), (''file'', JStr ''n/a.md'')]]),
     (''edges'', JArr [JObj [(''id'', JStr ''e''), (''fromNode'', JStr ''a''), (''toNode'', JStr ''a'')]])]"

definition demo_canvas_env :: canvas_env where
  "demo_canvas_env = \<lparr>json_from_slice = (\<lambda>_. Some demo_canvas), url_parse = (\<lambda>_. None)\<rparr>"

lemmas text_eval = ascii_defs utf8_tail_def byte_in_def char_is_control_def char_is_whitespace_def
  starts_with_def ends_with_def first_part_def reserved_stem_def

theorem canvas_validate_sound_witness:
  "resolve_names ''n/a.md'' = Inr (split_on (CHR ''/'') ''n/a.md'')"
proof -
  have ok: "canvas_validate demo_canvas_env [] = Inr ()"
    by (simp add: canvas_validate_def demo_canvas_env_def demo_canvas_def array_field_def max_nodes_def
        max_edges_def str_field_def field_ok_def coordinate_def dimension_def f64_ge_def f64_le_def
        optional_field_def node_kind_ok_def vault_file_def vault_part_def text_eval max_canvas_bytes_def)
  have "utf8_valid ''n/a.md''" by (simp add: text_eval)
  then show ?thesis
    using canvas_validate_sound [OF ok, of demo_canvas
        "[JObj [(''id'', JStr ''a''), (''x'', JInt 0), (''y'', JInt 0),
          (''width'', JInt 10), (''height'', JFloat 5 1), (''type'', JStr ''file''), (''file'', JStr ''n/a.md'')]]"
        "[JObj [(''id'', JStr ''e''), (''fromNode'', JStr ''a''), (''toNode'', JStr ''a'')]]"]
    by (simp add: demo_canvas_env_def demo_canvas_def array_field_def str_field_def)
qed

section \<open>Records\<close>

lemma all_distinct_iff: "all_distinct vs \<longleftrightarrow> distinct vs"
proof
  assume a: "all_distinct vs"
  show "distinct vs"
  proof (rule distinct_conv_nth [THEN iffD2], intro allI impI)
    fix i j assume ij: "i < length vs" "j < length vs" "i \<noteq> j"
    have less: "vs ! x \<noteq> vs ! y" if "x < y" "y < length vs" for x y
    proof -
      have "vs ! y \<notin> set (take y vs)" using a that by (simp add: all_distinct_def list_all_iff)
      moreover have "vs ! x \<in> set (take y vs)" using that by (auto simp: in_set_conv_nth)
      ultimately show ?thesis by auto
    qed
    from ij less show "vs ! i \<noteq> vs ! j" by (metis nat_neq_iff)
  qed
next
  assume "distinct vs"
  then show "all_distinct vs"
    by (auto simp: all_distinct_def list_all_iff in_set_conv_nth nth_eq_iff_index_eq)
qed

lemma record_validate_Inr:
  assumes "record_validate E path content = Inr rec"
  shows "dec_record E content = Some rec \<and> rc_schema rec = 1 \<and> length content \<le> 1024 * 1024 \<and>
    path_for (rc_kind rec) (rc_id rec) = Inr path"
  using assms by (auto simp: record_validate_def bindR_Inr_iff split: if_splits)

text \<open>
  A record's bytes belong to one path. Bytes that validate under a path are a version 1
  record of at most 1 MiB whose kind and identifier have exactly that path, which is therefore
  an accepted record path; the same bytes validate under no other path.
\<close>

theorem record_bytes_one_path:
  assumes "record_validate E path content = Inr rec"
  shows "rc_schema rec = 1 \<and> length content \<le> 1024 * 1024 \<and>
    path_for (rc_kind rec) (rc_id rec) = Inr path \<and> record_allowed path \<and>
    (\<forall>other rec'. record_validate E other content = Inr rec' \<longrightarrow> other = path \<and> rec' = rec)"
proof -
  note v = record_validate_Inr [OF assms]
  have "other = path \<and> rec' = rec" if "record_validate E other content = Inr rec'" for other rec'
    using record_validate_Inr [OF that] v by simp
  then show ?thesis using v record_allowed_iff by blast
qed

lemma opt_ok_iff: "opt_ok P x \<longleftrightarrow> (\<forall>v. x = Some v \<longrightarrow> P v)"
  by (simp add: opt_ok_def split: option.splits)

lemma portable_reference_parts: "portable_reference a n \<Longrightarrow> ''..'' \<notin> set (split_on (CHR ''/'') a)"
  unfolding portable_reference_def list_all_iff by blast

lemma message_parents:
  assumes "list_all (message_ok ms) [0..<length ms]"
  shows "distinct (map cm_message_id ms) \<and>
    (\<forall>m \<in> set ms. \<forall>p. cm_parent_message_id m = Some p \<longrightarrow> p \<noteq> cm_message_id m \<and> p \<in> cm_message_id ` set ms) \<and>
    (\<forall>m \<in> set ms. \<forall>a \<in> set (cm_attachments m). ''..'' \<notin> set (split_on (CHR ''/'') a))"
proof -
  have each: "message_ok ms i" if "i < length ms" for i
    using assms that by (simp add: list_all_iff)
  have "all_distinct (map cm_message_id ms)"
    using each by (auto simp: all_distinct_def list_all_iff message_ok_def Let_def take_map)
  moreover have "opt_ok (\<lambda>i. bounded_identifier i 128 \<and> i \<noteq> cm_message_id m \<and> i \<in> cm_message_id ` set ms)
      (cm_parent_message_id m)" "all_distinct (cm_attachments m)"
      "list_all (\<lambda>p. portable_reference p 512) (cm_attachments m)" if "m \<in> set ms" for m
    using that each by (auto simp: in_set_conv_nth message_ok_def Let_def)
  ultimately show ?thesis
    unfolding all_distinct_iff opt_ok_iff list_all_iff by (blast dest: portable_reference_parts)
qed

text \<open>
  A synchronised conversation is closed: after validation its message identifiers are
  unique, the active leaf and every parent are messages of the same conversation, no message is
  its own parent, and attachments are distinct relative references without parent steps.
\<close>

theorem conversation_closed:
  assumes "record_validate E path content = Inr rec" "rc_kind rec = ''conversation''"
  shows "\<exists>v. dec_conversation E (rc_data rec) = Some v \<and>
    distinct (map cm_message_id (cv_messages v)) \<and>
    (\<forall>l. cv_active_leaf v = Some l \<longrightarrow> l \<in> cm_message_id ` set (cv_messages v)) \<and>
    (\<forall>m \<in> set (cv_messages v). \<forall>p. cm_parent_message_id m = Some p \<longrightarrow>
       p \<noteq> cm_message_id m \<and> p \<in> cm_message_id ` set (cv_messages v)) \<and>
    (\<forall>m \<in> set (cv_messages v). \<forall>a \<in> set (cm_attachments m). ''..'' \<notin> set (split_on (CHR ''/'') a))"
proof -
  from assms obtain v where v: "dec_conversation E (rc_data rec) = Some v" "conversation_ok v"
    by (auto simp: record_validate_def preference_validate_def decoded_ok_def bindR_Inr_iff split: if_splits)
  have "list_all (message_ok (cv_messages v)) [0..<length (cv_messages v)]"
      "opt_ok (\<lambda>i. bounded_identifier i 128 \<and> i \<in> cm_message_id ` set (cv_messages v)) (cv_active_leaf v)"
    using v(2) by (simp_all add: conversation_ok_def)
  with message_parents [OF this(1)] v(1) show ?thesis
    by (intro exI [of _ v]) (auto simp: opt_ok_iff)
qed

definition demo_message :: conversation_message where
  "demo_message = \<lparr>cm_message_id = ''m1'', cm_parent_message_id = None, cm_role = ''user'', cm_content = ''hi'',
     cm_thinking = None, cm_attachments = [''a/b.png''], cm_created_at_ms = 1\<rparr>"

definition demo_conversation :: conversation where
  "demo_conversation = \<lparr>cv_title = ''t'', cv_active_leaf = Some ''m1'', cv_created_at_ms = 1,
     cv_updated_at_ms = 2, cv_messages = [demo_message]\<rparr>"

definition demo_record :: host_record where
  "demo_record = \<lparr>rc_schema = 1, rc_kind = ''conversation'',
     rc_id = ''conversation_'' @ replicate 32 (CHR ''a''), rc_data = JNull\<rparr>"

definition demo_serde_env :: serde_env where
  "demo_serde_env = \<lparr>dec_record = (\<lambda>_. Some demo_record), dec_task = (\<lambda>_. None), dec_persona = (\<lambda>_. None),
     dec_layout = (\<lambda>_. None), dec_user_skill = (\<lambda>_. None), dec_theme = (\<lambda>_. None),
     dec_preferences = (\<lambda>_. None), dec_conversation = (\<lambda>_. Some demo_conversation),
     dec_agent_history = (\<lambda>_. None), dec_provider = (\<lambda>_. None), dec_installation = (\<lambda>_. None)\<rparr>"

definition demo_record_path :: string where
  "demo_record_path = ''opennexus-records/v1/conversations/conversation_'' @ replicate 32 (CHR ''a'') @ ''.json''"

lemma demo_conversation_ok: "conversation_ok demo_conversation"
  by (simp add: conversation_ok_def demo_conversation_def message_ok_def demo_message_def opt_ok_def blank_def
      chars_count_def bounded_identifier_def timestamp_ok_def portable_reference_def all_distinct_def text_eval)

lemma demo_record_validates: "record_validate demo_serde_env demo_record_path ''{}'' = Inr demo_record"
proof -
  have "path_for ''conversation'' (''conversation_'' @ replicate 32 (CHR ''a'')) = Inr demo_record_path"
    by (simp add: path_for_def portable_id_path_def demo_record_path_def starts_with_def ascii_defs list_all_iff)
  then show ?thesis
    using demo_conversation_ok
    by (simp add: record_validate_def demo_serde_env_def demo_record_def preference_validate_def decoded_ok_def)
qed

theorem record_bytes_one_path_witness: "record_allowed demo_record_path"
  using record_bytes_one_path [OF demo_record_validates] by blast

theorem conversation_closed_witness:
  "\<exists>v. dec_conversation demo_serde_env (rc_data demo_record) = Some v \<and> distinct (map cm_message_id (cv_messages v))"
  using conversation_closed [OF demo_record_validates] by (auto simp: demo_record_def)

end
