(* ===== verification/Experiment_Contracts.thy ===== *)
theory Experiment_Contracts
  imports BTree_Map Path_Policy
begin

text \<open>
  What an experiment may ask for and produce: the execution budgets (\<open>experiment_policy.rs\<close>), the
  selected input files (\<open>experiment_input.rs\<close>), the collected outputs with the CSV check
  (\<open>experiment_outputs.rs\<close>), and the plan of an import of outputs into the vault
  (\<open>experiment_import.rs\<close>, the data and its validation).
\<close>

section \<open>Budgets\<close>

record execution_limits =
  wall_seconds :: "32 word"
  cpu_seconds :: "32 word"
  memory_mib :: "32 word"
  processes :: "32 word"
  disk_mib :: "32 word"
  output_mib :: "32 word"
  log_kib :: "32 word"
  objects :: "32 word"

definition default_limits :: execution_limits where
  "default_limits = \<lparr>wall_seconds = 60, cpu_seconds = 30, memory_mib = 256, processes = 4, disk_mib = 64,
     output_mib = 16, log_kib = 256, objects = 1024\<rparr>"

definition limits_validate :: "execution_limits \<Rightarrow> execution_limits result" where
  "limits_validate l =
     (if \<not> (1 \<le> wall_seconds l \<and> wall_seconds l \<le> 120) \<or> \<not> (1 \<le> cpu_seconds l \<and> cpu_seconds l \<le> 60) \<or>
         wall_seconds l < cpu_seconds l \<or> \<not> (64 \<le> memory_mib l \<and> memory_mib l \<le> 512) \<or>
         \<not> (1 \<le> processes l \<and> processes l \<le> 8) \<or> \<not> (8 \<le> disk_mib l \<and> disk_mib l \<le> 128) \<or>
         output_mib l = 0 \<or> disk_mib l < output_mib l \<or> \<not> (16 \<le> log_kib l \<and> log_kib l \<le> 1024) \<or>
         \<not> (32 \<le> objects l \<and> objects l \<le> 2048)
      then Err ''EXPERIMENT_LIMITS_INVALID'' else Inr l)"

definition cpu_ticks :: "execution_limits \<Rightarrow> 64 word" where
  "cpu_ticks l = ucast (cpu_seconds l) * 10000000"

definition memory_bytes :: "execution_limits \<Rightarrow> 64 word" where
  "memory_bytes l = ucast (memory_mib l) * 1024 * 1024"

definition disk_bytes :: "execution_limits \<Rightarrow> 64 word" where
  "disk_bytes l = ucast (disk_mib l) * 1024 * 1024"

definition log_bytes :: "execution_limits \<Rightarrow> 64 word" where
  "log_bytes l = ucast (log_kib l) * 1024"

definition output_bytes :: "execution_limits \<Rightarrow> 64 word" where
  "output_bytes l = ucast (output_mib l) * 1024 * 1024"

definition write_io_bytes :: "execution_limits \<Rightarrow> 64 word" where
  "write_io_bytes l = disk_bytes l + output_bytes l + log_bytes l"

section \<open>The environment\<close>

text \<open>The \<open>uuid\<close>, \<open>unicode-casefold\<close> and \<open>serde_json\<close> crates, and Unicode lower case.\<close>

record selected_file =
  sf_file_id :: string
  sf_path :: string
  sf_hash :: string
  sf_revision :: int

record run_request =
  rr_vault_id :: string
  rr_operation_id :: string
  rr_runtime_id :: string
  rr_entry :: selected_file
  rr_inputs :: "selected_file list"
  rr_limits :: execution_limits

record input_summary =
  is_request :: run_request
  is_fingerprint :: string
  is_sizes :: "(string \<times> nat) list"
  is_total_bytes :: nat

datatype output_kind = TextOut | MarkdownOut | JsonOut | CsvOut | PngOut

record output_manifest =
  om_path :: string
  om_bytes :: nat
  om_sha256 :: string
  om_kind :: output_kind

record skipped_output =
  so_path :: string
  so_bytes :: nat

record output_summary =
  os_files :: "output_manifest list"
  os_skipped :: "skipped_output list"
  os_total_bytes :: nat

datatype output_report = Collected output_summary | Rejected string

record selection =
  se_output_path :: string
  se_destination :: string

record import_request =
  rq_vault_id :: string
  rq_operation_id :: string
  rq_run_id :: string
  rq_selections :: "selection list"

record import_item_plan =
  ip_output :: output_manifest
  ip_target :: selected_file
  ip_write_id :: string

datatype run_outcome = OutCompleted | OutFailed | OutCancelled | OutLimited

record run_evidence =
  re_created_ms :: int
  re_approval_id :: "string option"
  re_approved_ms :: "int option"
  re_outcome :: run_outcome
  re_exit_code :: "nat option"
  re_elapsed_ms :: nat

record import_plan =
  pn_request :: import_request
  pn_source :: input_summary
  pn_execution :: run_evidence
  pn_items :: "import_item_plan list"

record exp_env =
  parse_uuid :: "string \<Rightarrow> nat option"
  uuid_text :: "nat \<Rightarrow> string"
  name_key :: "string \<Rightarrow> string"
  unicode_lower :: "string \<Rightarrow> string"
  sha256 :: "string \<Rightarrow> string"
  run_request_text :: "run_request \<Rightarrow> string option"
  import_request_text :: "import_request \<Rightarrow> string option"
  import_plan_text :: "import_plan \<Rightarrow> string option"
  import_plan_of :: "string \<Rightarrow> import_plan option"
  json_valid :: "string \<Rightarrow> bool"
  crc32 :: "string \<Rightarrow> nat"
  png_frame_size :: "string \<Rightarrow> nat option option"
  png_frame_ok :: "string \<Rightarrow> bool"

definition valid_id :: "exp_env \<Rightarrow> string \<Rightarrow> bool" where
  "valid_id X v = (case parse_uuid X v of None \<Rightarrow> False | Some n \<Rightarrow> n \<noteq> 0 \<and> uuid_text X n = v)"

definition runtime_id :: string where "runtime_id = ''python-3.13.16-windows-x64''"

section \<open>Input files\<close>

definition max_input_file_bytes :: nat where "max_input_file_bytes = 2 * 1024 * 1024"
definition max_total_bytes :: nat where "max_total_bytes = 16 * 1024 * 1024"
definition max_files :: nat where "max_files = 32"

text \<open>The superscript digits of the reserved names, in UTF-8.\<close>

abbreviation superscript1 :: string where "superscript1 \<equiv> [CHR 0xC2, CHR 0xB9]"
abbreviation superscript2 :: string where "superscript2 \<equiv> [CHR 0xC2, CHR 0xB2]"
abbreviation superscript3 :: string where "superscript3 \<equiv> [CHR 0xC2, CHR 0xB3]"

definition nonzero_digit :: "char \<Rightarrow> bool" where
  "nonzero_digit c \<longleftrightarrow> is_ascii_digit c \<and> c \<noteq> CHR ''0''"

definition device_number :: "string \<Rightarrow> bool" where
  "device_number e \<longleftrightarrow>
     (case e of [c] \<Rightarrow> nonzero_digit c | _ \<Rightarrow> e = superscript1 \<or> e = superscript2 \<or> e = superscript3)"

definition input_device :: "string \<Rightarrow> bool" where
  "input_device stem \<longleftrightarrow>
     stem \<in> {''CON'', ''PRN'', ''AUX'', ''NUL'', ''CONIN$'', ''CONOUT$''} \<or>
     list_ex (\<lambda>prefix. case strip_prefix prefix stem of None \<Rightarrow> False | Some e \<Rightarrow> device_number e) [''COM'', ''LPT'']"

text \<open>\<open>encode_utf16().count()\<close>: two units for a scalar value beyond the basic plane.\<close>

definition utf16_count :: "string \<Rightarrow> nat" where
  "utf16_count s = sum_list (map (\<lambda>c. if c < 65536 then 1 else 2) (str_chars s))"

definition managed_name :: "string \<Rightarrow> bool" where
  "managed_name part \<longleftrightarrow>
     list_ex (\<lambda>name. eq_ignore_ascii_case part name) [''.ainote'', ''.git'', ''opennexus-records'']"

definition ends_dot_space :: "string \<Rightarrow> bool" where
  "ends_dot_space s \<longleftrightarrow> s \<noteq> [] \<and> last s \<in> {CHR ''.'', CHR '' ''}"

definition input_part :: "string \<Rightarrow> bool" where
  "input_part part \<longleftrightarrow>
     part \<noteq> [] \<and> part \<noteq> ''.'' \<and> part \<noteq> ''..'' \<and> \<not> ends_dot_space part \<and> utf16_count part \<le> 255 \<and>
     \<not> input_device (to_ascii_uppercase (first_part (CHR ''.'') part)) \<and> \<not> managed_name part \<and>
     \<not> list_ex (\<lambda>c. char_is_control c \<or> c \<in> {92, 58, 42, 63, 34, 60, 62, 124}) (str_chars part)"

definition input_path_ok :: "string \<Rightarrow> bool" where
  "input_path_ok v \<longleftrightarrow>
     v \<noteq> [] \<and> length v \<le> 1024 \<and> is_experiment_file v \<and> list_all input_part (split_on (CHR ''/'') v)"

definition selected_ok :: "exp_env \<Rightarrow> selected_file \<Rightarrow> bool" where
  "selected_ok X f \<longleftrightarrow>
     valid_id X (sf_file_id f) \<and> input_path_ok (sf_path f) \<and> 0 < sf_revision f \<and> is_sha256_hex (sf_hash f)"

definition run_request_validate :: "exp_env \<Rightarrow> run_request \<Rightarrow> (run_request \<times> execution_limits) result" where
  "run_request_validate X r =
     (let chosen = rr_entry r # rr_inputs r in
      if \<not> valid_id X (rr_vault_id r) \<or> \<not> valid_id X (rr_operation_id r) \<or> rr_runtime_id r \<noteq> runtime_id \<or>
         max_files \<le> length (rr_inputs r) \<or> \<not> ends_with ''.py'' (to_ascii_lowercase (sf_path (rr_entry r)))
      then Err ''EXPERIMENT_REQUEST_INVALID''
      else if \<not> list_all (selected_ok X) chosen \<or> \<not> distinct (map sf_file_id chosen) \<or>
         \<not> distinct (map (\<lambda>f. unicode_lower X (sf_path f)) chosen)
      then Err ''EXPERIMENT_REQUEST_INVALID''
      else bindR (limits_validate (rr_limits r)) (\<lambda>l.
        Inr (r\<lparr>rr_inputs := sort_key sf_path (rr_inputs r)\<rparr>, l)))"

definition run_fingerprint :: "exp_env \<Rightarrow> run_request \<Rightarrow> string result" where
  "run_fingerprint X r =
     bindR (ok_or (run_request_text X r) ''EXPERIMENT_REQUEST_INVALID'') (\<lambda>body.
     Inr (sha256 X (''opennexus-experiment-inputs-v1'' @ [CHR 0x00] @ body)))"

definition summary_validate :: "exp_env \<Rightarrow> input_summary \<Rightarrow> (run_request \<times> execution_limits) result" where
  "summary_validate X s =
     bindR (run_request_validate X (is_request s)) (\<lambda>(request, limits).
     bindR (run_fingerprint X request) (\<lambda>fp.
     if is_fingerprint s \<noteq> fp \<or> length (is_sizes s) \<noteq> length (rr_inputs (is_request s)) + 1 \<or>
        list_ex (\<lambda>(_, sz). max_input_file_bytes < sz) (is_sizes s) \<or>
        is_total_bytes s \<noteq> sum_list (map snd (is_sizes s)) \<or> max_total_bytes < is_total_bytes s \<or>
        list_ex (\<lambda>f. bt_get (is_sizes s) (sf_path f) = None) (rr_entry (is_request s) # rr_inputs (is_request s))
     then Err ''EXPERIMENT_RECORD_CORRUPT'' else Inr (request, limits)))"

section \<open>Output files\<close>

definition max_path :: nat where "max_path = 1024"
definition max_depth :: nat where "max_depth = 16"
definition max_outputs :: nat where "max_outputs = 256"
definition max_output_bytes :: nat where "max_output_bytes = 16 * 1024 * 1024"
definition max_pixels :: nat where "max_pixels = 4194304"

definition output_device :: "string \<Rightarrow> bool" where
  "output_device stem \<longleftrightarrow>
     stem \<in> {''con'', ''prn'', ''aux'', ''nul''} \<or>
     (length stem = 4 \<and> (starts_with ''com'' stem \<or> starts_with ''lpt'' stem) \<and>
        nonzero_digit (stem ! 3)) \<or>
     stem \<in> {''com'' @ superscript1, ''com'' @ superscript2, ''com'' @ superscript3,
              ''lpt'' @ superscript1, ''lpt'' @ superscript2, ''lpt'' @ superscript3}"

definition output_component :: "string \<Rightarrow> bool" where
  "output_component name \<longleftrightarrow>
     name \<noteq> [] \<and> length name \<le> 255 \<and> name \<noteq> ''.'' \<and> name \<noteq> ''..'' \<and> \<not> ends_dot_space name \<and>
     \<not> list_ex (\<lambda>c. char_is_control c \<or> c \<in> {92, 47, 58, 42, 63, 34, 60, 62, 124}) (str_chars name) \<and>
     \<not> output_device (to_ascii_lowercase (first_part (CHR ''.'') name))"

definition output_path_ok :: "string \<Rightarrow> bool" where
  "output_path_ok path \<longleftrightarrow>
     length path \<le> max_path \<and> length (split_on (CHR ''/'') path) \<le> max_depth \<and>
     list_all output_component (split_on (CHR ''/'') path)"

definition error_code_ok :: "string \<Rightarrow> bool" where
  "error_code_ok e \<longleftrightarrow>
     e \<noteq> [] \<and> length e \<le> 96 \<and> list_all (\<lambda>b. is_ascii_uppercase b \<or> is_ascii_digit b \<or> b = CHR ''_'') e"

fun report_total :: "exp_env \<Rightarrow> string list \<Rightarrow> nat \<Rightarrow> (string \<times> nat) list \<Rightarrow> nat result" where
  "report_total X seen tot [] = Inr tot"
| "report_total X seen tot ((path, bytes) # rest) =
     (if \<not> output_path_ok path \<or> max_output_bytes < bytes \<or> name_key X path \<in> set seen
      then Err ''EXPERIMENT_OUTPUT_INVALID''
      else if u64_max < tot + bytes then Err ''EXPERIMENT_OUTPUT_LIMIT_EXCEEDED''
      else report_total X (name_key X path # seen) (tot + bytes) rest)"

fun report_validate :: "exp_env \<Rightarrow> nat \<Rightarrow> output_report \<Rightarrow> unit result" where
  "report_validate X limit (Rejected e) = require (error_code_ok e) ''EXPERIMENT_OUTPUT_INVALID''"
| "report_validate X limit (Collected s) =
     (if max_outputs < length (os_files s) + length (os_skipped s) then Err ''EXPERIMENT_OUTPUT_LIMIT_EXCEEDED''
      else bindR (report_total X [] 0 (map (\<lambda>f. (om_path f, om_bytes f)) (os_files s) @
               map (\<lambda>f. (so_path f, so_bytes f)) (os_skipped s))) (\<lambda>tot.
      if tot \<noteq> os_total_bytes s \<or> limit < tot then Err ''EXPERIMENT_OUTPUT_LIMIT_EXCEEDED''
      else require (list_all (\<lambda>f. is_sha256_hex (om_sha256 f)) (os_files s)) ''EXPERIMENT_OUTPUT_INVALID''))"

section \<open>CSV\<close>

definition len_utf8 :: "nat \<Rightarrow> nat" where
  "len_utf8 c = (if c < 128 then 1 else if c < 2048 then 2 else if c < 65536 then 3 else 4)"

record csv_state =
  cs_quoted :: bool
  cs_closed :: bool
  cs_start :: bool
  cs_cell :: nat
  cs_fields :: nat
  cs_rows :: nat

definition csv_init :: csv_state where
  "csv_init = \<lparr>cs_quoted = False, cs_closed = False, cs_start = True, cs_cell = 0, cs_fields = 1, cs_rows = 1\<rparr>"

definition max_cell :: nat where "max_cell = 64 * 1024"

definition peeks :: "nat \<Rightarrow> nat list \<Rightarrow> bool" where
  "peeks c rest \<longleftrightarrow> rest \<noteq> [] \<and> hd rest = c"

definition csv_limits :: "csv_state \<Rightarrow> nat list \<Rightarrow> (csv_state \<times> nat list) result" where
  "csv_limits s rest =
     (if 256 < cs_fields s \<or> 100000 < cs_rows s then Err ''EXPERIMENT_OUTPUT_LIMIT_EXCEEDED'' else Inr (s, rest))"

definition csv_in_quotes :: "csv_state \<Rightarrow> nat \<Rightarrow> nat list \<Rightarrow> (csv_state \<times> nat list) result" where
  "csv_in_quotes s c rest =
     (if c = 34 then
        if peeks 34 rest then
          if max_cell < cs_cell s + 1 then Err ''EXPERIMENT_OUTPUT_LIMIT_EXCEEDED''
          else Inr (s\<lparr>cs_cell := cs_cell s + 1\<rparr>, tl rest)
        else Inr (s\<lparr>cs_quoted := False, cs_closed := True\<rparr>, rest)
      else Inr (s, rest))"

definition csv_plain :: "csv_state \<Rightarrow> nat \<Rightarrow> nat list \<Rightarrow> (csv_state \<times> nat list) result" where
  "csv_plain s c rest =
     (if c = 44 then
        csv_limits (s\<lparr>cs_fields := cs_fields s + 1, cs_start := True, cs_closed := False, cs_cell := 0\<rparr>) rest
      else if c = 10 \<or> c = 13 then
        csv_limits (s\<lparr>cs_rows := cs_rows s + 1, cs_fields := 1, cs_start := True, cs_closed := False, cs_cell := 0\<rparr>)
          (if c = 13 \<and> peeks 10 rest then tl rest else rest)
      else if c = 34 \<and> cs_start s then csv_limits (s\<lparr>cs_quoted := True, cs_start := False\<rparr>) rest
      else if c = 34 \<or> cs_closed s then Err ''EXPERIMENT_OUTPUT_INVALID''
      else csv_limits (s\<lparr>cs_start := False\<rparr>) rest)"

definition csv_step :: "csv_state \<Rightarrow> nat \<Rightarrow> nat list \<Rightarrow> (csv_state \<times> nat list) result" where
  "csv_step s c rest =
     (let s1 = s\<lparr>cs_cell := cs_cell s + len_utf8 c\<rparr> in
      if max_cell < cs_cell s1 then Err ''EXPERIMENT_OUTPUT_LIMIT_EXCEEDED''
      else if cs_quoted s1 then csv_in_quotes s1 c rest else csv_plain s1 c rest)"

lemma csv_step_rest: "csv_step s c rest = Inr (s', rest') \<Longrightarrow> length rest' \<le> length rest"
  by (auto simp: csv_step_def csv_in_quotes_def csv_plain_def csv_limits_def Let_def split: if_splits)

function csv_loop :: "csv_state \<Rightarrow> nat list \<Rightarrow> unit result" where
  "csv_loop s [] = require (\<not> cs_quoted s) ''EXPERIMENT_OUTPUT_INVALID''"
| "csv_loop s (c # rest) =
     (case csv_step s c rest of Inl e \<Rightarrow> Inl e | Inr (s', rest') \<Rightarrow> csv_loop s' rest')"
  by pat_completeness auto
termination
  by (relation "measure (\<lambda>(s, cs). length cs)") (auto dest: csv_step_rest)

definition validate_csv :: "string \<Rightarrow> unit result" where
  "validate_csv t = csv_loop csv_init (str_chars t)"

section \<open>PNG\<close>

definition be_u32 :: "string \<Rightarrow> nat" where
  "be_u32 bs = foldl (\<lambda>n b. n * 256 + of_char b) 0 bs"

definition png_signature :: string where
  "png_signature = [CHR 0x89, CHR ''P'', CHR ''N'', CHR ''G'', CHR 0x0D, CHR 0x0A, CHR 0x1A, CHR 0x0A]"

definition png_kinds :: "string list" where
  "png_kinds = [''IHDR'', ''PLTE'', ''tRNS'', ''IDAT'', ''IEND'', ''sRGB'', ''gAMA'', ''cHRM'', ''pHYs'']"

definition byte_slice :: "nat \<Rightarrow> nat \<Rightarrow> string \<Rightarrow> string" where
  "byte_slice a b bs = take (b - a) (drop a bs)"

definition png_dimensions :: "string \<Rightarrow> nat \<Rightarrow> unit result" where
  "png_dimensions bytes offset =
     (let width = be_u32 (byte_slice (offset + 8) (offset + 12) bytes);
          height = be_u32 (byte_slice (offset + 12) (offset + 16) bytes) in
      require (\<not> (width = 0 \<or> height = 0 \<or> 4096 < width \<or> 4096 < height \<or> max_pixels < width * height))
        ''EXPERIMENT_OUTPUT_LIMIT_EXCEEDED'')"

text \<open>One chunk at \<open>offset\<close>; the offset after it, and whether it was the last one.\<close>

definition png_chunk :: "exp_env \<Rightarrow> string \<Rightarrow> nat \<Rightarrow> nat \<Rightarrow> bool \<Rightarrow> (nat \<times> bool) result" where
  "png_chunk X bytes offset chunks ended =
     (if 4096 < chunks \<or> length bytes < offset + 12 then Err ''EXPERIMENT_OUTPUT_INVALID''
      else
        let len = be_u32 (byte_slice offset (offset + 4) bytes);
            end = offset + 12 + len;
            kind = byte_slice (offset + 4) (offset + 8) bytes in
        bindR (require (end \<le> u64_max \<and> \<not> (length bytes < end \<or> ended) \<and> kind \<in> set png_kinds \<and>
                 crc32 X (byte_slice (offset + 4) (end - 4) bytes) = be_u32 (byte_slice (end - 4) end bytes))
                 ''EXPERIMENT_OUTPUT_INVALID'') (\<lambda>_.
        bindR (if chunks = 1 then
                 bindR (require (kind = ''IHDR'' \<and> len = 13) ''EXPERIMENT_OUTPUT_INVALID'') (\<lambda>_.
                 png_dimensions bytes offset)
               else Inr ()) (\<lambda>_.
        bindR (require (kind = ''IEND'' \<longrightarrow> len = 0) ''EXPERIMENT_OUTPUT_INVALID'') (\<lambda>_.
        Inr (end, ended \<or> kind = ''IEND'')))))"

lemma png_chunk_advances: "png_chunk X bytes offset chunks ended = Inr (next, e) \<Longrightarrow> offset < next"
  by (auto simp: png_chunk_def Let_def bindR_Inr_iff split: if_splits)

function png_loop :: "exp_env \<Rightarrow> string \<Rightarrow> nat \<Rightarrow> nat \<Rightarrow> bool \<Rightarrow> unit result" where
  "png_loop X bytes offset chunks ended =
     (if offset < length bytes then
        (case png_chunk X bytes offset (chunks + 1) ended of
           Inl e \<Rightarrow> Inl e
         | Inr (end, ended') \<Rightarrow> png_loop X bytes end (chunks + 1) ended')
      else require ended ''EXPERIMENT_OUTPUT_INVALID'')"
  by pat_completeness auto
termination
  by (relation "measure (\<lambda>(X, bytes, offset, chunks, ended). length bytes - offset)")
     (auto dest!: png_chunk_advances)

declare png_loop.simps [simp del]

definition max_decoded :: nat where "max_decoded = 32 * 1024 * 1024"

definition validate_png :: "exp_env \<Rightarrow> string \<Rightarrow> unit result" where
  "validate_png X bytes =
     bindR (require (starts_with png_signature bytes) ''EXPERIMENT_OUTPUT_INVALID'') (\<lambda>_.
     bindR (png_loop X bytes 8 0 False) (\<lambda>_.
     bindR (ok_or (png_frame_size X bytes) ''EXPERIMENT_OUTPUT_INVALID'') (\<lambda>frame.
     bindR (require (case frame of None \<Rightarrow> False | Some n \<Rightarrow> n \<le> max_decoded) ''EXPERIMENT_OUTPUT_LIMIT_EXCEEDED'') (\<lambda>_.
     require (png_frame_ok X bytes) ''EXPERIMENT_OUTPUT_INVALID''))))"

section \<open>Validated outputs\<close>

definition kind_of_suffix :: "string \<Rightarrow> output_kind option" where
  "kind_of_suffix suffix =
     (if suffix = ''txt'' then Some TextOut else if suffix = ''md'' then Some MarkdownOut
      else if suffix = ''json'' then Some JsonOut else if suffix = ''csv'' then Some CsvOut
      else if suffix = ''png'' then Some PngOut else None)"

definition last_suffix :: "string \<Rightarrow> string" where
  "last_suffix path = to_ascii_lowercase (last (split_on (CHR ''.'') path))"

definition strip_bom :: "string \<Rightarrow> string" where
  "strip_bom t = (case strip_prefix [CHR 0xEF, CHR 0xBB, CHR 0xBF] t of None \<Rightarrow> t | Some r \<Rightarrow> r)"

definition content_ok :: "exp_env \<Rightarrow> output_kind \<Rightarrow> string \<Rightarrow> unit result" where
  "content_ok X kind content =
     (if kind = PngOut then validate_png X content
      else
        bindR (require (utf8_valid content) ''EXPERIMENT_OUTPUT_INVALID'') (\<lambda>_.
        let t = strip_bom content in
        bindR (require (CHR 0x00 \<notin> set t) ''EXPERIMENT_OUTPUT_INVALID'') (\<lambda>_.
        bindR (require (kind = JsonOut \<longrightarrow> json_valid X t) ''EXPERIMENT_OUTPUT_INVALID'') (\<lambda>_.
        if kind = CsvOut then validate_csv t else Inr ()))))"

definition output_validate :: "exp_env \<Rightarrow> string \<Rightarrow> string \<Rightarrow> nat \<Rightarrow> output_manifest option result" where
  "output_validate X path content limit =
     (if \<not> output_path_ok path then Err ''EXPERIMENT_OUTPUT_INVALID''
      else if min limit max_output_bytes < length content then Err ''EXPERIMENT_OUTPUT_LIMIT_EXCEEDED''
      else (case kind_of_suffix (last_suffix path) of
          None \<Rightarrow> Inr None
        | Some kind \<Rightarrow>
            bindR (content_ok X kind content) (\<lambda>_.
            Inr (Some \<lparr>om_path = path, om_bytes = length content, om_sha256 = sha256 X content, om_kind = kind\<rparr>))))"

definition output_restore :: "exp_env \<Rightarrow> output_manifest \<Rightarrow> string \<Rightarrow> nat \<Rightarrow> string result" where
  "output_restore X manifest content limit =
     bindR (output_validate X (om_path manifest) content limit) (\<lambda>v.
     bindR (ok_or v ''EXPERIMENT_OUTPUT_INVALID'') (\<lambda>validated.
     bindR (require (validated = manifest) ''EXPERIMENT_OUTPUT_INVALID'') (\<lambda>_. Inr content)))"

section \<open>Import plans\<close>

definition selection_ok :: "selection \<Rightarrow> bool" where
  "selection_ok c \<longleftrightarrow>
     output_path_ok (se_output_path c) \<and> output_path_ok (se_destination c) \<and>
     \<not> list_ex managed_name (split_on (CHR ''/'') (se_destination c))"

definition canonical :: "exp_env \<Rightarrow> import_request \<Rightarrow> import_request result" where
  "canonical X r =
     (if \<not> valid_id X (rq_vault_id r) \<or> \<not> valid_id X (rq_operation_id r) \<or> \<not> valid_id X (rq_run_id r) \<or>
         rq_operation_id r = rq_run_id r \<or> \<not> (1 \<le> length (rq_selections r) \<and> length (rq_selections r) \<le> max_files)
      then Err ''EXPERIMENT_IMPORT_INVALID''
      else if \<not> list_all selection_ok (rq_selections r) \<or>
         \<not> distinct (map (\<lambda>c. name_key X (se_output_path c)) (rq_selections r)) \<or>
         \<not> distinct (map (\<lambda>c. name_key X (se_destination c)) (rq_selections r))
      then Err ''EXPERIMENT_IMPORT_INVALID''
      else Inr (r\<lparr>rq_selections := sort_key se_destination (rq_selections r)\<rparr>))"

definition compatible :: "output_manifest \<Rightarrow> string \<Rightarrow> bool" where
  "compatible output path =
     (case om_kind output of
        TextOut \<Rightarrow> last_suffix path = ''md''
      | MarkdownOut \<Rightarrow> last_suffix path = ''md''
      | PngOut \<Rightarrow> last_suffix path = ''png''
      | JsonOut \<Rightarrow> last_suffix path = ''json'' \<and> is_experiment_file path
      | CsvOut \<Rightarrow> last_suffix path = ''csv'' \<and> is_experiment_file path)"

definition plan_item_ok :: "exp_env \<Rightarrow> string \<Rightarrow> import_item_plan \<Rightarrow> selection \<Rightarrow> bool" where
  "plan_item_ok X operation item choice \<longleftrightarrow>
     (let target = ip_target item in
      om_path (ip_output item) = se_output_path choice \<and> sf_path target = se_destination choice \<and>
      compatible (ip_output item) (sf_path target) \<and> valid_id X (ip_write_id item) \<and>
      valid_id X (sf_file_id target) \<and> ip_write_id item \<noteq> operation \<and> 0 \<le> sf_revision target \<and>
      (sf_hash target = [] \<longleftrightarrow> sf_revision target = 0) \<and>
      (sf_hash target \<noteq> [] \<longrightarrow> is_sha256_hex (sf_hash target)))"

definition plan_header_ok :: "exp_env \<Rightarrow> import_plan \<Rightarrow> import_request \<Rightarrow> bool" where
  "plan_header_ok X p c \<longleftrightarrow>
     (let request = pn_request p; run = pn_execution p in
      import_request_text X c \<noteq> None \<and> import_request_text X c = import_request_text X request \<and>
      rr_vault_id (is_request (pn_source p)) = rq_vault_id request \<and>
      rr_operation_id (is_request (pn_source p)) = rq_run_id request \<and>
      length (pn_items p) = length (rq_selections request) \<and> 0 \<le> re_created_ms run \<and>
      (case re_approved_ms run of None \<Rightarrow> True | Some ms \<Rightarrow> 0 \<le> ms) \<and>
      (case re_approval_id run of None \<Rightarrow> True | Some i \<Rightarrow> valid_id X i))"

definition plan_bytes :: "import_plan \<Rightarrow> nat" where
  "plan_bytes p = sum_list (map (\<lambda>i. om_bytes (ip_output i)) (pn_items p))"

definition plan_items_ok :: "exp_env \<Rightarrow> import_plan \<Rightarrow> bool" where
  "plan_items_ok X p \<longleftrightarrow>
     list_all (\<lambda>(item, choice). plan_item_ok X (rq_operation_id (pn_request p)) item choice)
       (zip (pn_items p) (rq_selections (pn_request p))) \<and>
     distinct (map ip_write_id (pn_items p)) \<and> distinct (map (\<lambda>i. sf_file_id (ip_target i)) (pn_items p)) \<and>
     plan_bytes p \<le> u64_max"

definition plan_report :: "import_plan \<Rightarrow> output_report" where
  "plan_report p = Collected \<lparr>os_files = map ip_output (pn_items p), os_skipped = [], os_total_bytes = plan_bytes p\<rparr>"

definition plan_validate :: "exp_env \<Rightarrow> import_plan \<Rightarrow> unit result" where
  "plan_validate X p =
     (case canonical X (pn_request p) of
        Inl _ \<Rightarrow> Err ''EXPERIMENT_IMPORT_CORRUPT''
      | Inr c \<Rightarrow>
          bindR (require (plan_header_ok X p c) ''EXPERIMENT_IMPORT_CORRUPT'') (\<lambda>_.
          bindR (summary_validate X (pn_source p)) (\<lambda>v.
          bindR (require (plan_items_ok X p) ''EXPERIMENT_IMPORT_CORRUPT'') (\<lambda>_.
          require (is_ok (report_validate X (unat (output_bytes (snd v))) (plan_report p)))
            ''EXPERIMENT_IMPORT_CORRUPT''))))"

section \<open>Budgets never overflow\<close>

lemma unat_widen: "unat (ucast (w :: 32 word) :: 64 word) = unat w"
proof -
  have "unat w < 2 ^ 32" using unsigned_less [of w] by simp
  then show ?thesis by (simp add: unsigned_ucast_eq take_bit_nat_eq_self)
qed

lemma unat_widen_mult:
  assumes "unat (w :: 32 word) * unat k < 2 ^ 64"
  shows "unat (ucast w * k :: 64 word) = unat w * unat k"
  using assms unat_mult_lem [of "ucast w :: 64 word" k] by (simp add: unat_widen)

lemma limits_bounds:
  assumes "limits_validate l = Inr v"
  shows "v = l" "unat (cpu_seconds l) \<le> 60" "unat (memory_mib l) \<le> 512" "unat (disk_mib l) \<le> 128"
    "unat (output_mib l) \<le> unat (disk_mib l)" "unat (log_kib l) \<le> 1024"
  using assms by (auto simp: limits_validate_def word_le_nat_alt word_less_nat_alt not_less split: if_splits)

lemma limits_bytes:
  assumes "limits_validate l = Inr v"
  shows "unat (cpu_ticks l) = unat (cpu_seconds l) * 10000000"
    "unat (memory_bytes l) = unat (memory_mib l) * 1048576"
    "unat (disk_bytes l) = unat (disk_mib l) * 1048576"
    "unat (output_bytes l) = unat (output_mib l) * 1048576"
    "unat (log_bytes l) = unat (log_kib l) * 1024"
  using limits_bounds [OF assms] unat_widen_mult [of "cpu_seconds l" 10000000]
    unat_widen_mult [of "memory_mib l" 1048576] unat_widen_mult [of "disk_mib l" 1048576]
    unat_widen_mult [of "output_mib l" 1048576] unat_widen_mult [of "log_kib l" 1024]
  by (simp_all add: cpu_ticks_def memory_bytes_def disk_bytes_def output_bytes_def log_bytes_def mult.assoc)

text \<open>
  C39. Validated budgets never overflow: once the limits of an experiment validate, every derived
  quantity of the job (processor ticks, memory, output and total write bytes) computed in 64 bits
  is the exact product, outputs fit the disk budget, and memory and writes stay below the caps.
\<close>

theorem limits_no_overflow:
  assumes "limits_validate l = Inr v"
  shows "unat (cpu_ticks v) = unat (cpu_seconds l) * 10000000 \<and>
    unat (memory_bytes v) = unat (memory_mib l) * 1048576 \<and> unat (memory_bytes v) \<le> 512 * 1048576 \<and>
    unat (output_bytes v) \<le> unat (disk_bytes v) \<and>
    unat (write_io_bytes v) = unat (disk_mib l) * 1048576 + unat (output_mib l) * 1048576 + unat (log_kib l) * 1024 \<and>
    unat (write_io_bytes v) \<le> 257 * 1048576"
proof -
  note b = limits_bounds [OF assms] limits_bytes [OF assms]
  have 1: "unat (disk_bytes l + output_bytes l) = unat (disk_bytes l) + unat (output_bytes l)"
    using b unat_add_lem [of "disk_bytes l" "output_bytes l"] by simp
  then have "unat (write_io_bytes l) = unat (disk_bytes l) + unat (output_bytes l) + unat (log_bytes l)"
    using b unat_add_lem [of "disk_bytes l + output_bytes l" "log_bytes l"] by (simp add: write_io_bytes_def)
  with b show ?thesis by simp
qed

theorem limits_no_overflow_witness:
  "unat (write_io_bytes default_limits) = 64 * 1048576 + 16 * 1048576 + 256 * 1024"
  using limits_no_overflow [of default_limits default_limits]
  by (simp add: limits_validate_def default_limits_def)

section \<open>CSV files with quoted cells are accepted\<close>

text \<open>A table in its quoted form: quotes are doubled, cells separated by commas, rows by newlines.\<close>

definition csv_escape :: "nat list \<Rightarrow> nat list" where
  "csv_escape cell = concat (map (\<lambda>c. if c = 34 then [34, 34] else [c]) cell)"

definition csv_cell :: "nat list \<Rightarrow> nat list" where
  "csv_cell cell = 34 # csv_escape cell @ [34]"

definition csv_text :: "nat list list list \<Rightarrow> nat list" where
  "csv_text rows = join_with 10 (map (\<lambda>row. join_with 44 (map csv_cell row)) rows)"

definition cell_bytes :: "nat list \<Rightarrow> nat" where
  "cell_bytes cell = sum_list (map (\<lambda>c. if c = 34 then 2 else len_utf8 c) cell)"

definition fresh_cell :: "nat \<Rightarrow> nat \<Rightarrow> csv_state" where
  "fresh_cell nf rows =
     \<lparr>cs_quoted = False, cs_closed = False, cs_start = True, cs_cell = 0, cs_fields = nf, cs_rows = rows\<rparr>"

definition end_cell :: "nat \<Rightarrow> nat \<Rightarrow> nat \<Rightarrow> csv_state" where
  "end_cell n nf rows =
     \<lparr>cs_quoted = False, cs_closed = True, cs_start = False, cs_cell = n, cs_fields = nf, cs_rows = rows\<rparr>"

lemma csv_loop_escape:
  "cs_quoted s \<Longrightarrow> cs_cell s + cell_bytes cell \<le> max_cell \<Longrightarrow>
     csv_loop s (csv_escape cell @ rest) = csv_loop (s\<lparr>cs_cell := cs_cell s + cell_bytes cell\<rparr>) rest"
proof (induction cell arbitrary: s)
  case (Cons c cell)
  show ?case
  proof (cases "c = 34")
    case True
    then show ?thesis
      using Cons.IH [of "s\<lparr>cs_cell := cs_cell s + 2\<rparr>"] Cons.prems
      by (simp add: csv_escape_def cell_bytes_def csv_step_def csv_in_quotes_def peeks_def len_utf8_def)
  next
    case False
    then show ?thesis
      using Cons.IH [of "s\<lparr>cs_cell := cs_cell s + len_utf8 c\<rparr>"] Cons.prems
      by (simp add: csv_escape_def cell_bytes_def csv_step_def csv_in_quotes_def add.assoc)
  qed
qed (simp add: csv_escape_def cell_bytes_def)

lemma csv_loop_cell:
  assumes "cell_bytes cell + 2 \<le> max_cell" "nf \<le> 256" "rows \<le> 100000" "\<not> peeks 34 rest"
  shows "csv_loop (fresh_cell nf rows) (csv_cell cell @ rest) =
    csv_loop (end_cell (cell_bytes cell + 2) nf rows) rest"
  using assms
  by (simp add: csv_cell_def csv_loop_escape csv_step_def csv_plain_def csv_limits_def fresh_cell_def
      csv_in_quotes_def end_cell_def len_utf8_def)

lemma csv_loop_sep:
  assumes "n + 1 \<le> max_cell" "nf \<le> 256" "rows \<le> 100000"
  shows "nf < 256 \<Longrightarrow> csv_loop (end_cell n nf rows) (44 # rest) = csv_loop (fresh_cell (nf + 1) rows) rest"
    "rows < 100000 \<Longrightarrow> csv_loop (end_cell n nf rows) (10 # rest) = csv_loop (fresh_cell 1 (rows + 1)) rest"
  using assms
  by (simp_all add: csv_step_def csv_plain_def csv_limits_def fresh_cell_def end_cell_def len_utf8_def)

lemma join_Cons: "ps \<noteq> [] \<Longrightarrow> join_with d (p # ps) = p @ d # join_with d ps"
  by (cases ps) auto

lemma csv_loop_row:
  assumes "row \<noteq> []" "\<forall>cell \<in> set row. cell_bytes cell + 3 \<le> max_cell"
    "nf + length row \<le> 257" "rows \<le> 100000" "\<not> peeks 34 rest"
  shows "\<exists>n. n + 1 \<le> max_cell \<and> csv_loop (fresh_cell nf rows) (join_with 44 (map csv_cell row) @ rest) =
    csv_loop (end_cell n (nf + length row - 1) rows) rest"
  using assms
proof (induction row arbitrary: nf)
  case (Cons cell row)
  show ?case
  proof (cases "row = []")
    case True
    then show ?thesis
      using Cons.prems by (intro exI [of _ "cell_bytes cell + 2"]) (simp add: csv_loop_cell)
  next
    case False
    let ?rest = "44 # join_with 44 (map csv_cell row) @ rest"
    have "csv_loop (fresh_cell nf rows) (csv_cell cell @ ?rest) =
        csv_loop (end_cell (cell_bytes cell + 2) nf rows) ?rest"
      using Cons.prems False by (intro csv_loop_cell) (auto simp: peeks_def Suc_le_eq)
    also have "\<dots> = csv_loop (fresh_cell (nf + 1) rows) (join_with 44 (map csv_cell row) @ rest)"
      using Cons.prems False by (intro csv_loop_sep) (auto simp: Suc_le_eq simp flip: length_greater_0_conv)
    finally show ?thesis
      using Cons.IH [of "nf + 1"] Cons.prems False by (simp add: join_Cons)
  qed
qed simp

lemma csv_loop_rows:
  assumes "table \<noteq> []" "\<forall>row \<in> set table. row \<noteq> [] \<and> length row \<le> 256 \<and>
      (\<forall>cell \<in> set row. cell_bytes cell + 3 \<le> max_cell)" "rows + length table \<le> 100001"
  shows "csv_loop (fresh_cell 1 rows) (csv_text table) = Inr ()"
  using assms
proof (induction table arbitrary: rows)
  case (Cons row table)
  show ?case
  proof (cases "table = []")
    case True
    then show ?thesis
      using csv_loop_row [of row 1 rows "[]"] Cons.prems by (auto simp: csv_text_def peeks_def end_cell_def)
  next
    case False
    let ?rest = "10 # csv_text table"
    from False have lt: "rows < 100000" using Cons.prems by (simp flip: length_greater_0_conv)
    obtain n where n: "n + 1 \<le> max_cell" and run: "csv_loop (fresh_cell 1 rows) (join_with 44 (map csv_cell row) @ ?rest) =
        csv_loop (end_cell n (1 + length row - 1) rows) ?rest"
      using csv_loop_row [of row 1 rows ?rest] Cons.prems lt by (auto simp: peeks_def)
    note run
    also have "csv_loop (end_cell n (1 + length row - 1) rows) ?rest = csv_loop (fresh_cell 1 (rows + 1)) (csv_text table)"
      using n Cons.prems lt by (intro csv_loop_sep) auto
    finally show ?thesis
      using Cons.IH [of "rows + 1"] Cons.prems False by (simp add: csv_text_def join_Cons)
  qed
qed simp

text \<open>
  The CSV check accepts every table in quoted form within the limits: up to 100000 non-empty
  rows of up to 256 cells whose quoted text stays below 64 KiB each, whatever characters the
  cells hold, including quotes, separators and line breaks.
\<close>

theorem csv_accepts_tables:
  assumes "table \<noteq> []" "length table \<le> 100000"
    and "\<forall>row \<in> set table. row \<noteq> [] \<and> length row \<le> 256 \<and> (\<forall>cell \<in> set row. cell_bytes cell + 3 \<le> max_cell)"
    and "str_chars t = csv_text table"
  shows "validate_csv t = Inr ()"
  using csv_loop_rows [of table 1] assms by (simp add: validate_csv_def csv_init_def fresh_cell_def)

theorem csv_accepts_tables_witness:
  "validate_csv [CHR 0x22, CHR ''a'', CHR 0x22, CHR '','', CHR 0x22, CHR 0x22, CHR 0x22, CHR 0x0A, CHR 0x22] = Inr ()"
  by (rule csv_accepts_tables [of "[[[97], [34, 10]]]"])
     (simp_all add: cell_bytes_def max_cell_def len_utf8_def csv_text_def csv_cell_def csv_escape_def
        utf8_tail_def byte_in_def)

section \<open>The layout of an accepted PNG\<close>

record png_piece =
  pp_length :: string
  pp_kind :: string
  pp_body :: string
  pp_crc :: string

definition piece_bytes :: "png_piece \<Rightarrow> string" where
  "piece_bytes c = pp_length c @ pp_kind c @ pp_body c @ pp_crc c"

definition piece_ok :: "exp_env \<Rightarrow> png_piece \<Rightarrow> bool" where
  "piece_ok X c \<longleftrightarrow>
     length (pp_length c) = 4 \<and> be_u32 (pp_length c) = length (pp_body c) \<and> pp_kind c \<in> set png_kinds \<and>
     length (pp_crc c) = 4 \<and> crc32 X (pp_kind c @ pp_body c) = be_u32 (pp_crc c) \<and>
     (pp_kind c = ''IEND'' \<longrightarrow> pp_body c = [])"

lemma drop_slice: "a \<le> b \<Longrightarrow> drop a bs = byte_slice a b bs @ drop b bs"
  unfolding byte_slice_def by (metis append_take_drop_id drop_drop le_add_diff_inverse2)

lemma slice_length: "a \<le> b \<Longrightarrow> b \<le> length bs \<Longrightarrow> length (byte_slice a b bs) = b - a"
  by (simp add: byte_slice_def)

lemma slice_join:
  assumes "a \<le> b" "b \<le> c"
  shows "byte_slice a b bs @ byte_slice b c bs = byte_slice a c bs"
proof -
  from assms obtain i j where "b = a + i" "c = a + i + j" by (metis le_Suc_ex)
  then show ?thesis by (simp add: byte_slice_def take_add add.commute)
qed

lemma png_chunk_piece:
  assumes "png_chunk X bytes offset n ended = Inr (next, e)"
  obtains c where "piece_ok X c" "drop offset bytes = piece_bytes c @ drop next bytes" "\<not> ended"
    "e \<longleftrightarrow> pp_kind c = ''IEND''" "n \<le> 4096" "n = 1 \<Longrightarrow> pp_kind c = ''IHDR'' \<and> length (pp_body c) = 13"
proof -
  define len where "len = be_u32 (byte_slice offset (offset + 4) bytes)"
  define c where "c = \<lparr>pp_length = byte_slice offset (offset + 4) bytes, pp_kind = byte_slice (offset + 4) (offset + 8) bytes,
     pp_body = byte_slice (offset + 8) (offset + 8 + len) bytes, pp_crc = byte_slice (offset + 8 + len) next bytes\<rparr>"
  define kind where "kind = byte_slice (offset + 4) (offset + 8) bytes"
  have kind: "pp_kind c = kind" by (simp add: c_def kind_def)
  have g: "n \<le> 4096 \<and> offset + 12 \<le> length bytes"
    by (rule ccontr) (use assms in \<open>simp add: png_chunk_def not_le\<close>)
  let ?stop = "offset + 12 + len"
  let ?guard = "?stop \<le> u64_max \<and> \<not> (length bytes < ?stop \<or> ended) \<and> kind \<in> set png_kinds \<and>
     crc32 X (byte_slice (offset + 4) (?stop - 4) bytes) = be_u32 (byte_slice (?stop - 4) ?stop bytes)"
  have run: "bindR (require ?guard ''EXPERIMENT_OUTPUT_INVALID'') (\<lambda>_.
      bindR (if n = 1 then bindR (require (kind = ''IHDR'' \<and> len = 13) ''EXPERIMENT_OUTPUT_INVALID'') (\<lambda>_.
        png_dimensions bytes offset) else Inr ()) (\<lambda>_.
      bindR (require (kind = ''IEND'' \<longrightarrow> len = 0) ''EXPERIMENT_OUTPUT_INVALID'') (\<lambda>_.
      Inr (?stop, ended \<or> kind = ''IEND'')))) = Inr (next, e)"
    using assms g unfolding png_chunk_def Let_def len_def [symmetric] kind_def [symmetric]
    by (simp only: not_le [symmetric] if_False de_Morgan_disj not_not HOL.simp_thms)
  then have guard: ?guard and f1: "next = ?stop" and fe: "e \<longleftrightarrow> ended \<or> kind = ''IEND''"
      and f0: "kind = ''IEND'' \<longrightarrow> len = 0"
    by (auto simp only: bindR_Inr_iff require_simps sum.inject prod.inject)
  have header: "n = 1 \<longrightarrow> kind = ''IHDR'' \<and> len = 13"
  proof
    assume "n = 1"
    with run obtain u where "bindR (require (kind = ''IHDR'' \<and> len = 13) ''EXPERIMENT_OUTPUT_INVALID'')
        (\<lambda>_. png_dimensions bytes offset) = Inr u"
      by (auto simp only: bindR_Inr_iff if_True simp_thms)
    then show "kind = ''IHDR'' \<and> len = 13" by (simp add: bindR_Inr_iff)
  qed
  have fl: "next \<le> length bytes" and fk: "kind \<in> set png_kinds" and fn: "\<not> ended"
    using guard f1 by linarith+
  have crc0: "crc32 X (byte_slice (offset + 4) (next - 4) bytes) = be_u32 (byte_slice (next - 4) next bytes)"
    unfolding f1 using guard by (elim conjE)
  have body: "length (pp_body c) = len" using fl by (simp add: c_def slice_length f1)
  have parts: "drop offset bytes = piece_bytes c @ drop next bytes"
    using f1 drop_slice [of offset "offset + 4" bytes] drop_slice [of "offset + 4" "offset + 8" bytes]
      drop_slice [of "offset + 8" "offset + 8 + len" bytes] drop_slice [of "offset + 8 + len" "next" bytes]
    unfolding piece_bytes_def c_def by simp
  have "next - 4 = offset + 8 + len" using f1 by simp
  then have crc: "crc32 X (pp_kind c @ pp_body c) = be_u32 (pp_crc c)"
    using crc0 slice_join [of "offset + 4" "offset + 8" "offset + 8 + len" bytes] by (simp add: c_def)
  have sizes: "length (pp_length c) = 4" "length (pp_crc c) = 4" "be_u32 (pp_length c) = length (pp_body c)"
    using fl body by (simp_all add: c_def slice_length f1 len_def)
  have "pp_kind c = ''IEND'' \<longrightarrow> pp_body c = []"
    using f0 body unfolding kind by auto
  with sizes crc fk kind have ok: "piece_ok X c" by (simp only: piece_ok_def)
  have "e \<longleftrightarrow> pp_kind c = ''IEND''" using fe fn kind by blast
  moreover have "n = 1 \<Longrightarrow> pp_kind c = ''IHDR'' \<and> length (pp_body c) = 13"
    using header kind body by simp
  ultimately show thesis using that ok parts fn g by blast
qed

definition png_layout :: "exp_env \<Rightarrow> png_piece list \<Rightarrow> bool" where
  "png_layout X cs \<longleftrightarrow>
     cs \<noteq> [] \<and> list_all (piece_ok X) cs \<and> pp_kind (last cs) = ''IEND'' \<and>
     (\<forall>c \<in> set (butlast cs). pp_kind c \<noteq> ''IEND'')"

lemma png_loop_pieces:
  "png_loop X bytes offset n ended = Inr () \<Longrightarrow>
     (ended \<and> length bytes \<le> offset) \<or>
     (\<exists>cs. \<not> ended \<and> png_layout X cs \<and> drop offset bytes = concat (map piece_bytes cs) \<and> n + length cs \<le> 4096 \<and>
        (n = 0 \<longrightarrow> pp_kind (hd cs) = ''IHDR'' \<and> length (pp_body (hd cs)) = 13))"
proof (induction X bytes offset n ended rule: png_loop.induct)
  case (1 X bytes offset n ended)
  show ?case
  proof (cases "offset < length bytes")
    case True
    with 1(2) obtain next' e where step: "png_chunk X bytes offset (n + 1) ended = Inr (next', e)"
        and rest: "png_loop X bytes next' (n + 1) e = Inr ()"
      by (subst (asm) png_loop.simps) (auto split: sum.splits)
    from step obtain c where c: "piece_ok X c" "drop offset bytes = piece_bytes c @ drop next' bytes"
        "e \<longleftrightarrow> pp_kind c = ''IEND''" "n + 1 \<le> 4096" "\<not> ended"
        "n + 1 = 1 \<Longrightarrow> pp_kind c = ''IHDR'' \<and> length (pp_body c) = 13"
      by (rule png_chunk_piece) blast
    from 1(1) [OF True step refl rest] show ?thesis
    proof (elim disjE exE conjE)
      assume "e" "length bytes \<le> next'"
      with c show ?thesis by (intro disjI2 exI [of _ "[c]"]) (auto simp: png_layout_def)
    next
      fix cs assume cs: "\<not> e" "png_layout X cs" "drop next' bytes = concat (map piece_bytes cs)" "n + 1 + length cs \<le> 4096"
      from c cs show ?thesis by (intro disjI2 exI [of _ "c # cs"]) (auto simp: png_layout_def)
    qed
  next
    case False
    with 1(2) show ?thesis by (subst (asm) png_loop.simps) auto
  qed
qed

text \<open>
  C40. An accepted PNG is exactly its signature followed by at most 4096 well-formed chunks: the
  first is a header of 13 bytes, every kind is one of the nine allowed (so no text, colour
  profile, animation or unknown chunk survives), every checksum matches, and the single empty
  end chunk is the last one, with no byte after it.
\<close>

theorem png_accepted_layout:
  assumes "validate_png X bytes = Inr ()"
  shows "\<exists>cs. bytes = png_signature @ concat (map piece_bytes cs) \<and> cs \<noteq> [] \<and> length cs \<le> 4096 \<and>
    list_all (piece_ok X) cs \<and> pp_kind (hd cs) = ''IHDR'' \<and> length (pp_body (hd cs)) = 13 \<and>
    pp_kind (last cs) = ''IEND'' \<and> (\<forall>c \<in> set (butlast cs). pp_kind c \<noteq> ''IEND'')"
proof -
  from assms have start: "starts_with png_signature bytes" and loop: "png_loop X bytes 8 0 False = Inr ()"
    by (auto simp: validate_png_def bindR_Inr_iff)
  from start have "bytes = png_signature @ drop 8 bytes"
    by (auto simp: starts_with_iff png_signature_def)
  with png_loop_pieces [OF loop] show ?thesis
    by (auto simp: png_layout_def)
qed

definition demo_zeros :: string where "demo_zeros = replicate 64 (CHR ''0'')"

definition demo_source :: input_summary where
  "demo_source = \<lparr>is_request = \<lparr>rr_vault_id = ''a'', rr_operation_id = ''aaa'', rr_runtime_id = runtime_id,
       rr_entry = \<lparr>sf_file_id = ''a'', sf_path = ''experiments/x.py'', sf_hash = demo_zeros, sf_revision = 1\<rparr>,
       rr_inputs = [], rr_limits = default_limits\<rparr>,
     is_fingerprint = demo_zeros, is_sizes = [(''experiments/x.py'', 5)], is_total_bytes = 5\<rparr>"

definition demo_plan :: import_plan where
  "demo_plan = \<lparr>pn_request = \<lparr>rq_vault_id = ''a'', rq_operation_id = ''aa'', rq_run_id = ''aaa'',
       rq_selections = [\<lparr>se_output_path = ''o.md'', se_destination = ''n/o.md''\<rparr>]\<rparr>,
     pn_source = demo_source,
     pn_execution = \<lparr>re_created_ms = 0, re_approval_id = None, re_approved_ms = None, re_outcome = OutCompleted,
       re_exit_code = Some 0, re_elapsed_ms = 1\<rparr>,
     pn_items = [\<lparr>ip_output = \<lparr>om_path = ''o.md'', om_bytes = 3, om_sha256 = demo_zeros, om_kind = MarkdownOut\<rparr>,
       ip_target = \<lparr>sf_file_id = ''aaaaa'', sf_path = ''n/o.md'', sf_hash = [], sf_revision = 0\<rparr>,
       ip_write_id = ''aaaa''\<rparr>]\<rparr>"

definition demo_exp_env :: exp_env where
  "demo_exp_env = \<lparr>parse_uuid = (\<lambda>s. Some (length s)), uuid_text = (\<lambda>n. replicate n (CHR ''a'')), name_key = id,
     unicode_lower = id, sha256 = (\<lambda>_. replicate 64 (CHR ''0'')), run_request_text = (\<lambda>_. Some []),
     import_request_text = (\<lambda>r. Some (concat (map se_destination (rq_selections r)))),
     import_plan_text = (\<lambda>_. Some ''{}''), import_plan_of = (\<lambda>_. Some demo_plan), json_valid = (\<lambda>_. True),
     crc32 = (\<lambda>_. 0), png_frame_size = (\<lambda>_. Some (Some 4)), png_frame_ok = (\<lambda>_. True)\<rparr>"

text \<open>A picture of one pixel, with a checksum function that always yields zero.\<close>

definition demo_png :: string where
  "demo_png = png_signature @ [CHR 0x00, CHR 0x00, CHR 0x00, CHR 0x0D, CHR ''I'', CHR ''H'', CHR ''D'', CHR ''R'',
     CHR 0x00, CHR 0x00, CHR 0x00, CHR 0x01, CHR 0x00, CHR 0x00, CHR 0x00, CHR 0x01,
     CHR 0x00, CHR 0x00, CHR 0x00, CHR 0x00, CHR 0x00, CHR 0x00, CHR 0x00, CHR 0x00,
     CHR 0x00, CHR 0x00, CHR 0x00, CHR 0x00, CHR 0x00, CHR ''I'', CHR ''E'', CHR ''N'',
     CHR ''D'', CHR 0x00, CHR 0x00, CHR 0x00, CHR 0x00]"

lemma demo_png_length: "length demo_png = 45"
  by (simp add: demo_png_def png_signature_def)

lemma demo_png_chunks:
  "png_chunk demo_exp_env demo_png 8 1 False = Inr (33, False)"
  "png_chunk demo_exp_env demo_png 33 (Suc (Suc 0)) False = Inr (45, True)"
  by (simp_all add: png_chunk_def demo_png_length Let_def u64_max_def)
     (simp_all add: demo_png_def png_signature_def byte_slice_def be_u32_def demo_exp_env_def png_kinds_def
        png_dimensions_def max_pixels_def)

lemma demo_png_ok: "validate_png demo_exp_env demo_png = Inr ()"
proof -
  have "png_loop demo_exp_env demo_png 8 0 False = Inr ()"
    using demo_png_chunks demo_png_length by (simp add: png_loop.simps)
  then show ?thesis
    by (simp add: validate_png_def max_decoded_def demo_exp_env_def starts_with_iff demo_png_def)
qed

theorem png_accepted_layout_witness:
  "\<exists>cs. demo_png = png_signature @ concat (map piece_bytes cs) \<and> pp_kind (hd cs) = ''IHDR''"
  using png_accepted_layout [OF demo_png_ok] by blast

section \<open>Validated import plans\<close>

lemma report_total_sum:
  "report_total X seen acc fs = Inr n \<Longrightarrow> n = acc + sum_list (map snd fs) \<and> (\<forall>f \<in> set fs. snd f \<le> max_output_bytes)"
  by (induction X seen acc fs rule: report_total.induct) (auto split: if_splits)

lemma report_within: "is_ok (report_validate X limit (Collected s)) \<Longrightarrow> os_total_bytes s \<le> limit"
  by (rule ccontr) (auto simp: is_ok_def bindR_def split: if_splits sum.splits)

lemma run_request_limits: "run_request_validate X r = Inr (req, l) \<Longrightarrow> limits_validate (rr_limits r) = Inr l"
  unfolding run_request_validate_def Let_def by (simp only: bindR_Inr_iff split: if_splits) auto

lemma summary_limits:
  assumes "summary_validate X s = Inr (req, l)"
  shows "limits_validate (rr_limits (is_request s)) = Inr l"
proof -
  from assms obtain v where v: "run_request_validate X (is_request s) = Inr v" and "v = (req, l)"
    unfolding summary_validate_def by (cases "run_request_validate X (is_request s)")
      (auto simp: bindR_Inr_iff split: if_splits)
  then show ?thesis using run_request_limits by blast
qed

lemma output_component_name: "output_component part \<Longrightarrow> part \<noteq> ''..'' \<and> part \<noteq> []"
  by (simp add: output_component_def)

lemma destination_parts:
  "selection_ok c \<Longrightarrow> part \<in> set (split_on (CHR ''/'') (se_destination c)) \<Longrightarrow>
     \<not> managed_name part \<and> part \<noteq> ''..'' \<and> part \<noteq> []"
  using output_component_name [of part] by (simp add: selection_ok_def list_ex_iff output_path_ok_def list_all_iff)

text \<open>
  C38. A validated import plan is safe to confirm: it has between 1 and 32 items, each under its
  own write identifier (never the import's own) and for its own file; every destination avoids the
  managed directories and parent steps and suits the kind of its output; and all outputs together
  fit the output budget of limits that themselves validate.
\<close>

theorem plan_validate_safe:
  assumes "plan_validate X p = Inr ()"
  shows "1 \<le> length (pn_items p) \<and> length (pn_items p) \<le> max_files \<and>
    distinct (map ip_write_id (pn_items p)) \<and> distinct (map (\<lambda>i. sf_file_id (ip_target i)) (pn_items p)) \<and>
    (\<forall>i \<in> set (pn_items p). ip_write_id i \<noteq> rq_operation_id (pn_request p) \<and>
       compatible (ip_output i) (sf_path (ip_target i)) \<and>
       (\<forall>part \<in> set (split_on (CHR ''/'') (sf_path (ip_target i))). \<not> managed_name part \<and> part \<noteq> ''..'' \<and> part \<noteq> [])) \<and>
    (\<exists>l. limits_validate (rr_limits (is_request (pn_source p))) = Inr l \<and>
       plan_bytes p \<le> unat (output_bytes l))"
proof -
  let ?r = "pn_request p" and ?items = "pn_items p"
  obtain c where c: "canonical X ?r = Inr c" using assms by (auto simp: plan_validate_def split: sum.splits)
  then obtain req l where h: "plan_header_ok X p c" and s: "summary_validate X (pn_source p) = Inr (req, l)"
      and ok: "plan_items_ok X p" and rep: "is_ok (report_validate X (unat (output_bytes l)) (plan_report p))"
    using assms by (auto simp: plan_validate_def bindR_Inr_iff)
  have len: "length ?items = length (rq_selections ?r)" using h by (simp add: plan_header_ok_def Let_def)
  have items: "list_all (\<lambda>(item, choice). plan_item_ok X (rq_operation_id ?r) item choice) (zip ?items (rq_selections ?r))"
      and d: "distinct (map ip_write_id ?items)" "distinct (map (\<lambda>i. sf_file_id (ip_target i)) ?items)"
    using ok by (simp_all add: plan_items_ok_def)
  from c have sel: "list_all selection_ok (rq_selections ?r)"
      "1 \<le> length (rq_selections ?r)" "length (rq_selections ?r) \<le> max_files"
    by (simp_all add: canonical_def split: if_splits)
  have item: "ip_write_id i \<noteq> rq_operation_id ?r \<and> compatible (ip_output i) (sf_path (ip_target i)) \<and>
      (\<forall>part \<in> set (split_on (CHR ''/'') (sf_path (ip_target i))). \<not> managed_name part \<and> part \<noteq> ''..'' \<and> part \<noteq> [])"
    if "i \<in> set ?items" for i
  proof -
    from that len obtain choice where z: "(i, choice) \<in> set (zip ?items (rq_selections ?r))"
      by (metis in_set_impl_in_set_zip1)
    then have "plan_item_ok X (rq_operation_id ?r) i choice" "selection_ok choice"
      using items sel(1) by (auto simp: list_all_iff dest: set_zip_rightD)
    then have "ip_write_id i \<noteq> rq_operation_id ?r" "compatible (ip_output i) (sf_path (ip_target i))"
        "sf_path (ip_target i) = se_destination choice" "selection_ok choice"
      unfolding plan_item_ok_def Let_def by blast+
    with destination_parts [of choice] show ?thesis by simp
  qed
  have lim: "limits_validate (rr_limits (is_request (pn_source p))) = Inr l"
    using summary_limits [OF s] .
  have "plan_bytes p \<le> unat (output_bytes l)"
    using report_within [OF rep [unfolded plan_report_def]] by simp
  with lim sel len d item show ?thesis by auto
qed

lemma demo_digests: "is_sha256_hex demo_zeros" "sha256 demo_exp_env s = demo_zeros"
  by (simp_all add: demo_zeros_def demo_exp_env_def is_sha256_hex_def is_lower_hex_def is_ascii_digit_def list_all_iff)

lemma demo_ids: "valid_id demo_exp_env s \<longleftrightarrow> s \<noteq> [] \<and> s = replicate (length s) (CHR ''a'')"
  by (auto simp: valid_id_def demo_exp_env_def)

lemmas output_eval = output_path_ok_def output_component_def ends_dot_space_def output_device_def nonzero_digit_def managed_name_def
  max_path_def max_depth_def ascii_defs byte_in_def utf8_tail_def char_is_control_def starts_with_def first_part_def

lemma demo_paths: "output_path_ok ''o.md''" "output_path_ok ''n/o.md''"
    "\<not> list_ex managed_name (split_on (CHR ''/'') ''n/o.md'')" "input_path_ok ''experiments/x.py''"
  by (simp_all add: output_eval input_path_ok_def input_part_def utf16_count_def input_device_def strip_prefix_def
      is_experiment_file_def ext_is_def path_extension_def path_components_def component_of_def name_extension_def
      eq_ignore_ascii_case_def device_number_def nonzero_digit_def)

lemma demo_summary: "summary_validate demo_exp_env demo_source = Inr (is_request demo_source, default_limits)"
proof -
  have "limits_validate default_limits = Inr default_limits" by (simp add: limits_validate_def default_limits_def)
  then have "run_request_validate demo_exp_env (is_request demo_source) = Inr (is_request demo_source, default_limits)"
    by (simp add: run_request_validate_def demo_source_def demo_ids selected_ok_def demo_paths demo_digests max_files_def
        ends_with_def to_ascii_lowercase_def to_ascii_lower_def is_ascii_uppercase_def)
  then show ?thesis
    by (simp add: summary_validate_def run_fingerprint_def demo_digests demo_source_def max_input_file_bytes_def
        max_total_bytes_def bt_get_def) (simp add: demo_exp_env_def)
qed

lemma demo_plan_ok: "plan_validate demo_exp_env demo_plan = Inr ()"
proof -
  have c: "canonical demo_exp_env (pn_request demo_plan) = Inr (pn_request demo_plan)"
    by (simp add: canonical_def demo_plan_def demo_ids selection_ok_def demo_paths max_files_def
        managed_name_def ascii_defs)
  have h: "plan_header_ok demo_exp_env demo_plan (pn_request demo_plan)"
    by (simp add: plan_header_ok_def demo_plan_def demo_source_def demo_exp_env_def)
  have i: "plan_items_ok demo_exp_env demo_plan"
    by (simp add: plan_items_ok_def demo_plan_def plan_item_ok_def demo_ids compatible_def last_suffix_def ascii_defs
        plan_bytes_def u64_max_def)
  have "is_ok (report_validate demo_exp_env (unat (output_bytes default_limits)) (plan_report demo_plan))"
    by (simp add: plan_report_def demo_plan_def plan_bytes_def max_outputs_def demo_paths max_output_bytes_def
        u64_max_def demo_digests is_ok_def output_bytes_def default_limits_def)
  then show ?thesis
    using c h i demo_summary by (simp add: plan_validate_def demo_plan_def)
qed

theorem plan_validate_safe_witness:
  "plan_bytes demo_plan \<le> 16 * 1048576 \<and> length (pn_items demo_plan) \<le> max_files"
  using plan_validate_safe [OF demo_plan_ok]
  by (auto simp: demo_plan_def demo_source_def limits_validate_def default_limits_def output_bytes_def)

end
