(* ===== verification/Workspace_State.thy ===== *)
theory Workspace_State
  imports Content_Contracts Experiment_Contracts
begin

text \<open>
  The state of an open vault: the tables of its SQLite database (the schema in
  \<open>Workspace::open\<close>), and the files below its root. The file system is an ordered map from
  canonical relative paths to nodes; the managed directory \<open>.ainote\<close> is part of it. On the file
  systems modelled two paths name the same file only when they are equal, so the branches of
  the code for case-insensitive aliases reduce to equal paths.
\<close>

section \<open>Tables\<close>

record entry =
  en_file_id :: string
  en_path :: string
  en_hash :: string
  en_revision :: int
  en_deleted :: bool
  en_is_folder :: bool
  en_updated_at :: "string option"

record file_row =
  f_id :: string
  f_path :: string
  f_hash :: string
  f_revision :: int
  f_deleted :: bool

record identity_row = di_file_id :: string di_identity :: string

record journal_row =
  j_op :: string
  j_file_id :: string
  j_path :: string
  j_expected :: string
  j_content :: string
  j_origin :: string
  j_state :: string

record file_op_row =
  fo_id :: string
  fo_kind :: string
  fo_path :: string
  fo_destination :: string
  fo_hash :: string
  fo_content :: string
  fo_state :: string
  fo_origin :: string

record directory_op_row =
  do_id :: string
  do_path :: string
  do_destination :: string
  do_kind :: string
  do_manifest :: string
  do_operations :: string
  do_state :: string

record outbox_row =
  ob_op :: string
  ob_file_id :: string
  ob_revision :: int
  ob_path :: string
  ob_hash :: string
  ob_operation :: string
  ob_content :: string
  ob_state :: string

record operation_row =
  op_id :: string
  op_fingerprint :: string
  op_state :: string
  op_result :: "string option"

record payload_row = pl_op :: string pl_hash :: string pl_size :: int

record observed_row =
  sv_file_id :: string
  sv_path :: string
  sv_hash :: string
  sv_deleted :: bool

record import_row =
  im_operation_id :: string
  im_vault_id :: string
  im_run_id :: string
  im_request_fingerprint :: string
  im_fingerprint :: string
  im_plan :: "string option"
  im_state :: string
  im_created_ms :: int
  im_confirmed_ms :: "int option"

record import_item_row =
  ii_import_id :: string
  ii_ordinal :: int
  ii_write_id :: string
  ii_file_id :: string
  ii_state :: string
  ii_receipt :: "string option"
  ii_error :: "string option"

record binding_row =
  b_id :: string
  b_endpoint :: string
  b_remote_vault :: string
  b_account :: string
  b_state :: string
  b_cursor :: int

record job_row =
  jb_binding :: string
  jb_op :: string
  jb_file_id :: string
  jb_path :: string
  jb_hash :: string
  jb_size :: int
  jb_operation :: string
  jb_state :: string
  jb_base_revision :: "int option"
  jb_upload_id :: "string option"
  jb_remote_revision :: "int option"
  jb_error :: "string option"

record head_row =
  h_binding :: string
  h_file_id :: string
  h_revision :: int
  h_path :: string
  h_hash :: string

record window_row = w_binding :: string w_boundary :: int

record inbox_row =
  in_binding :: string
  in_sequence :: int
  in_revision :: string
  in_operation_id :: string
  in_rename_id :: string
  in_state :: string

record conflict_row =
  cf_binding :: string
  cf_sequence :: int
  cf_file_id :: string
  cf_local_path :: string
  cf_local_hash :: string
  cf_remote :: string
  cf_state :: string

record initial_row = it_binding :: string it_boundary :: int

record initial_item_row = ii2_binding :: string ii2_sequence :: int ii2_revision :: string

record attempt_row =
  at_binding :: string
  at_op :: string
  at_attempts :: int
  at_outcome :: string
  at_error :: "string option"

record retry_row =
  rt_binding :: string
  rt_error :: "string option"
  rt_failures :: nat
  rt_retry_at :: "int option"
  rt_halted :: bool

record resolution_row =
  rs_binding :: string
  rs_sequence :: int
  rs_choice :: string
  rs_destination :: string
  rs_expected :: string
  rs_op :: string
  rs_rename_id :: string
  rs_copy_id :: string
  rs_state :: string
  rs_retire_id :: string
  rs_restore_id :: string

record ws_db =
  files :: "file_row list"
  file_disk_identity :: "identity_row list"
  journal :: "journal_row list"
  file_ops :: "file_op_row list"
  directory_ops :: "directory_op_row list"
  outbox :: "outbox_row list"
  operations :: "operation_row list"
  payloads :: "payload_row list"
  sync_observed :: "observed_row list"
  file_aliases :: "(string \<times> string) list"
  experiment_imports :: "import_row list"
  experiment_import_items :: "import_item_row list"
  sync_bindings :: "binding_row list"
  sync_jobs :: "job_row list"
  sync_heads :: "head_row list"
  sync_windows :: "window_row list"
  sync_inbox :: "inbox_row list"
  sync_conflicts :: "conflict_row list"
  sync_initial :: "initial_row list"
  sync_initial_items :: "initial_item_row list"
  sync_preferences :: "(string \<times> bool) list"
  sync_optional_scope :: "optional_scope option"
  sync_attempts :: "attempt_row list"
  sync_retries :: "retry_row list"
  sync_resolutions :: "resolution_row list"

section \<open>The file system\<close>

text \<open>A symbolic link records whether its target exists, which is all \<open>Path::exists\<close> tells.\<close>

datatype disk_node = RegFile string | DirNode | LinkNode bool

type_synonym disk = "(string \<times> disk_node) list"

record ws =
  ws_vault_id :: string
  ws_db :: ws_db
  ws_disk :: disk

definition disk_exists :: "disk \<Rightarrow> string \<Rightarrow> bool" where
  "disk_exists d p \<longleftrightarrow> (case bt_get d p of None \<Rightarrow> False | Some (LinkNode there) \<Rightarrow> there | Some _ \<Rightarrow> True)"

definition disk_is_file :: "disk \<Rightarrow> string \<Rightarrow> bool" where
  "disk_is_file d p \<longleftrightarrow> (case bt_get d p of Some (RegFile _) \<Rightarrow> True | _ \<Rightarrow> False)"

definition disk_is_dir :: "disk \<Rightarrow> string \<Rightarrow> bool" where
  "disk_is_dir d p \<longleftrightarrow> bt_get d p = Some DirNode"

definition disk_linked :: "disk \<Rightarrow> string \<Rightarrow> bool" where
  "disk_linked d p \<longleftrightarrow> (case bt_get d p of Some (LinkNode _) \<Rightarrow> True | _ \<Rightarrow> False)"

abbreviation slash_join :: "string list \<Rightarrow> string" where
  "slash_join ns \<equiv> join_with (CHR ''/'') ns"

definition name_prefixes :: "string list \<Rightarrow> string list" where
  "name_prefixes ns = map (\<lambda>i. slash_join (take (Suc i) ns)) [0..<length ns]"

definition ancestors :: "string \<Rightarrow> string list" where
  "ancestors p = butlast (name_prefixes (split_on (CHR ''/'') p))"

text \<open>\<open>Workspace::resolve\<close>: the canonical path, refused when a component is an existing link.\<close>

definition resolve :: "disk \<Rightarrow> string \<Rightarrow> string result" where
  "resolve d p =
     bindR (resolve_names p) (\<lambda>ns.
     if list_ex (\<lambda>q. disk_exists d q \<and> disk_linked d q) (name_prefixes ns) then Err ''UNSAFE_PATH''
     else Inr (slash_join ns))"

text \<open>\<open>create_dir_all\<close> on a list of directories from the top down.\<close>

fun make_dirs :: "string list \<Rightarrow> disk \<Rightarrow> disk result" where
  "make_dirs [] d = Inr d"
| "make_dirs (p # ps) d =
     (case bt_get d p of
        None \<Rightarrow> make_dirs ps (bt_insert p DirNode d)
      | Some DirNode \<Rightarrow> make_dirs ps d
      | Some _ \<Rightarrow> Err ''FILESYSTEM_ERROR'')"

section \<open>The environment of a workspace\<close>

text \<open>
  SHA-256, UUIDs, JSON texts and the identity the operating system gives a file. \<open>io_fails\<close> is
  the failure of one step of input or output: a full disk, a lost device, or the end of the
  process at that step. Its arguments name the step and the operation.
\<close>

record ws_env =
  experiments :: exp_env
  write_text :: "string \<times> string \<times> string \<times> string \<Rightarrow> string"
  file_op_text :: "string \<times> string \<times> string \<times> string \<times> string \<Rightarrow> string"
  enc_result :: "entry \<Rightarrow> string \<Rightarrow> string option"
  dec_result :: "string \<Rightarrow> entry option"
  enc_entry :: "entry \<Rightarrow> string option"
  dec_folder_manifest :: "string \<Rightarrow> (string \<times> string) list option"
  dec_folder_ops :: "string \<Rightarrow> (string \<times> string \<times> string) list option"
  dec_entry :: "string \<Rightarrow> entry option"
  canvas :: canvas_env
  serde :: serde_env
  disk_identity :: "string \<Rightarrow> string option"
  io_fails :: "string \<Rightarrow> string \<Rightarrow> bool"

abbreviation sha :: "ws_env \<Rightarrow> string \<Rightarrow> string" where
  "sha E \<equiv> sha256 (experiments E)"

abbreviation is_uuid_text :: "ws_env \<Rightarrow> string \<Rightarrow> bool" where
  "is_uuid_text E s \<equiv> parse_uuid (experiments E) s \<noteq> None"

definition max_file :: nat where "max_file = 100 * 1024 * 1024"

abbreviation spool_root :: string where
  "spool_root \<equiv> ''.ainote/sync-spool''"

definition spool_path :: "string \<Rightarrow> string" where
  "spool_path digest = spool_root @ ''/'' @ digest"

definition trash_path :: "string \<Rightarrow> string" where
  "trash_path i = ''.ainote/trash/'' @ i"

type_synonym 'a ws_op = "(ws, 'a) host_op"

definition io_step :: "ws_env \<Rightarrow> string \<Rightarrow> string \<Rightarrow> string \<Rightarrow> unit ws_op" where
  "io_step E label i code = readS (\<lambda>_. if io_fails E label i then Err code else Inr ())"

definition on_db :: "(ws_db \<Rightarrow> ws_db) \<Rightarrow> unit ws_op" where
  "on_db f = modS (\<lambda>w. w\<lparr>ws_db := f (ws_db w)\<rparr>)"

definition on_disk :: "(disk \<Rightarrow> disk) \<Rightarrow> unit ws_op" where
  "on_disk f = modS (\<lambda>w. w\<lparr>ws_disk := f (ws_disk w)\<rparr>)"

definition create_dirs :: "string list \<Rightarrow> unit ws_op" where
  "create_dirs ps =
     bindS (readS (\<lambda>w. make_dirs ps (ws_disk w))) (\<lambda>d. modS (\<lambda>w. w\<lparr>ws_disk := d\<rparr>))"

section \<open>Paths and canonical names\<close>

lemma resolve_Inr_iff:
  "resolve d p = Inr q \<longleftrightarrow> (\<exists>ns. resolve_names p = Inr ns \<and> q = slash_join ns \<and>
     (\<forall>x \<in> set (name_prefixes ns). \<not> (disk_exists d x \<and> disk_linked d x)))"
  by (auto simp: resolve_def bindR_Inr_iff list_ex_iff)

lemma name_prefixes_last: "ns \<noteq> [] \<Longrightarrow> slash_join ns \<in> set (name_prefixes ns)"
  by (auto simp: name_prefixes_def image_iff intro!: bexI [of _ "length ns - 1"])

text \<open>A resolved path is never a managed one.\<close>

definition managed :: "string \<Rightarrow> bool" where
  "managed p \<longleftrightarrow> first_part (CHR ''/'') p = ''.ainote''"

lemma first_part_join:
  assumes "ns \<noteq> []" "\<forall>n \<in> set ns. CHR ''/'' \<notin> set n"
  shows "first_part (CHR ''/'') (slash_join ns) = hd ns"
  unfolding first_part_def using split_join [OF assms] by simp

lemma resolve_not_managed: "resolve d p = Inr q \<Longrightarrow> \<not> managed q"
proof -
  assume "resolve d p = Inr q"
  then obtain ns where ns: "resolve_names p = Inr ns" "q = slash_join ns" by (auto simp: resolve_Inr_iff)
  note props = resolve_names_Inr [OF ns(1)] and ne = resolve_names_not_Nil [OF ns(1)]
  have "hd ns \<noteq> ''.ainote''"
  proof
    assume "hd ns = ''.ainote''"
    moreover have "\<not> unsafe_component (hd ns)" using props ne by (cases ns) auto
    ultimately show False by (simp add: unsafe_component_def eq_ignore_ascii_case_def)
  qed
  then show ?thesis using ne props by (simp add: managed_def ns first_part_join)
qed

lemma managed_spool: "managed (spool_path digest)" "managed (trash_path i)"
  by (simp_all add: managed_def spool_path_def trash_path_def first_part_def split: list.splits)

text \<open>The sub-directories of the managed directory that an operation may create.\<close>

lemma ancestors_spool: "CHR ''/'' \<notin> set digest \<Longrightarrow> ancestors (spool_path digest) = [''.ainote'', ''.ainote/sync-spool'']"
  by (simp add: ancestors_def spool_path_def name_prefixes_def split_on_none eval_nat_numeral upt_rec)

lemma make_dirs_get:
  "make_dirs ps d = Inr d' \<Longrightarrow>
     bt_get d' q = bt_get d q \<or> (bt_get d q = None \<and> bt_get d' q = Some DirNode \<and> q \<in> set ps)"
proof (induction ps d rule: make_dirs.induct)
  case (2 p ps d)
  show ?case
  proof (cases "bt_get d p")
    case None
    with 2 show ?thesis by (auto split: if_splits)
  next
    case (Some node)
    with 2 show ?thesis by (cases node) auto
  qed
qed simp

lemma make_dirs_present: "make_dirs ps d = Inr d' \<Longrightarrow> p \<in> set ps \<Longrightarrow> bt_get d' p = Some DirNode"
proof (induction ps d rule: make_dirs.induct)
  case (2 q ps d)
  show ?case
  proof (cases "bt_get d q")
    case None
    with 2 make_dirs_get [of ps "bt_insert q DirNode d" d' q] show ?thesis by (auto split: if_splits)
  next
    case (Some node)
    with 2 make_dirs_get [of ps d d' q] show ?thesis by (cases node) auto
  qed
qed simp

text \<open>Creating directories that already exist changes nothing.\<close>

lemma make_dirs_idem: "\<forall>p \<in> set ps. bt_get d p = Some DirNode \<Longrightarrow> make_dirs ps d = Inr d"
  by (induction ps) auto

lemma make_dirs_again: "make_dirs ps d = Inr d' \<Longrightarrow> make_dirs ps d' = Inr d'"
  by (rule make_dirs_idem) (auto dest: make_dirs_present)

lemma make_dirs_wf: "make_dirs ps d = Inr d' \<Longrightarrow> bt_wf d \<Longrightarrow> bt_wf d'"
  by (induction ps d rule: make_dirs.induct) (auto simp: bt_wf_insert split: option.splits disk_node.splits)

section \<open>Example values\<close>

definition demo_sha :: "string \<Rightarrow> string" where
  "demo_sha c = replicate 64 (if c = ''old'' then CHR ''a'' else if c = ''new'' then CHR ''b'' else CHR ''c'')"

definition demo_ws_env :: ws_env where
  "demo_ws_env = \<lparr>experiments = demo_exp_env\<lparr>sha256 := demo_sha\<rparr>, write_text = (\<lambda>(p, e, d, r). p @ d),
     file_op_text = (\<lambda>(k, p, t, e, r). k @ p @ t), enc_result = (\<lambda>_ _. Some ''{}''), dec_result = (\<lambda>_. None),
     enc_entry = (\<lambda>_. Some ''{}''), dec_folder_manifest = (\<lambda>_. None), dec_folder_ops = (\<lambda>_. None),
     dec_entry = (\<lambda>_. None), canvas = demo_canvas_env,
     serde = demo_serde_env, disk_identity = (\<lambda>_. None), io_fails = (\<lambda>_ _. False)\<rparr>"

definition demo_ws_db :: ws_db where
  "demo_ws_db = \<lparr>files = [], file_disk_identity = [], journal = [], file_ops = [], directory_ops = [],
     outbox = [], operations = [], payloads = [], sync_observed = [], file_aliases = [],
     experiment_imports = [], experiment_import_items = [], sync_bindings = [], sync_jobs = [],
     sync_heads = [], sync_windows = [], sync_inbox = [], sync_conflicts = [], sync_initial = [],
     sync_initial_items = [], sync_preferences = [], sync_optional_scope = None,
     sync_attempts = [], sync_retries = [], sync_resolutions = []\<rparr>"

end
