(* ===== verification/Experiment_Store.thy ===== *)
theory Experiment_Store
  imports Workspace_State
begin

text \<open>
  The durable records of experiment runs (\<open>experiment_store.rs\<close>): a run is prepared with a copy of
  its input files, waits for a person's approval, is claimed once by the runner, and ends in a
  terminal state with its logs and outputs, all within a storage quota. With it come the
  preparation of the inputs (\<open>PreparedInputs\<close> of \<open>experiment_input.rs\<close>), the log buffers
  (\<open>experiment_log.rs\<close>) and the runner's entry point that prepares a run.
\<close>

section \<open>Logs\<close>

record stream_snapshot =
  ss_text :: string
  ss_bytes_seen :: nat
  ss_retained_bytes :: nat
  ss_truncated :: bool
  ss_invalid_utf8 :: bool
  ss_complete :: bool
  ss_read_error :: bool

record log_buffer =
  lb_bytes :: string
  lb_limit :: nat
  lb_seen :: nat
  lb_complete :: bool
  lb_read_error :: bool

definition log_new :: "nat \<Rightarrow> log_buffer" where
  "log_new limit = \<lparr>lb_bytes = [], lb_limit = limit, lb_seen = 0, lb_complete = False, lb_read_error = False\<rparr>"

definition log_append :: "string \<Rightarrow> log_buffer \<Rightarrow> log_buffer" where
  "log_append bytes b =
     (let keep = min (length bytes) (lb_limit b - length (lb_bytes b)) in
      b\<lparr>lb_seen := min u64_max (lb_seen b + length bytes), lb_bytes := lb_bytes b @ take keep bytes\<rparr>)"

text \<open>\<open>lossy\<close> is \<open>String::from_utf8_lossy\<close>.\<close>

definition log_snapshot :: "(string \<Rightarrow> string) \<Rightarrow> log_buffer \<Rightarrow> stream_snapshot" where
  "log_snapshot lossy b =
     \<lparr>ss_text = lossy (lb_bytes b), ss_bytes_seen = lb_seen b, ss_retained_bytes = length (lb_bytes b),
      ss_truncated = (length (lb_bytes b) < lb_seen b), ss_invalid_utf8 = (\<not> utf8_valid (lb_bytes b)),
      ss_complete = lb_complete b, ss_read_error = lb_read_error b\<rparr>"

record capture_snapshot =
  cs_stdout :: stream_snapshot
  cs_stderr :: stream_snapshot

section \<open>States and results\<close>

datatype run_state = RunAwaitingConfirmation | RunApproved | RunStarting | RunRunning | RunCancelRequested
  | RunRejected | RunCancelled | RunCompleted | RunFailed | RunLimited | RunInterrupted

fun run_state_name :: "run_state \<Rightarrow> string" where
  "run_state_name RunAwaitingConfirmation = ''awaiting_confirmation''"
| "run_state_name RunApproved = ''approved''"
| "run_state_name RunStarting = ''starting''"
| "run_state_name RunRunning = ''running''"
| "run_state_name RunCancelRequested = ''cancel_requested''"
| "run_state_name RunRejected = ''rejected''"
| "run_state_name RunCancelled = ''cancelled''"
| "run_state_name RunCompleted = ''completed''"
| "run_state_name RunFailed = ''failed''"
| "run_state_name RunLimited = ''limited''"
| "run_state_name RunInterrupted = ''interrupted''"

definition run_state_parse :: "string \<Rightarrow> run_state result" where
  "run_state_parse name =
     ok_or (find (\<lambda>s. run_state_name s = name)
       [RunAwaitingConfirmation, RunApproved, RunStarting, RunRunning, RunCancelRequested, RunRejected,
        RunCancelled, RunCompleted, RunFailed, RunLimited, RunInterrupted]) ''EXPERIMENT_RECORD_CORRUPT''"

fun run_terminal :: "run_state \<Rightarrow> bool" where
  "run_terminal RunRejected = True"
| "run_terminal RunCancelled = True"
| "run_terminal RunCompleted = True"
| "run_terminal RunFailed = True"
| "run_terminal RunLimited = True"
| "run_terminal RunInterrupted = True"
| "run_terminal _ = False"

fun outcome_state :: "run_outcome \<Rightarrow> run_state" where
  "outcome_state OutCompleted = RunCompleted"
| "outcome_state OutFailed = RunFailed"
| "outcome_state OutCancelled = RunCancelled"
| "outcome_state OutLimited = RunLimited"

record run_result =
  ro_outcome :: run_outcome
  ro_exit_code :: "nat option"
  ro_elapsed_ms :: nat
  ro_error :: "string option"
  ro_user_cpu_ticks :: "nat option"
  ro_peak_memory_bytes :: "nat option"
  ro_final_disk_bytes :: "nat option"
  ro_logs :: capture_snapshot
  ro_outputs :: "output_report option"

abbreviation corrupt :: string where "corrupt \<equiv> ''EXPERIMENT_RECORD_CORRUPT''"
abbreviation conflict :: string where "conflict \<equiv> ''EXPERIMENT_STATE_CHANGED''"

definition as_corrupt :: "'a result \<Rightarrow> 'a result" where
  "as_corrupt r = (case r of Inl _ \<Rightarrow> Err corrupt | Inr x \<Rightarrow> Inr x)"

definition stream_ok :: "nat \<Rightarrow> run_outcome \<Rightarrow> stream_snapshot \<Rightarrow> bool" where
  "stream_ok budget outcome s \<longleftrightarrow>
     ss_retained_bytes s \<le> budget \<and> ss_retained_bytes s \<le> ss_bytes_seen s \<and>
     (ss_truncated s \<longleftrightarrow> ss_retained_bytes s < ss_bytes_seen s) \<and> ss_retained_bytes s \<le> length (ss_text s) \<and>
     length (ss_text s) \<le> min u64_max (ss_retained_bytes s * 3) \<and>
     (ss_invalid_utf8 s \<or> length (ss_text s) = ss_retained_bytes s) \<and>
     (outcome = OutCompleted \<longrightarrow> ss_complete s \<and> \<not> ss_read_error s)"

definition result_validate :: "exp_env \<Rightarrow> input_summary \<Rightarrow> run_result \<Rightarrow> unit result" where
  "result_validate X summary r =
     bindR (summary_validate X summary) (\<lambda>(_, limits).
     bindR (case ro_outputs r of
              None \<Rightarrow> Inr ()
            | Some o' \<Rightarrow> as_corrupt (report_validate X (unat (output_bytes limits)) o')) (\<lambda>_.
     require ((case ro_error r of None \<Rightarrow> True | Some c \<Rightarrow> error_code_ok c) \<and>
       stream_ok (unat (log_bytes limits) div 2) (ro_outcome r) (cs_stdout (ro_logs r)) \<and>
       stream_ok (unat (log_bytes limits) div 2) (ro_outcome r) (cs_stderr (ro_logs r)) \<and>
       (ro_outcome r = OutCompleted \<longrightarrow> ro_exit_code r = Some 0 \<and> ro_error r = None \<and>
          (case ro_outputs r of Some (Rejected _) \<Rightarrow> False | _ \<Rightarrow> True))) corrupt))"

section \<open>Prepared inputs\<close>

text \<open>
  What a call finds outside the store: the open vault, the answers of the clock and of the random
  source, the entries a scan of the vault returns, the files below its root, and the statements
  of the database that fail.
\<close>

datatype sql_failure = DiskFull | OtherSqlError

fun sql_code :: "sql_failure \<Rightarrow> string" where
  "sql_code DiskFull = ''QUOTA_EXCEEDED''"
| "sql_code OtherSqlError = ''DATABASE_ERROR''"

record call_world =
  cw_vault_id :: string
  cw_clock :: "nat \<Rightarrow> nat option"
  cw_uuid :: string
  cw_root_opens :: bool
  cw_scan :: "entry list result"
  cw_disk :: disk
  cw_links :: "string \<Rightarrow> nat option"
  cw_reads :: "string \<Rightarrow> string option option"
  cw_sql :: "string \<Rightarrow> sql_failure option"

record prepared_inputs =
  pi_summary :: input_summary
  pi_bytes :: "(string \<times> string) list"

definition match_selection :: "entry \<Rightarrow> selected_file \<Rightarrow> unit result" where
  "match_selection entry chosen =
     require (\<not> en_deleted entry \<and> \<not> en_is_folder entry \<and> en_path entry = sf_path chosen \<and>
       en_hash entry = sf_hash chosen \<and> en_revision entry = sf_revision chosen) ''EXPERIMENT_INPUT_CHANGED''"

text \<open>
  Every parent is opened without following links, and the file is a regular one with a single name.
  \<open>cw_links\<close> is its link count, where it can be had; \<open>cw_reads\<close> says what reading the file gives
  when that is not the content it had when its size was taken: an error or other bytes.
\<close>

definition read_selected :: "call_world \<Rightarrow> string \<Rightarrow> string result" where
  "read_selected W path =
     (if \<not> list_all (disk_is_dir (cw_disk W)) (ancestors path) then Err ''EXPERIMENT_INPUT_UNSAFE''
      else (case bt_get (cw_disk W) path of
          Some (RegFile content) \<Rightarrow>
            bindR (require (cw_links W path = Some 1) ''EXPERIMENT_INPUT_UNSAFE'') (\<lambda>_.
            bindR (require (length content \<le> max_input_file_bytes) ''EXPERIMENT_INPUT_TOO_LARGE'') (\<lambda>_.
            bindR (case cw_reads W path of None \<Rightarrow> Inr content | Some r \<Rightarrow> ok_or r ''EXPERIMENT_INPUT_UNSAFE'') (\<lambda>stream.
            let bytes = take (max_input_file_bytes + 1) stream in
            bindR (require (length bytes \<le> max_input_file_bytes) ''EXPERIMENT_INPUT_TOO_LARGE'') (\<lambda>_.
            bindR (require (length bytes = length content) ''EXPERIMENT_INPUT_CHANGED'') (\<lambda>_. Inr bytes)))))
        | _ \<Rightarrow> Err ''EXPERIMENT_INPUT_UNSAFE''))"

fun prepare_files :: "exp_env \<Rightarrow> call_world \<Rightarrow> (string \<times> entry) list \<Rightarrow> selected_file list \<Rightarrow>
    (string \<times> nat) list \<Rightarrow> (string \<times> string) list \<Rightarrow> nat \<Rightarrow> ((string \<times> nat) list \<times> (string \<times> string) list \<times> nat) result" where
  "prepare_files X W entries [] sizes bytes tot = Inr (sizes, bytes, tot)"
| "prepare_files X W entries (chosen # rest) sizes bytes tot =
     bindR (ok_or (bt_get entries (sf_file_id chosen)) ''EXPERIMENT_INPUT_CHANGED'') (\<lambda>entry.
     bindR (match_selection entry chosen) (\<lambda>_.
     bindR (read_selected W (sf_path chosen)) (\<lambda>content.
     bindR (require (sha256 X content = sf_hash chosen) ''EXPERIMENT_INPUT_CHANGED'') (\<lambda>_.
     bindR (require (utf8_valid content) ''EXPERIMENT_INPUT_NOT_UTF8'') (\<lambda>_.
     bindR (require (tot + length content \<le> max_total_bytes) ''EXPERIMENT_INPUT_TOO_LARGE'') (\<lambda>_.
     prepare_files X W entries rest (bt_insert (sf_path chosen) (length content) sizes)
       (bt_insert (sf_path chosen) content bytes) (tot + length content)))))))"

definition prepare_inputs :: "exp_env \<Rightarrow> call_world \<Rightarrow> run_request \<Rightarrow> prepared_inputs result" where
  "prepare_inputs X W request =
     bindR (require (cw_vault_id W = rr_vault_id request) ''VAULT_PERMISSION_CHANGED'') (\<lambda>_.
     bindR (require (cw_root_opens W) ''EXPERIMENT_INPUT_UNSAFE'') (\<lambda>_.
     bindR (cw_scan W) (\<lambda>scanned.
     bindR (prepare_files X W (fold (\<lambda>e. bt_insert (en_file_id e) e) scanned []) (rr_entry request # rr_inputs request) [] [] 0)
       (\<lambda>(sizes, bytes, tot).
     bindR (run_fingerprint X request) (\<lambda>fp.
     Inr \<lparr>pi_summary = \<lparr>is_request = request, is_fingerprint = fp, is_sizes = sizes, is_total_bytes = tot\<rparr>, pi_bytes = bytes\<rparr>)))))"

definition restore_inputs :: "exp_env \<Rightarrow> input_summary \<Rightarrow> (string \<times> string) list \<Rightarrow> prepared_inputs result" where
  "restore_inputs X summary bytes =
     bindR (summary_validate X summary) (\<lambda>_.
     bindR (require (length bytes = length (is_sizes summary) \<and>
       list_all (\<lambda>f. case bt_get bytes (sf_path f) of
           None \<Rightarrow> False
         | Some content \<Rightarrow> bt_get (is_sizes summary) (sf_path f) = Some (length content) \<and>
             sha256 X content = sf_hash f \<and> utf8_valid content)
         (rr_entry (is_request summary) # rr_inputs (is_request summary))) corrupt) (\<lambda>_.
     Inr \<lparr>pi_summary = summary, pi_bytes = bytes\<rparr>))"

section \<open>Tables\<close>

record run_row =
  rw_operation_id :: string
  rw_summary :: string
  rw_state :: string
  rw_created_ms :: int
  rw_updated_ms :: int
  rw_approval_id :: "string option"
  rw_approved_ms :: "int option"
  rw_error :: "string option"
  rw_result :: "string option"

record stored_input = sn_operation_id :: string sn_path :: string sn_content :: string

record stored_output = sp_operation_id :: string sp_path :: string sp_manifest :: string sp_content :: string

record exp_store =
  es_runs :: "run_row list"
  es_inputs :: "stored_input list"
  es_outputs :: "stored_output list"

record forget_receipt =
  fg_vault_id :: string
  fg_operation_id :: string
  fg_fingerprint :: string
  fg_forgotten_ms :: int

record run_record =
  rd_summary :: input_summary
  rd_state :: run_state
  rd_created_ms :: int
  rd_updated_ms :: int
  rd_approval_id :: "string option"
  rd_approved_ms :: "int option"
  rd_error :: "string option"
  rd_result :: "run_result option"

record store_env =
  sx_exp :: exp_env
  sx_enc_summary :: "input_summary \<Rightarrow> string option"
  sx_dec_summary :: "string \<Rightarrow> input_summary option"
  sx_enc_result :: "run_result \<Rightarrow> string option"
  sx_dec_result :: "string \<Rightarrow> run_result option"
  sx_enc_receipt :: "forget_receipt \<Rightarrow> string option"
  sx_dec_receipt :: "string \<Rightarrow> forget_receipt option"
  sx_enc_manifest :: "output_manifest \<Rightarrow> string option"
  sx_dec_manifest :: "string \<Rightarrow> output_manifest option"
  sx_base64 :: "string \<Rightarrow> string"

type_synonym 'a store_op = "(exp_store, 'a) host_op"

definition max_summary :: nat where "max_summary = 128 * 1024"
definition max_result :: nat where "max_result = 8 * 1024 * 1024"
definition max_run_records :: nat where "max_run_records = 2048"
definition max_store :: int where "max_store = 64 * 1024 * 1024"
definition approval_ms :: int where "approval_ms = 5 * 60 * 1000"

abbreviation run_row_of :: "exp_store \<Rightarrow> string \<Rightarrow> run_row option" where
  "run_row_of st operation \<equiv> tbl_get rw_operation_id operation (es_runs st)"

abbreviation uuid_ok :: "store_env \<Rightarrow> string \<Rightarrow> bool" where
  "uuid_ok E i \<equiv> parse_uuid (sx_exp E) i \<noteq> None"

section \<open>Reading records\<close>

definition forgotten :: "store_env \<Rightarrow> exp_store \<Rightarrow> string \<Rightarrow> forget_receipt option result" where
  "forgotten E st operation =
     (case run_row_of st operation of
        None \<Rightarrow> Inr None
      | Some row \<Rightarrow>
          if rw_state row \<noteq> ''forgotten'' then Inr None
          else
            let bare = (rw_result row = None \<and> rw_approval_id row = None \<and> rw_approved_ms row = None) in
            bindR (require (\<not> (bare \<and> rw_error row = None)) ''DATABASE_ERROR'') (\<lambda>_.
            bindR (ok_or (if length (rw_summary row) \<le> 1024 then Some (rw_summary row) else None) corrupt) (\<lambda>encoded.
            bindR (ok_or (sx_dec_receipt E encoded) corrupt) (\<lambda>rcpt.
            bindR (require (bare \<and> rw_error row = Some ''EXPERIMENT_RECORD_FORGOTTEN'' \<and> fg_operation_id rcpt = operation \<and>
              0 \<le> fg_forgotten_ms rcpt \<and> uuid_ok E (fg_vault_id rcpt) \<and> uuid_ok E (fg_operation_id rcpt) \<and>
              is_sha256_hex (fg_fingerprint rcpt)) corrupt) (\<lambda>_.
            bindR (require (\<not> list_ex (\<lambda>r. sn_operation_id r = operation) (es_inputs st) \<and>
              \<not> list_ex (\<lambda>r. sp_operation_id r = operation) (es_outputs st)) corrupt) (\<lambda>_.
            Inr (Some rcpt)))))))"

text \<open>\<open>length\<close> of a column cast to a blob is its number of bytes; a longer text is read as no text.\<close>

definition outputs_agree :: "exp_store \<Rightarrow> string \<Rightarrow> run_result option \<Rightarrow> bool" where
  "outputs_agree st operation result =
     (let stored = filter (\<lambda>r. sp_operation_id r = operation) (es_outputs st) in
      case result of
        Some r \<Rightarrow> (case ro_outputs r of
            Some (Collected s) \<Rightarrow> length stored = length (os_files s) \<and>
              sum_list (map (\<lambda>r. length (sp_content r)) stored) = sum_list (map om_bytes (os_files s))
          | _ \<Rightarrow> stored = [])
      | None \<Rightarrow> stored = [])"

definition approval_held :: "store_env \<Rightarrow> run_state \<Rightarrow> run_row \<Rightarrow> bool" where
  "approval_held E state row =
     (state \<in> {RunApproved, RunStarting, RunRunning, RunCancelRequested} \<longrightarrow>
        (case rw_approval_id row of None \<Rightarrow> False | Some i \<Rightarrow> uuid_ok E i) \<and>
        (case rw_approved_ms row of None \<Rightarrow> False | Some t \<Rightarrow> 0 \<le> t))"

definition run_get :: "store_env \<Rightarrow> exp_store \<Rightarrow> string \<Rightarrow> run_record option result" where
  "run_get E st operation =
     (case run_row_of st operation of
        None \<Rightarrow> Inr None
      | Some row \<Rightarrow>
          bindR (ok_or (if length (rw_summary row) \<le> max_summary then Some (rw_summary row) else None) corrupt) (\<lambda>encoded.
          bindR (ok_or (sx_dec_summary E encoded) corrupt) (\<lambda>summary.
          bindR (summary_validate (sx_exp E) summary) (\<lambda>_.
          bindR (require (rr_operation_id (is_request summary) = operation \<and> 0 \<le> rw_created_ms row \<and> 0 \<le> rw_updated_ms row \<and>
            (case rw_result row of None \<Rightarrow> True | Some t \<Rightarrow> length t \<le> max_result)) corrupt) (\<lambda>_.
          bindR (case rw_result row of
                   None \<Rightarrow> Inr None
                 | Some t \<Rightarrow> bindR (ok_or (sx_dec_result E t) corrupt) (\<lambda>r. Inr (Some r))) (\<lambda>result.
          bindR (run_state_parse (rw_state row)) (\<lambda>state.
          bindR (require (state = RunCompleted \<longrightarrow> result \<noteq> None) corrupt) (\<lambda>_.
          bindR (case result of
                   None \<Rightarrow> Inr ()
                 | Some r \<Rightarrow> bindR (result_validate (sx_exp E) summary r) (\<lambda>_.
                     require (outcome_state (ro_outcome r) = state) corrupt)) (\<lambda>_.
          bindR (require (outputs_agree st operation result) corrupt) (\<lambda>_.
          bindR (require (approval_held E state row) corrupt) (\<lambda>_.
          Inr (Some \<lparr>rd_summary = summary, rd_state = state, rd_created_ms = rw_created_ms row, rd_updated_ms = rw_updated_ms row,
            rd_approval_id = rw_approval_id row, rd_approved_ms = rw_approved_ms row, rd_error = rw_error row,
            rd_result = result\<rparr>))))))))))))"

definition record_of :: "store_env \<Rightarrow> string \<Rightarrow> string \<Rightarrow> exp_store \<Rightarrow> run_record option result" where
  "record_of E vault operation st =
     bindR (forgotten E st operation) (\<lambda>rcpt.
     case rcpt of
       Some r \<Rightarrow> Err (if fg_vault_id r = vault then ''EXPERIMENT_RECORD_FORGOTTEN'' else ''VAULT_PERMISSION_CHANGED'')
     | None \<Rightarrow>
         bindR (run_get E st operation) (\<lambda>record.
         bindR (require (case record of None \<Rightarrow> True | Some r \<Rightarrow> rr_vault_id (is_request (rd_summary r)) = vault)
           ''VAULT_PERMISSION_CHANGED'') (\<lambda>_.
         Inr record)))"

section \<open>Statements\<close>

definition sql :: "call_world \<Rightarrow> string \<Rightarrow> unit store_op" where
  "sql W label = readS (\<lambda>_. case cw_sql W label of None \<Rightarrow> Inr () | Some failure \<Rightarrow> Err (sql_code failure))"

definition now :: "call_world \<Rightarrow> nat \<Rightarrow> int store_op" where
  "now W n = readS (\<lambda>_. ok_or (map_option int (cw_clock W n)) corrupt)"

definition experiment_record :: "store_env \<Rightarrow> call_world \<Rightarrow> string \<Rightarrow> string \<Rightarrow> run_record option store_op" where
  "experiment_record E W label operation =
     bindS (sql W label) (\<lambda>_. readS (record_of E (cw_vault_id W) operation))"

abbreviation at_state :: "string \<Rightarrow> run_state \<Rightarrow> run_row \<Rightarrow> bool" where
  "at_state operation state r \<equiv> rw_operation_id r = operation \<and> rw_state r = run_state_name state"

text \<open>An \<open>UPDATE\<close> of the runs and the number of rows it changed.\<close>

definition update_runs :: "call_world \<Rightarrow> string \<Rightarrow> (run_row \<Rightarrow> bool) \<Rightarrow> (run_row \<Rightarrow> run_row) \<Rightarrow> nat store_op" where
  "update_runs W label P f =
     bindS (sql W label) (\<lambda>_.
     bindS (getS (\<lambda>st. length (filter P (es_runs st)))) (\<lambda>n.
     bindS (modS (\<lambda>st. st\<lparr>es_runs := tbl_update P f (es_runs st)\<rparr>)) (\<lambda>_.
     retS n)))"

definition usage :: "exp_store \<Rightarrow> int" where
  "usage st =
     int (sum_list (map (\<lambda>r. length (sn_content r)) (es_inputs st))) +
     int (sum_list (map (\<lambda>r. length (sp_content r) + length (sp_manifest r)) (es_outputs st))) +
     int (sum_list (map (\<lambda>r. length (rw_summary r) + (case rw_result r of None \<Rightarrow> 0 | Some t \<Rightarrow> length t)) (es_runs st)))"

definition reserving :: "string option \<Rightarrow> run_row \<Rightarrow> bool" where
  "reserving except r \<longleftrightarrow>
     rw_state r \<in> {''awaiting_confirmation'', ''approved'', ''starting'', ''running'', ''cancel_requested''} \<and>
     (case except of None \<Rightarrow> True | Some operation \<Rightarrow> rw_operation_id r \<noteq> operation)"

definition reservations :: "exp_store \<Rightarrow> string option \<Rightarrow> int result" where
  "reservations st except =
     (let n = length (filter (reserving except) (es_runs st)) * max_result in
      if n < 2 ^ 63 then Inr (int n) else Err corrupt)"

definition within_quota :: "exp_store \<Rightarrow> int \<Rightarrow> unit result" where
  "within_quota st extra =
     bindR (reservations st None) (\<lambda>reserved.
     require (usage st + reserved + extra \<le> max_store) ''EXPERIMENT_RECORD_QUOTA'')"

section \<open>The life of a run\<close>

definition store_recover :: "call_world \<Rightarrow> unit store_op" where
  "store_recover W =
     bindS (now W 0) (\<lambda>time.
     bindS (update_runs W ''interrupt'' (\<lambda>r. rw_state r \<in> {''starting'', ''running'', ''cancel_requested''})
       (\<lambda>r. r\<lparr>rw_state := ''interrupted'', rw_error := Some ''EXPERIMENT_HOST_RESTARTED'', rw_updated_ms := time\<rparr>)) (\<lambda>_.
     bindS (update_runs W ''review again'' (\<lambda>r. rw_state r = ''approved'')
       (\<lambda>r. r\<lparr>rw_state := ''awaiting_confirmation'', rw_approval_id := None, rw_approved_ms := None, rw_updated_ms := time\<rparr>)) (\<lambda>_.
     retS ())))"

fun insert_inputs :: "call_world \<Rightarrow> string \<Rightarrow> (string \<times> string) list \<Rightarrow> unit store_op" where
  "insert_inputs W operation [] = retS ()"
| "insert_inputs W operation ((path, content) # rest) =
     bindS (sql W (''insert input '' @ path)) (\<lambda>_.
     bindS (readS (\<lambda>st. require (\<not> list_ex (\<lambda>r. sn_operation_id r = operation \<and> sn_path r = path) (es_inputs st)) ''DATABASE_ERROR'')) (\<lambda>_.
     bindS (modS (\<lambda>st. st\<lparr>es_inputs := es_inputs st @ [\<lparr>sn_operation_id = operation, sn_path = path, sn_content = content\<rparr>]\<rparr>)) (\<lambda>_.
     insert_inputs W operation rest)))"

definition insert_run :: "call_world \<Rightarrow> run_row \<Rightarrow> unit store_op" where
  "insert_run W row =
     bindS (sql W ''insert run'') (\<lambda>_.
     bindS (readS (\<lambda>st. require (run_row_of st (rw_operation_id row) = None) ''DATABASE_ERROR'')) (\<lambda>_.
     modS (\<lambda>st. st\<lparr>es_runs := es_runs st @ [row]\<rparr>)))"

definition waiting_row :: "string \<Rightarrow> string \<Rightarrow> int \<Rightarrow> run_row" where
  "waiting_row operation encoded time =
     \<lparr>rw_operation_id = operation, rw_summary = encoded, rw_state = ''awaiting_confirmation'', rw_created_ms = time,
      rw_updated_ms = time, rw_approval_id = None, rw_approved_ms = None, rw_error = None, rw_result = None\<rparr>"

definition prepare_tx :: "call_world \<Rightarrow> prepared_inputs \<Rightarrow> string \<Rightarrow> int \<Rightarrow> unit store_op" where
  "prepare_tx W inputs encoded time =
     (let operation = rr_operation_id (is_request (pi_summary inputs)) in
      bindS (readS (\<lambda>st. require (length (filter (\<lambda>r. rw_state r \<noteq> ''forgotten'') (es_runs st)) < max_run_records)
        ''EXPERIMENT_RECORD_QUOTA'')) (\<lambda>_.
      bindS (readS (\<lambda>st. within_quota st (int (is_total_bytes (pi_summary inputs)) + int (length encoded) + int max_result))) (\<lambda>_.
      bindS (insert_run W (waiting_row operation encoded time)) (\<lambda>_.
      bindS (insert_inputs W operation (pi_bytes inputs)) (\<lambda>_.
      sql W ''commit'')))))"

definition reread :: "store_env \<Rightarrow> call_world \<Rightarrow> string \<Rightarrow> run_record store_op" where
  "reread E W operation =
     bindS (experiment_record E W ''read'' operation) (\<lambda>r. readS (\<lambda>_. ok_or r corrupt))"

definition experiment_prepare :: "store_env \<Rightarrow> call_world \<Rightarrow> prepared_inputs \<Rightarrow> run_record store_op" where
  "experiment_prepare E W inputs =
     (let summary = pi_summary inputs; operation = rr_operation_id (is_request summary) in
      bindS (readS (\<lambda>_. summary_validate (sx_exp E) summary)) (\<lambda>_.
      bindS (readS (\<lambda>_. require (rr_vault_id (is_request summary) = cw_vault_id W) ''VAULT_PERMISSION_CHANGED'')) (\<lambda>_.
      bindS (experiment_record E W ''find'' operation) (\<lambda>old.
      case old of
        Some r \<Rightarrow> readS (\<lambda>_. if is_fingerprint (rd_summary r) = is_fingerprint summary then Inr r else Err ''OPERATION_PAYLOAD_CONFLICT'')
      | None \<Rightarrow>
          bindS (readS (\<lambda>_. ok_or (sx_enc_summary E summary) corrupt)) (\<lambda>encoded.
          bindS (readS (\<lambda>_. require (length encoded \<le> max_summary) corrupt)) (\<lambda>_.
          bindS (now W 0) (\<lambda>time.
          bindS (atomicS (prepare_tx W inputs encoded time)) (\<lambda>_.
          reread E W operation))))))))"

text \<open>\<open>ExperimentRunner::prepare\<close>: a repeated request is answered before any file is read.\<close>

definition runner_prepare :: "store_env \<Rightarrow> call_world \<Rightarrow> run_request \<Rightarrow> run_record store_op" where
  "runner_prepare E W request =
     bindS (readS (\<lambda>_. run_request_validate (sx_exp E) request)) (\<lambda>(validated, _).
     bindS (readS (\<lambda>_. require (rr_vault_id request = cw_vault_id W) ''VAULT_PERMISSION_CHANGED'')) (\<lambda>_.
     bindS (experiment_record E W ''lookup'' (rr_operation_id request)) (\<lambda>old.
     case old of
       Some r \<Rightarrow> readS (\<lambda>_. bindR (run_fingerprint (sx_exp E) validated) (\<lambda>fp.
         if is_fingerprint (rd_summary r) = fp then Inr r else Err ''EXPERIMENT_OPERATION_MISMATCH''))
     | None \<Rightarrow>
         bindS (readS (\<lambda>_. prepare_inputs (sx_exp E) W validated)) (\<lambda>inputs.
         experiment_prepare E W inputs))))"

definition current_record :: "store_env \<Rightarrow> call_world \<Rightarrow> string \<Rightarrow> run_record store_op" where
  "current_record E W operation =
     bindS (experiment_record E W ''find'' operation) (\<lambda>r. readS (\<lambda>_. ok_or r conflict))"

text \<open>The selected files must still be as reviewed; otherwise the run fails for good.\<close>

definition validate_current :: "store_env \<Rightarrow> call_world \<Rightarrow> nat \<Rightarrow> run_record \<Rightarrow> unit store_op" where
  "validate_current E W clock record =
     bindS (readS (\<lambda>_. summary_validate (sx_exp E) (rd_summary record))) (\<lambda>(request, _).
     case prepare_inputs (sx_exp E) W request of
       Inr _ \<Rightarrow> retS ()
     | Inl e \<Rightarrow>
         bindS (now W clock) (\<lambda>time.
         bindS (update_runs W ''fail'' (at_state (rr_operation_id (is_request (rd_summary record))) (rd_state record))
           (\<lambda>r. r\<lparr>rw_state := ''failed'', rw_error := Some (err_code e), rw_approval_id := None, rw_approved_ms := None,
              rw_updated_ms := time\<rparr>)) (\<lambda>_.
         readS (\<lambda>_. Inl e))))"

definition experiment_approve :: "store_env \<Rightarrow> call_world \<Rightarrow> string \<Rightarrow> string \<Rightarrow> run_record store_op" where
  "experiment_approve E W operation fp =
     bindS (current_record E W operation) (\<lambda>old.
     bindS (readS (\<lambda>_. require (is_fingerprint (rd_summary old) = fp) conflict)) (\<lambda>_.
     if rd_state old = RunApproved then retS old
     else
       bindS (readS (\<lambda>_. require (rd_state old = RunAwaitingConfirmation) conflict)) (\<lambda>_.
       bindS (validate_current E W 0 old) (\<lambda>_.
       bindS (now W 1) (\<lambda>time.
       bindS (update_runs W ''approve'' (at_state operation RunAwaitingConfirmation)
         (\<lambda>r. r\<lparr>rw_state := ''approved'', rw_approval_id := Some (cw_uuid W), rw_approved_ms := Some time, rw_updated_ms := time\<rparr>)) (\<lambda>n.
       bindS (readS (\<lambda>_. require (n = 1) conflict)) (\<lambda>_.
       reread E W operation)))))))"

definition experiment_reject :: "store_env \<Rightarrow> call_world \<Rightarrow> string \<Rightarrow> string \<Rightarrow> run_record store_op" where
  "experiment_reject E W operation fp =
     bindS (current_record E W operation) (\<lambda>old.
     bindS (readS (\<lambda>_. require (is_fingerprint (rd_summary old) = fp) conflict)) (\<lambda>_.
     if rd_state old = RunRejected then retS old
     else
       bindS (readS (\<lambda>_. require (rd_state old = RunAwaitingConfirmation) conflict)) (\<lambda>_.
       bindS (now W 0) (\<lambda>time.
       bindS (update_runs W ''reject'' (at_state operation RunAwaitingConfirmation)
         (\<lambda>r. r\<lparr>rw_state := ''rejected'', rw_updated_ms := time\<rparr>)) (\<lambda>_.
       reread E W operation)))))"

record claimed_run =
  cl_record :: run_record
  cl_inputs :: prepared_inputs

definition stored_content :: "exp_store \<Rightarrow> string \<Rightarrow> string \<Rightarrow> string option" where
  "stored_content st operation path =
     (case find (\<lambda>r. sn_operation_id r = operation \<and> sn_path r = path \<and> length (sn_content r) \<le> max_input_file_bytes) (es_inputs st) of
        None \<Rightarrow> None
      | Some r \<Rightarrow> Some (sn_content r))"

fun stored_inputs :: "exp_store \<Rightarrow> string \<Rightarrow> string list \<Rightarrow> (string \<times> string) list \<Rightarrow> (string \<times> string) list result" where
  "stored_inputs st operation [] bytes = Inr bytes"
| "stored_inputs st operation (path # paths) bytes =
     bindR (ok_or (stored_content st operation path) corrupt) (\<lambda>content.
     stored_inputs st operation paths (bt_insert path content bytes))"

definition claim_tx :: "store_env \<Rightarrow> call_world \<Rightarrow> string \<Rightarrow> run_record \<Rightarrow> int \<Rightarrow> claimed_run store_op" where
  "claim_tx E W operation old time =
     bindS (getS (\<lambda>st. length (filter (\<lambda>r. sn_operation_id r = operation) (es_inputs st)))) (\<lambda>n.
     bindS (readS (\<lambda>_. require (n = length (is_sizes (rd_summary old)) \<and> n \<le> max_files) corrupt)) (\<lambda>_.
     bindS (readS (\<lambda>st. stored_inputs st operation (map fst (is_sizes (rd_summary old))) [])) (\<lambda>bytes.
     bindS (readS (\<lambda>_. restore_inputs (sx_exp E) (rd_summary old) bytes)) (\<lambda>inputs.
     bindS (update_runs W ''start'' (\<lambda>r. at_state operation RunApproved r \<and> rd_approval_id old \<noteq> None \<and> rw_approval_id r = rd_approval_id old)
       (\<lambda>r. r\<lparr>rw_state := ''starting'', rw_updated_ms := time\<rparr>)) (\<lambda>changed.
     bindS (readS (\<lambda>_. require (changed = 1) conflict)) (\<lambda>_.
     bindS (readS (\<lambda>st. bindR (run_get E st operation) (\<lambda>r. ok_or r corrupt))) (\<lambda>record.
     bindS (sql W ''commit'') (\<lambda>_.
     retS \<lparr>cl_record = record, cl_inputs = inputs\<rparr>))))))))"

definition expire_approval :: "call_world \<Rightarrow> string \<Rightarrow> run_state \<Rightarrow> int \<Rightarrow> 'a store_op" where
  "expire_approval W operation state time =
     bindS (update_runs W ''expire'' (at_state operation state)
       (\<lambda>r. r\<lparr>rw_state := ''awaiting_confirmation'', rw_approval_id := None, rw_approved_ms := None, rw_updated_ms := time\<rparr>)) (\<lambda>_.
     failS ''EXPERIMENT_APPROVAL_EXPIRED'')"

definition experiment_claim :: "store_env \<Rightarrow> call_world \<Rightarrow> string \<Rightarrow> claimed_run store_op" where
  "experiment_claim E W operation =
     bindS (current_record E W operation) (\<lambda>old.
     bindS (readS (\<lambda>_. require (rd_state old = RunApproved) conflict)) (\<lambda>_.
     bindS (readS (\<lambda>st. within_quota st 0)) (\<lambda>_.
     bindS (now W 0) (\<lambda>time.
     bindS (readS (\<lambda>_. ok_or (rd_approved_ms old) corrupt)) (\<lambda>approved.
     if time < approved \<or> approval_ms < time - approved then
       expire_approval W operation RunApproved time
     else
       bindS (validate_current E W 1 old) (\<lambda>_.
       atomicS (claim_tx E W operation old time)))))))"

definition check_claim :: "store_env \<Rightarrow> call_world \<Rightarrow> claimed_run \<Rightarrow> run_record store_op" where
  "check_claim E W run =
     bindS (current_record E W (rr_operation_id (is_request (rd_summary (cl_record run))))) (\<lambda>record.
     readS (\<lambda>_. if is_fingerprint (rd_summary record) \<noteq> is_fingerprint (rd_summary (cl_record run)) \<or>
         rd_approval_id record \<noteq> rd_approval_id (cl_record run)
       then Err conflict else Inr record))"

definition experiment_running :: "store_env \<Rightarrow> call_world \<Rightarrow> claimed_run \<Rightarrow> unit store_op" where
  "experiment_running E W run =
     bindS (check_claim E W run) (\<lambda>old.
     bindS (readS (\<lambda>_. require (rd_state old = RunStarting) conflict)) (\<lambda>_.
     bindS (now W 0) (\<lambda>time.
     bindS (readS (\<lambda>_. ok_or (rd_approved_ms old) corrupt)) (\<lambda>approved.
     if time < approved \<or> approval_ms < time - approved then
       expire_approval W (rr_operation_id (is_request (rd_summary old))) RunStarting time
     else
       bindS (validate_current E W 1 old) (\<lambda>_.
       bindS (now W 2) (\<lambda>time'.
       bindS (update_runs W ''run'' (\<lambda>r. at_state (rr_operation_id (is_request (rd_summary (cl_record run)))) RunStarting r \<and>
           rd_approval_id (cl_record run) \<noteq> None \<and> rw_approval_id r = rd_approval_id (cl_record run))
         (\<lambda>r. r\<lparr>rw_state := ''running'', rw_updated_ms := time'\<rparr>)) (\<lambda>n.
       readS (\<lambda>_. require (n = 1) conflict))))))))"

fun cancelled_state :: "run_state \<Rightarrow> run_state option" where
  "cancelled_state RunAwaitingConfirmation = Some RunCancelled"
| "cancelled_state RunApproved = Some RunCancelled"
| "cancelled_state RunStarting = Some RunCancelRequested"
| "cancelled_state RunRunning = Some RunCancelRequested"
| "cancelled_state _ = None"

definition experiment_cancel :: "store_env \<Rightarrow> call_world \<Rightarrow> string \<Rightarrow> run_record store_op" where
  "experiment_cancel E W operation =
     bindS (current_record E W operation) (\<lambda>old.
     case cancelled_state (rd_state old) of
       None \<Rightarrow> retS old
     | Some state \<Rightarrow>
         bindS (now W 0) (\<lambda>time.
         bindS (update_runs W ''cancel'' (at_state operation (rd_state old))
           (\<lambda>r. r\<lparr>rw_state := run_state_name state, rw_updated_ms := time\<rparr>)) (\<lambda>_.
         reread E W operation)))"

section \<open>The end of a run\<close>

record collected_outputs =
  co_files :: "(output_manifest \<times> string) list"
  co_skipped :: "skipped_output list"
  co_total_bytes :: nat

definition collected_report :: "collected_outputs \<Rightarrow> output_report" where
  "collected_report c =
     Collected \<lparr>os_files = map fst (co_files c), os_skipped = co_skipped c, os_total_bytes = co_total_bytes c\<rparr>"

definition attach_outputs :: "store_env \<Rightarrow> run_record \<Rightarrow> collected_outputs option \<Rightarrow> run_result \<Rightarrow> run_result result" where
  "attach_outputs E old outputs result =
     (case outputs of
        Some c \<Rightarrow>
          bindR (summary_validate (sx_exp E) (rd_summary old)) (\<lambda>(_, limits).
          bindR (as_corrupt (report_validate (sx_exp E) (unat (output_bytes limits)) (collected_report c))) (\<lambda>_.
          Inr (result\<lparr>ro_outputs := Some (collected_report c)\<rparr>)))
      | None \<Rightarrow>
          (case ro_outputs result of
             Some (Collected _) \<Rightarrow> Err corrupt
           | _ \<Rightarrow> Inr result))"

text \<open>The outputs with the texts of their manifests, and the bytes they take.\<close>

fun encode_outputs :: "store_env \<Rightarrow> (output_manifest \<times> string) list \<Rightarrow> nat \<Rightarrow> (((output_manifest \<times> string) \<times> string) list \<times> nat) result" where
  "encode_outputs E [] tot = Inr ([], tot)"
| "encode_outputs E ((manifest, content) # rest) tot =
     bindR (ok_or (sx_enc_manifest E manifest) corrupt) (\<lambda>encoded.
     bindR (require (tot + (length encoded + length content) < 2 ^ 63) corrupt) (\<lambda>_.
     bindR (encode_outputs E rest (tot + (length encoded + length content))) (\<lambda>(stored, tot').
     Inr (((manifest, content), encoded) # stored, tot'))))"

fun insert_outputs :: "call_world \<Rightarrow> string \<Rightarrow> ((output_manifest \<times> string) \<times> string) list \<Rightarrow> unit store_op" where
  "insert_outputs W operation [] = retS ()"
| "insert_outputs W operation (((manifest, content), encoded) # rest) =
     bindS (sql W (''insert output '' @ om_path manifest)) (\<lambda>_.
     bindS (readS (\<lambda>st. require (\<not> list_ex (\<lambda>r. sp_operation_id r = operation \<and> sp_path r = om_path manifest) (es_outputs st)) ''DATABASE_ERROR'')) (\<lambda>_.
     bindS (modS (\<lambda>st. st\<lparr>es_outputs := es_outputs st @
       [\<lparr>sp_operation_id = operation, sp_path = om_path manifest, sp_manifest = encoded, sp_content = content\<rparr>]\<rparr>)) (\<lambda>_.
     insert_outputs W operation rest)))"

definition over_quota :: "run_state \<Rightarrow> run_result \<Rightarrow> run_result" where
  "over_quota state result =
     (let result' = (if state \<noteq> RunCancelRequested then result\<lparr>ro_outcome := OutFailed\<rparr> else result) in
      result'\<lparr>ro_error := Some ''EXPERIMENT_RECORD_QUOTA'', ro_outputs := Some (Rejected ''EXPERIMENT_RECORD_QUOTA'')\<rparr>)"

text \<open>Outputs that do not fit are rejected as a whole; the logs have their reserved space.\<close>

definition fit_outputs :: "store_env \<Rightarrow> run_state \<Rightarrow> int \<Rightarrow> string \<Rightarrow> run_result \<Rightarrow> ((output_manifest \<times> string) \<times> string) list \<times> nat \<Rightarrow>
    (run_result \<times> string \<times> ((output_manifest \<times> string) \<times> string) list) result" where
  "fit_outputs E state available encoded result outputs =
     (if available < int (length encoded) + int (snd outputs) then
        bindR (ok_or (sx_enc_result E (over_quota state result)) corrupt) (\<lambda>encoded'.
        Inr (over_quota state result, encoded', []))
      else Inr (result, encoded, fst outputs))"

definition finish_write :: "call_world \<Rightarrow> string \<Rightarrow> run_state \<Rightarrow> run_result \<Rightarrow> string \<Rightarrow> ((output_manifest \<times> string) \<times> string) list \<Rightarrow> unit store_op" where
  "finish_write W operation state final text' kept =
     bindS (insert_outputs W operation kept) (\<lambda>_.
     bindS (now W 0) (\<lambda>time.
     bindS (update_runs W ''finish'' (at_state operation state)
       (\<lambda>r. r\<lparr>rw_state := run_state_name (outcome_state (ro_outcome final)), rw_result := Some text', rw_error := ro_error final,
          rw_updated_ms := time\<rparr>)) (\<lambda>n.
     bindS (readS (\<lambda>_. require (n = 1) conflict)) (\<lambda>_.
     sql W ''commit''))))"

definition finish_tx :: "store_env \<Rightarrow> call_world \<Rightarrow> run_record \<Rightarrow> string \<Rightarrow> run_result \<Rightarrow> collected_outputs option \<Rightarrow> unit store_op" where
  "finish_tx E W old encoded result outputs =
     (let operation = rr_operation_id (is_request (rd_summary old)) in
      bindS (readS (\<lambda>_. encode_outputs E (case outputs of None \<Rightarrow> [] | Some c \<Rightarrow> co_files c) 0)) (\<lambda>stored.
      bindS (readS (\<lambda>st. bindR (reservations st (Some operation)) (\<lambda>rest. Inr (max_store - usage st - rest)))) (\<lambda>available.
      bindS (readS (\<lambda>_. fit_outputs E (rd_state old) available encoded result stored)) (\<lambda>(final, text', kept).
      bindS (readS (\<lambda>_. require (length text' \<le> max_result \<and> int (length text') \<le> available) ''EXPERIMENT_RECORD_QUOTA'')) (\<lambda>_.
      finish_write W operation (rd_state old) final text' kept)))))"

definition experiment_finish_outputs :: "store_env \<Rightarrow> call_world \<Rightarrow> claimed_run \<Rightarrow> run_result \<Rightarrow> collected_outputs option \<Rightarrow> run_record store_op" where
  "experiment_finish_outputs E W run result outputs =
     bindS (check_claim E W run) (\<lambda>old.
     if run_terminal (rd_state old) then retS old
     else
       bindS (readS (\<lambda>_. require (rd_state old \<in> {RunStarting, RunRunning, RunCancelRequested}) conflict)) (\<lambda>_.
       let result1 = (if rd_state old = RunCancelRequested then result\<lparr>ro_outcome := OutCancelled\<rparr> else result) in
       bindS (readS (\<lambda>_. require (\<not> (rd_state old = RunStarting \<and> ro_outcome result1 = OutCompleted)) conflict)) (\<lambda>_.
       bindS (readS (\<lambda>_. attach_outputs E old outputs result1)) (\<lambda>result2.
       bindS (readS (\<lambda>_. result_validate (sx_exp E) (rd_summary old) result2)) (\<lambda>_.
       bindS (readS (\<lambda>_. ok_or (sx_enc_result E result2) corrupt)) (\<lambda>encoded.
       bindS (readS (\<lambda>_. require (length encoded \<le> max_result) corrupt)) (\<lambda>_.
       bindS (atomicS (finish_tx E W old encoded result2 outputs)) (\<lambda>_.
       reread E W (rr_operation_id (is_request (rd_summary old)))))))))))"

definition experiment_finish :: "store_env \<Rightarrow> call_world \<Rightarrow> claimed_run \<Rightarrow> run_result \<Rightarrow> run_record store_op" where
  "experiment_finish E W run result = experiment_finish_outputs E W run result None"

definition forget_tx :: "store_env \<Rightarrow> call_world \<Rightarrow> string \<Rightarrow> string \<Rightarrow> forget_receipt store_op" where
  "forget_tx E W operation fp =
     bindS (readS (\<lambda>st. bindR (run_get E st operation) (\<lambda>r. ok_or r conflict))) (\<lambda>record.
     bindS (readS (\<lambda>_. require (rr_vault_id (is_request (rd_summary record)) = cw_vault_id W) ''VAULT_PERMISSION_CHANGED'')) (\<lambda>_.
     bindS (readS (\<lambda>_. require (is_fingerprint (rd_summary record) = fp) ''OPERATION_PAYLOAD_CONFLICT'')) (\<lambda>_.
     bindS (readS (\<lambda>_. require (run_terminal (rd_state record)) conflict)) (\<lambda>_.
     bindS (now W 0) (\<lambda>time.
     let rcpt = \<lparr>fg_vault_id = cw_vault_id W, fg_operation_id = operation, fg_fingerprint = fp, fg_forgotten_ms = time\<rparr> in
     bindS (readS (\<lambda>_. ok_or (sx_enc_receipt E rcpt) corrupt)) (\<lambda>encoded.
     bindS (readS (\<lambda>_. require (length encoded \<le> 1024) corrupt)) (\<lambda>_.
     bindS (sql W ''delete outputs'') (\<lambda>_.
     bindS (modS (\<lambda>st. st\<lparr>es_outputs := tbl_delete (\<lambda>r. sp_operation_id r = operation) (es_outputs st)\<rparr>)) (\<lambda>_.
     bindS (sql W ''delete inputs'') (\<lambda>_.
     bindS (modS (\<lambda>st. st\<lparr>es_inputs := tbl_delete (\<lambda>r. sn_operation_id r = operation) (es_inputs st)\<rparr>)) (\<lambda>_.
     bindS (update_runs W ''forget'' (at_state operation (rd_state record))
       (\<lambda>r. r\<lparr>rw_state := ''forgotten'', rw_summary := encoded, rw_result := None, rw_approval_id := None, rw_approved_ms := None,
          rw_error := Some ''EXPERIMENT_RECORD_FORGOTTEN'', rw_updated_ms := time\<rparr>)) (\<lambda>n.
     bindS (readS (\<lambda>_. require (n = 1) conflict)) (\<lambda>_.
     bindS (readS (\<lambda>st. within_quota st 0)) (\<lambda>_.
     bindS (sql W ''commit'') (\<lambda>_.
     retS rcpt)))))))))))))))"

definition experiment_forget :: "store_env \<Rightarrow> call_world \<Rightarrow> string \<Rightarrow> string \<Rightarrow> forget_receipt store_op" where
  "experiment_forget E W operation fp =
     bindS (sql W ''find'') (\<lambda>_.
     bindS (readS (\<lambda>st. forgotten E st operation)) (\<lambda>old.
     case old of
       Some rcpt \<Rightarrow> readS (\<lambda>_. if fg_vault_id rcpt \<noteq> cw_vault_id W then Err ''VAULT_PERMISSION_CHANGED''
           else if fg_fingerprint rcpt = fp then Inr rcpt else Err ''OPERATION_PAYLOAD_CONFLICT'')
     | None \<Rightarrow> atomicS (forget_tx E W operation fp)))"

section \<open>History, usage and outputs\<close>

record history_cursor =
  hc_vault_id :: string
  hc_created_ms :: int
  hc_operation_id :: string

record history_item =
  hi_operation_id :: string
  hi_fingerprint :: string
  hi_entry :: selected_file
  hi_runtime_id :: string
  hi_state :: run_state
  hi_created_ms :: int
  hi_updated_ms :: int
  hi_error :: "string option"
  hi_elapsed_ms :: "nat option"
  hi_exit_code :: "nat option"
  hi_output_files :: "nat option"
  hi_output_bytes :: "nat option"
  hi_skipped_files :: "nat option"

record history_page =
  hp_items :: "history_item list"
  hp_next_cursor :: "history_cursor option"

text \<open>\<open>ORDER BY created_ms DESC, operation_id DESC\<close>, starting below the cursor.\<close>

definition history_ids :: "exp_store \<Rightarrow> history_cursor option \<Rightarrow> nat \<Rightarrow> string list" where
  "history_ids st cursor n =
     take n (map rw_operation_id (rev (sort_key rw_created_ms (sort_key rw_operation_id
       (filter (\<lambda>r. rw_state r \<noteq> ''forgotten'' \<and>
          (case cursor of
             None \<Rightarrow> True
           | Some c \<Rightarrow> rw_created_ms r < hc_created_ms c \<or>
               (rw_created_ms r = hc_created_ms c \<and> rw_operation_id r < hc_operation_id c))) (es_runs st))))))"

definition history_item_of :: "string \<Rightarrow> run_record \<Rightarrow> history_item" where
  "history_item_of operation r =
     (let collected = (case rd_result r of
            Some result \<Rightarrow> (case ro_outputs result of Some (Collected s) \<Rightarrow> Some s | _ \<Rightarrow> None)
          | None \<Rightarrow> None) in
      \<lparr>hi_operation_id = operation, hi_fingerprint = is_fingerprint (rd_summary r), hi_entry = rr_entry (is_request (rd_summary r)),
       hi_runtime_id = rr_runtime_id (is_request (rd_summary r)), hi_state = rd_state r, hi_created_ms = rd_created_ms r,
       hi_updated_ms = rd_updated_ms r, hi_error = rd_error r, hi_elapsed_ms = map_option ro_elapsed_ms (rd_result r),
       hi_exit_code = Option.bind (rd_result r) ro_exit_code, hi_output_files = map_option (\<lambda>s. length (os_files s)) collected,
       hi_output_bytes = map_option (\<lambda>s. sum_list (map om_bytes (os_files s))) collected,
       hi_skipped_files = map_option (\<lambda>s. length (os_skipped s)) collected\<rparr>)"

fun history_items :: "store_env \<Rightarrow> string \<Rightarrow> exp_store \<Rightarrow> string list \<Rightarrow> history_item list result" where
  "history_items E vault st [] = Inr []"
| "history_items E vault st (operation # rest) =
     bindR (record_of E vault operation st) (\<lambda>r.
     bindR (ok_or r corrupt) (\<lambda>found.
     bindR (history_items E vault st rest) (\<lambda>items.
     Inr (history_item_of operation found # items))))"

definition experiment_history :: "store_env \<Rightarrow> call_world \<Rightarrow> nat \<Rightarrow> history_cursor option \<Rightarrow> history_page store_op" where
  "experiment_history E W limit cursor =
     bindS (readS (\<lambda>_. require (1 \<le> limit \<and> limit \<le> 50) ''EXPERIMENT_HISTORY_INVALID'')) (\<lambda>_.
     bindS (readS (\<lambda>_. case cursor of
         None \<Rightarrow> Inr ()
       | Some c \<Rightarrow> bindR (require (hc_vault_id c = cw_vault_id W) ''VAULT_PERMISSION_CHANGED'') (\<lambda>_.
           require (0 \<le> hc_created_ms c \<and> uuid_ok E (hc_operation_id c)) ''EXPERIMENT_HISTORY_INVALID''))) (\<lambda>_.
     bindS (sql W ''history'') (\<lambda>_.
     readS (\<lambda>st.
       let ids = history_ids st cursor (limit + 1) in
       bindR (history_items E (cw_vault_id W) st (take limit ids)) (\<lambda>items.
       Inr \<lparr>hp_items = items,
         hp_next_cursor = (if limit < length ids \<and> items \<noteq> [] then
             Some \<lparr>hc_vault_id = cw_vault_id W, hc_created_ms = hi_created_ms (last items), hc_operation_id = hi_operation_id (last items)\<rparr>
           else None)\<rparr>)))))"

record retention_usage =
  ru_records :: nat
  ru_forgotten_operations :: nat
  ru_payload_bytes :: int
  ru_reserved_bytes :: int
  ru_maximum_bytes :: int
  ru_maximum_records :: nat

definition experiment_retention_usage :: "call_world \<Rightarrow> retention_usage store_op" where
  "experiment_retention_usage W =
     bindS (sql W ''count'') (\<lambda>_.
     readS (\<lambda>st. bindR (reservations st None) (\<lambda>held.
       Inr \<lparr>ru_records = length (filter (\<lambda>r. rw_state r \<noteq> ''forgotten'') (es_runs st)),
         ru_forgotten_operations = length (filter (\<lambda>r. rw_state r = ''forgotten'') (es_runs st)),
         ru_payload_bytes = usage st, ru_reserved_bytes = held, ru_maximum_bytes = max_store, ru_maximum_records = max_run_records\<rparr>)))"

definition stored_output_of :: "exp_store \<Rightarrow> string \<Rightarrow> string \<Rightarrow> stored_output option" where
  "stored_output_of st operation path = find (\<lambda>r. sp_operation_id r = operation \<and> sp_path r = path) (es_outputs st)"

definition checked_output :: "store_env \<Rightarrow> run_record \<Rightarrow> string \<Rightarrow> string \<Rightarrow> exp_store \<Rightarrow> (output_manifest \<times> string) result" where
  "checked_output E found operation path st =
     bindR (case rd_result found of
              Some result \<Rightarrow> (case ro_outputs result of Some (Collected s) \<Rightarrow> Inr s | _ \<Rightarrow> Err ''EXPERIMENT_OUTPUT_NOT_FOUND'')
            | None \<Rightarrow> Err ''EXPERIMENT_OUTPUT_NOT_FOUND'') (\<lambda>summary.
     bindR (ok_or (find (\<lambda>f. om_path f = path) (os_files summary)) ''EXPERIMENT_OUTPUT_NOT_FOUND'') (\<lambda>expected.
     bindR (summary_validate (sx_exp E) (rd_summary found)) (\<lambda>(_, limits).
     let limit = unat (output_bytes limits) in
     bindR (ok_or (stored_output_of st operation path) corrupt) (\<lambda>row.
     bindR (ok_or (if length (sp_manifest row) \<le> 4096 then Some (sp_manifest row) else None) corrupt) (\<lambda>encoded.
     bindR (ok_or (sx_dec_manifest E encoded) corrupt) (\<lambda>manifest.
     bindR (require (manifest = expected) corrupt) (\<lambda>_.
     bindR (ok_or (if length (sp_content row) \<le> limit \<and> length (sp_content row) \<le> max_output_bytes then Some (sp_content row) else None) corrupt) (\<lambda>content.
     bindR (as_corrupt (output_restore (sx_exp E) expected content limit)) (\<lambda>checked.
     Inr (expected, checked))))))))))"

definition experiment_output :: "store_env \<Rightarrow> call_world \<Rightarrow> string \<Rightarrow> string \<Rightarrow> (output_manifest \<times> string) store_op" where
  "experiment_output E W operation path =
     bindS (current_record E W operation) (\<lambda>found. readS (checked_output E found operation path))"

record output_chunk =
  oc_manifest :: output_manifest
  oc_offset :: nat
  oc_next_offset :: "nat option"
  oc_content_base64 :: string

definition output_chunk_of :: "store_env \<Rightarrow> output_manifest \<Rightarrow> string \<Rightarrow> nat \<Rightarrow> nat \<Rightarrow> output_chunk result" where
  "output_chunk_of E manifest content offset limit =
     bindR (require (offset \<le> length content) ''EXPERIMENT_OUTPUT_RANGE_INVALID'') (\<lambda>_.
     let stop = min (min u64_max (offset + limit)) (length content) in
     Inr \<lparr>oc_manifest = manifest, oc_offset = offset, oc_next_offset = (if stop < length content then Some stop else None),
       oc_content_base64 = sx_base64 E (drop offset (take stop content))\<rparr>)"

definition experiment_output_read :: "store_env \<Rightarrow> call_world \<Rightarrow> string \<Rightarrow> string \<Rightarrow> nat \<Rightarrow> nat \<Rightarrow> output_chunk store_op" where
  "experiment_output_read E W operation path offset limit =
     bindS (readS (\<lambda>_. require (1 \<le> limit \<and> limit \<le> 256 * 1024) ''EXPERIMENT_OUTPUT_RANGE_INVALID'')) (\<lambda>_.
     bindS (experiment_output E W operation path) (\<lambda>(manifest, content).
     readS (\<lambda>_. output_chunk_of E manifest content offset limit)))"

end
