(* ===== verification/Experiment_Lifecycle.thy ===== *)
theory Experiment_Lifecycle
  imports Experiment_Store
begin

text \<open>
  Histories of the experiment records: any sequence of the store's calls, restarts of the host
  included, in any world. The states of a run follow its life cycle, every start spends an
  approval, what starts is what was reviewed, and the storage quota is kept.
\<close>

section \<open>Histories\<close>

datatype store_event =
    EvRecover call_world
  | EvPrepare call_world run_request
  | EvApprove call_world string string
  | EvReject call_world string string
  | EvClaim call_world string
  | EvRunning call_world claimed_run
  | EvCancel call_world string
  | EvFinish call_world claimed_run run_result "collected_outputs option"
  | EvForget call_world string string

fun store_step :: "store_env \<Rightarrow> store_event \<Rightarrow> exp_store \<Rightarrow> exp_store" where
  "store_step E (EvRecover W) st = snd (store_recover W st)"
| "store_step E (EvPrepare W request) st = snd (runner_prepare E W request st)"
| "store_step E (EvApprove W operation fp) st = snd (experiment_approve E W operation fp st)"
| "store_step E (EvReject W operation fp) st = snd (experiment_reject E W operation fp st)"
| "store_step E (EvClaim W operation) st = snd (experiment_claim E W operation st)"
| "store_step E (EvRunning W run) st = snd (experiment_running E W run st)"
| "store_step E (EvCancel W operation) st = snd (experiment_cancel E W operation st)"
| "store_step E (EvFinish W run result outputs) st = snd (experiment_finish_outputs E W run result outputs st)"
| "store_step E (EvForget W operation fp) st = snd (experiment_forget E W operation fp st)"

definition store_run :: "store_env \<Rightarrow> store_event list \<Rightarrow> exp_store \<Rightarrow> exp_store" where
  "store_run E es st = fold (store_step E) es st"

definition empty_store :: exp_store where
  "empty_store = \<lparr>es_runs = [], es_inputs = [], es_outputs = []\<rparr>"

section \<open>The life cycle\<close>

text \<open>The states a run can go to from each state.\<close>

fun next_states :: "run_state \<Rightarrow> run_state list" where
  "next_states RunAwaitingConfirmation = [RunApproved, RunRejected, RunCancelled, RunFailed]"
| "next_states RunApproved = [RunAwaitingConfirmation, RunStarting, RunCancelled, RunFailed]"
| "next_states RunStarting = [RunAwaitingConfirmation, RunRunning, RunCancelRequested, RunFailed, RunCancelled, RunLimited, RunInterrupted]"
| "next_states RunRunning = [RunCancelRequested, RunCompleted, RunFailed, RunCancelled, RunLimited, RunInterrupted]"
| "next_states RunCancelRequested = [RunCancelled, RunInterrupted]"
| "next_states _ = []"

lemma run_state_name_inject [simp]: "run_state_name a = run_state_name b \<longleftrightarrow> a = b"
  by (cases a; cases b) simp_all

lemma not_forgotten [simp]: "run_state_name a \<noteq> ''forgotten''"
  by (cases a) simp_all

lemma run_state_parse_iff: "run_state_parse name = Inr s \<longleftrightarrow> name = run_state_name s"
proof
  assume "run_state_parse name = Inr s"
  then show "name = run_state_name s" unfolding run_state_parse_def ok_or_simps find_Some_iff by blast
next
  assume "name = run_state_name s"
  then show "run_state_parse name = Inr s" by (cases s) (simp_all add: run_state_parse_def)
qed

text \<open>
  What a statement may do to one row: \<open>move\<close> says which states may follow one another for an operation; the reviewed
  request of a run never changes, short of its being forgotten.
\<close>

definition row_edge :: "(string \<Rightarrow> string \<Rightarrow> string \<Rightarrow> bool) \<Rightarrow> run_row \<Rightarrow> run_row \<Rightarrow> bool" where
  "row_edge move r r' \<longleftrightarrow> rw_operation_id r' = rw_operation_id r \<and> move (rw_operation_id r) (rw_state r) (rw_state r') \<and>
     (rw_state r' = ''forgotten'' \<or> rw_summary r' = rw_summary r)"

fun row_evolves :: "(string \<Rightarrow> string \<Rightarrow> string \<Rightarrow> bool) \<Rightarrow> bool \<Rightarrow> run_row option \<Rightarrow> run_row option \<Rightarrow> bool" where
  "row_evolves move fresh (Some r) (Some r') = (row_edge move)\<^sup>*\<^sup>* r r'"
| "row_evolves move fresh (Some r) None = False"
| "row_evolves move fresh None None = True"
| "row_evolves move fresh None (Some r') =
     (fresh \<and> (\<exists>r0. rw_state r0 = ''awaiting_confirmation'' \<and> (row_edge move)\<^sup>*\<^sup>* r0 r'))"

definition evolves :: "(string \<Rightarrow> string \<Rightarrow> string \<Rightarrow> bool) \<Rightarrow> bool \<Rightarrow> exp_store \<Rightarrow> exp_store \<Rightarrow> bool" where
  "evolves move fresh st st' \<longleftrightarrow> (\<forall>operation. row_evolves move fresh (run_row_of st operation) (run_row_of st' operation))"

lemma row_evolves_refl [simp]: "row_evolves move fresh x x"
  by (cases x) simp_all

lemma row_evolves_trans: "row_evolves move fresh x y \<Longrightarrow> row_evolves move fresh y z \<Longrightarrow> row_evolves move fresh x z"
  by (cases x; cases y; cases z) (auto intro: rtranclp_trans)

lemma row_evolves_mono:
  assumes "row_evolves m f x y" "\<And>r r'. row_edge m r r' \<Longrightarrow> row_edge m' r r'" "f \<Longrightarrow> f'"
  shows "row_evolves m' f' x y"
proof -
  have "(row_edge m')\<^sup>*\<^sup>* r r'" if "(row_edge m)\<^sup>*\<^sup>* r r'" for r r'
    using that by (induction rule: rtranclp_induct) (auto intro: assms(2) rtranclp.rtrancl_into_rtrancl)
  with assms(1,3) show ?thesis by (cases x; cases y) auto
qed

lemma evolves_refl [simp]: "evolves move fresh st st"
  by (simp add: evolves_def)

lemma evolves_same_runs: "es_runs st' = es_runs st \<Longrightarrow> evolves move fresh st st'"
  by (simp add: evolves_def)

lemma evolves_trans: "evolves move fresh st u \<Longrightarrow> evolves move fresh u st' \<Longrightarrow> evolves move fresh st st'"
  unfolding evolves_def by (blast intro: row_evolves_trans)

lemma evolves_update:
  assumes "\<And>r. P r \<Longrightarrow> row_edge move r (f r)" "\<And>r. rw_operation_id (f r) = rw_operation_id r"
  shows "evolves move fresh st (st\<lparr>es_runs := tbl_update P f (es_runs st)\<rparr>)"
proof -
  have "row_evolves move fresh x (map_option (\<lambda>r. if P r then f r else r) x)" for x
    using assms(1) by (cases x) (auto intro: r_into_rtranclp)
  then show ?thesis by (simp add: evolves_def tbl_get_update assms(2))
qed

text \<open>An operation whose effect, whether it succeeds or fails, stays within the moves.\<close>

definition moves :: "(string \<Rightarrow> string \<Rightarrow> string \<Rightarrow> bool) \<Rightarrow> bool \<Rightarrow> 'a store_op \<Rightarrow> bool" where
  "moves move fresh m \<longleftrightarrow> (\<forall>st. evolves move fresh st (snd (m st)))"

named_theorems moves_intro \<open>composition rules of the life cycle\<close>

lemma moves_basic [moves_intro]:
  "moves move fresh (retS x)" "moves move fresh (failS c)" "moves move fresh (readS f)" "moves move fresh (getS g)"
  "moves move fresh (sql W label)" "moves move fresh (now W n)"
  by (simp_all add: moves_def host_defs sql_def now_def)

lemma moves_bind [moves_intro]:
  "moves move fresh m \<Longrightarrow> (\<And>x. moves move fresh (f x)) \<Longrightarrow> moves move fresh (bindS m f)"
  by (fastforce simp: moves_def bindS_def split: prod.splits sum.splits intro: evolves_trans)

lemma moves_require:
  "(b \<Longrightarrow> moves move fresh (f ())) \<Longrightarrow> moves move fresh (bindS (readS (\<lambda>_. require b c)) f)"
  by (auto simp: moves_def bindS_def readS_def require_def)

lemma moves_atomic [moves_intro]: "moves move fresh m \<Longrightarrow> moves move fresh (atomicS m)"
  unfolding moves_def by (auto simp: atomicS_def split: prod.splits sum.splits) (metis snd_conv)

lemma moves_if [moves_intro]:
  "(b \<Longrightarrow> moves move fresh m) \<Longrightarrow> (\<not> b \<Longrightarrow> moves move fresh n) \<Longrightarrow> moves move fresh (if b then m else n)"
  by simp

lemma moves_option [moves_intro]:
  "(x = None \<Longrightarrow> moves move fresh m) \<Longrightarrow> (\<And>v. x = Some v \<Longrightarrow> moves move fresh (f v)) \<Longrightarrow>
     moves move fresh (case x of None \<Rightarrow> m | Some v \<Rightarrow> f v)"
  by (cases x) auto

lemma moves_update:
  assumes "\<And>r. P r \<Longrightarrow> row_edge move r (f r)" "\<And>r. rw_operation_id (f r) = rw_operation_id r"
  shows "moves move fresh (update_runs W label P f)"
  unfolding update_runs_def
  by (intro moves_intro) (simp add: moves_def modS_def evolves_update assms)

lemma moves_reading [moves_intro]:
  "moves move fresh (experiment_record E W label operation)" "moves move fresh (current_record E W operation)"
  "moves move fresh (reread E W operation)" "moves move fresh (check_claim E W run)"
  unfolding experiment_record_def current_record_def reread_def check_claim_def by (intro moves_intro)+

lemma moves_files [moves_intro]:
  "moves move fresh (modS (\<lambda>st. st\<lparr>es_outputs := g st\<rparr>))" "moves move fresh (modS (\<lambda>st. st\<lparr>es_inputs := h st\<rparr>))"
  by (simp_all add: moves_def modS_def evolves_same_runs)

lemma moves_insert_inputs [moves_intro]: "moves move fresh (insert_inputs W operation bytes)"
  by (induction W operation bytes rule: insert_inputs.induct) (simp_all, (intro moves_intro; assumption)+)

lemma moves_insert_outputs [moves_intro]: "moves move fresh (insert_outputs W operation rows)"
  by (induction W operation rows rule: insert_outputs.induct) (simp_all, (intro moves_intro; assumption)+)

lemma moves_mono:
  assumes "moves m f x" "\<And>i a b. m i a b \<Longrightarrow> m' i a b" "f \<Longrightarrow> f'"
  shows "moves m' f' x"
proof -
  have "row_edge m r r' \<Longrightarrow> row_edge m' r r'" for r r' using assms(2) by (simp add: row_edge_def)
  then show ?thesis using assms(1,3) row_evolves_mono [of m f _ _ m' f'] by (simp add: moves_def evolves_def)
qed

definition life_move :: "string \<Rightarrow> string \<Rightarrow> string \<Rightarrow> bool" where
  "life_move operation x y \<longleftrightarrow>
     (\<exists>a. x = run_state_name a \<and> ((\<exists>b \<in> set (next_states a). y = run_state_name b) \<or> (run_terminal a \<and> y = ''forgotten'')))"

definition quiet_move :: "string \<Rightarrow> string \<Rightarrow> string \<Rightarrow> bool" where
  "quiet_move operation x y \<longleftrightarrow> life_move operation x y \<and> y \<noteq> ''approved''"

definition approve_move :: "string \<Rightarrow> string \<Rightarrow> string \<Rightarrow> string \<Rightarrow> bool" where
  "approve_move operation i x y \<longleftrightarrow> i = operation \<and> x = ''awaiting_confirmation'' \<and> life_move i x y"

lemma life_moves:
  "b \<in> set (next_states a) \<Longrightarrow> life_move i (run_state_name a) (run_state_name b)"
  "run_terminal a \<Longrightarrow> life_move i (run_state_name a) ''forgotten''"
  by (auto simp: life_move_def)

lemma state_names:
  "''awaiting_confirmation'' = run_state_name RunAwaitingConfirmation" "''approved'' = run_state_name RunApproved"
  "''starting'' = run_state_name RunStarting" "''running'' = run_state_name RunRunning"
  "''cancel_requested'' = run_state_name RunCancelRequested" "''rejected'' = run_state_name RunRejected"
  "''failed'' = run_state_name RunFailed" "''interrupted'' = run_state_name RunInterrupted"
  by simp_all

lemma moves_into:
  assumes "\<And>r. P r \<Longrightarrow> \<exists>a. rw_state r = run_state_name a \<and> b \<in> set (next_states a)" "b \<noteq> RunApproved"
    and "\<And>r. rw_operation_id (f r) = rw_operation_id r \<and> rw_summary (f r) = rw_summary r \<and> rw_state (f r) = run_state_name b"
  shows "moves quiet_move fresh (update_runs W label P f)"
proof (rule moves_update)
  show "row_edge quiet_move r (f r)" if p: "P r" for r
  proof -
    obtain a where "rw_state r = run_state_name a" "b \<in> set (next_states a)" using assms(1) [OF p] by blast
    then show ?thesis using assms(2) assms(3) [of r]
      by (simp add: row_edge_def quiet_move_def life_moves state_names(2) del: run_state_name.simps)
  qed
qed (simp add: assms(3))

lemma moves_to:
  assumes "\<And>r. P r \<Longrightarrow> rw_state r = run_state_name a" "b \<in> set (next_states a)" "b \<noteq> RunApproved"
    and "\<And>r. rw_operation_id (f r) = rw_operation_id r \<and> rw_summary (f r) = rw_summary r \<and> rw_state (f r) = run_state_name b"
  shows "moves quiet_move fresh (update_runs W label P f)"
  by (rule moves_into [of P b]) (use assms in blast)+

text \<open>One rule per statement of the code.\<close>

lemma moves_sum [moves_intro]:
  "(\<And>e. x = Inl e \<Longrightarrow> moves move fresh (m e)) \<Longrightarrow> (\<And>v. x = Inr v \<Longrightarrow> moves move fresh (f v)) \<Longrightarrow>
     moves move fresh (case x of Inl e \<Rightarrow> m e | Inr v \<Rightarrow> f v)"
  by (cases x) auto

lemma moves_prod [moves_intro]:
  "(\<And>a b. x = (a, b) \<Longrightarrow> moves move fresh (f a b)) \<Longrightarrow> moves move fresh (case x of (a, b) \<Rightarrow> f a b)"
  by (cases x) auto

lemma moves_fail_run:
  assumes "RunFailed \<in> set (next_states (rd_state record))"
  shows "moves quiet_move fresh (validate_current E W n record)"
  unfolding validate_current_def
  by (intro moves_intro moves_to [where a = "rd_state record" and b = RunFailed]) (use assms in simp_all)

lemma moves_expire:
  "state \<in> {RunApproved, RunStarting} \<Longrightarrow> moves quiet_move fresh (expire_approval W operation state time)"
  unfolding expire_approval_def
  by (intro moves_intro moves_to [where a = state and b = RunAwaitingConfirmation]) auto

lemma interruptible:
  assumes "rw_state r \<in> {''starting'', ''running'', ''cancel_requested''}"
  shows "\<exists>a. rw_state r = run_state_name a \<and> RunInterrupted \<in> set (next_states a)"
proof -
  have "\<exists>a \<in> {RunStarting, RunRunning, RunCancelRequested}. rw_state r = run_state_name a" using assms by simp
  then show ?thesis by fastforce
qed

lemma moves_recover: "moves quiet_move fresh (store_recover W)"
  unfolding store_recover_def
proof (intro moves_intro)
  show "moves quiet_move fresh (update_runs W ''interrupt'' (\<lambda>r. rw_state r \<in> {''starting'', ''running'', ''cancel_requested''})
       (\<lambda>r. r\<lparr>rw_state := ''interrupted'', rw_error := Some ''EXPERIMENT_HOST_RESTARTED'', rw_updated_ms := time\<rparr>))" for time
    by (rule moves_into [OF interruptible]) simp_all
  show "moves quiet_move fresh (update_runs W ''review again'' (\<lambda>r. rw_state r = ''approved'')
       (\<lambda>r. r\<lparr>rw_state := ''awaiting_confirmation'', rw_approval_id := None, rw_approved_ms := None, rw_updated_ms := time\<rparr>))" for time
    by (rule moves_to [where a = RunApproved and b = RunAwaitingConfirmation]) simp_all
qed

lemma moves_reject: "moves quiet_move fresh (experiment_reject E W operation fp)"
  unfolding experiment_reject_def
  by (intro moves_intro moves_to [where a = RunAwaitingConfirmation and b = RunRejected]) simp_all

lemma moves_claim: "moves quiet_move fresh (experiment_claim E W operation)"
  unfolding experiment_claim_def
proof (rule moves_bind, rule moves_intro, rule moves_require, intro moves_intro)
  fix old :: run_record and time approved
  assume old: "rd_state old = RunApproved"
  show "moves quiet_move fresh (expire_approval W operation RunApproved time)" by (rule moves_expire) simp
  show "moves quiet_move fresh (validate_current E W 1 old)" by (rule moves_fail_run) (simp add: old)
  show "moves quiet_move fresh (claim_tx E W operation old time)"
    unfolding claim_tx_def by (intro moves_intro moves_to [where a = RunApproved and b = RunStarting]) simp_all
qed

lemma moves_running: "moves quiet_move fresh (experiment_running E W run)"
  unfolding experiment_running_def
proof (rule moves_bind, rule moves_intro, rule moves_require, intro moves_intro)
  fix old :: run_record and time approved time' n
  assume old: "rd_state old = RunStarting"
  show "moves quiet_move fresh (expire_approval W i RunStarting time)" for i by (rule moves_expire) simp
  show "moves quiet_move fresh (validate_current E W 1 old)" by (rule moves_fail_run) (simp add: old)
  show "moves quiet_move fresh (update_runs W ''run'' (\<lambda>r. at_state i RunStarting r \<and> b \<and> Q r)
      (\<lambda>r. r\<lparr>rw_state := ''running'', rw_updated_ms := time'\<rparr>))" for i b Q
    by (rule moves_to [where a = RunStarting and b = RunRunning]) simp_all
qed

lemma cancelled_next: "cancelled_state a = Some b \<Longrightarrow> b \<in> set (next_states a) \<and> b \<noteq> RunApproved"
  by (cases a) auto

lemma moves_cancel: "moves quiet_move fresh (experiment_cancel E W operation)"
  unfolding experiment_cancel_def
proof (intro moves_intro)
  fix old state time
  assume "cancelled_state (rd_state old) = Some state"
  then show "moves quiet_move fresh (update_runs W ''cancel'' (at_state operation (rd_state old))
      (\<lambda>r. r\<lparr>rw_state := run_state_name state, rw_updated_ms := time\<rparr>))"
    by (intro moves_to [where a = "rd_state old" and b = state]) (simp_all add: cancelled_next)
qed

text \<open>The result that is stored in the end: a requested cancellation wins, and a run that did not start cannot complete.\<close>

lemma fit_outputs_state:
  assumes "fit_outputs E state available encoded result outputs = Inr (final, text', kept)"
  shows "ro_outcome final = ro_outcome result \<or> (state \<noteq> RunCancelRequested \<and> ro_outcome final = OutFailed)"
  using assms by (auto simp: fit_outputs_def over_quota_def bindR_Inr_iff split: if_splits)

lemma attach_outputs_outcome: "attach_outputs E old outputs result = Inr result' \<Longrightarrow> ro_outcome result' = ro_outcome result"
  by (auto simp: attach_outputs_def bindR_Inr_iff split: option.splits prod.splits output_report.splits)

definition final_outcome :: "run_state \<Rightarrow> run_outcome \<Rightarrow> bool" where
  "final_outcome state o' \<longleftrightarrow> outcome_state o' \<in> set (next_states state)"

lemma moves_read_fact:
  "(\<And>st x. f st = Inr x \<Longrightarrow> moves move fresh (g x)) \<Longrightarrow> moves move fresh (bindS (readS f) g)"
  by (fastforce simp: moves_def bindS_def readS_def split: sum.splits)

lemma moves_finish_tx:
  assumes "final_outcome (rd_state old) (ro_outcome result)"
  shows "moves quiet_move fresh (finish_tx E W old encoded result outputs)"
proof -
  have failed: "RunFailed \<in> set (next_states (rd_state old))" if "rd_state old \<noteq> RunCancelRequested"
    using assms that by (cases "rd_state old"; cases "ro_outcome result") (simp_all add: final_outcome_def)
  have "moves quiet_move fresh (update_runs W ''finish'' (at_state i (rd_state old))
        (\<lambda>r. r\<lparr>rw_state := run_state_name (outcome_state (ro_outcome final)), rw_result := x, rw_error := e, rw_updated_ms := time\<rparr>))"
    if "fit_outputs E (rd_state old) available encoded result stored = Inr (final, text', kept)" for i x e time available stored final text' kept
    using fit_outputs_state [OF that] assms failed
    by (intro moves_to [where a = "rd_state old" and b = "outcome_state (ro_outcome final)"])
       (auto simp: final_outcome_def, (cases "ro_outcome final"; simp)+)
  then show ?thesis
    unfolding finish_tx_def finish_write_def Let_def
    by (intro moves_intro moves_read_fact [where f = "\<lambda>_. fit_outputs _ _ _ _ _ _"]) auto
qed

lemma moves_finish: "moves quiet_move fresh (experiment_finish_outputs E W run result outputs)"
  unfolding experiment_finish_outputs_def Let_def
proof (rule moves_bind, rule moves_intro, rule moves_if, rule moves_intro, rule moves_require, rule moves_require,
    rule moves_read_fact, intro moves_intro)
  fix old :: run_record and result2 encoded
  let ?result1 = "if rd_state old = RunCancelRequested then result\<lparr>ro_outcome := OutCancelled\<rparr> else result"
  assume old: "rd_state old \<in> {RunStarting, RunRunning, RunCancelRequested}"
    and first: "\<not> (rd_state old = RunStarting \<and> ro_outcome ?result1 = OutCompleted)"
    and out: "attach_outputs E old outputs ?result1 = Inr result2"
  have "final_outcome (rd_state old) (ro_outcome ?result1)"
    using old first by (cases "ro_outcome result") (auto simp: final_outcome_def)
  then show "moves quiet_move fresh (finish_tx E W old encoded result2 outputs)"
    by (intro moves_finish_tx) (simp add: attach_outputs_outcome [OF out])
qed

lemma moves_forget_tx: "moves quiet_move fresh (forget_tx E W operation fp)"
  unfolding forget_tx_def
proof (rule moves_bind, rule moves_intro, rule moves_require, rule moves_require, rule moves_require, unfold Let_def, intro moves_intro)
  fix rec :: run_record and time encoded
  assume "run_terminal (rd_state rec)"
  then show "moves quiet_move fresh (update_runs W ''forget'' (at_state operation (rd_state rec))
       (\<lambda>r. r\<lparr>rw_state := ''forgotten'', rw_summary := encoded, rw_result := None, rw_approval_id := None, rw_approved_ms := None,
          rw_error := Some ''EXPERIMENT_RECORD_FORGOTTEN'', rw_updated_ms := time\<rparr>))"
    by (intro moves_update) (simp_all add: row_edge_def quiet_move_def life_moves)
qed

lemma moves_forget: "moves quiet_move fresh (experiment_forget E W operation fp)"
  unfolding experiment_forget_def by (intro moves_intro moves_forget_tx)

lemma moves_insert_run:
  assumes "rw_state row = ''awaiting_confirmation''"
  shows "moves move True (insert_run W row)"
proof -
  have "evolves move True st (snd (bindS (readS (\<lambda>st. require (run_row_of st (rw_operation_id row) = None) c))
      (\<lambda>_. modS (\<lambda>st. st\<lparr>es_runs := es_runs st @ [row]\<rparr>)) st))" for st c
  proof (cases "run_row_of st (rw_operation_id row) = None")
    case True
    have "row_evolves move True (run_row_of st i) (run_row_of (st\<lparr>es_runs := es_runs st @ [row]\<rparr>) i)" for i
      using True assms by (cases "run_row_of st i") (auto simp: tbl_get_append tbl_get_Cons)
    then show ?thesis using True by (simp add: op_run evolves_def)
  qed (auto simp: op_run require_def)
  then have inner: "moves move True (bindS (readS (\<lambda>st. require (run_row_of st (rw_operation_id row) = None) c))
      (\<lambda>_. modS (\<lambda>st. st\<lparr>es_runs := es_runs st @ [row]\<rparr>)))" for c by (simp add: moves_def)
  show ?thesis unfolding insert_run_def by (rule moves_bind [OF moves_basic(5) inner])
qed

lemma moves_prepare: "moves move True (runner_prepare E W request)"
  unfolding runner_prepare_def experiment_prepare_def prepare_tx_def Let_def
  by (intro moves_intro moves_insert_run) (simp add: waiting_row_def)

text \<open>What a record that was read says of its row.\<close>

lemma run_get_Some:
  assumes "run_get E st operation = Inr (Some found)"
  obtains row where "run_row_of st operation = Some row" "rw_state row = run_state_name (rd_state found)"
    "rr_operation_id (is_request (rd_summary found)) = operation" "sx_dec_summary E (rw_summary row) = Some (rd_summary found)"
    "rd_approval_id found = rw_approval_id row" "rd_approved_ms found = rw_approved_ms row"
    "rd_result found = None \<longleftrightarrow> rw_result row = None"
proof (cases "run_row_of st operation")
  case None
  then show ?thesis using assms by (simp add: run_get_def)
next
  case (Some row)
  from assms [unfolded run_get_def Some option.case bindR_Inr_iff require_simps ok_or_simps run_state_parse_iff]
  obtain encoded summary result state where facts:
      "(if length (rw_summary row) \<le> max_summary then Some (rw_summary row) else None) = Some encoded"
      "sx_dec_summary E encoded = Some summary" "rr_operation_id (is_request summary) = operation" "rw_state row = run_state_name state"
      "(case rw_result row of None \<Rightarrow> Inr None | Some t \<Rightarrow> bindR (ok_or (sx_dec_result E t) corrupt) (\<lambda>r. Inr (Some r))) = Inr result"
      "Inr (Some \<lparr>rd_summary = summary, rd_state = state, rd_created_ms = rw_created_ms row, rd_updated_ms = rw_updated_ms row,
            rd_approval_id = rw_approval_id row, rd_approved_ms = rw_approved_ms row, rd_error = rw_error row,
            rd_result = result\<rparr>) = (Inr (Some found) :: run_record option result)"
    by blast
  have "result = None \<longleftrightarrow> rw_result row = None"
    using facts(5) by (cases "rw_result row") (auto simp: bindR_Inr_iff)
  then show ?thesis using facts by (intro that [OF Some]) (auto split: if_splits)
qed

lemma record_of_Some: "record_of E vault operation st = Inr (Some record) \<Longrightarrow> run_get E st operation = Inr (Some record)"
  by (auto simp: record_of_def bindR_Inr_iff split: option.splits)

lemma current_record_Inr:
  "current_record E W operation st = (Inr record, st') \<longleftrightarrow>
     cw_sql W ''find'' = None \<and> record_of E (cw_vault_id W) operation st = Inr (Some record) \<and> st' = st"
  by (auto simp: current_record_def experiment_record_def sql_def bindS_Inr_iff split: option.splits)

lemma current_record_reads: "snd (current_record E W operation st) = st"
  by (simp add: current_record_def experiment_record_def sql_def host_defs split: option.splits sum.splits)

lemma moves_current:
  assumes "\<And>st old. run_get E st operation = Inr (Some old) \<Longrightarrow> moves move fresh (f old)"
  shows "moves move fresh (bindS (current_record E W operation) f)"
proof -
  have "evolves move fresh st (snd (bindS (current_record E W operation) f st))" for st
  proof (cases "current_record E W operation st")
    case (Pair r u)
    then have u: "u = st" using current_record_reads [of E W operation st] by simp
    show ?thesis
    proof (cases r)
      case (Inr old)
      then have "run_get E st operation = Inr (Some old)"
        using Pair record_of_Some [of E "cw_vault_id W" operation st old] by (simp add: current_record_Inr)
      then show ?thesis using assms Pair u Inr by (simp add: bindS_def moves_def)
    qed (simp add: bindS_def Pair u)
  qed
  then show ?thesis by (simp add: moves_def)
qed

text \<open>Approval is the only statement that leads to the approved state.\<close>

lemma moves_approve: "moves (approve_move operation) fresh (experiment_approve E W operation fp)"
  unfolding experiment_approve_def
proof (rule moves_current, rule moves_bind, rule moves_intro, rule moves_if, rule moves_intro, rule moves_require)
  fix st old
  assume get: "run_get E st operation = Inr (Some old)" and old: "rd_state old = RunAwaitingConfirmation"
  have i: "rr_operation_id (is_request (rd_summary old)) = operation" using get by (rule run_get_Some)
  have update: "moves (approve_move operation) fresh (update_runs W label (at_state operation RunAwaitingConfirmation) f)"
    if "b \<in> set (next_states RunAwaitingConfirmation)"
      "\<And>r. rw_operation_id (f r) = rw_operation_id r \<and> rw_summary (f r) = rw_summary r \<and> rw_state (f r) = run_state_name b" for label f b
    using that life_moves(1) [OF that(1)] by (intro moves_update) (simp_all add: row_edge_def approve_move_def)
  show "moves (approve_move operation) fresh
     (bindS (validate_current E W 0 old) (\<lambda>_.
       bindS (now W 1) (\<lambda>time.
       bindS (update_runs W ''approve'' (at_state operation RunAwaitingConfirmation)
         (\<lambda>r. r\<lparr>rw_state := ''approved'', rw_approval_id := Some (cw_uuid W), rw_approved_ms := Some time, rw_updated_ms := time\<rparr>)) (\<lambda>n.
       bindS (readS (\<lambda>_. require (n = 1) conflict)) (\<lambda>_.
       reread E W operation)))))"
    unfolding validate_current_def i old
    by (intro moves_intro update [where b = RunApproved] update [where b = RunFailed]) simp_all
qed

section \<open>Every history follows the life cycle\<close>

lemma moves_evolves: "moves move fresh m \<Longrightarrow> evolves move fresh st (snd (m st))"
  by (simp add: moves_def)

fun approves :: "store_event \<Rightarrow> string option" where
  "approves (EvApprove W operation fp) = Some operation"
| "approves _ = None"

lemma step_quiet: "approves ev = None \<Longrightarrow> evolves quiet_move True st (store_step E ev st)"
  by (cases ev) (simp_all add: moves_evolves moves_recover moves_prepare moves_reject moves_claim moves_running moves_cancel
      moves_finish moves_forget)

lemma step_approves: "approves ev = Some operation \<Longrightarrow> evolves (approve_move operation) False st (store_step E ev st)"
  by (cases ev) (simp_all add: moves_evolves moves_approve)

lemma evolves_mono:
  assumes "evolves m f st st'" "\<And>i a b. m i a b \<Longrightarrow> m' i a b" "f \<Longrightarrow> f'"
  shows "evolves m' f' st st'"
proof -
  have "row_edge m r r' \<Longrightarrow> row_edge m' r r'" for r r' using assms(2) by (simp add: row_edge_def)
  then show ?thesis using assms(1,3) row_evolves_mono [of m f _ _ m' f'] by (simp add: evolves_def)
qed

lemma step_life: "evolves life_move True st (store_step E ev st)"
proof (cases "approves ev")
  case None
  show ?thesis by (rule evolves_mono [OF step_quiet [OF None]]) (simp_all add: quiet_move_def)
next
  case (Some i)
  show ?thesis by (rule evolves_mono [OF step_approves [OF Some]]) (simp_all add: approve_move_def)
qed

lemma run_life: "evolves life_move True st (store_run E es st)"
proof (induction es arbitrary: st)
  case (Cons ev es)
  show ?case using evolves_trans [OF step_life Cons.IH] by (simp add: store_run_def)
qed (simp add: store_run_def)

definition life_edge :: "run_state \<Rightarrow> run_state \<Rightarrow> bool" where
  "life_edge a b \<longleftrightarrow> b \<in> set (next_states a)"

lemma terminal_next [simp]: "run_terminal a \<Longrightarrow> next_states a = []"
  by (cases a) simp_all

lemma forgotten_stays: "(row_edge life_move)\<^sup>*\<^sup>* r r' \<Longrightarrow> rw_state r = ''forgotten'' \<Longrightarrow> r' = r"
  by (induction rule: converse_rtranclp_induct) (auto simp: row_edge_def life_move_def dest: not_forgotten [THEN notE, OF sym])

lemma terminal_stays:
  assumes "(row_edge life_move)\<^sup>*\<^sup>* r r'" "rw_state r = run_state_name a" "run_terminal a"
  shows "r' = r \<or> rw_state r' = ''forgotten''"
  using assms(1)
proof (cases rule: converse_rtranclpE)
  case (step y)
  then have "rw_state y = ''forgotten''" using assms(2,3) by (auto simp: row_edge_def life_move_def)
  then show ?thesis using forgotten_stays [OF step(2)] by simp
qed simp

lemma life_states:
  assumes "(row_edge life_move)\<^sup>*\<^sup>* r r'" "rw_state r = run_state_name a"
  shows "rw_state r' = ''forgotten'' \<or> (\<exists>b. rw_state r' = run_state_name b \<and> life_edge\<^sup>*\<^sup>* a b \<and> rw_summary r' = rw_summary r)"
  using assms
proof (induction rule: rtranclp_induct)
  case (step y z)
  show ?case
  proof (cases "rw_state y = ''forgotten''")
    case True
    then show ?thesis using forgotten_stays [of y z] step(2) by blast
  next
    case False
    then obtain b where b: "rw_state y = run_state_name b" "life_edge\<^sup>*\<^sup>* a b" "rw_summary y = rw_summary r" using step by blast
    have "rw_state z = ''forgotten'' \<or> (\<exists>c. rw_state z = run_state_name c \<and> life_edge b c \<and> rw_summary z = rw_summary y)"
      using step(2) b(1) by (auto simp: row_edge_def life_move_def life_edge_def)
    then show ?thesis using b rtranclp.rtrancl_into_rtrancl [of life_edge a b] by auto
  qed
qed blast

text \<open>
  C19. The records of runs follow the life cycle, over any history of calls, restarts, failing
  statements and answers of the clock: the reviewed request of a run never changes, its state
  only moves along the life cycle, and a run that has ended keeps its outcome, logs and every
  other column until it is forgotten; an operation identifier that was used stays used for good.
\<close>

theorem experiment_lifecycle:
  assumes "run_row_of st operation = Some r" "rw_state r = run_state_name a"
  shows "\<exists>r'. run_row_of (store_run E es st) operation = Some r' \<and>
    (rw_state r' = ''forgotten'' \<or> (\<exists>b. rw_state r' = run_state_name b \<and> life_edge\<^sup>*\<^sup>* a b \<and> rw_summary r' = rw_summary r)) \<and>
    (run_terminal a \<longrightarrow> r' = r \<or> rw_state r' = ''forgotten'')"
proof -
  have "row_evolves life_move True (Some r) (run_row_of (store_run E es st) operation)"
    using run_life [of st E es] assms(1) by (metis evolves_def)
  then obtain r' where r': "run_row_of (store_run E es st) operation = Some r'" "(row_edge life_move)\<^sup>*\<^sup>* r r'"
    by (cases "run_row_of (store_run E es st) operation") auto
  show ?thesis
  proof (intro exI conjI impI)
    show "run_row_of (store_run E es st) operation = Some r'" by (rule r'(1))
    show "rw_state r' = ''forgotten'' \<or> (\<exists>b. rw_state r' = run_state_name b \<and> life_edge\<^sup>*\<^sup>* a b \<and> rw_summary r' = rw_summary r)"
      by (rule life_states [OF r'(2) assms(2)])
    show "r' = r \<or> rw_state r' = ''forgotten''" if "run_terminal a" by (rule terminal_stays [OF r'(2) assms(2) that])
  qed
qed

section \<open>Every start needs an approval\<close>

definition row_state :: "exp_store \<Rightarrow> string \<Rightarrow> string option" where
  "row_state st operation = map_option rw_state (run_row_of st operation)"

text \<open>The calls of a history that start the operation, and those that approve it.\<close>

fun starts_run :: "store_env \<Rightarrow> string \<Rightarrow> store_event \<Rightarrow> exp_store \<Rightarrow> bool" where
  "starts_run E operation (EvClaim W i) st = (i = operation \<and> \<not> isl (fst (experiment_claim E W i st)))"
| "starts_run E operation _ st = False"

fun approves_run :: "store_env \<Rightarrow> string \<Rightarrow> store_event \<Rightarrow> exp_store \<Rightarrow> bool" where
  "approves_run E operation (EvApprove W i fp) st =
     (i = operation \<and> row_state st operation = Some ''awaiting_confirmation'' \<and>
      row_state (store_step E (EvApprove W i fp) st) operation = Some ''approved'')"
| "approves_run E operation _ st = False"

fun tally :: "(store_event \<Rightarrow> exp_store \<Rightarrow> bool) \<Rightarrow> store_env \<Rightarrow> store_event list \<Rightarrow> exp_store \<Rightarrow> nat" where
  "tally p E [] st = 0"
| "tally p E (ev # es) st = (if p ev st then 1 else 0) + tally p E es (store_step E ev st)"

lemma now_Inr: "now W n st = (Inr t, st') \<longleftrightarrow> (\<exists>k. cw_clock W n = Some k \<and> t = int k) \<and> st' = st"
  by (auto simp: now_def)

lemma sql_Inr: "sql W label st = (Inr u, st') \<longleftrightarrow> cw_sql W label = None \<and> st' = st"
  by (auto simp: sql_def split: option.splits)

lemma update_runs_Inr:
  "update_runs W label P f st = (Inr n, st') \<longleftrightarrow>
     cw_sql W label = None \<and> n = length (filter P (es_runs st)) \<and> st' = st\<lparr>es_runs := tbl_update P f (es_runs st)\<rparr>"
  by (auto simp: update_runs_def bindS_Inr_iff sql_Inr)

lemma validate_current_Inr:
  "validate_current E W n found st = (Inr u, st') \<longleftrightarrow> st' = st \<and>
     (\<exists>request limits inputs. summary_validate (sx_exp E) (rd_summary found) = Inr (request, limits) \<and>
        prepare_inputs (sx_exp E) W request = Inr inputs)"
proof (cases "summary_validate (sx_exp E) (rd_summary found)")
  case (Inr v)
  then show ?thesis
    by (cases v; cases "prepare_inputs (sx_exp E) W (fst v)") (auto simp: validate_current_def bindS_Inr_iff)
qed (simp add: validate_current_def bindS_Inr_iff)

lemma expire_fails: "expire_approval W operation state time st \<noteq> (Inr x, st')"
  by (auto simp: expire_approval_def bindS_Inr_iff)

lemma claim_Inr:
  assumes "experiment_claim E W operation st = (Inr run, st')"
  obtains old time approved where "record_of E (cw_vault_id W) operation st = Inr (Some old)" "rd_state old = RunApproved"
    "cw_clock W 0 = Some time" "rd_approved_ms old = Some approved" "approved \<le> int time" "int time - approved \<le> approval_ms"
    "validate_current E W 1 old st = (Inr (), st)" "claim_tx E W operation old (int time) st = (Inr run, st')"
proof -
  have "\<exists>old time approved. record_of E (cw_vault_id W) operation st = Inr (Some old) \<and> rd_state old = RunApproved \<and>
      cw_clock W 0 = Some time \<and> rd_approved_ms old = Some approved \<and> approved \<le> int time \<and> int time - approved \<le> approval_ms \<and>
      validate_current E W 1 old st = (Inr (), st) \<and> claim_tx E W operation old (int time) st = (Inr run, st')"
    using assms by (auto simp: experiment_claim_def bindS_Inr_iff current_record_Inr now_Inr expire_fails atomicS_Inr_iff
        validate_current_Inr split: if_splits)
  then show ?thesis using that by blast
qed

lemma claim_tx_Inr:
  assumes "claim_tx E W operation old time st = (Inr run, st')"
  obtains bytes where "stored_inputs st operation (map fst (is_sizes (rd_summary old))) [] = Inr bytes"
    "restore_inputs (sx_exp E) (rd_summary old) bytes = Inr (cl_inputs run)" "rd_approval_id old \<noteq> None"
    "st' = st\<lparr>es_runs := tbl_update (\<lambda>r. at_state operation RunApproved r \<and> rd_approval_id old \<noteq> None \<and> rw_approval_id r = rd_approval_id old)
       (\<lambda>r. r\<lparr>rw_state := ''starting'', rw_updated_ms := time\<rparr>) (es_runs st)\<rparr>"
    "run_get E st' operation = Inr (Some (cl_record run))"
proof -
  let ?P = "\<lambda>r. at_state operation RunApproved r \<and> rd_approval_id old \<noteq> None \<and> rw_approval_id r = rd_approval_id old"
  have "\<exists>bytes. stored_inputs st operation (map fst (is_sizes (rd_summary old))) [] = Inr bytes \<and>
      restore_inputs (sx_exp E) (rd_summary old) bytes = Inr (cl_inputs run) \<and> length (filter ?P (es_runs st)) = 1 \<and>
      st' = st\<lparr>es_runs := tbl_update ?P (\<lambda>r. r\<lparr>rw_state := ''starting'', rw_updated_ms := time\<rparr>) (es_runs st)\<rparr> \<and>
      run_get E st' operation = Inr (Some (cl_record run))"
    using assms unfolding claim_tx_def
    by (clarsimp simp: bindS_Inr_iff update_runs_Inr sql_Inr bindR_Inr_iff simp del: run_state_name.simps)
  moreover have "rd_approval_id old \<noteq> None" if "length (filter ?P (es_runs st)) = 1"
  proof
    assume "rd_approval_id old = None"
    then show False using that by simp
  qed
  ultimately show ?thesis using that by blast
qed

text \<open>A claim takes an approved run to its start.\<close>

lemma claim_states:
  assumes "experiment_claim E W operation st = (Inr run, st')"
  shows "row_state st operation = Some ''approved''" "row_state st' operation = Some ''starting''"
proof -
  obtain old time where old: "record_of E (cw_vault_id W) operation st = Inr (Some old)" "rd_state old = RunApproved"
      "claim_tx E W operation old (int time) st = (Inr run, st')"
    using claim_Inr [OF assms] by metis
  obtain row where row: "run_row_of st operation = Some row" "rw_state row = run_state_name RunApproved" "rd_approval_id old = rw_approval_id row"
    using run_get_Some [OF record_of_Some [OF old(1)]] old(2) by metis
  then show "row_state st operation = Some ''approved''" by (simp add: row_state_def)
  have "rw_operation_id row = operation" using tbl_get_SomeD [OF row(1)] by simp
  then have "at_state operation RunApproved row \<and> rw_approval_id row = rd_approval_id old" using row by simp
  then show "row_state st' operation = Some ''starting''"
    by (rule_tac claim_tx_Inr [OF old(3)]) (simp add: row_state_def tbl_get_update row(1))
qed

lemma no_approval_without:
  assumes "row_evolves quiet_move True x y" "map_option rw_state y = Some ''approved''"
  shows "map_option rw_state x = Some ''approved''"
proof -
  have "rw_state r = ''approved''" if "(row_edge quiet_move)\<^sup>*\<^sup>* r r'" "rw_state r' = ''approved''" for r r'
    using that by (cases rule: rtranclp.cases) (auto simp: row_edge_def quiet_move_def)
  then show ?thesis using assms by (cases x; cases y) fastforce+
qed

lemma approval_from_waiting:
  assumes "row_evolves (approve_move i) False x y" "map_option rw_state y = Some ''approved''" "map_option rw_operation_id x \<in> {None, Some operation}"
  shows "map_option rw_state x = Some ''approved'' \<or> (i = operation \<and> map_option rw_state x = Some ''awaiting_confirmation'')"
proof -
  have "r' = r \<or> (rw_operation_id r = i \<and> rw_state r = ''awaiting_confirmation'')" if "(row_edge (approve_move i))\<^sup>*\<^sup>* r r'" for r r'
    using that by (cases rule: converse_rtranclpE) (auto simp: row_edge_def approve_move_def)
  then show ?thesis using assms by (cases x; cases y) fastforce+
qed

definition holds_approval :: "exp_store \<Rightarrow> string \<Rightarrow> nat" where
  "holds_approval st operation = (if row_state st operation = Some ''approved'' then 1 else 0)"

lemma step_accounts:
  "(if starts_run E operation ev st then 1 else 0) + holds_approval (store_step E ev st) operation \<le>
     holds_approval st operation + (if approves_run E operation ev st then 1 else 0)"
proof (cases "approves ev")
  case None
  have quiet: "row_evolves quiet_move True (run_row_of st operation) (run_row_of (store_step E ev st) operation)"
    using step_quiet [OF None] by (simp add: evolves_def)
  show ?thesis
  proof (cases "starts_run E operation ev st")
    case True
    then obtain W where ev: "ev = EvClaim W operation" "\<not> isl (fst (experiment_claim E W operation st))" by (cases ev) auto
    then obtain run st' where "experiment_claim E W operation st = (Inr run, st')"
      by (cases "experiment_claim E W operation st") (auto simp: isl_def split: sum.splits, meson sum.exhaust)
    then show ?thesis using claim_states ev(1) True by (simp add: holds_approval_def)
  next
    case False
    then show ?thesis using no_approval_without [OF quiet] by (simp add: holds_approval_def row_state_def)
  qed
next
  case (Some i)
  then obtain W fp where ev: "ev = EvApprove W i fp" by (cases ev) auto
  have "row_evolves (approve_move i) False (run_row_of st operation) (run_row_of (store_step E ev st) operation)"
    using step_approves [OF Some] by (simp add: evolves_def)
  moreover have "map_option rw_operation_id (run_row_of st operation) \<in> {None, Some operation}"
    by (cases "run_row_of st operation") (auto dest: tbl_get_SomeD)
  ultimately show ?thesis
    using approval_from_waiting [of i "run_row_of st operation" "run_row_of (store_step E ev st) operation" operation]
    by (auto simp: ev holds_approval_def row_state_def)
qed

lemma starts_accounted:
  "tally (starts_run E operation) E es st \<le> holds_approval st operation + tally (approves_run E operation) E es st"
proof (induction es arbitrary: st)
  case (Cons ev es)
  show ?case
    using step_accounts [of E operation ev st] Cons.IH [of "store_step E ev st"] unfolding tally.simps by linarith
qed simp

lemma recover_clears:
  "isl (fst (store_recover W st)) \<or>
   row_state (snd (store_recover W st)) operation \<notin> {Some ''approved'', Some ''starting'', Some ''running'', Some ''cancel_requested''}"
proof (cases "store_recover W st")
  case (Pair r st')
  show ?thesis
  proof (cases r)
    case (Inr u)
    from Pair [unfolded Inr store_recover_def bindS_Inr_iff update_runs_Inr now_Inr op_result_iffs]
    obtain time where st': "st' = st\<lparr>es_runs := tbl_update (\<lambda>r. rw_state r = ''approved'')
          (\<lambda>r. r\<lparr>rw_state := ''awaiting_confirmation'', rw_approval_id := None, rw_approved_ms := None, rw_updated_ms := time\<rparr>)
        (tbl_update (\<lambda>r. rw_state r \<in> {''starting'', ''running'', ''cancel_requested''})
          (\<lambda>r. r\<lparr>rw_state := ''interrupted'', rw_error := Some ''EXPERIMENT_HOST_RESTARTED'', rw_updated_ms := time\<rparr>) (es_runs st))\<rparr>"
      by auto
    show ?thesis
      by (cases "run_row_of st operation") (simp_all add: Pair st' row_state_def tbl_get_update)
  qed (simp add: Pair)
qed

text \<open>
  C17. No run starts without a person's approval of its own: over any history from an empty store, of
  calls in any order, restarts, failing statements and clock answers, the number of times a run was
  started is at most the number of times it was approved. An approval is spent by the start it
  allows.
\<close>

theorem experiment_starts_approved:
  "tally (starts_run E operation) E es empty_store \<le> tally (approves_run E operation) E es empty_store"
  using starts_accounted [of E operation es empty_store] by (simp add: holds_approval_def row_state_def empty_store_def)

section \<open>What a start runs\<close>

lemma bt_insert_lengths:
  "bt_insert k (length v) (map (\<lambda>(k, v). (k, length v)) m) = map (\<lambda>(k, v). (k, length v)) (bt_insert k v m)"
  by (induction m) auto

lemma prepare_files_Inr:
  assumes "prepare_files X W entries chosen sizes bytes tot = Inr (sizes', bytes', tot')"
    and "sizes = map (\<lambda>(k, v). (k, length v)) bytes"
  shows "(\<forall>f \<in> set chosen. \<exists>content. read_selected W (sf_path f) = Inr content \<and> sha256 X content = sf_hash f) \<and>
    sizes' = map (\<lambda>(k, v). (k, length v)) bytes'"
  using assms
proof (induction chosen arbitrary: sizes bytes tot)
  case (Cons c rest)
  from Cons.prems(1) [unfolded prepare_files.simps bindR_Inr_iff require_simps ok_or_simps]
  obtain content where step: "read_selected W (sf_path c) = Inr content" "sha256 X content = sf_hash c"
      "prepare_files X W entries rest (bt_insert (sf_path c) (length content) sizes) (bt_insert (sf_path c) content bytes)
         (tot + length content) = Inr (sizes', bytes', tot')"
    by auto
  show ?case using Cons.IH [OF step(3)] step(1,2) bt_insert_lengths [of "sf_path c" content bytes] Cons.prems(2) by auto
qed simp

lemma prepare_inputs_Inr:
  assumes "prepare_inputs X W request = Inr inputs"
  shows "rr_vault_id request = cw_vault_id W"
    and "\<forall>f \<in> set (rr_entry request # rr_inputs request). \<exists>content.
      read_selected W (sf_path f) = Inr content \<and> sha256 X content = sf_hash f"
    and "is_sizes (pi_summary inputs) = map (\<lambda>(k, v). (k, length v)) (pi_bytes inputs)"
proof -
  from assms [unfolded prepare_inputs_def bindR_Inr_iff require_simps]
  obtain scanned sizes bytes tot fp where facts: "cw_vault_id W = rr_vault_id request"
      "prepare_files X W (fold (\<lambda>e. bt_insert (en_file_id e) e) scanned []) (rr_entry request # rr_inputs request) [] [] 0 = Inr (sizes, bytes, tot)"
      "inputs = \<lparr>pi_summary = \<lparr>is_request = request, is_fingerprint = fp, is_sizes = sizes, is_total_bytes = tot\<rparr>, pi_bytes = bytes\<rparr>"
    by (auto simp: bindR_Inr_iff simp del: prepare_files.simps)
  show "rr_vault_id request = cw_vault_id W" using facts(1) by simp
  show "\<forall>f \<in> set (rr_entry request # rr_inputs request). \<exists>content. read_selected W (sf_path f) = Inr content \<and> sha256 X content = sf_hash f"
    "is_sizes (pi_summary inputs) = map (\<lambda>(k, v). (k, length v)) (pi_bytes inputs)"
    using prepare_files_Inr [OF facts(2)] facts(3) by simp_all
qed

lemma stored_inputs_content:
  assumes "stored_inputs st operation paths bytes = Inr bytes'"
    and "\<And>p c. bt_get bytes p = Some c \<Longrightarrow> stored_content st operation p = Some c" and "bt_get bytes' p = Some c"
  shows "stored_content st operation p = Some c"
  using assms
proof (induction paths arbitrary: bytes)
  case (Cons path paths)
  from Cons.prems(1) obtain content where c: "stored_content st operation path = Some content"
      "stored_inputs st operation paths (bt_insert path content bytes) = Inr bytes'"
    by (auto simp: bindR_Inr_iff)
  show ?case by (rule Cons.IH [OF c(2) _ Cons.prems(3)]) (use c(1) Cons.prems(2) in \<open>auto split: if_splits\<close>)
qed simp

lemma validated_request:
  assumes "summary_validate X summary = Inr (request, limits)"
  shows "set (rr_entry request # rr_inputs request) = set (rr_entry (is_request summary) # rr_inputs (is_request summary))"
    "rr_vault_id request = rr_vault_id (is_request summary)"
proof -
  obtain fp where "run_request_validate X (is_request summary) = Inr (request, limits)"
    using assms by (auto simp: summary_validate_def bindR_Inr_iff split: if_splits)
  then have "request = (is_request summary)\<lparr>rr_inputs := sort_key sf_path (rr_inputs (is_request summary))\<rparr>"
    by (auto simp: run_request_validate_def Let_def bindR_Inr_iff split: if_splits)
  then show "set (rr_entry request # rr_inputs request) = set (rr_entry (is_request summary) # rr_inputs (is_request summary))"
    "rr_vault_id request = rr_vault_id (is_request summary)" by simp_all
qed

text \<open>
  C18. What starts is what was approved: when a run is claimed, its approval is at most five minutes old by
  the host's clock, the open vault is the one the request names, every selected file of the vault
  is still read with the reviewed digest, and the bytes handed to the runner are the stored copies, each with
  the reviewed digest. The run is then recorded as starting.
\<close>

theorem experiment_claim_reviewed:
  assumes "experiment_claim E W operation st = (Inr run, st')"
  shows "\<exists>row approved time. run_row_of st operation = Some row \<and> rw_state row = ''approved'' \<and> rw_approved_ms row = Some approved \<and>
    cw_clock W 0 = Some time \<and> approved \<le> int time \<and> int time \<le> approved + 300000 \<and> row_state st' operation = Some ''starting'' \<and>
    sx_dec_summary E (rw_summary row) = Some (pi_summary (cl_inputs run)) \<and>
    rr_vault_id (is_request (pi_summary (cl_inputs run))) = cw_vault_id W \<and>
    (\<forall>f \<in> set (rr_entry (is_request (pi_summary (cl_inputs run))) # rr_inputs (is_request (pi_summary (cl_inputs run)))).
       \<exists>content. bt_get (pi_bytes (cl_inputs run)) (sf_path f) = Some content \<and> stored_content st operation (sf_path f) = Some content \<and>
         sha256 (sx_exp E) content = sf_hash f \<and>
         (\<exists>current. read_selected W (sf_path f) = Inr current \<and> sha256 (sx_exp E) current = sf_hash f))"
proof -
  obtain old time approved where old: "record_of E (cw_vault_id W) operation st = Inr (Some old)" "rd_state old = RunApproved"
      and time: "cw_clock W 0 = Some time" "rd_approved_ms old = Some approved" "approved \<le> int time" "int time - approved \<le> approval_ms"
      and valid: "validate_current E W 1 old st = (Inr (), st)" and tx: "claim_tx E W operation old (int time) st = (Inr run, st')"
    by (rule claim_Inr [OF assms])
  obtain row where row: "run_row_of st operation = Some row" "rw_state row = run_state_name RunApproved"
      "sx_dec_summary E (rw_summary row) = Some (rd_summary old)" "rd_approved_ms old = rw_approved_ms row"
    using run_get_Some [OF record_of_Some [OF old(1)]] old(2) by metis
  obtain request limits inputs where request: "summary_validate (sx_exp E) (rd_summary old) = Inr (request, limits)"
      "prepare_inputs (sx_exp E) W request = Inr inputs"
    using valid by (auto simp: validate_current_Inr)
  note same = validated_request [OF request(1)]
  obtain bytes where bytes: "stored_inputs st operation (map fst (is_sizes (rd_summary old))) [] = Inr bytes"
      "restore_inputs (sx_exp E) (rd_summary old) bytes = Inr (cl_inputs run)"
    by (rule claim_tx_Inr [OF tx])
  then have run: "cl_inputs run = \<lparr>pi_summary = rd_summary old, pi_bytes = bytes\<rparr>"
      and good: "\<forall>f \<in> set (rr_entry (is_request (rd_summary old)) # rr_inputs (is_request (rd_summary old))).
        \<exists>content. bt_get bytes (sf_path f) = Some content \<and> sha256 (sx_exp E) content = sf_hash f"
    by (auto simp: restore_inputs_def bindR_Inr_iff list_all_iff split: option.splits)
  have "\<exists>content. bt_get bytes (sf_path f) = Some content \<and> stored_content st operation (sf_path f) = Some content \<and>
      sha256 (sx_exp E) content = sf_hash f \<and>
      (\<exists>current. read_selected W (sf_path f) = Inr current \<and> sha256 (sx_exp E) current = sf_hash f)"
    if "f \<in> set (rr_entry (is_request (rd_summary old)) # rr_inputs (is_request (rd_summary old)))" for f
    using good prepare_inputs_Inr(2) [OF request(2)] that same(1) stored_inputs_content [OF bytes(1)] by (metis bt_get_Nil option.distinct(1))
  moreover have "rw_approved_ms row = Some approved" "int time \<le> approved + 300000" using row(4) time(2,4) by (simp_all add: approval_ms_def)
  ultimately show ?thesis
    using row time(1,3) run claim_states(2) [OF assms] prepare_inputs_Inr(1) [OF request(2)] same(2)
    by (intro exI [of _ row] exI [of _ approved] exI [of _ time]) simp
qed

section \<open>The storage quota\<close>

definition reserved :: "exp_store \<Rightarrow> nat" where
  "reserved st = length (filter (reserving None) (es_runs st)) * max_result"

definition quota_ok :: "exp_store \<Rightarrow> bool" where
  "quota_ok st \<longleftrightarrow> tbl_unique rw_operation_id (es_runs st) \<and> (\<forall>r \<in> set (es_runs st). reserving None r \<longrightarrow> rw_result r = None) \<and>
     usage st + int (reserved st) \<le> max_store"

definition live :: "run_state \<Rightarrow> bool" where
  "live a \<longleftrightarrow> \<not> run_terminal a"

lemma reserving_name [simp]: "reserving None r \<longleftrightarrow> (\<exists>a. rw_state r = run_state_name a \<and> live a)"
proof -
  have "(\<exists>a. x = run_state_name a \<and> live a) \<longleftrightarrow>
      (\<exists>a \<in> {RunAwaitingConfirmation, RunApproved, RunStarting, RunRunning, RunCancelRequested}. x = run_state_name a)" for x
  proof -
    have "live a \<longleftrightarrow> a \<in> {RunAwaitingConfirmation, RunApproved, RunStarting, RunRunning, RunCancelRequested}" for a
      by (cases a) (simp_all add: live_def)
    then show ?thesis by blast
  qed
  then show ?thesis by (simp add: reserving_def)
qed

lemma run_bytes_update:
  fixes g :: "run_row \<Rightarrow> nat"
  assumes "\<And>r. P r \<Longrightarrow> g (f r) = g r"
  shows "sum_list (map g (tbl_update P f t)) = sum_list (map g t)"
  using assms by (induction t) (auto simp: tbl_update_def)

lemma filter_update_le:
  assumes "\<And>r. r \<in> set t \<Longrightarrow> R (if P r then f r else r) \<Longrightarrow> Q r"
  shows "length (filter R (tbl_update P f t)) \<le> length (filter Q t)"
  using assms by (induction t) (auto simp: tbl_update_def le_SucI)

text \<open>A statement that only moves live runs on, and writes none of the counted columns, keeps the quota.\<close>

lemma quota_update:
  assumes "\<And>r. P r \<Longrightarrow> \<exists>a. rw_state r = run_state_name a \<and> live a"
    and "\<And>r. rw_operation_id (f r) = rw_operation_id r \<and> rw_summary (f r) = rw_summary r \<and> rw_result (f r) = rw_result r"
  shows "preserves quota_ok (update_runs W label P f)"
proof -
  have "quota_ok (st\<lparr>es_runs := tbl_update P f (es_runs st)\<rparr>)" if ok: "quota_ok st" for st
  proof -
    let ?st = "st\<lparr>es_runs := tbl_update P f (es_runs st)\<rparr>"
    have "usage ?st = usage st" using assms(2) by (simp add: usage_def run_bytes_update)
    moreover have "reserved ?st \<le> reserved st"
      unfolding reserved_def by (intro mult_right_mono) (auto intro!: filter_update_le dest: assms(1) split: if_splits)
    moreover have "rw_result r = None" if r: "r \<in> set (es_runs ?st)" "reserving None r" for r
    proof -
      obtain r0 where r0: "r0 \<in> set (es_runs st)" "r = (if P r0 then f r0 else r0)" using r(1) tbl_update_in [of r P f "es_runs st"] by auto
      then have "reserving None r0" using r(2) assms(1) by (cases "P r0") auto
      then show ?thesis using ok r0 assms(2) by (simp add: quota_ok_def)
    qed
    ultimately show ?thesis using ok assms(2) by (auto simp: quota_ok_def tbl_unique_update)
  qed
  then show ?thesis
    unfolding update_runs_def by (intro preserves_intro) (simp_all add: sql_def preserves_basic)
qed

lemma quota_basic [preserves_intro]:
  "preserves quota_ok (sql W label)" "preserves quota_ok (now W n)" "preserves quota_ok (experiment_record E W l operation)"
  "preserves quota_ok (current_record E W operation)" "preserves quota_ok (reread E W operation)" "preserves quota_ok (check_claim E W run)"
  unfolding sql_def now_def experiment_record_def current_record_def reread_def check_claim_def by (intro preserves_intro)+

lemma preserves_option [preserves_intro]:
  "(x = None \<Longrightarrow> preserves I m) \<Longrightarrow> (\<And>v. x = Some v \<Longrightarrow> preserves I (f v)) \<Longrightarrow>
     preserves I (case x of None \<Rightarrow> m | Some v \<Rightarrow> f v)"
  by (cases x) simp_all

lemma preserves_sum [preserves_intro]:
  "(\<And>e. y = Inl e \<Longrightarrow> preserves I (g e)) \<Longrightarrow> (\<And>v. y = Inr v \<Longrightarrow> preserves I (h v)) \<Longrightarrow>
     preserves I (case y of Inl e \<Rightarrow> g e | Inr v \<Rightarrow> h v)"
  by (cases y) simp_all

lemma preserves_prod [preserves_intro]:
  "(\<And>a b. z = (a, b) \<Longrightarrow> preserves I (k a b)) \<Longrightarrow> preserves I (case z of (a, b) \<Rightarrow> k a b)"
  by (simp split: prod.split)

lemma preserves_read_fact:
  "(\<And>st x. f st = Inr x \<Longrightarrow> preserves I (g x)) \<Longrightarrow> preserves I (bindS (readS f) g)"
  by (fastforce simp: preserves_def bindS_def readS_def split: sum.splits)

lemma quota_move:
  assumes "live a" "\<And>r. P r \<Longrightarrow> rw_state r = run_state_name a"
    and "\<And>r. rw_operation_id (f r) = rw_operation_id r \<and> rw_summary (f r) = rw_summary r \<and> rw_result (f r) = rw_result r"
  shows "preserves quota_ok (update_runs W label P f)"
  using assms by (intro quota_update) blast+

lemma quota_validate: "live (rd_state found) \<Longrightarrow> preserves quota_ok (validate_current E W n found)"
  unfolding validate_current_def by (intro preserves_intro quota_move [where a = "rd_state found"]) simp_all

lemma quota_expire: "live state \<Longrightarrow> preserves quota_ok (expire_approval W operation state time)"
  unfolding expire_approval_def by (intro preserves_intro quota_move [where a = state]) simp_all

lemma quota_recover: "preserves quota_ok (store_recover W)"
  unfolding store_recover_def
proof (intro preserves_intro)
  show "preserves quota_ok (update_runs W ''interrupt'' (\<lambda>r. rw_state r \<in> {''starting'', ''running'', ''cancel_requested''})
       (\<lambda>r. r\<lparr>rw_state := ''interrupted'', rw_error := Some ''EXPERIMENT_HOST_RESTARTED'', rw_updated_ms := time\<rparr>))" for time
  proof (rule quota_update)
    show "\<exists>a. rw_state r = run_state_name a \<and> live a" if i: "rw_state r \<in> {''starting'', ''running'', ''cancel_requested''}" for r
      using interruptible [OF i] terminal_next live_def by fastforce
  qed simp
  show "preserves quota_ok (update_runs W ''review again'' (\<lambda>r. rw_state r = ''approved'')
       (\<lambda>r. r\<lparr>rw_state := ''awaiting_confirmation'', rw_approval_id := None, rw_approved_ms := None, rw_updated_ms := time\<rparr>))" for time
    by (rule quota_move [where a = RunApproved]) (simp_all add: live_def)
qed

lemma preserves_require:
  "(b \<Longrightarrow> preserves I (f ())) \<Longrightarrow> preserves I (bindS (readS (\<lambda>_. require b c)) f)"
  by (auto simp: preserves_def bindS_def readS_def require_def)

lemma quota_approve: "preserves quota_ok (experiment_approve E W operation fp)"
  unfolding experiment_approve_def
  by (rule preserves_bindS, rule preserves_intro, rule preserves_bindS, rule preserves_intro, rule preserves_if, rule preserves_intro,
      rule preserves_require, intro preserves_intro quota_validate quota_move [where a = RunAwaitingConfirmation]) (simp_all add: live_def)

lemma quota_reject: "preserves quota_ok (experiment_reject E W operation fp)"
  unfolding experiment_reject_def
  by (intro preserves_intro quota_move [where a = RunAwaitingConfirmation]) (simp_all add: live_def)

lemma quota_claim: "preserves quota_ok (experiment_claim E W operation)"
  unfolding experiment_claim_def claim_tx_def
  by (rule preserves_bindS, rule preserves_intro, rule preserves_require,
      intro preserves_intro quota_expire quota_validate quota_move [where a = RunApproved]) (simp_all add: live_def)

lemma quota_running: "preserves quota_ok (experiment_running E W run)"
  unfolding experiment_running_def
  by (rule preserves_bindS, rule preserves_intro, rule preserves_require,
      intro preserves_intro quota_expire quota_validate quota_move [where a = RunStarting]) (simp_all add: live_def)

lemma quota_cancel: "preserves quota_ok (experiment_cancel E W operation)"
  unfolding experiment_cancel_def
proof (intro preserves_intro)
  fix old state time
  assume "cancelled_state (rd_state old) = Some state"
  then have "live (rd_state old)" by (cases "rd_state old") (simp_all add: live_def)
  then show "preserves quota_ok (update_runs W ''cancel'' (at_state operation (rd_state old))
      (\<lambda>r. r\<lparr>rw_state := run_state_name state, rw_updated_ms := time\<rparr>))"
    by (intro quota_move [where a = "rd_state old"]) simp_all
qed

lemma insert_inputs_Inr:
  "insert_inputs W operation bytes st = (Inr u, st') \<Longrightarrow>
     es_runs st' = es_runs st \<and> es_outputs st' = es_outputs st \<and>
     es_inputs st' = es_inputs st @ map (\<lambda>(p, c). \<lparr>sn_operation_id = operation, sn_path = p, sn_content = c\<rparr>) bytes"
proof (induction bytes arbitrary: st)
  case (Cons pc rest)
  obtain p c where pc: "pc = (p, c)" by (cases pc)
  have "insert_inputs W operation rest (st\<lparr>es_inputs := es_inputs st @ [\<lparr>sn_operation_id = operation, sn_path = p, sn_content = c\<rparr>]\<rparr>) = (Inr u, st')"
    using Cons.prems by (auto simp: pc bindS_Inr_iff sql_Inr)
  from Cons.IH [OF this] show ?case by (simp add: pc)
qed simp

lemma insert_outputs_Inr:
  "insert_outputs W operation rows st = (Inr u, st') \<Longrightarrow>
     es_runs st' = es_runs st \<and> es_inputs st' = es_inputs st \<and>
     es_outputs st' = es_outputs st @ map (\<lambda>((m, c), t). \<lparr>sp_operation_id = operation, sp_path = om_path m, sp_manifest = t, sp_content = c\<rparr>) rows"
proof (induction rows arbitrary: st)
  case (Cons row rest)
  obtain m c t where row: "row = ((m, c), t)" by (cases row) auto
  have "insert_outputs W operation rest (st\<lparr>es_outputs := es_outputs st @
      [\<lparr>sp_operation_id = operation, sp_path = om_path m, sp_manifest = t, sp_content = c\<rparr>]\<rparr>) = (Inr u, st')"
    using Cons.prems by (auto simp: row bindS_Inr_iff sql_Inr)
  from Cons.IH [OF this] show ?case by (simp add: row)
qed simp

lemma reservations_None: "reservations st None = Inr n \<Longrightarrow> n = int (reserved st)"
  by (auto simp: reservations_def reserved_def Let_def split: if_splits)

lemma within_quota_Inr: "within_quota st extra = Inr u \<Longrightarrow> usage st + int (reserved st) + extra \<le> max_store"
  by (auto simp: within_quota_def bindR_Inr_iff dest: reservations_None)

lemma preserves_atomic_at:
  assumes "\<And>st x st'. I st \<Longrightarrow> m st = (Inr x, st') \<Longrightarrow> I st'"
  shows "preserves I (atomicS m)"
  using assms by (auto simp: preserves_def atomicS_def split: prod.splits sum.splits)

lemma quota_prepare_tx:
  assumes "sum_list (map (\<lambda>(p, c). length c) (pi_bytes inputs)) = is_total_bytes (pi_summary inputs)"
  shows "preserves quota_ok (atomicS (prepare_tx W inputs encoded time))"
proof (rule preserves_atomic_at)
  fix st u st'
  assume ok: "quota_ok st" and run: "prepare_tx W inputs encoded time st = (Inr u, st')"
  let ?row = "waiting_row (rr_operation_id (is_request (pi_summary inputs))) encoded time"
  let ?st1 = "st\<lparr>es_runs := es_runs st @ [?row]\<rparr>"
  have room: "within_quota st (int (is_total_bytes (pi_summary inputs)) + int (length encoded) + int max_result) = Inr ()"
    and fresh: "run_row_of st (rw_operation_id ?row) = None"
    and ins: "insert_inputs W (rr_operation_id (is_request (pi_summary inputs))) (pi_bytes inputs) ?st1 = (Inr (), st')"
    using run by (auto simp: prepare_tx_def Let_def bindS_Inr_iff insert_run_def sql_Inr)
  note tables = insert_inputs_Inr [OF ins]
  have "usage st' = usage st + int (is_total_bytes (pi_summary inputs)) + int (length encoded)"
    using tables assms by (simp add: usage_def waiting_row_def comp_def split_def)
  moreover have "reserved st' = reserved st + max_result"
    using tables by (simp add: reserved_def waiting_row_def live_def)
       (metis run_state_name.simps(1) run_terminal.simps(7))
  ultimately show "quota_ok st'"
    using ok tables fresh within_quota_Inr [OF room] by (simp add: quota_ok_def tbl_unique_append waiting_row_def)
qed

lemma quota_prepare: "preserves quota_ok (runner_prepare E W request)"
  unfolding runner_prepare_def
proof (rule preserves_bindS, rule preserves_intro, rule preserves_prod, rule preserves_bindS, rule preserves_intro,
    rule preserves_bindS, rule preserves_intro, rule preserves_option, rule preserves_read_fact)
  fix validated st inputs
  assume "prepare_inputs (sx_exp E) W validated = Inr inputs"
  then have sizes: "is_sizes (pi_summary inputs) = map (\<lambda>(k, v). (k, length v)) (pi_bytes inputs)" by (rule prepare_inputs_Inr)
  have total: "sum_list (map (\<lambda>(p, c). length c) (pi_bytes inputs)) = is_total_bytes (pi_summary inputs)"
    if "summary_validate (sx_exp E) (pi_summary inputs) = Inr v" for v
    using that sizes by (auto simp: summary_validate_def bindR_Inr_iff comp_def split_def split: if_splits)
  show "preserves quota_ok (experiment_prepare E W inputs)"
    unfolding experiment_prepare_def Let_def
    by (rule preserves_read_fact) (intro preserves_intro quota_prepare_tx; erule total)
qed (rule preserves_intro)

lemma encode_outputs_bytes:
  "encode_outputs E outs tot = Inr (stored, tot') \<Longrightarrow>
     tot' = tot + sum_list (map (\<lambda>((m, c), t). length c + length t) stored)"
proof (induction outs arbitrary: tot stored tot')
  case (Cons mc rest)
  obtain m c where mc: "mc = (m, c)" by (cases mc)
  show ?case using Cons.prems Cons.IH by (fastforce simp: mc bindR_Inr_iff)
qed simp

lemma reservations_except:
  "reservations st (Some operation) = Inr n \<Longrightarrow> n = int (length (filter (reserving (Some operation)) (es_runs st)) * max_result)"
  by (auto simp: reservations_def Let_def split: if_splits)

lemma reserving_except: "reserving (Some operation) r \<longleftrightarrow> reserving None r \<and> rw_operation_id r \<noteq> operation"
  by (auto simp: reserving_def simp del: reserving_name)

lemma run_bytes_update_one:
  fixes g :: "run_row \<Rightarrow> nat"
  assumes "length (filter P t) = 1" "\<And>r. r \<in> set t \<Longrightarrow> P r \<Longrightarrow> g (f r) = g r + n"
  shows "sum_list (map g (tbl_update P f t)) = sum_list (map g t) + n"
  using assms
proof (induction t)
  case (Cons r t)
  show ?case
  proof (cases "P r")
    case True
    then have "filter P t = []" using Cons.prems(1) by simp
    then have "tbl_update P f t = t" by (induction t) (auto simp: tbl_update_def split: if_splits)
    then show ?thesis using True Cons.prems(2) by (simp add: tbl_update_def)
  next
    case False
    then show ?thesis using Cons by (simp add: tbl_update_def)
  qed
qed simp

lemma outcome_not_live: "\<not> live (outcome_state o')"
  by (cases o') (simp_all add: live_def)

text \<open>Writing the result of a live run: its reservation is given up for the bytes it stores.\<close>

lemma quota_finish_update:
  assumes ok: "quota_ok st" and one: "length (filter (at_state operation a) (es_runs st)) = 1" and a: "live a"
    and f: "\<And>r. rw_operation_id (f r) = rw_operation_id r" "\<And>r. rw_summary (f r) = rw_summary r" "\<And>r. rw_result (f r) = Some t"
      "\<And>r. rw_state (f r) = run_state_name (outcome_state o')"
    and reserved: "reservations st (Some operation) = Inr rest" and fits: "int (length t) + int more' \<le> max_store - usage st - rest"
    and runs: "es_runs st1 = es_runs st" and used: "usage st1 = usage st + int more'"
  shows "quota_ok (st1\<lparr>es_runs := tbl_update (at_state operation a) f (es_runs st1)\<rparr>)"
proof -
  let ?P = "at_state operation a" and ?st' = "st1\<lparr>es_runs := tbl_update (at_state operation a) f (es_runs st1)\<rparr>"
  have none: "rw_result r = None" if "r \<in> set (es_runs st)" "?P r" for r
    using ok that a by (auto simp: quota_ok_def)
  have "sum_list (map (\<lambda>r. length (rw_summary r) + (case rw_result r of None \<Rightarrow> 0 | Some t \<Rightarrow> length t)) (tbl_update ?P f (es_runs st))) =
      sum_list (map (\<lambda>r. length (rw_summary r) + (case rw_result r of None \<Rightarrow> 0 | Some t \<Rightarrow> length t)) (es_runs st)) + length t"
    by (rule run_bytes_update_one [OF one]) (simp add: f none)
  then have usage: "usage ?st' = usage st + int more' + int (length t)" using used runs by (simp add: usage_def)
  have "filter ?P (es_runs st) \<noteq> []" using one by (intro notI) simp
  then obtain r0 where r0: "r0 \<in> set (es_runs st)" "?P r0" unfolding filter_empty_conv by blast
  have only: "r = r0" if "r \<in> set (es_runs st)" "rw_operation_id r = operation" for r
    using ok tbl_unique_get [of rw_operation_id "es_runs st"] that r0 unfolding quota_ok_def by (metis option.inject)
  have "length (filter (reserving None) (tbl_update ?P f (es_runs st))) \<le> length (filter (reserving (Some operation)) (es_runs st))"
  proof (rule filter_update_le)
    fix r assume r: "r \<in> set (es_runs st)" "reserving None (if ?P r then f r else r)"
    then have "\<not> ?P r" using f(4) outcome_not_live by (auto split: if_splits)
    then show "reserving (Some operation) r" using r only [OF r(1)] r0(2) by (auto simp: reserving_except simp del: reserving_name)
  qed
  then have "int (reserved ?st') \<le> rest" using reservations_except [OF reserved] runs by (simp add: reserved_def mult_right_mono)
  moreover have "rw_result r = None" if "r \<in> set (es_runs ?st')" "reserving None r" for r
  proof -
    have "r \<in> set (tbl_update ?P f (es_runs st))" using that(1) runs by simp
    from tbl_update_in [OF this] obtain q where q: "q \<in> set (es_runs st)" "r = (if ?P q then f q else q)" by blast
    then have "\<not> ?P q" using that(2) f(4) outcome_not_live by (auto split: if_splits)
    then show ?thesis using ok q that(2) by (auto simp: quota_ok_def)
  qed
  ultimately show ?thesis using ok usage fits runs f(1) by (auto simp: quota_ok_def tbl_unique_update)
qed

lemma fit_outputs_bytes:
  assumes "fit_outputs E state available encoded result (stored, tot) = Inr (final, text', kept)"
    and "tot = sum_list (map (\<lambda>((m, c), t). length c + length t) stored)" "int (length text') \<le> available"
  shows "int (length text') + int (sum_list (map (\<lambda>((m, c), t). length c + length t) kept)) \<le> available"
  using assms by (auto simp: fit_outputs_def bindR_Inr_iff split: if_splits)

lemma quota_finish_tx:
  assumes "live (rd_state old)"
  shows "preserves quota_ok (atomicS (finish_tx E W old encoded result outputs))"
proof (rule preserves_atomic_at)
  fix st u st'
  assume ok: "quota_ok st" and run: "finish_tx E W old encoded result outputs st = (Inr u, st')"
  let ?op = "rr_operation_id (is_request (rd_summary old))"
  have "\<exists>stored tot rest final text' kept st1 time. encode_outputs E (case outputs of None \<Rightarrow> [] | Some c \<Rightarrow> co_files c) 0 = Inr (stored, tot) \<and>
      reservations st (Some ?op) = Inr rest \<and>
      fit_outputs E (rd_state old) (max_store - usage st - rest) encoded result (stored, tot) = Inr (final, text', kept) \<and>
      int (length text') \<le> max_store - usage st - rest \<and> insert_outputs W ?op kept st = (Inr (), st1) \<and>
      length (filter (at_state ?op (rd_state old)) (es_runs st1)) = 1 \<and>
      st' = st1\<lparr>es_runs := tbl_update (at_state ?op (rd_state old))
        (\<lambda>r. r\<lparr>rw_state := run_state_name (outcome_state (ro_outcome final)), rw_result := Some text', rw_error := ro_error final,
           rw_updated_ms := time\<rparr>) (es_runs st1)\<rparr>"
    using run unfolding finish_tx_def finish_write_def Let_def
    by (clarsimp simp: bindS_Inr_iff update_runs_Inr sql_Inr now_Inr bindR_Inr_iff simp del: run_state_name.simps) blast
  then obtain stored tot rest final text' kept st1 time where facts:
      "encode_outputs E (case outputs of None \<Rightarrow> [] | Some c \<Rightarrow> co_files c) 0 = Inr (stored, tot)" "reservations st (Some ?op) = Inr rest"
      "fit_outputs E (rd_state old) (max_store - usage st - rest) encoded result (stored, tot) = Inr (final, text', kept)"
      "int (length text') \<le> max_store - usage st - rest" "insert_outputs W ?op kept st = (Inr (), st1)"
      "length (filter (at_state ?op (rd_state old)) (es_runs st1)) = 1"
      "st' = st1\<lparr>es_runs := tbl_update (at_state ?op (rd_state old))
        (\<lambda>r. r\<lparr>rw_state := run_state_name (outcome_state (ro_outcome final)), rw_result := Some text', rw_error := ro_error final,
           rw_updated_ms := time\<rparr>) (es_runs st1)\<rparr>"
    by blast
  note ins = insert_outputs_Inr [OF facts(5)]
  let ?more = "sum_list (map (\<lambda>((m, c), t). length c + length t) kept)"
  have "usage st1 = usage st + int ?more" using ins by (simp add: usage_def comp_def split_def)
  moreover have "int (length text') + int ?more \<le> max_store - usage st - rest"
    using fit_outputs_bytes [OF facts(3) _ facts(4)] encode_outputs_bytes [OF facts(1)] by simp
  ultimately show "quota_ok st'"
    unfolding facts(7) using ok facts(2,6) ins assms
    by (intro quota_finish_update [where st = st and more' = ?more and rest = rest and t = text' and o' = "ro_outcome final"]) simp_all
qed

lemma live_states: "state \<in> {RunStarting, RunRunning, RunCancelRequested} \<Longrightarrow> live state"
  by (auto simp: live_def)

lemma quota_finish: "preserves quota_ok (experiment_finish_outputs E W run result outputs)"
  unfolding experiment_finish_outputs_def Let_def
  by (rule preserves_bindS, rule preserves_intro, rule preserves_if, rule preserves_intro, rule preserves_require,
      intro preserves_intro quota_finish_tx live_states)

lemma quota_forget_tx: "preserves quota_ok (atomicS (forget_tx E W operation fp))"
proof (rule preserves_atomic_at)
  fix st rcpt st'
  assume ok: "quota_ok st" and run: "forget_tx E W operation fp st = (Inr rcpt, st')"
  have "\<exists>P encoded time. es_runs st' = tbl_update P (\<lambda>r. r\<lparr>rw_state := ''forgotten'', rw_summary := encoded, rw_result := None,
      rw_approval_id := None, rw_approved_ms := None, rw_error := Some ''EXPERIMENT_RECORD_FORGOTTEN'', rw_updated_ms := time\<rparr>) (es_runs st) \<and>
      within_quota st' 0 = Inr ()"
    using run unfolding forget_tx_def Let_def
    by (clarsimp simp: bindS_Inr_iff update_runs_Inr sql_Inr now_Inr bindR_Inr_iff simp del: run_state_name.simps) blast
  then obtain P encoded time where runs: "es_runs st' = tbl_update P (\<lambda>r. r\<lparr>rw_state := ''forgotten'', rw_summary := encoded, rw_result := None,
      rw_approval_id := None, rw_approved_ms := None, rw_error := Some ''EXPERIMENT_RECORD_FORGOTTEN'', rw_updated_ms := time\<rparr>) (es_runs st)"
    and room: "within_quota st' 0 = Inr ()" by blast
  have "rw_result r = None" if "r \<in> set (es_runs st')" "reserving None r" for r
  proof -
    from that(1) obtain q where "q \<in> set (es_runs st)" "r = q \<or> rw_result r = None" unfolding runs tbl_update_def by auto
    then show ?thesis using ok that(2) by (auto simp: quota_ok_def)
  qed
  then show "quota_ok st'" using ok within_quota_Inr [OF room] by (auto simp: quota_ok_def runs tbl_unique_update)
qed

lemma quota_forget: "preserves quota_ok (experiment_forget E W operation fp)"
  unfolding experiment_forget_def by (intro preserves_intro quota_forget_tx)

interpretation store_quota: invariant_component quota_ok "store_step E" for E
proof
  fix ev st
  assume "quota_ok st"
  then show "quota_ok (store_step E ev st)"
    by (cases ev) (simp_all add: preserves_def [THEN iffD1, rule_format, OF quota_recover]
        preserves_def [THEN iffD1, rule_format, OF quota_prepare] preserves_def [THEN iffD1, rule_format, OF quota_approve]
        preserves_def [THEN iffD1, rule_format, OF quota_reject] preserves_def [THEN iffD1, rule_format, OF quota_claim]
        preserves_def [THEN iffD1, rule_format, OF quota_running] preserves_def [THEN iffD1, rule_format, OF quota_cancel]
        preserves_def [THEN iffD1, rule_format, OF quota_finish] preserves_def [THEN iffD1, rule_format, OF quota_forget])
qed

lemma empty_quota: "quota_ok empty_store"
  by (simp add: quota_ok_def empty_store_def usage_def reserved_def tbl_unique_def max_store_def)

lemma reserved_room:
  assumes "quota_ok st" "run_row_of st operation = Some row" "rw_state row = run_state_name a" "live a"
    and "reservations st (Some operation) = Inr rest"
  shows "int max_result \<le> max_store - usage st - rest"
proof -
  have row: "row \<in> set (es_runs st)" "rw_operation_id row = operation" using tbl_get_SomeD [OF assms(2)] by simp_all
  have "length (filter (reserving (Some operation)) t) < length (filter (reserving None) t)" if "row \<in> set t" for t
    using that
  proof (induction t)
    case (Cons r t)
    have le: "length (filter (reserving (Some operation)) t) \<le> length (filter (reserving None) t)"
      by (induction t) (auto simp: reserving_except simp del: reserving_name)
    show ?case
    proof (cases "r = row")
      case True
      have "reserving None row" "\<not> reserving (Some operation) row" using assms(3,4) row(2) by (auto simp: reserving_except)
      then show ?thesis using le True by (simp del: reserving_name)
    next
      case False
      then show ?thesis using Cons by (auto simp: reserving_except simp del: reserving_name)
    qed
  qed simp
  from this [OF row(1)] have "Suc (length (filter (reserving (Some operation)) (es_runs st))) * max_result \<le> reserved st"
    unfolding reserved_def by (intro mult_right_mono) simp_all
  then have "int (Suc (length (filter (reserving (Some operation)) (es_runs st))) * max_result) \<le> int (reserved st)"
    by (rule of_nat_mono)
  then have "int max_result + rest \<le> int (reserved st)" using reservations_except [OF assms(5)] by (simp add: algebra_simps)
  then show ?thesis using assms(1) by (simp add: quota_ok_def)
qed

text \<open>The errors that have nothing to do with space.\<close>

abbreviation no_space :: string where "no_space \<equiv> ''EXPERIMENT_RECORD_QUOTA''"

lemma spacious_reads:
  "limits_validate l \<noteq> Err no_space" "summary_validate X summary \<noteq> Err no_space" "result_validate X summary r \<noteq> Err no_space"
  "run_state_parse name \<noteq> Err no_space"
proof -
  show limits: "limits_validate l \<noteq> Err no_space" for l by (simp add: limits_validate_def)
  have request: "run_request_validate X r \<noteq> Err no_space" for r
    using limits by (auto simp: run_request_validate_def Let_def bindR_Inl_iff)
  have fp: "run_fingerprint X r \<noteq> Err no_space" for r by (simp add: run_fingerprint_def bindR_Inl_iff)
  show summary: "summary_validate X summary \<noteq> Err no_space"
    using request fp by (auto simp: summary_validate_def bindR_Inl_iff split: if_splits)
  have "as_corrupt v \<noteq> Err no_space" for v :: "'c result" by (simp add: as_corrupt_def split: sum.split)
  then show "result_validate X summary r \<noteq> Err no_space"
    using summary by (auto simp: result_validate_def bindR_Inl_iff split: option.splits)
  show "run_state_parse name \<noteq> Err no_space" by (simp add: run_state_parse_def)
qed

lemma spacious_get: "run_get E st operation \<noteq> Err no_space"
proof (cases "run_row_of st operation")
  case (Some row)
  show ?thesis
    unfolding run_get_def Some option.case bindR_Inl_iff
    by (auto simp: spacious_reads bindR_Inl_iff split: option.splits)
qed (simp add: run_get_def)

lemma spacious_record: "record_of E vault operation st \<noteq> Err no_space"
proof -
  have "forgotten E st operation \<noteq> Err no_space"
  proof (cases "run_row_of st operation")
    case (Some row)
    then show ?thesis by (auto simp: forgotten_def Let_def bindR_Inl_iff)
  qed (simp add: forgotten_def)
  then show ?thesis using spacious_get by (auto simp: record_of_def bindR_Inl_iff split: option.splits)
qed

definition spacious :: "'a store_op \<Rightarrow> bool" where
  "spacious m \<longleftrightarrow> (\<forall>st st'. m st \<noteq> (Err no_space, st'))"

named_theorems spacious_intro \<open>operations that do not fail for lack of space\<close>

lemma spacious_bind [spacious_intro]: "spacious m \<Longrightarrow> (\<And>x. spacious (f x)) \<Longrightarrow> spacious (bindS m f)"
  unfolding spacious_def bindS_Inl_iff by blast

lemma spacious_read [spacious_intro]: "(\<And>st. f st \<noteq> Err no_space) \<Longrightarrow> spacious (readS f)"
  by (simp add: spacious_def)

lemma sql_code_space [simp]: "sql_code failure \<noteq> no_space"
  by (cases failure) simp_all

lemma spacious_basic [spacious_intro]:
  "spacious (retS x)" "spacious (modS h)" "spacious (getS g)" "spacious (sql W label)" "spacious (now W n)"
  by (simp_all add: spacious_def sql_def now_def split: option.split)

lemma spacious_experiment_record [spacious_intro]: "spacious (experiment_record E W label operation)"
  unfolding experiment_record_def by (intro spacious_intro spacious_record)

lemma spacious_more [spacious_intro]:
  "spacious (reread E W operation)" "spacious (current_record E W operation)" "spacious (check_claim E W run)" "spacious (update_runs W label P f)"
  unfolding reread_def current_record_def check_claim_def update_runs_def by (intro spacious_intro; simp)+

lemma spacious_insert [spacious_intro]: "spacious (insert_outputs W operation rows)"
proof (induction W operation rows rule: insert_outputs.induct)
  case (2 W operation m c t rest)
  then show ?case unfolding insert_outputs.simps by (intro spacious_intro) simp_all
qed (simp add: spacious_basic)

lemma spacious_finish_write: "spacious (finish_write W operation state final text' kept)"
  unfolding finish_write_def by (intro spacious_intro) simp

lemma spacious_encode: "encode_outputs E outs tot \<noteq> Err no_space"
proof (induction outs arbitrary: tot)
  case (Cons mc rest)
  obtain m c where "mc = (m, c)" by (cases mc)
  then show ?case using Cons.IH by (auto simp: bindR_Inl_iff)
qed simp

lemma finish_tx_space:
  assumes "finish_tx E W old encoded result outputs st = (Err no_space, st')" "quota_ok st" "length encoded \<le> max_result"
    and "run_row_of st (rr_operation_id (is_request (rd_summary old))) = Some row" "rw_state row = run_state_name a" "live a"
  shows "\<exists>final text'. sx_enc_result E (over_quota (rd_state old) final) = Some text' \<and> max_result < length text'"
proof -
  let ?op = "rr_operation_id (is_request (rd_summary old))"
  have fits: "fit_outputs E state available encoded result stored \<noteq> Err no_space" for state available stored
    by (auto simp: fit_outputs_def bindR_Inl_iff)
  have reserves: "reservations st except \<noteq> Err no_space" for st except
    by (simp add: reservations_def Let_def)
  from assms(1) [unfolded finish_tx_def Let_def bindS_Inl_iff op_result_iffs]
  obtain stored n final text' kept where facts: "reservations st (Some ?op) = Inr n"
      "fit_outputs E (rd_state old) (max_store - usage st - n) encoded result stored = Inr (final, text', kept)"
      "\<not> (length text' \<le> max_result \<and> int (length text') \<le> max_store - usage st - n)"
    using spacious_encode [of E _ 0] fits reserves spacious_finish_write
    by (fastforce simp: bindR_Inl_iff bindR_Inr_iff bindS_Inl_iff spacious_def)
  have room: "int max_result \<le> max_store - usage st - n" using reserved_room [OF assms(2,4-6) facts(1)] .
  then have long: "max_result < length text'" using facts(3) by linarith
  then have "text' \<noteq> encoded" using assms(3) by auto
  then show ?thesis using facts(2) long by (auto simp: fit_outputs_def bindR_Inr_iff split: if_splits)
qed

lemma check_claim_Inr:
  assumes "check_claim E W run st = (Inr old, st')"
  shows "st' = st \<and> (\<exists>row. run_row_of st (rr_operation_id (is_request (rd_summary old))) = Some row \<and> rw_state row = run_state_name (rd_state old))"
proof -
  let ?op = "rr_operation_id (is_request (rd_summary (cl_record run)))"
  have read: "record_of E (cw_vault_id W) ?op st = Inr (Some old)" "st' = st"
    using assms by (auto simp: check_claim_def bindS_Inr_iff current_record_Inr split: if_splits)
  show ?thesis using run_get_Some [OF record_of_Some [OF read(1)]] read(2) by metis
qed

lemma attach_space: "attach_outputs E old outputs result \<noteq> Err no_space"
proof -
  have "as_corrupt v \<noteq> Err no_space" for v :: "'c result" by (simp add: as_corrupt_def split: sum.split)
  then show ?thesis by (auto simp: attach_outputs_def bindR_Inl_iff spacious_reads split: option.splits output_report.splits)
qed

lemma finish_space:
  assumes "experiment_finish_outputs E W run result outputs st = (Err no_space, st')" "quota_ok st"
  shows "\<exists>state final text'. sx_enc_result E (over_quota state final) = Some text' \<and> max_result < length text'"
proof -
  have claim: "spacious (check_claim E W run)" and after: "spacious (reread E W i)" for i by (intro spacious_intro)+
  obtain old where old: "check_claim E W run st = (Inr old, st)" and tail: "\<not> run_terminal (rd_state old)"
      "\<exists>result2 encoded. length encoded \<le> max_result \<and> (\<exists>u. atomicS (finish_tx E W old encoded result2 outputs) st = (Err no_space, u))"
  proof -
    from assms(1) claim obtain old where old: "check_claim E W run st = (Inr old, st)"
      unfolding experiment_finish_outputs_def bindS_Inl_iff spacious_def using check_claim_Inr by metis
    have "\<not> run_terminal (rd_state old) \<and>
        (\<exists>result2 encoded. length encoded \<le> max_result \<and> (\<exists>u. atomicS (finish_tx E W old encoded result2 outputs) st = (Err no_space, u)))"
      using assms(1) after
      unfolding experiment_finish_outputs_def bindS_step [of "check_claim E W run" st old st, OF old] Let_def spacious_def
      by (clarsimp simp: bindS_Inl_iff attach_space spacious_reads split: if_split_asm) blast+
    then show ?thesis using that old by blast
  qed
  obtain row where row: "run_row_of st (rr_operation_id (is_request (rd_summary old))) = Some row" "rw_state row = run_state_name (rd_state old)"
    using check_claim_Inr [OF old] by blast
  from tail(2) obtain result2 encoded u where tx: "length encoded \<le> max_result" "finish_tx E W old encoded result2 outputs st = (Err no_space, u)"
    unfolding atomicS_Inl_iff by blast
  show ?thesis using finish_tx_space [OF tx(2) assms(2) tx(1) row] tail(1) by (auto simp: live_def)
qed

text \<open>
  C20. The store never outgrows its quota: over any history from an empty store, of calls in any
  order, restarts, failing statements and clock answers, the bytes stored and the space reserved for
  the results of runs that have not ended stay within 64 MiB.
\<close>

theorem experiment_quota_kept:
  "usage (store_run E es empty_store) + int (reserved (store_run E es empty_store)) \<le> max_store"
proof -
  have "quota_ok (store_run E es empty_store)"
    unfolding store_run_def by (rule store_quota.run_keeps [OF empty_quota])
  then show ?thesis by (simp add: quota_ok_def)
qed

section \<open>Example values\<close>

definition demo_store_env :: store_env where
  "demo_store_env = \<lparr>sx_exp = demo_exp_env, sx_enc_summary = (\<lambda>_. Some ''s''), sx_dec_summary = (\<lambda>_. Some demo_source),
     sx_enc_result = (\<lambda>_. Some ''r''), sx_dec_result = (\<lambda>_. None), sx_enc_receipt = (\<lambda>_. None), sx_dec_receipt = (\<lambda>_. None),
     sx_enc_manifest = (\<lambda>_. None), sx_dec_manifest = (\<lambda>_. None), sx_base64 = (\<lambda>x. x)\<rparr>"

definition demo_store_world :: call_world where
  "demo_store_world = \<lparr>cw_vault_id = ''a'', cw_clock = (\<lambda>_. Some 2000), cw_uuid = ''b'', cw_root_opens = True,
     cw_scan = Inr [\<lparr>en_file_id = ''a'', en_path = ''experiments/x.py'', en_hash = demo_zeros, en_revision = 1, en_deleted = False,
       en_is_folder = False, en_updated_at = None\<rparr>],
     cw_disk = [(''experiments'', DirNode), (''experiments/x.py'', RegFile ''print'')], cw_links = (\<lambda>_. Some 1),
     cw_reads = (\<lambda>_. None), cw_sql = (\<lambda>_. None)\<rparr>"

definition demo_run_row :: run_row where
  "demo_run_row = \<lparr>rw_operation_id = ''aaa'', rw_summary = ''s'', rw_state = ''approved'', rw_created_ms = 1, rw_updated_ms = 1000,
     rw_approval_id = Some ''b'', rw_approved_ms = Some 1000, rw_error = None, rw_result = None\<rparr>"

definition demo_store :: exp_store where
  "demo_store = \<lparr>es_runs = [demo_run_row], es_inputs = [\<lparr>sn_operation_id = ''aaa'', sn_path = ''experiments/x.py'', sn_content = ''print''\<rparr>],
     es_outputs = []\<rparr>"

abbreviation demo_after :: "run_state \<Rightarrow> int \<Rightarrow> exp_store" where
  "demo_after state time \<equiv> demo_store\<lparr>es_runs := [demo_run_row\<lparr>rw_state := run_state_name state, rw_updated_ms := time\<rparr>]\<rparr>"

abbreviation demo_run_record :: "run_state \<Rightarrow> int \<Rightarrow> run_record" where
  "demo_run_record state time \<equiv> \<lparr>rd_summary = demo_source, rd_state = state, rd_created_ms = 1, rd_updated_ms = time, rd_approval_id = Some ''b'',
       rd_approved_ms = Some 1000, rd_error = None, rd_result = None\<rparr>"

lemma demo_request:
  "rr_operation_id (is_request demo_source) = ''aaa''" "rr_vault_id (is_request demo_source) = ''a''" "rr_inputs (is_request demo_source) = []"
  "sf_path (rr_entry (is_request demo_source)) = ''experiments/x.py''" "sf_hash (rr_entry (is_request demo_source)) = demo_zeros"
  "sf_file_id (rr_entry (is_request demo_source)) = ''a''" "sf_revision (rr_entry (is_request demo_source)) = 1"
  "is_sizes demo_source = [(''experiments/x.py'', 5)]"
  by (simp_all add: demo_source_def)

lemma demo_get:
  assumes "a \<noteq> RunCompleted" "0 \<le> time"
  shows "run_get demo_store_env (demo_after a time) ''aaa'' = Inr (Some (demo_run_record a time))"
  using assms demo_summary run_state_parse_iff [of "run_state_name a" a]
  by (simp add: run_get_def demo_store_def demo_run_row_def tbl_get_Cons max_summary_def demo_store_env_def demo_request
      outputs_agree_def approval_held_def demo_exp_env_def)

lemma demo_found:
  "record_of demo_store_env ''a'' ''aaa'' (demo_after RunApproved time) = Inr (Some (demo_run_record RunApproved time))" if "0 \<le> time"
  using demo_get [of RunApproved time] that
  by (simp add: record_of_def forgotten_def tbl_get_Cons demo_run_row_def demo_request)

lemma demo_fingerprint: "run_fingerprint demo_exp_env r = Inr demo_zeros"
  by (simp add: run_fingerprint_def demo_digests) (simp add: demo_exp_env_def)

lemma demo_prepared:
  "prepare_inputs demo_exp_env demo_store_world (is_request demo_source) =
     Inr \<lparr>pi_summary = demo_source, pi_bytes = [(''experiments/x.py'', ''print'')]\<rparr>"
proof -
  have "read_selected demo_store_world ''experiments/x.py'' = Inr ''print''"
    by (simp add: read_selected_def demo_store_world_def ancestors_def name_prefixes_def disk_is_dir_def bt_get_def max_input_file_bytes_def upt_rec)
  then have "prepare_files demo_exp_env demo_store_world [(''a'', hd (projr (cw_scan demo_store_world)))] [rr_entry (is_request demo_source)] [] [] 0 =
      Inr ([(''experiments/x.py'', 5)], [(''experiments/x.py'', ''print'')], 5)"
    by (simp add: demo_request demo_store_world_def match_selection_def demo_digests bt_get_def max_total_bytes_def utf8_tail_def byte_in_def)
  then show ?thesis
    by (simp add: prepare_inputs_def demo_fingerprint demo_request demo_store_world_def) (simp add: demo_source_def)
qed

lemma bindS_assoc: "bindS (bindS m f) g = bindS m (\<lambda>x. bindS (f x) g)"
  by (rule ext) (auto simp: bindS_def split: prod.splits sum.splits)

lemma demo_claim:
  "experiment_claim demo_store_env demo_store_world ''aaa'' (demo_after RunApproved 1000) =
     (Inr \<lparr>cl_record = demo_run_record RunStarting 2000, cl_inputs = \<lparr>pi_summary = demo_source, pi_bytes = [(''experiments/x.py'', ''print'')]\<rparr>\<rparr>,
      demo_after RunStarting 2000)"
proof -
  have clock: "cw_clock demo_store_world n = Some 2000" for n by (simp add: demo_store_world_def)
  have old: "current_record demo_store_env demo_store_world ''aaa'' (demo_after RunApproved 1000) =
      (Inr (demo_run_record RunApproved 1000), demo_after RunApproved 1000)"
    using demo_found [of 1000] by (simp add: current_record_Inr demo_store_world_def)
  have quota: "within_quota (demo_after RunApproved 1000) 0 = Inr ()"
    by (simp add: within_quota_def reservations_def reserving_def usage_def demo_store_def demo_run_row_def max_result_def max_store_def del: reserving_name)
  have valid: "validate_current demo_store_env demo_store_world 1 (demo_run_record RunApproved 1000) (demo_after RunApproved 1000) =
      (Inr (), demo_after RunApproved 1000)"
    unfolding validate_current_Inr using demo_summary demo_prepared by (simp add: demo_store_env_def)
  have restored: "restore_inputs demo_exp_env demo_source [(''experiments/x.py'', ''print'')] =
      Inr \<lparr>pi_summary = demo_source, pi_bytes = [(''experiments/x.py'', ''print'')]\<rparr>"
    using demo_summary by (simp add: restore_inputs_def demo_request demo_digests bt_get_def utf8_tail_def byte_in_def)
  have stored: "stored_content (demo_after RunApproved 1000) ''aaa'' ''experiments/x.py'' = Some ''print''"
    by (simp add: stored_content_def demo_store_def max_input_file_bytes_def)
  have fields: "sx_exp demo_store_env = demo_exp_env" "cw_sql demo_store_world l = None" "rw_operation_id demo_run_row = ''aaa''"
      "rw_approval_id demo_run_row = Some ''b''" "length (es_inputs demo_store) = 1" "\<forall>r \<in> set (es_inputs demo_store). sn_operation_id r = ''aaa''" for l
    by (simp_all add: demo_store_env_def demo_store_world_def demo_run_row_def demo_store_def)
  have tx: "claim_tx demo_store_env demo_store_world ''aaa'' (demo_run_record RunApproved 1000) 2000 (demo_after RunApproved 1000) =
      (Inr \<lparr>cl_record = demo_run_record RunStarting 2000, cl_inputs = \<lparr>pi_summary = demo_source, pi_bytes = [(''experiments/x.py'', ''print'')]\<rparr>\<rparr>,
       demo_after RunStarting 2000)"
    using stored restored demo_get [of RunStarting 2000]
    by (simp add: claim_tx_def op_run bindS_assoc demo_request update_runs_def sql_def fields max_files_def tbl_update_def)
  show ?thesis
    unfolding experiment_claim_def bindS_step [of "current_record demo_store_env demo_store_world ''aaa''", OF old]
    using quota tx
    by (simp add: op_run now_def atomicS_def approval_ms_def clock
        bindS_step [of "validate_current demo_store_env demo_store_world 1 (demo_run_record RunApproved 1000)", OF valid] del: One_nat_def run_state_name.simps)
qed

theorem experiment_claim_reviewed_witness:
  "\<exists>row. run_row_of (demo_after RunApproved 1000) ''aaa'' = Some row \<and> rw_state row = ''approved'' \<and>
     row_state (demo_after RunStarting 2000) ''aaa'' = Some ''starting''"
  using experiment_claim_reviewed [OF demo_claim] by blast

theorem experiment_lifecycle_witness:
  "\<exists>r'. run_row_of (store_run demo_store_env [EvClaim demo_store_world ''aaa''] (demo_after RunApproved 1000)) ''aaa'' = Some r'"
proof -
  have "run_row_of (demo_after RunApproved 1000) ''aaa'' = Some (demo_run_row\<lparr>rw_state := run_state_name RunApproved, rw_updated_ms := 1000\<rparr>)"
    by (simp add: tbl_get_Cons demo_run_row_def)
  from experiment_lifecycle [OF this, of RunApproved demo_store_env "[EvClaim demo_store_world ''aaa'']"] show ?thesis
    by (auto simp del: run_state_name.simps)
qed

end
