(* ===== verification/Payloads.thy ===== *)
theory Payloads
  imports Workspace_State
begin

text \<open>
  Immutable payloads (\<open>payloads.rs\<close>, \<open>Workspace::sync_spool\<close>): the bytes of an operation are in
  the spool under their digest before a row refers to them, and are verified whenever they are
  read back.
\<close>

section \<open>Reading and verifying\<close>






text \<open>What the copy amounts to, for a reader that returns data until the end of the stream.\<close>

definition verified :: "ws_env \<Rightarrow> string \<Rightarrow> string \<Rightarrow> nat \<Rightarrow> string result" where
  "verified E stream digest sz =
     (if length stream = sz \<and> sha E stream = digest then Inr stream else Err ''SYNC_SPOOL_CORRUPT'')"


definition hash_file :: "ws_env \<Rightarrow> disk \<Rightarrow> string \<Rightarrow> string result" where
  "hash_file E d p =
     (case bt_get d p of
        Some (RegFile c) \<Rightarrow> if max_file < length c then Err ''FILE_TOO_LARGE'' else Inr (sha E c)
      | _ \<Rightarrow> Err ''FILESYSTEM_ERROR'')"

definition open_verified :: "ws_env \<Rightarrow> disk \<Rightarrow> string \<Rightarrow> string \<Rightarrow> nat \<Rightarrow> string result" where
  "open_verified E d p digest sz =
     (case bt_get d p of
        None \<Rightarrow> Err ''FILESYSTEM_ERROR''
      | Some (RegFile c) \<Rightarrow>
          if length c \<noteq> sz then Err ''SYNC_SPOOL_CORRUPT'' else verified E c digest sz
      | Some _ \<Rightarrow> Err ''SYNC_SPOOL_CORRUPT'')"

definition validate_record :: "ws_env \<Rightarrow> string \<Rightarrow> string \<Rightarrow> nat \<Rightarrow> unit result" where
  "validate_record E content path sz =
     bindR (if is_canvas path then
              bindR (require (sz \<le> max_canvas_bytes) ''CANVAS_TOO_LARGE'') (\<lambda>_.
              canvas_validate (canvas E) content)
            else Inr ()) (\<lambda>_.
     if is_record path then
       bindR (require (sz \<le> 1024 * 1024) ''RECORD_TOO_LARGE'') (\<lambda>_.
       bindR (record_validate (serde E) path content) (\<lambda>_. Inr ()))
     else Inr ())"

section \<open>The spool\<close>

definition sync_spool :: "ws_env \<Rightarrow> string \<Rightarrow> string ws_op" where
  "sync_spool E digest =
     bindS (readS (\<lambda>_. require (is_sha256_hex digest) ''SYNC_HASH_INVALID'')) (\<lambda>_.
     bindS (readS (\<lambda>w. require (disk_exists (ws_disk w) spool_root \<longrightarrow> disk_is_dir (ws_disk w) spool_root)
              ''UNSAFE_PATH'')) (\<lambda>_.
     bindS (create_dirs [''.ainote'', ''.ainote/sync-spool'']) (\<lambda>_.
     retS (spool_path digest))))"

definition payload_ref :: "ws_db \<Rightarrow> string \<Rightarrow> (string \<times> int) option" where
  "payload_ref db operation =
     map_option (\<lambda>r. (pl_hash r, pl_size r)) (tbl_get pl_op operation (payloads db))"

definition register_payload :: "string \<Rightarrow> string \<Rightarrow> nat \<Rightarrow> unit ws_op" where
  "register_payload operation digest sz =
     bindS (getS (\<lambda>w. payload_ref (ws_db w) operation)) (\<lambda>old.
     bindS (readS (\<lambda>_. require (case old of None \<Rightarrow> True | Some v \<Rightarrow> v = (digest, int sz))
              ''OPERATION_PAYLOAD_CONFLICT'')) (\<lambda>_.
     on_db (\<lambda>db. db\<lparr>payloads := tbl_insert_ignore pl_op
       \<lparr>pl_op = operation, pl_hash = digest, pl_size = int sz\<rparr> (payloads db)\<rparr>)))"

text \<open>Writing a new spool file: a temporary file that is renamed without replacing anything.\<close>

definition spool_write :: "ws_env \<Rightarrow> string \<Rightarrow> string \<Rightarrow> string \<Rightarrow> unit ws_op" where
  "spool_write E operation target content =
     bindS (io_step E ''spool_temp'' operation ''FILESYSTEM_ERROR'') (\<lambda>_.
     bindS (io_step E ''spool_persist'' operation ''SYNC_SPOOL_FAILED'') (\<lambda>_.
     bindS (readS (\<lambda>w. require (bt_get (ws_disk w) target = None) ''SYNC_SPOOL_FAILED'')) (\<lambda>_.
     on_disk (bt_insert target (RegFile content)))))"

definition spool_put :: "ws_env \<Rightarrow> string \<Rightarrow> string \<Rightarrow> string \<Rightarrow> unit ws_op" where
  "spool_put E operation digest content =
     bindS (sync_spool E digest) (\<lambda>target.
     bindS (getS (\<lambda>w. disk_exists (ws_disk w) target)) (\<lambda>there.
     if there then
       bindS (readS (\<lambda>w. open_verified E (ws_disk w) target digest (length content))) (\<lambda>_. retS ())
     else spool_write E operation target content))"

definition store_payload :: "ws_env \<Rightarrow> string \<Rightarrow> string \<Rightarrow> unit ws_op" where
  "store_payload E operation content =
     bindS (spool_put E operation (sha E content) content) (\<lambda>_.
     register_payload operation (sha E content) (length content))"

definition snapshot_file :: "ws_env \<Rightarrow> string \<Rightarrow> string \<Rightarrow> string \<Rightarrow> nat ws_op" where
  "snapshot_file E operation source expected =
     bindS (readS (\<lambda>w. case bt_get (ws_disk w) source of
              Some (RegFile c) \<Rightarrow> Inr (length c) | _ \<Rightarrow> Err ''FILESYSTEM_ERROR'')) (\<lambda>sz.
     bindS (readS (\<lambda>_. require (sz \<le> max_file) ''FILE_TOO_LARGE'')) (\<lambda>_.
     bindS (readS (\<lambda>w. case open_verified E (ws_disk w) source expected sz of
              Inr c \<Rightarrow> Inr c
            | Inl e \<Rightarrow> if err_code e = ''SYNC_SPOOL_CORRUPT'' then Err ''REVISION_CONFLICT'' else Inl e)) (\<lambda>input.
     bindS (spool_put E operation expected input) (\<lambda>_. retS sz))))"

definition store_payload_file :: "ws_env \<Rightarrow> string \<Rightarrow> string \<Rightarrow> string \<Rightarrow> unit ws_op" where
  "store_payload_file E operation source expected =
     bindS (snapshot_file E operation source expected) (\<lambda>sz. register_payload operation expected sz)"

text \<open>The cast \<open>as u64\<close> of a stored size.\<close>

definition cast_u64 :: "int \<Rightarrow> nat" where
  "cast_u64 n = nat (n mod 2 ^ 64)"

lemma cast_u64_id: "0 \<le> n \<Longrightarrow> n < 2 ^ 64 \<Longrightarrow> cast_u64 n = nat n"
  by (simp add: cast_u64_def)

definition payload :: "ws_env \<Rightarrow> string \<Rightarrow> string \<Rightarrow> string ws_op" where
  "payload E operation legacy =
     bindS (getS (\<lambda>w. payload_ref (ws_db w) operation)) (\<lambda>r.
     case r of
       None \<Rightarrow> retS legacy
     | Some (digest, sz) \<Rightarrow>
         bindS (sync_spool E digest) (\<lambda>target.
         readS (\<lambda>w. open_verified E (ws_disk w) target digest (cast_u64 sz))))"

definition sync_store_file :: "ws_env \<Rightarrow> string \<Rightarrow> string \<Rightarrow> string ws_op" where
  "sync_store_file E operation source =
     bindS (readS (\<lambda>w. hash_file E (ws_disk w) source)) (\<lambda>digest.
     bindS (snapshot_file E operation source digest) (\<lambda>_. retS digest))"

text \<open>\<open>sync_file_info\<close>: digest and size of a file, with its content checked where it has a schema.
  A validated file is read up to one byte past its limit.\<close>

definition sync_file_info :: "ws_env \<Rightarrow> disk \<Rightarrow> string \<Rightarrow> string \<Rightarrow> (string \<times> nat) result" where
  "sync_file_info E d source path =
     (case bt_get d source of
        Some (RegFile c) \<Rightarrow>
          if is_record path \<or> is_canvas path then
            (let bytes = take ((if is_canvas path then max_canvas_bytes else 1024 * 1024) + 1) c in
             bindR (if is_canvas path then canvas_validate (canvas E) bytes
                    else bindR (record_validate (serde E) path bytes) (\<lambda>_. Inr ())) (\<lambda>_.
             Inr (sha E bytes, length bytes)))
          else if max_file < length c then Err ''FILE_TOO_LARGE'' else Inr (sha E c, length c)
      | _ \<Rightarrow> Err ''FILESYSTEM_ERROR'')"

datatype write_payload = Inline string | Stored string nat

fun payload_size :: "write_payload \<Rightarrow> nat" where
  "payload_size (Inline bytes) = length bytes"
| "payload_size (Stored digest sz) = sz"

fun payload_digest :: "ws_env \<Rightarrow> write_payload \<Rightarrow> string" where
  "payload_digest E (Inline bytes) = sha E bytes"
| "payload_digest E (Stored digest sz) = digest"

definition payload_validate :: "ws_env \<Rightarrow> write_payload \<Rightarrow> string \<Rightarrow> unit ws_op" where
  "payload_validate E p path =
     bindS (readS (\<lambda>_. require (\<not> (is_canvas path \<and> max_canvas_bytes < payload_size p)) ''CANVAS_TOO_LARGE'')) (\<lambda>_.
     bindS (readS (\<lambda>_. require (\<not> (is_record path \<and> 1024 * 1024 < payload_size p)) ''RECORD_TOO_LARGE'')) (\<lambda>_.
     bindS (readS (\<lambda>_. require (payload_size p \<le> max_file) ''FILE_TOO_LARGE'')) (\<lambda>_.
     case p of
       Inline bytes \<Rightarrow>
         bindS (readS (\<lambda>_. if is_canvas path then canvas_validate (canvas E) bytes else Inr ())) (\<lambda>_.
         readS (\<lambda>_. if is_record path then bindR (record_validate (serde E) path bytes) (\<lambda>_. Inr ()) else Inr ()))
     | Stored digest sz \<Rightarrow>
         bindS (sync_spool E digest) (\<lambda>target.
         bindS (readS (\<lambda>w. open_verified E (ws_disk w) target digest sz)) (\<lambda>content.
         readS (\<lambda>_. validate_record E content path sz))))))"

definition payload_store :: "ws_env \<Rightarrow> write_payload \<Rightarrow> string \<Rightarrow> unit ws_op" where
  "payload_store E p operation =
     (case p of
        Inline bytes \<Rightarrow> store_payload E operation bytes
      | Stored digest sz \<Rightarrow>
          bindS (sync_spool E digest) (\<lambda>target.
          bindS (readS (\<lambda>w. open_verified E (ws_disk w) target digest sz)) (\<lambda>_.
          register_payload operation digest sz)))"

section \<open>Verified copies\<close>



end
