(* ===== verification/Import_Records.thy ===== *)
theory Import_Records
  imports Workspace_State
begin

text \<open>
  The stored records of experiment imports (\<open>experiment_import.rs\<close>): reading one back with every
  consistency check, the quota, and the hooks by which an ordinary write of the vault takes part
  in an import (\<open>check_new_write\<close>, \<open>complete_write\<close>, \<open>conflict_write\<close>).
\<close>

section \<open>Records\<close>

datatype import_state =
    AwaitingConfirmation | Approved | Completed | Partial | Failed | Cancelled | RejectedImport

definition import_state_of :: "string \<Rightarrow> import_state option" where
  "import_state_of s =
     (if s = ''awaiting_confirmation'' then Some AwaitingConfirmation else if s = ''approved'' then Some Approved
      else if s = ''completed'' then Some Completed else if s = ''partial'' then Some Partial
      else if s = ''failed'' then Some Failed else if s = ''cancelled'' then Some Cancelled
      else if s = ''rejected'' then Some RejectedImport else None)"

record import_status =
  st_state :: string
  st_entry :: "entry option"
  st_error :: "string option"

record import_record =
  ir_plan :: import_plan
  ir_fingerprint :: string
  ir_state :: import_state
  ir_created_ms :: int
  ir_confirmed_ms :: "int option"
  ir_items :: "import_status list"

definition max_plan :: nat where "max_plan = 128 * 1024"
definition max_receipt :: nat where "max_receipt = 4096"
definition max_metadata :: int where "max_metadata = 16 * 1024 * 1024"
definition max_records :: nat where "max_records = 4096"

definition request_digest :: "ws_env \<Rightarrow> import_request \<Rightarrow> string result" where
  "request_digest E r =
     bindR (ok_or (import_request_text (experiments E) r) ''EXPERIMENT_IMPORT_INVALID'') (\<lambda>body.
     Inr (sha E (''opennexus-import-request-v1'' @ [CHR 0x00] @ body)))"

definition plan_digest :: "ws_env \<Rightarrow> import_plan \<Rightarrow> string result" where
  "plan_digest E p =
     bindR (ok_or (import_plan_text (experiments E) p) ''EXPERIMENT_IMPORT_INVALID'') (\<lambda>body.
     Inr (sha E (''opennexus-import-plan-v1'' @ [CHR 0x00] @ body)))"

text \<open>A column that is read only up to a size, and is null beyond it.\<close>

definition bounded :: "nat \<Rightarrow> string option \<Rightarrow> string option" where
  "bounded n v = (case v of None \<Rightarrow> None | Some s \<Rightarrow> if length s \<le> n then Some s else None)"

definition item_states :: "string list" where
  "item_states = [''pending'', ''committed'', ''failed'', ''cancelled'', ''rejected'']"

text \<open>The entry of a committed item describes the planned target; no other item has one.\<close>

definition receipt_ok :: "int option \<Rightarrow> import_item_row \<Rightarrow> import_item_plan \<Rightarrow> entry option \<Rightarrow> bool" where
  "receipt_ok confirmed row item e =
     (if ii_state row = ''committed'' then
        (case e of
           None \<Rightarrow> False
         | Some en \<Rightarrow>
             en_path en = sf_path (ip_target item) \<and> en_file_id en = ii_file_id row \<and>
             en_hash en = om_sha256 (ip_output item) \<and> 0 < en_revision en \<and> \<not> en_deleted en \<and>
             \<not> en_is_folder en \<and> confirmed \<noteq> None)
      else e = None)"

text \<open>Reading the ordinal as a \<open>usize\<close>: the column is a signed integer, a negative one is a database error.\<close>

definition ordinal_of :: "import_item_row \<Rightarrow> nat result" where
  "ordinal_of row = (if ii_ordinal row < 0 then Err ''DATABASE_ERROR'' else Inr (nat (ii_ordinal row)))"

lemma ordinal_of_Inr [simp]: "ordinal_of row = Inr n \<longleftrightarrow> ii_ordinal row = int n"
  by (auto simp: ordinal_of_def)

definition item_row_ok :: "nat \<Rightarrow> import_item_row \<Rightarrow> import_item_plan \<Rightarrow> bool" where
  "item_row_ok n row item \<longleftrightarrow>
     ii_ordinal row = int n \<and> ip_write_id item = ii_write_id row \<and> sf_file_id (ip_target item) = ii_file_id row \<and>
     ii_state row \<in> set item_states \<and> (case ii_error row of None \<Rightarrow> True | Some c \<Rightarrow> error_code_ok c)"

definition load_entry :: "ws_env \<Rightarrow> import_item_row \<Rightarrow> entry option result" where
  "load_entry E row =
     (case bounded max_receipt (ii_receipt row) of
        None \<Rightarrow> Inr None
      | Some json \<Rightarrow> bindR (ok_or (dec_entry E json) ''EXPERIMENT_IMPORT_CORRUPT'') (\<lambda>e. Inr (Some e)))"

fun load_items ::
  "ws_env \<Rightarrow> int option \<Rightarrow> import_item_plan list \<Rightarrow> import_item_row list \<Rightarrow> import_status list \<Rightarrow>
     import_status list result" where
  "load_items E confirmed plan [] acc = Inr acc"
| "load_items E confirmed plan (row # rows) acc =
     bindR (ordinal_of row) (\<lambda>n.
     if length plan \<le> n then Err ''EXPERIMENT_IMPORT_CORRUPT''
      else
        bindR (require (item_row_ok (length acc) row (plan ! n)) ''EXPERIMENT_IMPORT_CORRUPT'') (\<lambda>_.
        bindR (load_entry E row) (\<lambda>e.
        bindR (require (receipt_ok confirmed row (plan ! n) e) ''EXPERIMENT_IMPORT_CORRUPT'') (\<lambda>_.
        load_items E confirmed plan rows
          (acc @ [\<lparr>st_state = ii_state row, st_entry = e, st_error = ii_error row\<rparr>])))))"

definition import_items_of :: "ws_db \<Rightarrow> string \<Rightarrow> import_item_row list" where
  "import_items_of db operation =
     sort_key ii_ordinal (filter (\<lambda>r. ii_import_id r = operation) (experiment_import_items db))"

text \<open>The checks of a plan against its row.\<close>

definition row_matches_plan :: "ws_env \<Rightarrow> import_row \<Rightarrow> string \<Rightarrow> string \<Rightarrow> import_plan \<Rightarrow> unit result" where
  "row_matches_plan E row vault operation plan =
     (let request = pn_request plan in
      if rq_operation_id request \<noteq> operation \<or> rq_run_id request \<noteq> im_run_id row \<or> rq_vault_id request \<noteq> vault \<or>
         im_created_ms row < 0 \<or> (case im_confirmed_ms row of None \<Rightarrow> False | Some ms \<Rightarrow> ms < 0)
      then Err ''EXPERIMENT_IMPORT_CORRUPT''
      else
        bindR (request_digest E request) (\<lambda>rd.
        bindR (require (im_request_fingerprint row = rd) ''EXPERIMENT_IMPORT_CORRUPT'') (\<lambda>_.
        bindR (plan_digest E plan) (\<lambda>pd.
        require (im_fingerprint row = pd) ''EXPERIMENT_IMPORT_CORRUPT''))))"

definition confirmation_ok :: "import_state \<Rightarrow> int option \<Rightarrow> bool" where
  "confirmation_ok s confirmed \<longleftrightarrow>
     (s \<in> {Approved, Completed, Partial, Failed, Cancelled} \<longrightarrow> confirmed \<noteq> None) \<and>
     (s \<in> {AwaitingConfirmation, RejectedImport} \<longrightarrow> confirmed = None)"

definition load :: "ws_env \<Rightarrow> ws_db \<Rightarrow> string \<Rightarrow> string \<Rightarrow> import_record option result" where
  "load E db vault operation =
     (case tbl_get im_operation_id operation (experiment_imports db) of
        None \<Rightarrow> Inr None
      | Some row \<Rightarrow>
          bindR (require (im_vault_id row = vault) ''VAULT_PERMISSION_CHANGED'') (\<lambda>_.
          bindR (require (im_state row \<noteq> ''forgotten'') ''EXPERIMENT_IMPORT_FORGOTTEN'') (\<lambda>_.
          bindR (ok_or (bounded max_plan (im_plan row)) ''EXPERIMENT_IMPORT_CORRUPT'') (\<lambda>body.
          bindR (ok_or (import_plan_of (experiments E) body) ''EXPERIMENT_IMPORT_CORRUPT'') (\<lambda>plan.
          bindR (plan_validate (experiments E) plan) (\<lambda>_.
          bindR (row_matches_plan E row vault operation plan) (\<lambda>_.
          bindR (ok_or (import_state_of (im_state row)) ''EXPERIMENT_IMPORT_CORRUPT'') (\<lambda>state.
          bindR (require (confirmation_ok state (im_confirmed_ms row)) ''EXPERIMENT_IMPORT_CORRUPT'') (\<lambda>_.
          bindR (load_items E (im_confirmed_ms row) (pn_items plan) (import_items_of db operation) []) (\<lambda>items.
          bindR (require (length items = length (pn_items plan) \<and>
                   (state = Completed \<longrightarrow> list_all (\<lambda>i. st_state i = ''committed'') items)) ''EXPERIMENT_IMPORT_CORRUPT'') (\<lambda>_.
          Inr (Some \<lparr>ir_plan = plan, ir_fingerprint = im_fingerprint row, ir_state = state,
            ir_created_ms = im_created_ms row, ir_confirmed_ms = im_confirmed_ms row, ir_items = items\<rparr>))))))))))))"

section \<open>Quota\<close>

definition opt_length :: "string option \<Rightarrow> int" where
  "opt_length x = (case x of None \<Rightarrow> 0 | Some s \<Rightarrow> int (length s))"

definition import_quota :: "ws_db \<Rightarrow> unit result" where
  "import_quota db =
     (let count = length (filter (\<lambda>r. im_state r \<noteq> ''forgotten'') (experiment_imports db));
          bytes = sum_list (map (\<lambda>r. opt_length (im_plan r) + int (length (im_operation_id r)) +
             int (length (im_vault_id r)) + int (length (im_run_id r)) + int (length (im_fingerprint r)) +
             int (length (im_request_fingerprint r)) + 64) (experiment_imports db));
          items = sum_list (map (\<lambda>r. 72 + opt_length (ii_receipt r) + opt_length (ii_error r) +
             (if ii_state r = ''pending'' then 4096 else 0)) (experiment_import_items db)) in
      require (\<not> (max_records < count \<or> max_metadata < bytes + items)) ''EXPERIMENT_IMPORT_QUOTA'')"

section \<open>Hooks of an ordinary write\<close>

definition import_item_of :: "ws_db \<Rightarrow> string \<Rightarrow> import_item_row option" where
  "import_item_of db write_id = tbl_get ii_write_id write_id (experiment_import_items db)"

definition check_new_write ::
  "ws_env \<Rightarrow> ws_db \<Rightarrow> string \<Rightarrow> string \<Rightarrow> string \<Rightarrow> string \<Rightarrow> string \<Rightarrow> string \<Rightarrow> string option \<Rightarrow> unit result" where
  "check_new_write E db vault write_id path expected digest origin identity =
     bindR (require (\<not> tbl_has im_operation_id write_id (experiment_imports db)) ''OPERATION_PAYLOAD_CONFLICT'') (\<lambda>_.
     case import_item_of db write_id of
       None \<Rightarrow> Inr ()
     | Some it \<Rightarrow>
         bindR (ordinal_of it) (\<lambda>n.
         bindR (load E db vault (ii_import_id it)) (\<lambda>l.
         bindR (ok_or l ''EXPERIMENT_IMPORT_CORRUPT'') (\<lambda>rec.
         let item = pn_items (ir_plan rec) ! n in
         require (\<not> (ir_state rec \<noteq> Approved \<or> ir_confirmed_ms rec = None \<or>
            st_state (ir_items rec ! n) \<noteq> ''pending'' \<or> sf_path (ip_target item) \<noteq> path \<or>
            sf_hash (ip_target item) \<noteq> expected \<or> om_sha256 (ip_output item) \<noteq> digest \<or> origin \<noteq> ''local'' \<or>
            identity \<noteq> Some (sf_file_id (ip_target item)))) ''EXPERIMENT_IMPORT_AUTH_REQUIRED''))))"

definition conflict_write :: "string \<Rightarrow> ws_db \<Rightarrow> ws_db" where
  "conflict_write write_id db =
     (case import_item_of db write_id of
        None \<Rightarrow> db
      | Some it \<Rightarrow>
          let i = ii_import_id it;
              items = tbl_update (\<lambda>r. ii_write_id r = write_id \<and> ii_state r = ''pending'')
                (\<lambda>r. r\<lparr>ii_state := ''failed'', ii_error := Some ''RECOVERY_CONFLICT''\<rparr>) (experiment_import_items db) in
          db\<lparr>experiment_import_items := items,
             experiment_imports := tbl_update (\<lambda>r. im_operation_id r = i \<and> im_state r = ''approved'')
               (\<lambda>r. r\<lparr>im_state := (if list_ex (\<lambda>x. ii_import_id x = i \<and> ii_state x = ''committed'') items
                                then ''partial'' else ''failed'')\<rparr>) (experiment_imports db)\<rparr>)"

definition settle_import :: "string \<Rightarrow> string \<Rightarrow> string \<Rightarrow> import_record \<Rightarrow> ws_db \<Rightarrow> ws_db" where
  "settle_import write_id encoded i rec db =
     (let items = tbl_update (\<lambda>r. ii_write_id r = write_id \<and> ii_state r = ''pending'')
            (\<lambda>r. r\<lparr>ii_state := ''committed'', ii_receipt := Some encoded, ii_error := None\<rparr>)
            (experiment_import_items db);
          open_items = list_ex (\<lambda>r. ii_import_id r = i \<and> ii_state r \<in> {''pending'', ''failed''}) items in
      db\<lparr>experiment_import_items := items,
         experiment_imports := (if \<not> open_items \<and> ir_state rec = Approved
           then tbl_update (\<lambda>r. im_operation_id r = i) (\<lambda>r. r\<lparr>im_state := ''completed''\<rparr>) (experiment_imports db)
           else experiment_imports db)\<rparr>)"

definition complete_write :: "ws_env \<Rightarrow> string \<Rightarrow> entry \<Rightarrow> ws_db \<Rightarrow> ws_db result" where
  "complete_write E write_id en db =
     (case import_item_of db write_id of
        None \<Rightarrow> Inr db
      | Some it \<Rightarrow>
          bindR (ordinal_of it) (\<lambda>n.
          bindR (ok_or (tbl_get im_operation_id (ii_import_id it) (experiment_imports db)) ''DATABASE_ERROR'') (\<lambda>row.
          bindR (load E db (im_vault_id row) (ii_import_id it)) (\<lambda>l.
          bindR (ok_or l ''EXPERIMENT_IMPORT_CORRUPT'') (\<lambda>rec.
          let item = pn_items (ir_plan rec) ! n in
          bindR (require (\<not> (ir_confirmed_ms rec = None \<or> st_state (ir_items rec ! n) \<noteq> ''pending'' \<or>
                   en_file_id en \<noteq> sf_file_id (ip_target item) \<or> en_path en \<noteq> sf_path (ip_target item) \<or>
                   en_hash en \<noteq> om_sha256 (ip_output item))) ''EXPERIMENT_IMPORT_CORRUPT'') (\<lambda>_.
          bindR (ok_or (enc_entry E en) ''EXPERIMENT_IMPORT_CORRUPT'') (\<lambda>encoded.
          bindR (require (length encoded \<le> max_receipt) ''EXPERIMENT_IMPORT_CORRUPT'') (\<lambda>_.
          let db2 = settle_import write_id encoded (ii_import_id it) rec db in
          bindR (import_quota db2) (\<lambda>_. Inr db2)))))))))"

section \<open>A loaded record agrees with its rows\<close>

definition row_agrees ::
  "int option \<Rightarrow> import_item_plan list \<Rightarrow> nat \<Rightarrow> import_item_row \<Rightarrow> import_status \<Rightarrow> bool" where
  "row_agrees confirmed plan n row st \<longleftrightarrow>
     n < length plan \<and> item_row_ok n row (plan ! n) \<and> st_state st = ii_state row \<and>
     receipt_ok confirmed row (plan ! n) (st_entry st)"

lemma load_items_agree:
  "load_items E confirmed plan rows acc = Inr items \<Longrightarrow>
     \<exists>ss. items = acc @ ss \<and> length ss = length rows \<and>
       (\<forall>k < length rows. row_agrees confirmed plan (length acc + k) (rows ! k) (ss ! k))"
proof (induction rows arbitrary: acc)
  case (Cons row rows)
  from Cons.prems obtain n e where less: "n < length plan" "ii_ordinal row = int n"
      and e: "item_row_ok (length acc) row (plan ! n)" "receipt_ok confirmed row (plan ! n) e"
      and rest: "load_items E confirmed plan rows
        (acc @ [\<lparr>st_state = ii_state row, st_entry = e, st_error = ii_error row\<rparr>]) = Inr items"
    by (auto simp: bindR_Inr_iff split: if_splits)
  let ?st = "\<lparr>st_state = ii_state row, st_entry = e, st_error = ii_error row\<rparr>"
  from e less have n: "n = length acc" by (simp add: item_row_ok_def)
  from Cons.IH [OF rest] obtain ss where ss: "items = (acc @ [?st]) @ ss" "length ss = length rows"
      "\<forall>k < length rows. row_agrees confirmed plan (length (acc @ [?st]) + k) (rows ! k) (ss ! k)"
    by blast
  have "row_agrees confirmed plan (length acc + k) ((row # rows) ! k) ((?st # ss) ! k)" if "k < length (row # rows)" for k
  proof (cases k)
    case 0
    with e less n show ?thesis by (simp add: row_agrees_def)
  next
    case (Suc j)
    with ss(3) that show ?thesis by simp
  qed
  with ss show ?case by (intro exI [of _ "?st # ss"]) simp
qed simp

lemma load_Some:
  assumes "load E db vault i = Inr (Some rec)"
  obtains row where "tbl_get im_operation_id i (experiment_imports db) = Some row" "im_vault_id row = vault"
    "im_state row \<noteq> ''forgotten''" "plan_validate (experiments E) (ir_plan rec) = Inr ()"
    "import_state_of (im_state row) = Some (ir_state rec)" "ir_fingerprint rec = im_fingerprint row"
    "ir_confirmed_ms rec = im_confirmed_ms row" "confirmation_ok (ir_state rec) (ir_confirmed_ms rec)"
    "load_items E (ir_confirmed_ms rec) (pn_items (ir_plan rec)) (import_items_of db i) [] = Inr (ir_items rec)"
    "length (ir_items rec) = length (pn_items (ir_plan rec))"
    "ir_state rec = Completed \<longrightarrow> list_all (\<lambda>x. st_state x = ''committed'') (ir_items rec)"
  using assms unfolding load_def
  by (cases "tbl_get im_operation_id i (experiment_imports db)") (auto simp: bindR_Inr_iff)

text \<open>
  C37. Reading an import back never indexes out of range and never mixes items up: every stored
  item row of a loaded import has its place in the plan, with the write identifier and file the
  plan gives it and the state the record shows; and a row shown as committed carries a receipt for
  exactly the planned path and digest.
\<close>

theorem loaded_import_agrees:
  assumes "load E db vault i = Inr (Some rec)"
    and "it \<in> set (experiment_import_items db)" and "ii_import_id it = i"
  shows "0 \<le> ii_ordinal it \<and> nat (ii_ordinal it) < length (pn_items (ir_plan rec)) \<and> nat (ii_ordinal it) < length (ir_items rec) \<and>
    ip_write_id (pn_items (ir_plan rec) ! nat (ii_ordinal it)) = ii_write_id it \<and>
    sf_file_id (ip_target (pn_items (ir_plan rec) ! nat (ii_ordinal it))) = ii_file_id it \<and>
    st_state (ir_items rec ! nat (ii_ordinal it)) = ii_state it \<and>
    (ii_state it = ''committed'' \<longrightarrow> (\<exists>en. st_entry (ir_items rec ! nat (ii_ordinal it)) = Some en \<and>
       en_path en = sf_path (ip_target (pn_items (ir_plan rec) ! nat (ii_ordinal it))) \<and>
       en_hash en = om_sha256 (ip_output (pn_items (ir_plan rec) ! nat (ii_ordinal it)))))"
proof -
  let ?rows = "import_items_of db i"
  from assms(1) have run: "load_items E (ir_confirmed_ms rec) (pn_items (ir_plan rec)) ?rows [] = Inr (ir_items rec)"
    by (rule load_Some)
  from load_items_agree [OF run] have len: "length (ir_items rec) = length ?rows"
      and all: "\<forall>k < length ?rows. row_agrees (ir_confirmed_ms rec) (pn_items (ir_plan rec)) k (?rows ! k) (ir_items rec ! k)"
    by auto
  have "it \<in> set ?rows" using assms(2,3) by (simp add: import_items_of_def)
  then obtain k where k: "k < length ?rows" "?rows ! k = it" by (auto simp: in_set_conv_nth)
  with all have agree: "row_agrees (ir_confirmed_ms rec) (pn_items (ir_plan rec)) k it (ir_items rec ! k)" by auto
  then have "ii_ordinal it = int k" by (simp add: row_agrees_def item_row_ok_def)
  with agree k(1) len show ?thesis
    by (auto simp: row_agrees_def item_row_ok_def receipt_ok_def split: option.splits)
qed

definition demo_import_env :: ws_env where
  "demo_import_env = demo_ws_env\<lparr>experiments := demo_exp_env\<rparr>"

definition demo_import_item :: import_item_row where
  "demo_import_item = \<lparr>ii_import_id = ''aa'', ii_ordinal = 0, ii_write_id = ''aaaa'', ii_file_id = ''aaaaa'',
     ii_state = ''pending'', ii_receipt = None, ii_error = None\<rparr>"

definition demo_import_db :: ws_db where
  "demo_import_db = demo_ws_db\<lparr>experiment_imports := [\<lparr>im_operation_id = ''aa'', im_vault_id = ''a'', im_run_id = ''aaa'',
       im_request_fingerprint = demo_zeros, im_fingerprint = demo_zeros, im_plan = Some ''{}'', im_state = ''approved'',
       im_created_ms = 0, im_confirmed_ms = Some 0\<rparr>],
     experiment_import_items := [demo_import_item]\<rparr>"

definition demo_import_record :: import_record where
  "demo_import_record = \<lparr>ir_plan = demo_plan, ir_fingerprint = demo_zeros, ir_state = Approved, ir_created_ms = 0,
     ir_confirmed_ms = Some 0, ir_items = [\<lparr>st_state = ''pending'', st_entry = None, st_error = None\<rparr>]\<rparr>"

lemma demo_plan_decodes: "import_plan_of demo_exp_env s = Some demo_plan"
  by (simp add: demo_exp_env_def)

lemma demo_import_loads: "load demo_import_env demo_import_db ''a'' ''aa'' = Inr (Some demo_import_record)"
  by (simp add: load_def demo_import_db_def tbl_get_Cons bounded_def max_plan_def demo_import_env_def
      demo_plan_decodes demo_plan_ok)
     (simp add: row_matches_plan_def request_digest_def plan_digest_def demo_exp_env_def demo_zeros_def import_state_of_def
      confirmation_ok_def import_items_of_def demo_import_item_def ordinal_of_def item_row_ok_def item_states_def load_entry_def
      bounded_def receipt_ok_def demo_plan_def demo_import_record_def)

theorem loaded_import_agrees_witness:
  "ip_write_id (pn_items (ir_plan demo_import_record) ! 0) = ''aaaa''"
  using loaded_import_agrees [OF demo_import_loads, of demo_import_item]
  by (simp add: demo_import_db_def demo_import_item_def)

end
