(* ===== verification/Workspace_Store.thy ===== *)
theory Workspace_Store
  imports Payloads Import_Records
begin

text \<open>
  The vault's write path (\<open>workspace.rs\<close>): a write, rename or delete is accepted by recording
  its intent in the database, applied to the file system, and completed by a transaction; an
  interrupted operation is completed or marked as a conflict by \<open>recover\<close>. The hooks of an
  experiment import that take part in a write are in the theory of imports.
\<close>

section \<open>Lookups\<close>

definition entry_of :: "file_row \<Rightarrow> entry" where
  "entry_of r = \<lparr>en_file_id = f_id r, en_path = f_path r, en_hash = f_hash r, en_revision = f_revision r,
     en_deleted = f_deleted r, en_is_folder = False, en_updated_at = None\<rparr>"

definition entry_at :: "ws_db \<Rightarrow> string \<Rightarrow> entry option" where
  "entry_at db path = map_option entry_of (tbl_get f_path path (files db))"

text \<open>\<open>Workspace::operation\<close>: the state of an operation and its result.\<close>

definition operation_of :: "ws_env \<Rightarrow> ws_db \<Rightarrow> string \<Rightarrow> (string \<times> entry option) option result" where
  "operation_of E db i =
     (case tbl_get op_id i (operations db) of
        None \<Rightarrow> Inr None
      | Some row \<Rightarrow>
          (case op_result row of
             None \<Rightarrow> Inr (Some (op_state row, None))
           | Some text \<Rightarrow>
               bindR (ok_or (dec_result E text) ''DATABASE_ERROR'') (\<lambda>en. Inr (Some (op_state row, Some en)))))"

definition path_for_id :: "ws_db \<Rightarrow> string \<Rightarrow> string result" where
  "path_for_id db i =
     (let live = filter (\<lambda>r. \<not> f_deleted r) (files db) in
      case find (\<lambda>r. f_id r = i) live of
        Some r \<Rightarrow> Inr (f_path r)
      | None \<Rightarrow>
          (case map_of (file_aliases db) i of
             None \<Rightarrow> Err ''FILE_NOT_FOUND''
           | Some j \<Rightarrow>
               (case find (\<lambda>r. f_id r = j) live of
                  Some r \<Rightarrow> Inr (f_path r)
                | None \<Rightarrow> Err ''FILE_NOT_FOUND'')))"

definition paths_alias :: "disk \<Rightarrow> string \<Rightarrow> string \<Rightarrow> bool result" where
  "paths_alias d first second =
     bindR (resolve d first) (\<lambda>a. bindR (resolve d second) (\<lambda>b.
     Inr (disk_exists d a \<and> disk_exists d b \<and> a = b)))"

definition current_digest :: "ws_env \<Rightarrow> disk \<Rightarrow> string \<Rightarrow> string result" where
  "current_digest E d target = (if disk_exists d target then hash_file E d target else Inr [])"

section \<open>Completing a write\<close>

text \<open>\<open>INSERT INTO files ... ON CONFLICT(path) DO UPDATE\<close>: the row of the path is updated; a new
  row must not reuse an identifier.\<close>

definition files_upsert :: "string \<Rightarrow> string \<Rightarrow> string \<Rightarrow> ws_db \<Rightarrow> ws_db result" where
  "files_upsert i path digest db =
     (if tbl_has f_path path (files db) then
        Inr (db\<lparr>files := tbl_update (\<lambda>r. f_path r = path)
          (\<lambda>r. r\<lparr>f_hash := digest, f_revision := f_revision r + 1, f_deleted := False\<rparr>) (files db)\<rparr>)
      else if tbl_has f_id i (files db) then Err ''DATABASE_ERROR''
      else Inr (db\<lparr>files := files db @
          [\<lparr>f_id = i, f_path = path, f_hash = digest, f_revision = 1, f_deleted = False\<rparr>]\<rparr>))"

definition set_disk_identity :: "string \<Rightarrow> string option \<Rightarrow> ws_db \<Rightarrow> ws_db" where
  "set_disk_identity i ident db =
     (case ident of
        Some v \<Rightarrow> db\<lparr>file_disk_identity := tbl_put di_file_id \<lparr>di_file_id = i, di_identity = v\<rparr> (file_disk_identity db)\<rparr>
      | None \<Rightarrow> db\<lparr>file_disk_identity := tbl_drop_key di_file_id i (file_disk_identity db)\<rparr>)"

definition queue_put :: "string \<Rightarrow> string \<Rightarrow> ws_db \<Rightarrow> ws_db" where
  "queue_put operation path db =
     (case tbl_get f_path path (files db) of
        None \<Rightarrow> db
      | Some r \<Rightarrow> db\<lparr>outbox := tbl_insert_ignore ob_op
          \<lparr>ob_op = operation, ob_file_id = f_id r, ob_revision = f_revision r, ob_path = f_path r,
           ob_hash = f_hash r, ob_operation = ''put'', ob_content = [], ob_state = ''pending''\<rparr> (outbox db)\<rparr>)"

definition finish_operation :: "string \<Rightarrow> string \<Rightarrow> ws_db \<Rightarrow> ws_db" where
  "finish_operation operation result db =
     db\<lparr>operations := tbl_update (\<lambda>r. op_id r = operation)
       (\<lambda>r. r\<lparr>op_state := ''committed'', op_result := Some result\<rparr>) (operations db)\<rparr>"

text \<open>The rows of the completing transaction between the file row and the receipt.\<close>

definition stage_write ::
  "string \<Rightarrow> string \<Rightarrow> string \<Rightarrow> string \<Rightarrow> string \<Rightarrow> string option \<Rightarrow> ws_db \<Rightarrow> ws_db" where
  "stage_write operation i path origin digest ident db =
     (let db1 = set_disk_identity i ident db;
          db2 = db1\<lparr>sync_observed := tbl_put sv_file_id
            \<lparr>sv_file_id = i, sv_path = path, sv_hash = digest, sv_deleted = False\<rparr> (sync_observed db1)\<rparr> in
      if origin = ''local'' then queue_put operation path db2 else db2)"

definition commit_write ::
  "ws_env \<Rightarrow> string \<Rightarrow> string \<Rightarrow> string \<Rightarrow> string \<Rightarrow> string \<Rightarrow> string \<Rightarrow> string option \<Rightarrow> ws_db \<Rightarrow> ws_db result" where
  "commit_write E operation i path expected origin digest ident db =
     bindR (files_upsert i path digest db) (\<lambda>db1.
     let db4 = stage_write operation i path origin digest ident db1 in
     bindR (ok_or (entry_at db4 path) ''DATABASE_ERROR'') (\<lambda>en.
     bindR (complete_write E operation en db4) (\<lambda>db5.
     bindR (ok_or (enc_result E en expected) ''DATABASE_ERROR'') (\<lambda>result.
     let db6 = finish_operation operation result db5 in
     Inr (db6\<lparr>journal := tbl_drop_key j_op operation (journal db6)\<rparr>)))))"

definition commitS :: "ws_env \<Rightarrow> string \<Rightarrow> (ws_db \<Rightarrow> ws_db result) \<Rightarrow> unit ws_op" where
  "commitS E i f =
     bindS (readS (\<lambda>w. f (ws_db w))) (\<lambda>db.
     bindS (io_step E ''commit'' i ''DATABASE_ERROR'') (\<lambda>_.
     on_db (\<lambda>_. db)))"

definition mark_write_conflict :: "string \<Rightarrow> ws_db \<Rightarrow> ws_db" where
  "mark_write_conflict operation db =
     conflict_write operation
       (db\<lparr>journal := tbl_update (\<lambda>r. j_op r = operation) (\<lambda>r. r\<lparr>j_state := ''conflict''\<rparr>) (journal db),
           operations := tbl_update (\<lambda>r. op_id r = operation) (\<lambda>r. r\<lparr>op_state := ''conflict''\<rparr>) (operations db)\<rparr>)"

text \<open>The new content replaces the target: directories, a temporary file, the rename.\<close>

definition place_file :: "ws_env \<Rightarrow> string \<Rightarrow> string \<Rightarrow> string \<Rightarrow> unit ws_op" where
  "place_file E operation target content =
     bindS (create_dirs (ancestors target)) (\<lambda>_.
     bindS (io_step E ''temp'' operation ''FILESYSTEM_ERROR'') (\<lambda>_.
     bindS (io_step E ''persist'' operation ''ATOMIC_REPLACE_FAILED'') (\<lambda>_.
     bindS (on_disk (bt_insert target (RegFile content))) (\<lambda>_.
     io_step E ''sync_dir'' operation ''FILESYSTEM_ERROR''))))"

definition apply_stored_journal ::
  "ws_env \<Rightarrow> string \<Rightarrow> string \<Rightarrow> string \<Rightarrow> string \<Rightarrow> string \<Rightarrow> unit ws_op" where
  "apply_stored_journal E operation i path expected origin =
     bindS (readS (\<lambda>w. ok_or (payload_ref (ws_db w) operation) ''SYNC_SPOOL_CORRUPT'')) (\<lambda>(digest, sz).
     bindS (readS (\<lambda>_. require (0 \<le> sz \<and> sz \<le> int max_file) ''SYNC_SPOOL_CORRUPT'')) (\<lambda>_.
     bindS (sync_spool E digest) (\<lambda>spooled.
     bindS (io_step E ''read'' operation ''FILESYSTEM_ERROR'') (\<lambda>_.
     bindS (readS (\<lambda>w. open_verified E (ws_disk w) spooled digest (nat sz))) (\<lambda>content.
     bindS (readS (\<lambda>_. validate_record E content path (nat sz))) (\<lambda>_.
     bindS (readS (\<lambda>w. resolve (ws_disk w) path)) (\<lambda>target.
     bindS (readS (\<lambda>w. current_digest E (ws_disk w) target)) (\<lambda>current.
     if current \<noteq> expected \<and> current \<noteq> digest then
       bindS (commitS E operation (\<lambda>db. Inr (mark_write_conflict operation db))) (\<lambda>_.
       failS ''RECOVERY_CONFLICT'')
     else
       bindS (if current \<noteq> digest then place_file E operation target content else retS ()) (\<lambda>_.
       bindS (io_step E ''metadata'' operation ''FILESYSTEM_ERROR'') (\<lambda>_.
       commitS E operation (commit_write E operation i path expected origin digest (disk_identity E target))))))))))))"

definition apply_journal ::
  "ws_env \<Rightarrow> string \<Rightarrow> string \<Rightarrow> string \<Rightarrow> string \<Rightarrow> string \<Rightarrow> string \<Rightarrow> unit ws_op" where
  "apply_journal E operation i path expected content origin =
     bindS (readS (\<lambda>_. if is_record path then bindR (record_validate (serde E) path content) (\<lambda>_. Inr ()) else Inr ())) (\<lambda>_.
     bindS (store_payload E operation content) (\<lambda>_.
     apply_stored_journal E operation i path expected origin))"

section \<open>Renames and deletes\<close>

record alias_descendant =
  ad_file_id :: string
  ad_old_path :: string
  ad_new_path :: string
  ad_disk_identity :: "string option"

text \<open>The directory prefixes of the two spellings that name the same directory.\<close>

fun alias_prefixes :: "disk \<Rightarrow> string \<Rightarrow> string \<Rightarrow> (string \<times> string) list \<Rightarrow> string list result" where
  "alias_prefixes d old_prefix new_prefix [] = Inr []"
| "alias_prefixes d old_prefix new_prefix ((old, new) # rest) =
     (let o' = (if old_prefix = [] then old else old_prefix @ ''/'' @ old);
          n' = (if old_prefix = [] then new_prefix @ new else new_prefix @ ''/'' @ new) in
      bindR (if o' \<noteq> n' then paths_alias d o' n' else Inr False) (\<lambda>same.
      bindR (alias_prefixes d o' n' rest) (\<lambda>more.
      Inr (if same then (o' @ ''/'') # more else more))))"

fun alias_changes :: "ws_env \<Rightarrow> disk \<Rightarrow> string list \<Rightarrow> file_row list \<Rightarrow> alias_descendant list result" where
  "alias_changes E d aliases [] = Inr []"
| "alias_changes E d aliases (r # rs) =
     (if \<not> list_ex (\<lambda>prefix. starts_with prefix (f_path r)) aliases then alias_changes E d aliases rs
      else bindR (resolve d (f_path r)) (\<lambda>target.
        bindR (alias_changes E d aliases rs) (\<lambda>more.
        Inr (if disk_is_file d target \<and> target \<noteq> f_path r
             then \<lparr>ad_file_id = f_id r, ad_old_path = f_path r, ad_new_path = target,
                   ad_disk_identity = disk_identity E target\<rparr> # more
             else more))))"

definition alias_descendant_paths ::
  "ws_env \<Rightarrow> ws \<Rightarrow> string \<Rightarrow> string \<Rightarrow> string \<Rightarrow> alias_descendant list result" where
  "alias_descendant_paths E w source destination i =
     (let old_parts = split_on (CHR ''/'') source;
          new_parts = split_on (CHR ''/'') destination in
      bindR (alias_prefixes (ws_disk w) [] [] (take (length old_parts - 1) (zip old_parts new_parts))) (\<lambda>aliases.
      if aliases = [] then Inr []
      else alias_changes E (ws_disk w) aliases
        (filter (\<lambda>r. \<not> f_deleted r \<and> f_id r \<noteq> i) (files (ws_db w)))))"

definition retired_path :: "string \<Rightarrow> string" where
  "retired_path i = ''.ainote/retired/'' @ i"

text \<open>Tombstones of other files give up the destination path.\<close>

definition retire_path :: "string \<Rightarrow> string \<Rightarrow> ws_db \<Rightarrow> ws_db" where
  "retire_path path i db =
     db\<lparr>files := tbl_update (\<lambda>r. f_path r = path \<and> f_id r \<noteq> i \<and> f_deleted r)
       (\<lambda>r. r\<lparr>f_path := retired_path (f_id r)\<rparr>) (files db)\<rparr>"

definition move_row :: "string \<Rightarrow> string \<Rightarrow> ws_db \<Rightarrow> ws_db result" where
  "move_row i path db =
     bindR (require (\<not> list_ex (\<lambda>r. f_path r = path \<and> f_id r \<noteq> i) (files db) \<or> \<not> tbl_has f_id i (files db))
              ''DATABASE_ERROR'') (\<lambda>_.
     Inr (db\<lparr>files := tbl_update (\<lambda>r. f_id r = i)
       (\<lambda>r. r\<lparr>f_path := path, f_revision := f_revision r + 1\<rparr>) (files db)\<rparr>))"

definition queue_row :: "outbox_row \<Rightarrow> ws_db \<Rightarrow> ws_db result" where
  "queue_row r db =
     bindR (require (\<not> tbl_has ob_op (ob_op r) (outbox db)) ''DATABASE_ERROR'') (\<lambda>_.
     Inr (db\<lparr>outbox := outbox db @ [r]\<rparr>))"

definition queue_file :: "string \<Rightarrow> string \<Rightarrow> string \<Rightarrow> ws_db \<Rightarrow> ws_db result" where
  "queue_file operation kind i db =
     (case tbl_get f_id i (files db) of
        None \<Rightarrow> Inr db
      | Some r \<Rightarrow> queue_row
          \<lparr>ob_op = operation, ob_file_id = f_id r, ob_revision = f_revision r, ob_path = f_path r,
           ob_hash = (if kind = ''delete'' then [] else f_hash r), ob_operation = kind, ob_content = [],
           ob_state = ''pending''\<rparr> db)"

definition move_alias_descendant :: "string \<Rightarrow> alias_descendant \<Rightarrow> ws_db \<Rightarrow> ws_db result" where
  "move_alias_descendant origin a db =
     (let db1 = retire_path (ad_new_path a) (ad_file_id a) db;
          hit = list_ex (\<lambda>r. f_id r = ad_file_id a \<and> f_path r = ad_old_path a) (files db1) in
      bindR (require (\<not> hit \<or> \<not> list_ex (\<lambda>r. f_path r = ad_new_path a \<and> f_id r \<noteq> ad_file_id a) (files db1))
               ''DATABASE_ERROR'') (\<lambda>_.
      let db2 = db1\<lparr>files := tbl_update (\<lambda>r. f_id r = ad_file_id a \<and> f_path r = ad_old_path a)
            (\<lambda>r. r\<lparr>f_path := ad_new_path a, f_revision := f_revision r + 1\<rparr>) (files db1)\<rparr>;
          db3 = set_disk_identity (ad_file_id a) (ad_disk_identity a) db2 in
      Inr (if origin = ''remote''
           then db3\<lparr>sync_observed := tbl_update
             (\<lambda>r. sv_file_id r = ad_file_id a \<and> sv_path r = ad_old_path a \<and> \<not> sv_deleted r)
             (\<lambda>r. r\<lparr>sv_path := ad_new_path a\<rparr>) (sync_observed db3)\<rparr>
           else db3)))"

fun move_alias_descendants :: "string \<Rightarrow> alias_descendant list \<Rightarrow> ws_db \<Rightarrow> ws_db result" where
  "move_alias_descendants origin [] db = Inr db"
| "move_alias_descendants origin (a # rest) db =
     bindR (move_alias_descendant origin a db) (move_alias_descendants origin rest)"

definition commit_file_op ::
  "ws_env \<Rightarrow> file_op_row \<Rightarrow> entry \<Rightarrow> string option \<Rightarrow> alias_descendant list \<Rightarrow> ws_db \<Rightarrow> ws_db result" where
  "commit_file_op E op previous ident descendants db =
     (let i = en_file_id previous; operation = fo_id op; destination = fo_destination op in
      bindR (if fo_kind op = ''rename'' then
               bindR (move_row i destination (retire_path destination i db)) (\<lambda>db1.
               if fo_origin op = ''local'' then queue_file operation ''put'' i db1 else Inr db1)
             else
               let db1 = db\<lparr>files := tbl_update (\<lambda>r. f_id r = i)
                 (\<lambda>r. r\<lparr>f_deleted := True, f_revision := f_revision r + 1\<rparr>) (files db)\<rparr> in
               if fo_origin op = ''local'' then queue_file operation ''delete'' i db1 else Inr db1) (\<lambda>db2.
      let db3 = (if ident \<noteq> None \<or> fo_kind op = ''rename'' then set_disk_identity i ident db2 else db2) in
      bindR (move_alias_descendants (fo_origin op) descendants db3) (\<lambda>db4.
      let db5 = (case tbl_get f_id i (files db4) of
                   None \<Rightarrow> db4
                 | Some r \<Rightarrow> db4\<lparr>sync_observed := tbl_put sv_file_id
                     \<lparr>sv_file_id = i, sv_path = f_path r, sv_hash = f_hash r, sv_deleted = f_deleted r\<rparr>
                     (sync_observed db4)\<rparr>);
          db6 = db5\<lparr>file_ops := tbl_drop_key fo_id operation (file_ops db5)\<rparr>;
          result = (if fo_kind op = ''rename''
            then previous\<lparr>en_revision := en_revision previous + 1, en_path := destination\<rparr>
            else previous\<lparr>en_revision := en_revision previous + 1, en_deleted := True\<rparr>) in
      bindR (ok_or (enc_result E result (fo_hash op)) ''DATABASE_ERROR'') (\<lambda>text.
      Inr (finish_operation operation text db6)))))"

definition mark_file_op_conflict :: "string \<Rightarrow> ws_db \<Rightarrow> ws_db" where
  "mark_file_op_conflict i db =
     db\<lparr>file_ops := tbl_update (\<lambda>r. fo_id r = i) (\<lambda>r. r\<lparr>fo_state := ''conflict''\<rparr>) (file_ops db),
        operations := tbl_update (\<lambda>r. op_id r = i) (\<lambda>r. r\<lparr>op_state := ''conflict''\<rparr>) (operations db)\<rparr>"

text \<open>The copy to a target that must not exist.\<close>

definition place_new_file :: "ws_env \<Rightarrow> string \<Rightarrow> string \<Rightarrow> string \<Rightarrow> unit ws_op" where
  "place_new_file E operation target content =
     bindS (create_dirs (ancestors target)) (\<lambda>_.
     bindS (io_step E ''temp'' operation ''FILESYSTEM_ERROR'') (\<lambda>_.
     bindS (io_step E ''persist'' operation ''PATH_CONFLICT'') (\<lambda>_.
     bindS (readS (\<lambda>w. require (bt_get (ws_disk w) target = None) ''PATH_CONFLICT'')) (\<lambda>_.
     on_disk (bt_insert target (RegFile content))))))"

definition remove_source :: "ws_env \<Rightarrow> string \<Rightarrow> string \<Rightarrow> unit ws_op" where
  "remove_source E operation source =
     bindS (getS (\<lambda>w. bt_get (ws_disk w) source)) (\<lambda>node.
     bindS (readS (\<lambda>_. case node of Some (RegFile _) \<Rightarrow> Inr () | _ \<Rightarrow> Err ''FILESYSTEM_ERROR'')) (\<lambda>_.
     bindS (io_step E ''remove'' operation ''FILESYSTEM_ERROR'') (\<lambda>_.
     on_disk (bt_remove source))))"

definition trash_target :: "string \<Rightarrow> string ws_op" where
  "trash_target i =
     bindS (readS (\<lambda>w. require (\<not> (disk_exists (ws_disk w) ''.ainote/trash'' \<and> disk_linked (ws_disk w) ''.ainote/trash''))
              ''UNSAFE_PATH'')) (\<lambda>_.
     bindS (create_dirs [''.ainote'', ''.ainote/trash'']) (\<lambda>_.
     retS (trash_path i)))"

definition target_conflict :: "ws_env \<Rightarrow> disk \<Rightarrow> string \<Rightarrow> string \<Rightarrow> bool result" where
  "target_conflict E d target expected =
     (if \<not> disk_exists d target then Inr False
      else if disk_linked d target then Inr True
      else bindR (hash_file E d target) (\<lambda>h. Inr (h \<noteq> expected)))"

definition source_conflict :: "ws_env \<Rightarrow> disk \<Rightarrow> string \<Rightarrow> string \<Rightarrow> bool result" where
  "source_conflict E d source expected =
     (if disk_exists d source then bindR (hash_file E d source) (\<lambda>h. Inr (h \<noteq> expected)) else Inr False)"

definition apply_file_op :: "ws_env \<Rightarrow> string \<Rightarrow> unit ws_op" where
  "apply_file_op E i =
     bindS (readS (\<lambda>w. ok_or (tbl_get fo_id i (file_ops (ws_db w))) ''DATABASE_ERROR'')) (\<lambda>op.
     let expected = fo_hash op; renaming = (fo_kind op = ''rename'') in
     bindS (getS (\<lambda>w. payload_ref (ws_db w) i)) (\<lambda>known.
     bindS (if known = None then store_payload E i (fo_content op) else retS ()) (\<lambda>_.
     bindS (readS (\<lambda>w. ok_or (payload_ref (ws_db w) i) ''SYNC_SPOOL_CORRUPT'')) (\<lambda>(digest, sz).
     bindS (readS (\<lambda>_. require (digest = expected \<and> 0 \<le> sz \<and> sz \<le> int max_file) ''SYNC_SPOOL_CORRUPT'')) (\<lambda>_.
     bindS (sync_spool E digest) (\<lambda>spooled.
     bindS (io_step E ''read'' i ''FILESYSTEM_ERROR'') (\<lambda>_.
     bindS (readS (\<lambda>w. open_verified E (ws_disk w) spooled digest (nat sz))) (\<lambda>content.
     bindS (readS (\<lambda>w. resolve (ws_disk w) (fo_path op))) (\<lambda>source.
     bindS (readS (\<lambda>w. ok_or (entry_at (ws_db w) (fo_path op)) ''FILE_NOT_FOUND'')) (\<lambda>previous.
     bindS (readS (\<lambda>w. source_conflict E (ws_disk w) source expected)) (\<lambda>bad_source.
     bindS (if renaming then readS (\<lambda>w. resolve (ws_disk w) (fo_destination op)) else trash_target i) (\<lambda>target.
     bindS (readS (\<lambda>w. target_conflict E (ws_disk w) target expected)) (\<lambda>bad_target.
     if bad_source \<or> bad_target then
       bindS (commitS E i (\<lambda>db. Inr (mark_file_op_conflict i db))) (\<lambda>_. failS ''RECOVERY_CONFLICT'')
     else
       bindS (readS (\<lambda>w. if renaming then paths_alias (ws_disk w) (fo_path op) (fo_destination op) else Inr False)) (\<lambda>case_rename.
       bindS (getS (\<lambda>w. disk_exists (ws_disk w) target)) (\<lambda>there.
       bindS (if case_rename \<or> there then retS () else place_new_file E i target content) (\<lambda>_.
       bindS (getS (\<lambda>w. disk_exists (ws_disk w) source)) (\<lambda>left.
       bindS (if \<not> case_rename \<and> left then remove_source E i source else retS ()) (\<lambda>_.
       bindS (io_step E ''metadata'' i ''FILESYSTEM_ERROR'') (\<lambda>_.
       bindS (readS (\<lambda>w. if case_rename
                then alias_descendant_paths E w (fo_path op) (fo_destination op) (en_file_id previous)
                else Inr [])) (\<lambda>descendants.
       commitS E i (commit_file_op E op previous
         (if renaming then disk_identity E target else None) descendants)))))))))))))))))))))"

section \<open>Folders\<close>

definition below :: "string \<Rightarrow> string \<Rightarrow> bool" where
  "below root p \<longleftrightarrow> starts_with (root @ ''/'') p"

definition folder_file :: "string \<Rightarrow> string \<Rightarrow> bool" where
  "folder_file logical_root relative \<longleftrightarrow>
     path_extension relative \<noteq> None \<and>
     (ext_is relative [''md'', ''canvas'', ''png'', ''jpg'', ''jpeg'', ''gif'', ''webp''] \<or>
      is_experiment_file (logical_root @ ''/'' @ relative))"

fun folder_walk ::
  "ws_env \<Rightarrow> disk \<Rightarrow> string \<Rightarrow> string \<Rightarrow> (string \<times> disk_node) list \<Rightarrow> (string \<times> string) list \<Rightarrow>
     (string \<times> string) list result" where
  "folder_walk E d root logical_root [] values = Inr values"
| "folder_walk E d root logical_root ((p, node) # rest) values =
     (let relative = drop (length root + 1) p in
      if disk_linked d p \<or> (case file_name p of None \<Rightarrow> False | Some n \<Rightarrow> starts_with ''.'' n) then
        Err ''UNSAFE_FOLDER_CONTENT''
      else if node = DirNode then folder_walk E d root logical_root rest (bt_insert relative [] values)
      else if folder_file logical_root relative then
        bindR (hash_file E d p) (\<lambda>h. folder_walk E d root logical_root rest (bt_insert relative h values))
      else Err ''UNSUPPORTED_FOLDER_CONTENT'')"

definition directory_manifest_for ::
  "ws_env \<Rightarrow> disk \<Rightarrow> string \<Rightarrow> string \<Rightarrow> (string \<times> string) list result" where
  "directory_manifest_for E d root logical_root =
     folder_walk E d root logical_root (filter (\<lambda>e. below root (fst e)) d) []"

definition move_tree :: "string \<Rightarrow> string \<Rightarrow> disk \<Rightarrow> disk" where
  "move_tree source target d =
     fold (\<lambda>(p, node) acc. bt_insert (if p = source then target else target @ drop (length source) p) node acc)
       (filter (\<lambda>e. fst e = source \<or> below source (fst e)) d)
       (filter (\<lambda>e. \<not> (fst e = source \<or> below source (fst e))) d)"

definition abort_directory_op :: "ws_env \<Rightarrow> string \<Rightarrow> (string \<times> string \<times> string) list \<Rightarrow> unit ws_op" where
  "abort_directory_op E i ops =
     bindS (commitS E i (\<lambda>db. Inr (
       let ids = map fst ops in
       db\<lparr>file_ops := tbl_update (\<lambda>r. fo_id r \<in> set ids) (\<lambda>r. r\<lparr>fo_state := ''conflict''\<rparr>) (file_ops db),
          operations := tbl_update (\<lambda>r. op_id r \<in> set ids \<and> op_state r \<noteq> ''committed'')
            (\<lambda>r. r\<lparr>op_state := ''conflict''\<rparr>) (operations db),
          directory_ops := tbl_update (\<lambda>r. do_id r = i) (\<lambda>r. r\<lparr>do_state := ''conflict''\<rparr>) (directory_ops db)\<rparr>))) (\<lambda>_.
     failS ''RECOVERY_CONFLICT'')"

text \<open>The receipts of the files of a folder; \<open>True\<close> asks for the operation to be aborted.\<close>

fun apply_folder_files :: "ws_env \<Rightarrow> string list \<Rightarrow> bool ws_op" where
  "apply_folder_files E [] = retS False"
| "apply_folder_files E (i # rest) =
     bindS (readS (\<lambda>w. ok_or (map_option op_state (tbl_get op_id i (operations (ws_db w)))) ''DATABASE_ERROR'')) (\<lambda>state.
     if state = ''committed'' then apply_folder_files E rest
     else if state = ''conflict'' then retS True
     else (\<lambda>w. case apply_file_op E i w of
         (Inl e, w') \<Rightarrow> if err_code e = ''RECOVERY_CONFLICT'' then (Inr True, w') else (Inl e, w')
       | (Inr _, w') \<Rightarrow> apply_folder_files E rest w'))"

definition apply_directory_op :: "ws_env \<Rightarrow> string \<Rightarrow> unit ws_op" where
  "apply_directory_op E i =
     bindS (readS (\<lambda>w. ok_or (tbl_get do_id i (directory_ops (ws_db w))) ''DATABASE_ERROR'')) (\<lambda>op.
     bindS (readS (\<lambda>_. ok_or (dec_folder_manifest E (do_manifest op)) ''DATABASE_ERROR'')) (\<lambda>expected.
     bindS (readS (\<lambda>_. ok_or (dec_folder_ops E (do_operations op)) ''DATABASE_ERROR'')) (\<lambda>ops.
     if do_state op = ''preparing'' then abort_directory_op E i ops
     else
       let renaming = (do_kind op = ''rename'') in
       bindS (readS (\<lambda>w. resolve (ws_disk w) (do_path op))) (\<lambda>source.
       bindS (if renaming then readS (\<lambda>w. resolve (ws_disk w) (do_destination op))
              else trash_target (''folder-'' @ i)) (\<lambda>target.
       bindS (getS (\<lambda>w. disk_exists (ws_disk w) source)) (\<lambda>there.
       bindS (if there then
                bindS (readS (\<lambda>w.
                  if disk_exists (ws_disk w) target \<or> \<not> disk_is_dir (ws_disk w) source then Inr False
                  else bindR (directory_manifest_for E (ws_disk w) source source) (\<lambda>found. Inr (found = expected)))) (\<lambda>ok.
                if \<not> ok then retS True
                else
                  bindS (create_dirs (ancestors target)) (\<lambda>_.
                  bindS (io_step E ''rename'' i ''FILESYSTEM_ERROR'') (\<lambda>_.
                  bindS (on_disk (move_tree source target)) (\<lambda>_. retS False))))
              else retS False) (\<lambda>bad.
       if bad then abort_directory_op E i ops
       else
         bindS (readS (\<lambda>w.
           if \<not> disk_is_dir (ws_disk w) target \<or> disk_linked (ws_disk w) target then Inr False
           else bindR (directory_manifest_for E (ws_disk w) target (if renaming then do_destination op else do_path op))
             (\<lambda>found. Inr (found = expected)))) (\<lambda>ok.
         if \<not> ok then abort_directory_op E i ops
         else
           bindS (apply_folder_files E (map fst ops)) (\<lambda>conflict.
           if conflict then abort_directory_op E i ops
           else
             bindS (io_step E ''directory_done'' i ''DATABASE_ERROR'') (\<lambda>_.
             on_db (\<lambda>db. db\<lparr>directory_ops := tbl_drop_key do_id i (directory_ops db)\<rparr>)))))))))))"

section \<open>Recovery\<close>

text \<open>A conflict found while recovering is recorded and passed over; any other error stops.\<close>

definition tolerate :: "unit ws_op \<Rightarrow> unit ws_op" where
  "tolerate m w =
     (case m w of
        (Inl e, w') \<Rightarrow> if err_code e = ''RECOVERY_CONFLICT'' then (Inr (), w') else (Inl e, w')
      | (Inr u, w') \<Rightarrow> (Inr u, w'))"

fun each :: "('a \<Rightarrow> unit ws_op) \<Rightarrow> 'a list \<Rightarrow> unit ws_op" where
  "each f [] = retS ()"
| "each f (x # xs) = bindS (tolerate (f x)) (\<lambda>_. each f xs)"

definition recover_directory_ops :: "ws_env \<Rightarrow> unit ws_op" where
  "recover_directory_ops E =
     bindS (getS (\<lambda>w. map do_id (filter (\<lambda>r. do_state r \<noteq> ''conflict'') (directory_ops (ws_db w))))) (\<lambda>ids.
     each (apply_directory_op E) ids)"

definition pending_file_ops :: "ws_db \<Rightarrow> string list" where
  "pending_file_ops db = map fo_id (filter (\<lambda>r. fo_state r = ''pending'') (file_ops db))"

definition pending_journal :: "ws_db \<Rightarrow> journal_row list" where
  "pending_journal db = filter (\<lambda>r. j_state r = ''pending'') (journal db)"

definition recover_journal_row :: "ws_env \<Rightarrow> journal_row \<Rightarrow> unit ws_op" where
  "recover_journal_row E r =
     bindS (getS (\<lambda>w. payload_ref (ws_db w) (j_op r))) (\<lambda>known.
     if known \<noteq> None then
       apply_stored_journal E (j_op r) (j_file_id r) (j_path r) (j_expected r) (j_origin r)
     else apply_journal E (j_op r) (j_file_id r) (j_path r) (j_expected r) (j_content r) (j_origin r))"

definition ws_recover :: "ws_env \<Rightarrow> unit ws_op" where
  "ws_recover E =
     bindS (recover_directory_ops E) (\<lambda>_.
     bindS (getS (\<lambda>w. pending_file_ops (ws_db w))) (\<lambda>ids.
     bindS (each (apply_file_op E) ids) (\<lambda>_.
     bindS (getS (\<lambda>w. pending_journal (ws_db w))) (\<lambda>rows.
     each (recover_journal_row E) rows))))"

section \<open>Accepting operations\<close>

text \<open>
  \<open>write_source\<close>. The authorisation closure is asked twice, \<open>fresh\<close> is the identifier a new file
  gets.
\<close>

definition claim_path :: "string option \<Rightarrow> string \<Rightarrow> entry option ws_op" where
  "claim_path identity path =
     bindS (getS (\<lambda>w. entry_at (ws_db w) path)) (\<lambda>previous.
     case identity of
       None \<Rightarrow> retS previous
     | Some i \<Rightarrow>
         bindS (case previous of
                  Some p \<Rightarrow>
                    if en_deleted p \<and> en_file_id p \<noteq> i then
                      bindS (on_db (\<lambda>db. db\<lparr>files := tbl_update (\<lambda>r. f_id r = en_file_id p \<and> f_deleted r)
                        (\<lambda>r. r\<lparr>f_path := retired_path (en_file_id p)\<rparr>) (files db)\<rparr>)) (\<lambda>_. retS None)
                    else retS previous
                | None \<Rightarrow> retS None) (\<lambda>previous.
         if previous \<noteq> None then retS previous
         else
           bindS (getS (\<lambda>w. tbl_get f_id i (files (ws_db w)))) (\<lambda>retired.
           case retired of
             None \<Rightarrow> retS None
           | Some r \<Rightarrow>
               bindS (readS (\<lambda>_. require (f_deleted r) ''PATH_CONFLICT'')) (\<lambda>_.
               bindS (on_db (\<lambda>db. db\<lparr>files := tbl_update (\<lambda>x. f_id x = i \<and> f_deleted x)
                 (\<lambda>x. x\<lparr>f_path := path\<rparr>) (files db)\<rparr>)) (\<lambda>_.
               getS (\<lambda>w. entry_at (ws_db w) path))))))"

definition replay_write :: "ws_env \<Rightarrow> string \<Rightarrow> entry ws_op" where
  "replay_write E operation =
     bindS (ws_recover E) (\<lambda>_.
     bindS (readS (\<lambda>w. operation_of E (ws_db w) operation)) (\<lambda>receipt.
     bindS (readS (\<lambda>_. ok_or receipt ''DATABASE_ERROR'')) (\<lambda>(state, result).
     bindS (readS (\<lambda>_. require (state = ''committed'') ''RECOVERY_CONFLICT'')) (\<lambda>_.
     readS (\<lambda>_. ok_or result ''DATABASE_ERROR'')))))"

definition accept_write ::
  "ws_env \<Rightarrow> string \<Rightarrow> string \<Rightarrow> string \<Rightarrow> string \<Rightarrow> string \<Rightarrow> string \<Rightarrow> unit result \<Rightarrow> unit ws_op" where
  "accept_write E operation fp i path expected origin authorized =
     commitS E (''accept '' @ operation) (\<lambda>db.
       bindR (require (\<not> tbl_has op_id operation (operations db)) ''DATABASE_ERROR'') (\<lambda>_.
       bindR (require (\<not> tbl_has j_op operation (journal db)) ''DATABASE_ERROR'') (\<lambda>_.
       bindR authorized (\<lambda>_.
       Inr (db\<lparr>operations := operations db @
              [\<lparr>op_id = operation, op_fingerprint = fp, op_state = ''pending'', op_result = None\<rparr>],
            journal := journal db @
              [\<lparr>j_op = operation, j_file_id = i, j_path = path, j_expected = expected, j_content = [],
                j_origin = origin, j_state = ''pending''\<rparr>]\<rparr>)))))"

definition write_source ::
  "ws_env \<Rightarrow> string \<Rightarrow> string \<Rightarrow> string \<Rightarrow> write_payload \<Rightarrow> string \<Rightarrow> string \<Rightarrow> string option \<Rightarrow>
     (nat \<Rightarrow> unit result) \<Rightarrow> entry ws_op" where
  "write_source E fresh path expected content origin operation identity authorize =
     bindS (readS (\<lambda>_. authorize 0)) (\<lambda>_.
     bindS (readS (\<lambda>_. require (is_uuid_text E operation) ''OPERATION_ID_INVALID'')) (\<lambda>_.
     bindS (payload_validate E content path) (\<lambda>_.
     bindS (readS (\<lambda>_. require (origin = ''local'' \<or> origin = ''remote'') ''INVALID_ORIGIN'')) (\<lambda>_.
     let digest = payload_digest E content;
         fp = sha E (write_text E (path, expected, digest, origin)) in
     bindS (getS (\<lambda>w. tbl_get op_id operation (operations (ws_db w)))) (\<lambda>previous.
     case previous of
       Some row \<Rightarrow>
         bindS (readS (\<lambda>_. require (op_fingerprint row = fp) ''OPERATION_PAYLOAD_CONFLICT'')) (\<lambda>_.
         replay_write E operation)
     | None \<Rightarrow>
         bindS (readS (\<lambda>w. check_new_write E (ws_db w) (ws_vault_id w) operation path expected digest origin identity)) (\<lambda>_.
         bindS (readS (\<lambda>w. resolve (ws_disk w) path)) (\<lambda>target.
         bindS (readS (\<lambda>w. current_digest E (ws_disk w) target)) (\<lambda>current.
         bindS (readS (\<lambda>_. require (current = expected) ''REVISION_CONFLICT'')) (\<lambda>_.
         bindS (claim_path identity path) (\<lambda>prior.
         bindS (readS (\<lambda>_. require (\<not> (case identity of None \<Rightarrow> False
                  | Some i \<Rightarrow> (case prior of None \<Rightarrow> False | Some p \<Rightarrow> en_file_id p \<noteq> i))) ''PATH_CONFLICT'')) (\<lambda>_.
         let i = (case prior of Some p \<Rightarrow> en_file_id p
                  | None \<Rightarrow> (case identity of Some j \<Rightarrow> j | None \<Rightarrow> fresh)) in
         bindS (payload_store E content operation) (\<lambda>_.
         bindS (accept_write E operation fp i path expected origin (authorize 1)) (\<lambda>_.
         bindS (apply_stored_journal E operation i path expected origin) (\<lambda>_.
         readS (\<lambda>w. ok_or (entry_at (ws_db w) path) ''FILE_NOT_FOUND'')))))))))))))))"

definition prepare_file_op ::
  "ws_env \<Rightarrow> string \<Rightarrow> string \<Rightarrow> string \<Rightarrow> string \<Rightarrow> string \<Rightarrow> string \<Rightarrow> string ws_op" where
  "prepare_file_op E kind path destination expected i origin =
     bindS (readS (\<lambda>_. require (origin \<in> {''local'', ''remote''} \<and> kind \<in> {''rename'', ''delete''} \<and>
              is_uuid_text E i) ''INVALID_OPERATION'')) (\<lambda>_.
     let fp = sha E (file_op_text E (kind, path, destination, expected, origin)) in
     bindS (getS (\<lambda>w. tbl_get op_id i (operations (ws_db w)))) (\<lambda>previous.
     case previous of
       Some row \<Rightarrow>
         bindS (readS (\<lambda>_. require (op_fingerprint row = fp) ''OPERATION_PAYLOAD_CONFLICT'')) (\<lambda>_.
         bindS (ws_recover E) (\<lambda>_.
         bindS (readS (\<lambda>w. operation_of E (ws_db w) i)) (\<lambda>receipt.
         bindS (readS (\<lambda>_. require (case receipt of None \<Rightarrow> True | Some (state, _) \<Rightarrow> state \<noteq> ''conflict'')
                  ''RECOVERY_CONFLICT'')) (\<lambda>_.
         retS i))))
     | None \<Rightarrow>
         bindS (readS (\<lambda>w. if kind \<noteq> ''rename'' then Inr True
                  else bindR (resolve (ws_disk w) destination) (\<lambda>t.
                    if \<not> disk_exists (ws_disk w) t then Inr True
                    else if path = destination then Inr False
                    else paths_alias (ws_disk w) path destination))) (\<lambda>free.
         bindS (readS (\<lambda>_. require free ''PATH_CONFLICT'')) (\<lambda>_.
         bindS (readS (\<lambda>w. resolve (ws_disk w) path)) (\<lambda>source.
         bindS (readS (\<lambda>w. require (disk_is_file (ws_disk w) source) ''FILE_NOT_FOUND'')) (\<lambda>_.
         bindS (readS (\<lambda>w. hash_file E (ws_disk w) source)) (\<lambda>h.
         bindS (readS (\<lambda>_. require (h = expected) ''REVISION_CONFLICT'')) (\<lambda>_.
         bindS (readS (\<lambda>w. ok_or (entry_at (ws_db w) path) ''FILE_NOT_FOUND'')) (\<lambda>_.
         bindS (store_payload_file E i source expected) (\<lambda>_.
         bindS (commitS E (''accept '' @ i) (\<lambda>db.
             bindR (require (\<not> tbl_has op_id i (operations db) \<and> \<not> tbl_has fo_id i (file_ops db)) ''DATABASE_ERROR'') (\<lambda>_.
             Inr (db\<lparr>operations := operations db @
                    [\<lparr>op_id = i, op_fingerprint = fp, op_state = ''pending'', op_result = None\<rparr>],
                  file_ops := file_ops db @
                    [\<lparr>fo_id = i, fo_kind = kind, fo_path = path, fo_destination = destination, fo_hash = expected,
                      fo_content = [], fo_state = ''pending'', fo_origin = origin\<rparr>]\<rparr>)))) (\<lambda>_.
         retS i)))))))))))"

definition mutate_with_origin ::
  "ws_env \<Rightarrow> string \<Rightarrow> string \<Rightarrow> string \<Rightarrow> string \<Rightarrow> string \<Rightarrow> string \<Rightarrow> (string \<times> entry option) ws_op" where
  "mutate_with_origin E kind path destination expected operation origin =
     bindS (prepare_file_op E kind path destination expected operation origin) (\<lambda>i.
     bindS (readS (\<lambda>w. operation_of E (ws_db w) i)) (\<lambda>receipt.
     if (case receipt of None \<Rightarrow> False | Some (state, _) \<Rightarrow> state = ''committed'') then
       readS (\<lambda>w. bindR (operation_of E (ws_db w) i) (\<lambda>r. ok_or r ''DATABASE_ERROR''))
     else
       bindS (apply_file_op E i) (\<lambda>_.
       readS (\<lambda>w. bindR (operation_of E (ws_db w) i) (\<lambda>r. ok_or r ''DATABASE_ERROR'')))))"

definition ws_rename :: "ws_env \<Rightarrow> string \<Rightarrow> string \<Rightarrow> string \<Rightarrow> string \<Rightarrow> entry ws_op" where
  "ws_rename E fresh path destination expected =
     bindS (prepare_file_op E ''rename'' path destination expected fresh ''local'') (\<lambda>i.
     bindS (apply_file_op E i) (\<lambda>_.
     readS (\<lambda>w. ok_or (entry_at (ws_db w) destination) ''FILE_NOT_FOUND'')))"

definition ws_delete :: "ws_env \<Rightarrow> string \<Rightarrow> string \<Rightarrow> string \<Rightarrow> unit ws_op" where
  "ws_delete E fresh path expected =
     bindS (prepare_file_op E ''delete'' path [] expected fresh ''local'') (apply_file_op E)"

end
