(* ===== verification/Workspace_Safety.thy ===== *)
theory Workspace_Safety
  imports Workspace_Store
begin

text \<open>
  What recovery and the write path never do: replace or remove content that no pending
  operation expected to find. The statements hold whichever steps of input and output fail.
\<close>

section \<open>Keeping a property step by step\<close>

definition keeps :: "(ws \<Rightarrow> bool) \<Rightarrow> 'a ws_op \<Rightarrow> ws \<Rightarrow> bool" where
  "keeps I m w \<longleftrightarrow> (I w \<longrightarrow> I (snd (m w)))"

lemma keepsD: "keeps I m w \<Longrightarrow> I w \<Longrightarrow> m w = (r, w') \<Longrightarrow> I w'"
  by (simp add: keeps_def)

lemma keeps_bind_read:
  "(\<And>x. I w \<Longrightarrow> f w = Inr x \<Longrightarrow> keeps I (k x) w) \<Longrightarrow> keeps I (bindS (readS f) k) w"
  by (auto simp: keeps_def op_run split: sum.splits)

lemma keeps_bind_get: "keeps I (k (g w)) w \<Longrightarrow> keeps I (bindS (getS g) k) w"
  by (simp add: keeps_def op_run)

lemma keeps_bind:
  assumes "keeps I m w" and "\<And>x w'. m w = (Inr x, w') \<Longrightarrow> I w' \<Longrightarrow> keeps I (k x) w'"
  shows "keeps I (bindS m k) w"
proof (cases "m w")
  case (Pair r w')
  then show ?thesis using assms by (cases r) (auto simp: keeps_def bindS_def)
qed

lemma keeps_basic:
  "keeps I (retS x) w" "keeps I (failS c) w" "keeps I (readS f) w" "keeps I (getS g) w"
  "keeps I (io_step E l i code) w"
  by (simp_all add: keeps_def io_step_def op_run)

lemma keeps_if: "(b \<Longrightarrow> keeps I m w) \<Longrightarrow> (\<not> b \<Longrightarrow> keeps I n w) \<Longrightarrow> keeps I (if b then m else n) w"
  by simp

lemma keeps_prod: "(\<And>a b. x = (a, b) \<Longrightarrow> keeps I (k a b) w) \<Longrightarrow> keeps I (case x of (a, b) \<Rightarrow> k a b) w"
  by (cases x) auto

lemma keeps_option:
  "(x = None \<Longrightarrow> keeps I m w) \<Longrightarrow> (\<And>v. x = Some v \<Longrightarrow> keeps I (k v) w) \<Longrightarrow>
     keeps I (case x of None \<Rightarrow> m | Some v \<Rightarrow> k v) w"
  by (cases x) auto

lemma keeps_tolerate: "keeps I m w \<Longrightarrow> keeps I (tolerate m) w"
  by (auto simp: keeps_def tolerate_def split: prod.splits sum.splits)

lemmas keep_rules = keeps_bind_read keeps_bind_get keeps_basic keeps_if keeps_prod keeps_option
  keeps_bind keeps_tolerate

lemma keeps_each:
  assumes "\<And>x w. x \<in> set xs \<Longrightarrow> keeps I (f x) w"
  shows "keeps I (each f xs) w"
  using assms
proof (induction xs arbitrary: w)
  case (Cons x xs)
  show ?case unfolding each.simps
    by (rule keeps_bind) (use Cons in \<open>auto intro: keeps_tolerate\<close>)
qed (simp add: keeps_basic)

section \<open>Content of a file\<close>

definition holds :: "string \<Rightarrow> string \<Rightarrow> ws \<Rightarrow> bool" where
  "holds q c w \<longleftrightarrow> bt_get (ws_disk w) q = Some (RegFile c)"

lemma keep_create_dirs: "keeps (holds q c) (create_dirs ps) w"
  using make_dirs_get [of ps "ws_disk w" _ q]
  by (auto simp: keeps_def holds_def create_dirs_def op_run split: sum.splits)

lemma keep_on_db: "keeps (holds q c) (on_db f) w"
  by (simp add: keeps_def holds_def on_db_def op_run)

lemma keep_commitS: "keeps (holds q c) (commitS E i f) w"
  unfolding commitS_def by ((rule keep_rules keep_on_db)+)

lemma keep_insert_other: "q \<noteq> target \<Longrightarrow> keeps (holds q c) (on_disk (bt_insert target node)) w"
  by (simp add: keeps_def holds_def on_disk_def op_run)

lemma keep_insert_new:
  "bt_get (ws_disk w) target = None \<Longrightarrow> keeps (holds q c) (on_disk (bt_insert target node)) w"
  by (auto simp: keeps_def holds_def on_disk_def op_run)

lemma keep_remove: "q \<noteq> source \<Longrightarrow> keeps (holds q c) (on_disk (bt_remove source)) w"
  by (simp add: keeps_def holds_def on_disk_def op_run)

lemmas keep_holds = keep_rules keep_create_dirs keep_on_db keep_commitS

lemma keep_sync_spool: "keeps (holds q c) (sync_spool E digest) w"
  unfolding sync_spool_def by ((rule keep_holds)+)

lemma keep_spool_put: "keeps (holds q c) (spool_put E operation digest content) w"
  unfolding spool_put_def spool_write_def
  by ((rule keep_sync_spool keep_holds)+) (auto intro: keep_insert_new)

lemma keep_register: "keeps (holds q c) (register_payload operation digest sz) w"
  unfolding register_payload_def by ((rule keep_holds)+)

lemma keep_store_payload: "keeps (holds q c) (store_payload E operation content) w"
  unfolding store_payload_def by ((rule keep_spool_put keep_register keep_holds)+)

lemma keep_trash_target: "keeps (holds q c) (trash_target i) w"
  unfolding trash_target_def by ((rule keep_holds)+)

lemma holds_exists: "holds q c w \<Longrightarrow> disk_exists (ws_disk w) q"
  by (simp add: disk_exists_def holds_def)

lemma holds_hash: "holds q c w \<Longrightarrow> hash_file E (ws_disk w) q = Inr h \<Longrightarrow> h = sha E c"
  by (auto simp: hash_file_def holds_def split: if_splits)

lemma keep_place_file:
  "q \<noteq> target \<Longrightarrow> keeps (holds q c) (place_file E operation target content) w"
  unfolding place_file_def by ((rule keep_insert_other keep_holds | assumption)+)

lemma keep_place_new_file: "keeps (holds q c) (place_new_file E operation target content) w"
  unfolding place_new_file_def by ((rule keep_holds)+) (auto intro: keep_insert_new)

lemma keep_remove_source: "q \<noteq> source \<Longrightarrow> keeps (holds q c) (remove_source E operation source) w"
  unfolding remove_source_def by ((rule keep_remove keep_holds | assumption)+)

text \<open>Completing a write touches content only where its digest was the expected one.\<close>

lemma keep_apply_stored_journal:
  assumes "expected \<noteq> sha E c"
  shows "keeps (holds q c) (apply_stored_journal E operation i path expected origin) w"
proof -
  have step: "keeps (holds q c) (if current \<noteq> digest then place_file E operation target content else retS ()) w'"
    if "holds q c w'" "current_digest E (ws_disk w') target = Inr current"
       "\<not> (current \<noteq> expected \<and> current \<noteq> digest)" for w' current target content digest
  proof (cases "q = target")
    case True
    then have "current = sha E c"
      using that holds_exists holds_hash by (auto simp: current_digest_def split: if_splits)
    with assms that show ?thesis by (auto simp: keeps_basic)
  next
    case False
    then show ?thesis by (auto simp: keeps_basic intro: keep_place_file)
  qed
  show ?thesis
    unfolding apply_stored_journal_def
    by (rule keep_sync_spool keep_commitS step keep_holds | assumption)+
qed

lemma keep_apply_journal:
  "expected \<noteq> sha E c \<Longrightarrow> keeps (holds q c) (apply_journal E operation i path expected content origin) w"
  unfolding apply_journal_def
  by (rule keep_store_payload keep_apply_stored_journal keep_holds | assumption)+

lemma source_conflict_holds:
  "holds q c w \<Longrightarrow> source_conflict E (ws_disk w) q expected = Inr b \<Longrightarrow> b \<longleftrightarrow> sha E c \<noteq> expected"
  using holds_exists [of q c w] holds_hash [of q c w E] by (auto simp: source_conflict_def bindR_Inr_iff)

lemma keep_apply_file_op:
  assumes "\<And>op. tbl_get fo_id i (file_ops (ws_db w)) = Some op \<Longrightarrow> fo_hash op \<noteq> sha E c"
  shows "keeps (holds q c) (apply_file_op E i) w"
proof -
  have away: "q \<noteq> source" if "holds q c w'" "source_conflict E (ws_disk w') source (fo_hash op) = Inr b"
      "\<not> (b \<or> b')" "tbl_get fo_id i (file_ops (ws_db w)) = Some op" for w' source b b' op
    using source_conflict_holds [of q c w' E "fo_hash op" b] that assms by auto
  have target: "keeps (holds q c) (if b then readS f else trash_target i) w'" for b f w'
    by (auto simp: keeps_basic intro: keep_trash_target)
  show ?thesis
    unfolding apply_file_op_def Let_def
    apply (rule keeps_bind_read)
    apply (rule keep_sync_spool keep_commitS keep_store_payload keep_place_new_file target keep_holds)+
     apply (rule keep_remove_source, erule (1) away, assumption)
     apply simp
    apply (rule keep_holds)+
    done
qed

section \<open>What operations do to the pending work\<close>

definition db_holds :: "(ws_db \<Rightarrow> bool) \<Rightarrow> ws \<Rightarrow> bool" where
  "db_holds J w \<longleftrightarrow> J (ws_db w)"

lemma db_create_dirs: "keeps (db_holds J) (create_dirs ps) w"
  by (auto simp: keeps_def db_holds_def create_dirs_def op_run split: sum.splits)

lemma db_on_disk: "keeps (db_holds J) (on_disk f) w"
  by (simp add: keeps_def db_holds_def on_disk_def op_run)

lemma db_on_db: "(\<And>db. J db \<Longrightarrow> J (f db)) \<Longrightarrow> keeps (db_holds J) (on_db f) w"
  by (simp add: keeps_def db_holds_def on_db_def op_run)

lemma db_commitS:
  assumes "\<And>db db'. J db \<Longrightarrow> f db = Inr db' \<Longrightarrow> J db'"
  shows "keeps (db_holds J) (commitS E i f) w"
  using assms
  by (auto simp: keeps_def db_holds_def commitS_def on_db_def io_step_def op_run bindS_def split: sum.splits)

lemmas db_rules = keep_rules db_create_dirs db_on_disk

lemma db_sync_spool: "keeps (db_holds J) (sync_spool E digest) w"
  unfolding sync_spool_def by ((rule db_rules)+)

lemma db_spool_put: "keeps (db_holds J) (spool_put E operation digest content) w"
  unfolding spool_put_def spool_write_def by ((rule db_sync_spool db_rules)+)

lemma db_trash_target: "keeps (db_holds J) (trash_target i) w"
  unfolding trash_target_def by ((rule db_rules)+)

lemma db_place_file: "keeps (db_holds J) (place_file E operation target content) w"
  unfolding place_file_def by ((rule db_rules)+)

lemma db_place_new_file: "keeps (db_holds J) (place_new_file E operation target content) w"
  unfolding place_new_file_def by ((rule db_rules)+)

lemma db_remove_source: "keeps (db_holds J) (remove_source E operation source) w"
  unfolding remove_source_def by ((rule db_rules)+)

lemmas db_disk_rules = db_sync_spool db_spool_put db_trash_target db_place_file db_place_new_file
  db_remove_source

text \<open>No pending work of the database is about content with digest \<open>h\<close>.\<close>

definition unexpected :: "string set \<Rightarrow> string \<Rightarrow> ws_db \<Rightarrow> bool" where
  "unexpected S h db \<longleftrightarrow>
     (\<forall>r \<in> set (file_ops db). fo_id r \<in> S \<longrightarrow> fo_hash r \<noteq> h) \<and>
     (\<forall>r \<in> set (journal db). j_state r = ''pending'' \<longrightarrow> j_expected r \<noteq> h)"

lemma unexpected_same:
  "unexpected S h db \<Longrightarrow> file_ops db' = file_ops db \<Longrightarrow> journal db' = journal db \<Longrightarrow> unexpected S h db'"
  by (simp add: unexpected_def)

lemma unexpected_subset:
  "unexpected S h db \<Longrightarrow> set (file_ops db') \<subseteq> set (file_ops db) \<Longrightarrow> set (journal db') \<subseteq> set (journal db) \<Longrightarrow>
     unexpected S h db'"
  by (auto simp: unexpected_def)

lemma complete_write_tables:
  "complete_write E i en db = Inr db' \<Longrightarrow>
     file_ops db' = file_ops db \<and> journal db' = journal db \<and> files db' = files db \<and>
     operations db' = operations db \<and> outbox db' = outbox db \<and> payloads db' = payloads db \<and>
     sync_observed db' = sync_observed db \<and> directory_ops db' = directory_ops db"
proof -
  assume c: "complete_write E i en db = Inr db'"
  have "db' = db \<or> (\<exists>encoded k rec. db' = settle_import i encoded k rec db)"
  proof (cases "import_item_of db i")
    case None
    with c show ?thesis by (simp add: complete_write_def)
  next
    case (Some it)
    with c show ?thesis unfolding complete_write_def Let_def by (auto simp only: option.case bindR_Inr_iff sum.inject)
  qed
  then show ?thesis by (elim disjE exE) (simp_all add: settle_import_def Let_def)
qed

lemma conflict_write_tables:
  "file_ops (conflict_write i db) = file_ops db" "journal (conflict_write i db) = journal db"
  "operations (conflict_write i db) = operations db" "directory_ops (conflict_write i db) = directory_ops db"
  by (simp_all add: conflict_write_def Let_def split: option.splits)

lemma files_upsert_tables:
  "files_upsert i path digest db = Inr db' \<Longrightarrow>
     db' = db\<lparr>files := files db'\<rparr>"
  by (auto simp: files_upsert_def split: if_splits)

lemma stage_write_tables:
  "stage_write operation i path origin digest ident db =
     db\<lparr>file_disk_identity := file_disk_identity (stage_write operation i path origin digest ident db),
        sync_observed := sync_observed (stage_write operation i path origin digest ident db),
        outbox := outbox (stage_write operation i path origin digest ident db)\<rparr>"
  by (simp add: stage_write_def Let_def queue_put_def set_disk_identity_def split: option.splits)

lemma stage_write_same:
  "file_ops (stage_write operation i path origin digest ident db) = file_ops db"
  "journal (stage_write operation i path origin digest ident db) = journal db"
  "directory_ops (stage_write operation i path origin digest ident db) = directory_ops db"
  "payloads (stage_write operation i path origin digest ident db) = payloads db"
  "files (stage_write operation i path origin digest ident db) = files db"
  "operations (stage_write operation i path origin digest ident db) = operations db"
  "experiment_import_items (stage_write operation i path origin digest ident db) = experiment_import_items db"
  by (subst stage_write_tables, simp)+

lemma commit_write_Inr:
  "commit_write E operation i path expected origin digest ident db = Inr db' \<longleftrightarrow>
     (\<exists>db1 en db5 result. files_upsert i path digest db = Inr db1 \<and>
        entry_at (stage_write operation i path origin digest ident db1) path = Some en \<and>
        complete_write E operation en (stage_write operation i path origin digest ident db1) = Inr db5 \<and>
        enc_result E en expected = Some result \<and>
        db' = (finish_operation operation result db5)
          \<lparr>journal := tbl_drop_key j_op operation (journal (finish_operation operation result db5))\<rparr>)"
  by (auto simp: commit_write_def bindR_Inr_iff Let_def)

lemma commit_write_tables:
  assumes "commit_write E operation i path expected origin digest ident db = Inr db'"
  shows "file_ops db' = file_ops db" "journal db' = tbl_drop_key j_op operation (journal db)"
    "directory_ops db' = directory_ops db" "payloads db' = payloads db"
proof -
  from assms obtain db1 en db5 result where
      1: "files_upsert i path digest db = Inr db1" and
      5: "complete_write E operation en (stage_write operation i path origin digest ident db1) = Inr db5" and
      r: "db' = (finish_operation operation result db5)
            \<lparr>journal := tbl_drop_key j_op operation (journal (finish_operation operation result db5))\<rparr>"
    unfolding commit_write_Inr by blast
  have up: "file_ops db1 = file_ops db" "journal db1 = journal db" "directory_ops db1 = directory_ops db"
    "payloads db1 = payloads db"
    by (subst files_upsert_tables [OF 1], simp)+
  show "file_ops db' = file_ops db" "journal db' = tbl_drop_key j_op operation (journal db)"
    "directory_ops db' = directory_ops db" "payloads db' = payloads db"
    using complete_write_tables [OF 5] by (simp_all add: r finish_operation_def up stage_write_same)
qed

lemma unexpected_commit_write:
  "unexpected S h db \<Longrightarrow> commit_write E operation i path expected origin digest ident db = Inr db' \<Longrightarrow>
     unexpected S h db'"
  using commit_write_tables(1,2) [of E operation i path expected origin digest ident db db']
  by (elim unexpected_subset) (auto simp: tbl_drop_key_def)

lemma unexpected_mark_write:
  "unexpected S h db \<Longrightarrow> unexpected S h (mark_write_conflict operation db)"
  by (auto simp: unexpected_def mark_write_conflict_def conflict_write_tables dest!: tbl_update_in split: if_splits)

lemma db_register_unexpected: "keeps (db_holds (unexpected S h)) (register_payload operation digest sz) w"
  unfolding register_payload_def
  by (rule db_rules | rule db_on_db, erule unexpected_same)+ simp_all

lemma db_store_unexpected: "keeps (db_holds (unexpected S h)) (store_payload E operation content) w"
  unfolding store_payload_def by ((rule db_disk_rules db_register_unexpected db_rules)+)

lemma db_write_unexpected:
  "keeps (db_holds (unexpected S h)) (apply_stored_journal E operation i path expected origin) w"
proof -
  have mark: "keeps (db_holds (unexpected S h)) (commitS E operation (\<lambda>db. Inr (mark_write_conflict operation db))) w'" for w'
    by (rule db_commitS) (auto intro: unexpected_mark_write)
  have commit: "keeps (db_holds (unexpected S h))
      (commitS E operation (commit_write E operation i path expected origin digest ident)) w'" for w' digest ident
    by (rule db_commitS) (rule unexpected_commit_write)
  show ?thesis
    unfolding apply_stored_journal_def by ((rule mark commit db_disk_rules db_rules)+)
qed

text \<open>The tables of pending work are untouched by the steps of a rename or delete.\<close>

definition same_work :: "ws_db \<Rightarrow> ws_db \<Rightarrow> bool" where
  "same_work db db' \<longleftrightarrow> file_ops db' = file_ops db \<and> journal db' = journal db \<and> directory_ops db' = directory_ops db"

lemma same_work_trans: "same_work a b \<Longrightarrow> same_work b c \<Longrightarrow> same_work a c"
  by (simp add: same_work_def)

lemma same_work_retire: "same_work db (retire_path path i db)"
  by (simp add: same_work_def retire_path_def)

lemma same_work_move_row: "move_row i path db = Inr db' \<Longrightarrow> same_work db db'"
  by (auto simp: same_work_def move_row_def bindR_Inr_iff)

lemma same_work_queue: "queue_file operation kind i db = Inr db' \<Longrightarrow> same_work db db'"
  by (auto simp: same_work_def queue_file_def queue_row_def bindR_Inr_iff split: option.splits)

lemma same_work_identity: "same_work db (set_disk_identity i v db)"
  by (simp add: same_work_def set_disk_identity_def split: option.splits)

lemma same_work_alias:
  assumes "move_alias_descendant origin a db = Inr db'" shows "same_work db db'"
proof -
  let ?db1 = "retire_path (ad_new_path a) (ad_file_id a) db"
  let ?db2 = "?db1\<lparr>files := tbl_update (\<lambda>r. f_id r = ad_file_id a \<and> f_path r = ad_old_path a)
            (\<lambda>r. r\<lparr>f_path := ad_new_path a, f_revision := f_revision r + 1\<rparr>) (files ?db1)\<rparr>"
  have "same_work db ?db1" by (rule same_work_retire)
  moreover have "same_work ?db1 ?db2" by (simp add: same_work_def)
  moreover have "same_work ?db2 (set_disk_identity (ad_file_id a) (ad_disk_identity a) ?db2)"
    by (rule same_work_identity)
  moreover have "same_work (set_disk_identity (ad_file_id a) (ad_disk_identity a) ?db2) db'"
    using assms by (auto simp: move_alias_descendant_def Let_def bindR_Inr_iff same_work_def split: if_splits)
  ultimately show ?thesis by (blast intro: same_work_trans)
qed

lemma same_work_aliases: "move_alias_descendants origin as db = Inr db' \<Longrightarrow> same_work db db'"
proof (induction origin as db arbitrary: db' rule: move_alias_descendants.induct)
  case (2 origin a rest db)
  then show ?case using same_work_alias same_work_trans by (fastforce simp: bindR_Inr_iff)
qed (simp add: same_work_def)

lemma commit_file_op_tables:
  assumes "commit_file_op E op previous ident descendants db = Inr db'"
  shows "file_ops db' = tbl_drop_key fo_id (fo_id op) (file_ops db)" "journal db' = journal db"
    "directory_ops db' = directory_ops db"
proof -
  let ?i = "en_file_id previous"
  let ?del = "db\<lparr>files := tbl_update (\<lambda>r. f_id r = ?i)
                 (\<lambda>r. r\<lparr>f_deleted := True, f_revision := f_revision r + 1\<rparr>) (files db)\<rparr>"
  from assms obtain db2 db4 result where
    2: "(if fo_kind op = ''rename'' then
               bindR (move_row ?i (fo_destination op) (retire_path (fo_destination op) ?i db)) (\<lambda>db1.
               if fo_origin op = ''local'' then queue_file (fo_id op) ''put'' ?i db1 else Inr db1)
             else if fo_origin op = ''local'' then queue_file (fo_id op) ''delete'' ?i ?del else Inr ?del) = Inr db2" and
    4: "move_alias_descendants (fo_origin op) descendants
         (if ident \<noteq> None \<or> fo_kind op = ''rename'' then set_disk_identity ?i ident db2 else db2) = Inr db4" and
    f: "db' = finish_operation (fo_id op) result
         ((case tbl_get f_id ?i (files db4) of
                   None \<Rightarrow> db4
                 | Some r \<Rightarrow> db4\<lparr>sync_observed := tbl_put sv_file_id
                     \<lparr>sv_file_id = ?i, sv_path = f_path r, sv_hash = f_hash r, sv_deleted = f_deleted r\<rparr>
                     (sync_observed db4)\<rparr>)\<lparr>file_ops := tbl_drop_key fo_id (fo_id op) (file_ops
          (case tbl_get f_id ?i (files db4) of
                   None \<Rightarrow> db4
                 | Some r \<Rightarrow> db4\<lparr>sync_observed := tbl_put sv_file_id
                     \<lparr>sv_file_id = ?i, sv_path = f_path r, sv_hash = f_hash r, sv_deleted = f_deleted r\<rparr>
                     (sync_observed db4)\<rparr>))\<rparr>)"
    unfolding commit_file_op_def Let_def by (auto simp only: bindR_Inr_iff sum.inject)
  have del: "same_work db ?del" by (simp add: same_work_def)
  have "same_work db db2"
  proof (cases "fo_kind op = ''rename''")
    case True
    with 2 obtain db1 where m: "move_row ?i (fo_destination op) (retire_path (fo_destination op) ?i db) = Inr db1"
      and q: "(if fo_origin op = ''local'' then queue_file (fo_id op) ''put'' ?i db1 else Inr db1) = Inr db2"
      by (auto simp: bindR_Inr_iff)
    have "same_work db db1" by (rule same_work_trans [OF same_work_retire same_work_move_row [OF m]])
    moreover have "same_work db1 db2"
      using q same_work_queue [of "fo_id op" "''put''" ?i db1 db2] by (auto simp: same_work_def split: if_splits)
    ultimately show ?thesis by (rule same_work_trans)
  next
    case False
    with 2 have "?del = db2 \<or> same_work ?del db2"
      using same_work_queue [of "fo_id op" "''delete''" ?i ?del db2] by (simp split: if_splits)
    with del show ?thesis using same_work_trans by blast
  qed
  moreover have "same_work db2 db4"
    using same_work_aliases [OF 4] same_work_identity [of db2 ?i ident]
    by (auto simp only: split: if_splits intro: same_work_trans)
  ultimately have w: "same_work db db4" by (rule same_work_trans)
  show "file_ops db' = tbl_drop_key fo_id (fo_id op) (file_ops db)" "journal db' = journal db"
    "directory_ops db' = directory_ops db"
    using w by (simp_all add: f finish_operation_def same_work_def split: option.splits)
qed

lemma unexpected_commit_file_op:
  "unexpected S h db \<Longrightarrow> commit_file_op E op previous ident descendants db = Inr db' \<Longrightarrow> unexpected S h db'"
  using commit_file_op_tables(1,2) [of E op previous ident descendants db db']
  by (elim unexpected_subset) (auto simp: tbl_drop_key_def)

lemma unexpected_mark_file_op: "unexpected S h db \<Longrightarrow> unexpected S h (mark_file_op_conflict i db)"
  by (auto simp: unexpected_def mark_file_op_conflict_def dest!: tbl_update_in split: if_splits)

lemma db_file_op_unexpected: "keeps (db_holds (unexpected S h)) (apply_file_op E i) w"
proof -
  have mark: "keeps (db_holds (unexpected S h)) (commitS E i (\<lambda>db. Inr (mark_file_op_conflict i db))) w'" for w'
    by (rule db_commitS) (auto intro: unexpected_mark_file_op)
  have commit: "keeps (db_holds (unexpected S h)) (commitS E i (commit_file_op E op previous ident descendants)) w'"
    for w' op previous ident descendants
    by (rule db_commitS) (rule unexpected_commit_file_op)
  show ?thesis
    unfolding apply_file_op_def Let_def
    by ((rule mark commit db_store_unexpected db_disk_rules db_rules)+)
qed

lemma db_recover_row_unexpected: "keeps (db_holds (unexpected S h)) (recover_journal_row E r) w"
  unfolding recover_journal_row_def apply_journal_def
  by ((rule db_write_unexpected db_store_unexpected db_rules)+)

section \<open>Recovery keeps what nobody expected\<close>

lemma keeps_conj:
  assumes "I w \<Longrightarrow> keeps J m w" "keeps I m w"
  shows "keeps (\<lambda>w. I w \<and> J w) m w"
  using assms by (auto simp: keeps_def)

lemma recover_directory_idle:
  "\<forall>r \<in> set (directory_ops (ws_db w)). do_state r = ''conflict'' \<Longrightarrow> recover_directory_ops E w = (Inr (), w)"
  by (simp add: recover_directory_ops_def op_run filter_empty_conv)

lemma keep_file_ops_stage:
  "keeps (\<lambda>w. db_holds (unexpected (set ids) (sha E c)) w \<and> holds q c w) (each (apply_file_op E) ids) w"
proof (rule keeps_each)
  fix i w' assume i: "i \<in> set ids"
  show "keeps (\<lambda>w. db_holds (unexpected (set ids) (sha E c)) w \<and> holds q c w) (apply_file_op E i) w'"
  proof (rule keeps_conj)
    assume u: "db_holds (unexpected (set ids) (sha E c)) w'"
    show "keeps (holds q c) (apply_file_op E i) w'"
      using u i by (intro keep_apply_file_op)
        (auto simp: db_holds_def unexpected_def dest: tbl_get_SomeD)
  qed (rule db_file_op_unexpected)
qed

lemma keep_journal_stage:
  assumes "\<forall>r \<in> set rows. j_expected r \<noteq> sha E c"
  shows "keeps (holds q c) (each (recover_journal_row E) rows) w"
  using assms
  by (intro keeps_each)
     (auto simp: recover_journal_row_def intro!: keeps_bind_get keep_apply_stored_journal keep_apply_journal)

text \<open>
  C22. Recovery never destroys an external edit. Whatever steps of input and output fail while
  the vault recovers, a file keeps its content unless some pending operation was accepted for
  exactly that content: if no pending write expects the content's digest and no pending rename
  or delete names it, the file is there afterwards with the same bytes. (No folder operation is
  under way.)
\<close>

theorem recover_keeps_external_edits:
  assumes "bt_get (ws_disk w) q = Some (RegFile c)"
    and "\<forall>r \<in> set (pending_journal (ws_db w)). j_expected r \<noteq> sha E c"
    and "\<forall>r \<in> set (file_ops (ws_db w)). fo_state r = ''pending'' \<longrightarrow> fo_hash r \<noteq> sha E c"
    and "tbl_unique fo_id (file_ops (ws_db w))"
    and "\<forall>r \<in> set (directory_ops (ws_db w)). do_state r = ''conflict''"
    and "ws_recover E w = (res, w')"
  shows "bt_get (ws_disk w') q = Some (RegFile c)"
proof -
  let ?ids = "pending_file_ops (ws_db w)"
  have hash: "fo_hash r \<noteq> sha E c" if "r \<in> set (file_ops (ws_db w))" "fo_id r \<in> set ?ids" for r
  proof -
    from that(2) obtain r' where r': "r' \<in> set (file_ops (ws_db w))" "fo_state r' = ''pending''" "fo_id r' = fo_id r"
      by (auto simp: pending_file_ops_def)
    then have "r' = r" using assms(4) that(1) by (auto simp: tbl_unique_def distinct_map inj_on_def)
    with r' assms(3) show ?thesis by blast
  qed
  have start: "db_holds (unexpected (set ?ids) (sha E c)) w \<and> holds q c w"
    using assms(1,2) hash by (auto simp: db_holds_def unexpected_def holds_def pending_journal_def)
  have run: "keeps (\<lambda>w. db_holds (unexpected (set ?ids) (sha E c)) w \<and> holds q c w)
      (each (apply_file_op E) ?ids) w"
    by (rule keep_file_ops_stage)
  obtain r1 w1 where 1: "each (apply_file_op E) ?ids w = (r1, w1)" by force
  from keepsD [OF run start 1] have kept: "unexpected (set ?ids) (sha E c) (ws_db w1)" "holds q c w1"
    by (simp_all add: db_holds_def)
  have idle: "recover_directory_ops E w = (Inr (), w)" using assms(5) by (rule recover_directory_idle)
  have "holds q c w'"
  proof (cases r1)
    case (Inl e)
    then have "w' = w1"
      using assms(6) 1 by (simp add: ws_recover_def bindS_def idle getS_def)
    with kept show ?thesis by simp
  next
    case (Inr u)
    then have "each (recover_journal_row E) (pending_journal (ws_db w1)) w1 = (res, w')"
      using assms(6) 1 by (simp add: ws_recover_def bindS_def idle getS_def)
    moreover have "keeps (holds q c) (each (recover_journal_row E) (pending_journal (ws_db w1))) w1"
      using kept(1) by (intro keep_journal_stage) (auto simp: unexpected_def pending_journal_def)
    ultimately show ?thesis using keepsD kept(2) by blast
  qed
  then show ?thesis by (simp add: holds_def)
qed

text \<open>A note was edited after a write that expected its old content had been accepted.\<close>

definition demo_edited_vault :: ws where
  "demo_edited_vault = \<lparr>ws_vault_id = ''v'',
     ws_db = demo_ws_db\<lparr>journal := [\<lparr>j_op = ''o'', j_file_id = ''f'', j_path = ''n.md'', j_expected = demo_sha ''old'',
       j_content = ''new'', j_origin = ''local'', j_state = ''pending''\<rparr>]\<rparr>,
     ws_disk = [(''n.md'', RegFile ''edited'')]\<rparr>"

theorem recover_keeps_external_edits_witness:
  "bt_get (ws_disk (snd (ws_recover demo_ws_env demo_edited_vault))) ''n.md'' = Some (RegFile ''edited'')"
  by (rule recover_keeps_external_edits [OF _ _ _ _ _ prod.collapse [symmetric]])
     (simp_all add: demo_edited_vault_def demo_ws_db_def demo_ws_env_def demo_sha_def pending_journal_def tbl_unique_def bt_get_def)

end
