(* ===== verification/Workspace_Recovery.thy ===== *)
theory Workspace_Recovery
  imports Workspace_Safety
begin

text \<open>
  What a write promises: once it is recorded, recovery completes it, whichever steps of input or
  output failed before; and until it is recorded the vault is as it was. The statements are proved
  with a small logic of operations with a condition for their errors.
\<close>

section \<open>Conditions on results and errors\<close>

definition leads :: "('a \<Rightarrow> ws \<Rightarrow> bool) \<Rightarrow> (ws \<Rightarrow> bool) \<Rightarrow> 'a ws_op \<Rightarrow> ws \<Rightarrow> bool" where
  "leads Q R m w \<longleftrightarrow> (case m w of (Inr x, w') \<Rightarrow> Q x w' | (Inl e, w') \<Rightarrow> R w')"

lemma leads_Inr: "leads Q R m w \<Longrightarrow> m w = (Inr x, w') \<Longrightarrow> Q x w'"
  by (simp add: leads_def)

lemma leads_Inl: "leads Q R m w \<Longrightarrow> m w = (Inl e, w') \<Longrightarrow> R w'"
  by (simp add: leads_def)

lemma leads_bind: "leads (\<lambda>x. leads Q R (k x)) R m w \<Longrightarrow> leads Q R (bindS m k) w"
  by (auto simp: leads_def bindS_def split: prod.splits sum.splits)

lemma leads_weaken:
  assumes "leads Q R m w" and "\<And>x w'. Q x w' \<Longrightarrow> Q' x w'" and "\<And>w'. R w' \<Longrightarrow> R' w'"
  shows "leads Q' R' m w"
  using assms by (auto simp: leads_def split: prod.splits sum.splits)

lemma leads_ret: "Q x w \<Longrightarrow> leads Q R (retS x) w"
  by (simp add: leads_def op_run)

lemma leads_read: "(\<And>e. f w = Inl e \<Longrightarrow> R w) \<Longrightarrow> (\<And>x. f w = Inr x \<Longrightarrow> Q x w) \<Longrightarrow> leads Q R (readS f) w"
  by (auto simp: leads_def op_run split: sum.splits)

lemma leads_read_ok: "f w = Inr x \<Longrightarrow> Q x w \<Longrightarrow> leads Q R (readS f) w"
  by (auto simp: leads_def op_run)

lemma leads_get: "Q (g w) w \<Longrightarrow> leads Q R (getS g) w"
  by (simp add: leads_def op_run)

lemma leads_io: "(io_fails E l i \<Longrightarrow> R w) \<Longrightarrow> Q () w \<Longrightarrow> leads Q R (io_step E l i code) w"
  by (simp add: leads_def io_step_def op_run)

lemma leads_on_db: "Q () (w\<lparr>ws_db := f (ws_db w)\<rparr>) \<Longrightarrow> leads Q R (on_db f) w"
  by (simp add: leads_def on_db_def op_run)

lemma leads_on_disk: "Q () (w\<lparr>ws_disk := f (ws_disk w)\<rparr>) \<Longrightarrow> leads Q R (on_disk f) w"
  by (simp add: leads_def on_disk_def op_run)

lemma leads_create_dirs:
  "make_dirs ps (ws_disk w) = Inr d \<Longrightarrow> Q () (w\<lparr>ws_disk := d\<rparr>) \<Longrightarrow> leads Q R (create_dirs ps) w"
  by (simp add: leads_def create_dirs_def op_run)

lemma leads_create_dirs_any:
  "R w \<Longrightarrow> (\<And>d. make_dirs ps (ws_disk w) = Inr d \<Longrightarrow> Q () (w\<lparr>ws_disk := d\<rparr>)) \<Longrightarrow> leads Q R (create_dirs ps) w"
  by (auto simp: leads_def create_dirs_def op_run split: sum.splits)

lemma leads_commitS:
  assumes "f (ws_db w) = Inr db" "io_fails E ''commit'' i \<Longrightarrow> R w" "Q () (w\<lparr>ws_db := db\<rparr>)"
  shows "leads Q R (commitS E i f) w"
  using assms by (simp add: leads_def commitS_def on_db_def io_step_def op_run bindS_def)

lemma leads_commitS_any:
  assumes "R w" "\<And>db. f (ws_db w) = Inr db \<Longrightarrow> Q () (w\<lparr>ws_db := db\<rparr>)"
  shows "leads Q R (commitS E i f) w"
  unfolding commitS_def by (rule leads_bind leads_read leads_io leads_on_db assms | assumption)+

text \<open>An error condition that an operation keeps on every branch.\<close>

lemma leads_keeps: "keeps R m w \<Longrightarrow> R w \<Longrightarrow> leads (\<lambda>_. R) R m w"
  by (auto simp: leads_def keeps_def split: prod.splits sum.splits)

section \<open>Directories on the way to a file\<close>

abbreviation free_dir :: "disk \<Rightarrow> string \<Rightarrow> bool" where
  "free_dir d p \<equiv> bt_get d p = None \<or> bt_get d p = Some DirNode"

lemma make_dirs_free: "\<forall>p \<in> set ps. free_dir d p \<Longrightarrow> \<exists>d'. make_dirs ps d = Inr d'"
proof (induction ps arbitrary: d)
  case (Cons p ps)
  then have "\<forall>q \<in> set ps. free_dir (bt_insert p DirNode d) q" by auto
  with Cons show ?case by auto
qed simp

lemma join_append:
  "a \<noteq> [] \<Longrightarrow> b \<noteq> [] \<Longrightarrow> join_with d (a @ b) = join_with d a @ d # join_with d b"
  by (induction d a rule: join_with.induct) (auto simp: join_Cons)

lemma ancestors_prefix:
  assumes "q \<in> set (ancestors p)"
  shows "\<exists>r. p = q @ CHR ''/'' # r" "first_part (CHR ''/'') q = first_part (CHR ''/'') p"
proof -
  define ns where "ns = split_on (CHR ''/'') p"
  have ns: "ns \<noteq> []" "\<forall>n \<in> set ns. CHR ''/'' \<notin> set n" "p = slash_join ns"
    using split_on_no_sep by (auto simp: ns_def)
  from assms obtain i where i: "Suc i < length ns" "q = slash_join (take (Suc i) ns)"
    by (auto simp: ancestors_def name_prefixes_def ns_def [symmetric] butlast_conv_take take_map less_diff_conv)
  have split: "ns = take (Suc i) ns @ drop (Suc i) ns" by simp
  have ne: "take (Suc i) ns \<noteq> []" "drop (Suc i) ns \<noteq> []" using i ns by auto
  show "\<exists>r. p = q @ CHR ''/'' # r"
    using join_append [OF ne, of "CHR ''/''"] i ns split by metis
  have "split_on (CHR ''/'') q = take (Suc i) ns"
    unfolding i(2) using ne ns by (intro split_join) (auto dest: in_set_takeD)
  then show "first_part (CHR ''/'') q = first_part (CHR ''/'') p"
    unfolding first_part_def ns_def [symmetric] using ns by (cases ns) auto
qed

lemma ancestors_neq: "p \<notin> set (ancestors p)"
  using ancestors_prefix(1) [of p p] by auto

lemma ancestors_managed: "q \<in> set (ancestors p) \<Longrightarrow> managed q \<longleftrightarrow> managed p"
  using ancestors_prefix(2) [of q p] by (simp add: managed_def)

text \<open>Resolving depends on the links only.\<close>

lemma resolve_links:
  assumes "resolve d p = Inr t" and "\<And>q b. bt_get d' q = Some (LinkNode b) \<Longrightarrow> bt_get d q = Some (LinkNode b)"
  shows "resolve d' p = Inr t"
proof -
  have "disk_exists d q \<and> disk_linked d q" if "disk_exists d' q \<and> disk_linked d' q" for q
    using that assms(2) [of q] by (auto simp: disk_exists_def disk_linked_def split: option.splits disk_node.splits)
  with assms(1) show ?thesis unfolding resolve_Inr_iff by blast
qed

lemma make_dirs_links: "make_dirs ps d = Inr d' \<Longrightarrow> bt_get d' q = Some (LinkNode b) \<Longrightarrow> bt_get d q = Some (LinkNode b)"
  using make_dirs_get [of ps d d' q] by auto

section \<open>Completing a recorded write\<close>

text \<open>
  The states between recording a write and completing it: the database is as it was recorded, the
  payload is in the spool, and the target holds the expected content or already the new one.
\<close>

definition ready :: "ws_env \<Rightarrow> ws_db \<Rightarrow> string \<Rightarrow> string \<Rightarrow> string \<Rightarrow> string \<Rightarrow> ws \<Rightarrow> bool" where
  "ready E db path target expected c w \<longleftrightarrow>
     ws_db w = db \<and> bt_get (ws_disk w) ''.ainote'' = Some DirNode \<and>
     bt_get (ws_disk w) ''.ainote/sync-spool'' = Some DirNode \<and>
     bt_get (ws_disk w) (spool_path (sha E c)) = Some (RegFile c) \<and> resolve (ws_disk w) path = Inr target \<and>
     (\<forall>p \<in> set (ancestors target). free_dir (ws_disk w) p) \<and>
     (bt_get (ws_disk w) target = Some (RegFile c) \<or> current_digest E (ws_disk w) target = Inr expected)"

definition written :: "ws_db \<Rightarrow> string \<Rightarrow> string \<Rightarrow> ws \<Rightarrow> bool" where
  "written db target c w \<longleftrightarrow> ws_db w = db \<and> bt_get (ws_disk w) target = Some (RegFile c)"

lemma leads_sync_spool:
  assumes "is_sha256_hex digest" "bt_get (ws_disk w) ''.ainote'' = Some DirNode"
    "bt_get (ws_disk w) ''.ainote/sync-spool'' = Some DirNode" "Q (spool_path digest) w"
  shows "leads Q R (sync_spool E digest) w"
proof -
  have "make_dirs [''.ainote'', ''.ainote/sync-spool''] (ws_disk w) = Inr (ws_disk w)" using assms by simp
  then show ?thesis
    using assms by (simp add: leads_def sync_spool_def op_run create_dirs_def bindS_def disk_exists_def disk_is_dir_def)
qed

text \<open>Changes of the file system that a ready state survives.\<close>

lemma ready_disk:
  assumes "ready E db path target expected c w" "\<not> managed target"
    and "\<And>q. bt_get d q = bt_get (ws_disk w) q \<or> q \<noteq> target \<and> bt_get (ws_disk w) q = None \<and> bt_get d q = Some DirNode \<or>
           q = target \<and> bt_get d q = Some (RegFile c)"
  shows "ready E db path target expected c (w\<lparr>ws_disk := d\<rparr>)"
proof -
  have other: "bt_get d q = Some n" if "bt_get (ws_disk w) q = Some n" "q \<noteq> target" for q n
    using assms(3) [of q] that by auto
  have managed: "''.ainote'' \<noteq> target" "''.ainote/sync-spool'' \<noteq> target" "spool_path (sha E c) \<noteq> target"
    using assms(2) by (auto simp: managed_def first_part_def managed_spool [unfolded managed_def first_part_def])
  have link: "bt_get (ws_disk w) q = Some (LinkNode b)" if "bt_get d q = Some (LinkNode b)" for q b
    using assms(3) [of q] that by auto
  have free: "free_dir d p" if "p \<in> set (ancestors target)" for p
    using assms(3) [of p] that ancestors_neq [of target] assms(1) by (auto simp: ready_def)
  have digest: "bt_get d target = Some (RegFile c) \<or> current_digest E d target = Inr expected"
    using assms(1) assms(3) [of target] by (auto simp: ready_def current_digest_def disk_exists_def hash_file_def)
  from assms(1) have r: "ws_db w = db" "resolve (ws_disk w) path = Inr target"
      "bt_get (ws_disk w) ''.ainote'' = Some DirNode" "bt_get (ws_disk w) ''.ainote/sync-spool'' = Some DirNode"
      "bt_get (ws_disk w) (spool_path (sha E c)) = Some (RegFile c)"
    by (simp_all only: ready_def)
  have "resolve d path = Inr target" using r(2) link by (rule resolve_links)
  with free digest r(1) other [OF r(3) managed(1)] other [OF r(4) managed(2)] other [OF r(5) managed(3)]
  show ?thesis by (auto simp: ready_def)
qed

lemma current_content:
  assumes "current_digest E d target = Inr (sha E c)" "\<forall>x. sha E x = sha E c \<longrightarrow> x = c" "sha E c \<noteq> []"
  shows "bt_get d target = Some (RegFile c)"
  using assms by (auto simp: current_digest_def hash_file_def split: if_splits option.splits disk_node.splits)

lemma leads_place_file:
  assumes "ready E db path target expected c w" "\<not> managed target" "length c \<le> max_file"
    and "\<And>w'. ready E db path target expected c w' \<Longrightarrow> bt_get (ws_disk w') target = Some (RegFile c) \<Longrightarrow> Q () w'"
    and "\<And>w'. ready E db path target expected c w' \<Longrightarrow> (\<exists>l i. io_fails E l i) \<Longrightarrow> R w'"
  shows "leads Q R (place_file E operation target c) w"
proof -
  from assms(1) obtain d where d: "make_dirs (ancestors target) (ws_disk w) = Inr d"
    using make_dirs_free [of "ancestors target" "ws_disk w"] by (auto simp: ready_def)
  let ?w1 = "w\<lparr>ws_disk := d\<rparr>"
  have 1: "ready E db path target expected c ?w1"
    using make_dirs_get [OF d] ancestors_neq [of target] by (intro ready_disk [OF assms(1,2)]) blast
  let ?w2 = "?w1\<lparr>ws_disk := bt_insert target (RegFile c) (ws_disk ?w1)\<rparr>"
  have 2: "ready E db path target expected c ?w2"
    by (rule ready_disk [OF 1 assms(2)]) auto
  show ?thesis
    unfolding place_file_def
    using 1 2 assms(4,5)
    by (intro leads_bind leads_create_dirs [OF d] leads_io leads_on_disk) auto
qed

text \<open>
  One lemma for both runs: with failing steps the write stays ready or is completed; without any
  it is completed.
\<close>

lemma leads_apply_stored_journal:
  assumes w: "ready E db path target expected c w"
    and ref: "payload_ref db operation = Some (sha E c, int (length c))"
    and static: "is_sha256_hex (sha E c)" "length c \<le> max_file" "validate_record E c path (length c) = Inr ()"
      "\<forall>x. sha E x = sha E c \<longrightarrow> x = c"
    and commit: "commit_write E operation i path expected origin (sha E c) (disk_identity E target) db = Inr db2"
  shows "leads (\<lambda>_. written db2 target c) (\<lambda>w'. ready E db path target expected c w' \<and> (\<exists>l i. io_fails E l i))
    (apply_stored_journal E operation i path expected origin) w"
proof -
  let ?R = "\<lambda>w'. ready E db path target expected c w' \<and> (\<exists>l i. io_fails E l i)"
  from w have res: "resolve (ws_disk w) path = Inr target" and db: "ws_db w = db"
    and spool: "bt_get (ws_disk w) (spool_path (sha E c)) = Some (RegFile c)"
    and dirs: "bt_get (ws_disk w) ''.ainote'' = Some DirNode" "bt_get (ws_disk w) ''.ainote/sync-spool'' = Some DirNode"
    by (auto simp: ready_def)
  note unmanaged = resolve_not_managed [OF res]
  have opened: "open_verified E (ws_disk w) (spool_path (sha E c)) (sha E c) (length c) = Inr c"
    using spool by (simp add: open_verified_def verified_def)
  have nonempty: "sha E c \<noteq> []" using static(1) by (auto simp: is_sha256_hex_def)
  obtain current where current: "current_digest E (ws_disk w) target = Inr current"
      "current = expected \<or> current = sha E c"
    using w static(2) by (auto simp: ready_def current_digest_def disk_exists_def hash_file_def)
  have finish: "leads (\<lambda>_. written db2 target c) ?R
      (bindS (io_step E ''metadata'' operation ''FILESYSTEM_ERROR'') (\<lambda>_.
       commitS E operation (commit_write E operation i path expected origin (sha E c) (disk_identity E target)))) w'"
    if "ready E db path target expected c w'" "bt_get (ws_disk w') target = Some (RegFile c)" for w'
    using that commit
    by (intro leads_bind leads_io leads_commitS [where db = db2]) (auto simp: ready_def written_def)
  have place: "leads (\<lambda>_ w'. ready E db path target expected c w' \<and> bt_get (ws_disk w') target = Some (RegFile c)) ?R
      (if current \<noteq> sha E c then place_file E operation target c else retS ()) w"
  proof (cases "current = sha E c")
    case True
    then have "bt_get (ws_disk w) target = Some (RegFile c)"
      using current_content current static(4) nonempty by blast
    with True w show ?thesis by (simp add: leads_ret)
  next
    case False
    then show ?thesis by (auto intro: leads_place_file [OF w unmanaged static(2)])
  qed
  have tail: "leads (\<lambda>_. written db2 target c) ?R
      (bindS (if current \<noteq> sha E c then place_file E operation target c else retS ()) (\<lambda>_.
       bindS (io_step E ''metadata'' operation ''FILESYSTEM_ERROR'') (\<lambda>_.
       commitS E operation (commit_write E operation i path expected origin (sha E c) (disk_identity E target))))) w"
    by (rule leads_bind, rule leads_weaken [OF place]) (auto intro: finish)
  show ?thesis
    unfolding apply_stored_journal_def
    apply (rule leads_bind, rule leads_read_ok [where x = "(sha E c, int (length c))"])
     apply (simp add: db ref)
    apply (simp only: prod.case nat_int)
    apply (rule leads_bind, rule leads_read_ok [where x = "()"])
     apply (simp add: static(2))
    apply (rule leads_bind, rule leads_sync_spool [OF static(1) dirs])
    apply (rule leads_bind, rule leads_io)
     apply (use w in blast)
    apply (rule leads_bind, rule leads_read_ok, rule opened)
    apply (rule leads_bind, rule leads_read_ok, rule static(3))
    apply (rule leads_bind, rule leads_read_ok, rule res)
    apply (rule leads_bind, rule leads_read_ok, rule current(1))
    using current(2) tail by auto
qed

section \<open>The completing transaction\<close>

lemma complete_write_plain: "import_item_of db operation = None \<Longrightarrow> complete_write E operation en db = Inr db"
  by (simp add: complete_write_def)

lemma files_upsert_entry:
  assumes "tbl_has f_path path (files db) \<or> \<not> tbl_has f_id i (files db)"
  obtains db1 en where "files_upsert i path digest db = Inr db1" "entry_at db1 path = Some en"
    "en_hash en = digest" "\<not> en_deleted en" "en_path en = path"
proof (cases "tbl_get f_path path (files db)")
  case None
  then show ?thesis
    using assms that by (simp add: files_upsert_def tbl_has_iff entry_at_def tbl_get_append tbl_get_Cons entry_of_def)
next
  case (Some r)
  let ?f = "\<lambda>r. r\<lparr>f_hash := digest, f_revision := f_revision r + 1, f_deleted := False\<rparr>"
  have "tbl_get f_path path (tbl_update (\<lambda>r. f_path r = path) ?f (files db)) = Some (?f r)"
    using Some tbl_get_SomeD [OF Some] by (simp add: tbl_get_update)
  with Some tbl_get_SomeD [OF Some] show ?thesis
    using that by (simp add: files_upsert_def tbl_has_iff entry_at_def entry_of_def)
qed

lemma stage_write_outbox:
  assumes "entry_at db path = Some en" "\<not> tbl_has ob_op operation (outbox db)"
  shows "\<exists>r. tbl_get ob_op operation (outbox (stage_write operation i path ''local'' digest ident db)) = Some r \<and>
    ob_file_id r = en_file_id en \<and> ob_path r = en_path en \<and> ob_hash r = en_hash en \<and> ob_state r = ''pending''"
  using assms
  by (auto simp: stage_write_def queue_put_def set_disk_identity_def entry_at_def entry_of_def tbl_has_iff
      tbl_get_insert_ignore split: option.splits)

lemma stage_write_entry: "entry_at (stage_write operation i path origin digest ident db) = entry_at db"
  by (simp add: entry_at_def stage_write_same fun_eq_iff)

lemma stage_write_item:
  assumes "files_upsert i path digest db = Inr db1"
  shows "import_item_of (stage_write operation i path origin digest ident db1) operation = import_item_of db operation"
proof -
  have "experiment_import_items db1 = experiment_import_items db" by (subst files_upsert_tables [OF assms]) simp
  then show ?thesis by (simp add: import_item_of_def stage_write_same)
qed

lemma commit_write_completes:
  assumes "import_item_of db operation = None" "tbl_has f_path path (files db) \<or> \<not> tbl_has f_id i (files db)"
    and "\<forall>en. enc_result E en expected \<noteq> None" "tbl_has op_id operation (operations db)"
  obtains db2 en where "commit_write E operation i path expected origin digest ident db = Inr db2"
    "entry_at db2 path = Some en" "en_hash en = digest" "\<not> en_deleted en"
    "map_option op_state (tbl_get op_id operation (operations db2)) = Some ''committed''"
    "origin = ''local'' \<Longrightarrow> \<not> tbl_has ob_op operation (outbox db) \<Longrightarrow>
       \<exists>r. tbl_get ob_op operation (outbox db2) = Some r \<and> ob_file_id r = en_file_id en \<and> ob_path r = path \<and>
         ob_hash r = digest \<and> ob_state r = ''pending''"
proof -
  from files_upsert_entry [OF assms(2)] obtain db1 en where
    up: "files_upsert i path digest db = Inr db1" "entry_at db1 path = Some en"
      "en_hash en = digest" "\<not> en_deleted en" "en_path en = path" by blast
  have db1: "db1 = db\<lparr>files := files db1\<rparr>" using files_upsert_tables [OF up(1)] .
  let ?db4 = "stage_write operation i path origin digest ident db1"
  have item: "import_item_of ?db4 operation = None"
    using assms(1) stage_write_item [OF up(1)] by simp
  obtain result where result: "enc_result E en expected = Some result" using assms(3) by blast
  let ?db2 = "(finish_operation operation result ?db4)
      \<lparr>journal := tbl_drop_key j_op operation (journal (finish_operation operation result ?db4))\<rparr>"
  have c: "commit_write E operation i path expected origin digest ident db = Inr ?db2"
    unfolding commit_write_Inr
    using up item result by (intro exI conjI) (auto simp: stage_write_entry complete_write_plain)
  have ops: "operations ?db4 = operations db" by (subst stage_write_same, subst db1) simp
  have out: "outbox db1 = outbox db" by (subst db1) simp
  show thesis
  proof (rule that [OF c])
    show "entry_at ?db2 path = Some en"
      using up(2) by (simp add: entry_at_def finish_operation_def stage_write_same)
    obtain r where "tbl_get op_id operation (operations db) = Some r" using assms(4) by (auto simp: tbl_has_iff)
    then show "map_option op_state (tbl_get op_id operation (operations ?db2)) = Some ''committed''"
      using tbl_get_SomeD by (fastforce simp: finish_operation_def ops tbl_get_update)
    show "\<exists>r. tbl_get ob_op operation (outbox ?db2) = Some r \<and> ob_file_id r = en_file_id en \<and> ob_path r = path \<and>
         ob_hash r = digest \<and> ob_state r = ''pending''"
      if "origin = ''local''" "\<not> tbl_has ob_op operation (outbox db)"
      using stage_write_outbox [OF up(2), of operation i digest ident] that up by (simp add: finish_operation_def out)
  qed (use up in auto)
qed

lemma commit_write_io:
  assumes "import_item_of db operation = None"
  shows "commit_write (E\<lparr>io_fails := f\<rparr>) operation i path expected origin digest ident db = Inr db2 \<longleftrightarrow>
    commit_write E operation i path expected origin digest ident db = Inr db2"
proof -
  have "import_item_of (stage_write operation i path origin digest ident db1) operation = None"
    if "files_upsert i path digest db = Inr db1" for db1
    using assms stage_write_item [OF that] by simp
  then show ?thesis
    unfolding commit_write_Inr by (auto simp: complete_write_plain)
qed

section \<open>Recording a write\<close>

text \<open>Nothing a user sees has changed.\<close>

definition unrecorded :: "ws \<Rightarrow> ws \<Rightarrow> bool" where
  "unrecorded w w' \<longleftrightarrow>
     files (ws_db w') = files (ws_db w) \<and> operations (ws_db w') = operations (ws_db w) \<and>
     journal (ws_db w') = journal (ws_db w) \<and> outbox (ws_db w') = outbox (ws_db w) \<and>
     file_ops (ws_db w') = file_ops (ws_db w) \<and> directory_ops (ws_db w') = directory_ops (ws_db w) \<and>
     experiment_import_items (ws_db w') = experiment_import_items (ws_db w) \<and>
     (\<forall>q. \<not> managed q \<longrightarrow> bt_get (ws_disk w') q = bt_get (ws_disk w) q)"

lemma unrecorded_refl: "unrecorded w w"
  by (simp add: unrecorded_def)

text \<open>The payload is stored: only the spool and its reference are new.\<close>

definition stored :: "ws_env \<Rightarrow> string \<Rightarrow> string \<Rightarrow> ws \<Rightarrow> ws \<Rightarrow> bool" where
  "stored E operation c w w' \<longleftrightarrow>
     unrecorded w w' \<and> bt_get (ws_disk w') ''.ainote'' = Some DirNode \<and>
     bt_get (ws_disk w') ''.ainote/sync-spool'' = Some DirNode \<and>
     bt_get (ws_disk w') (spool_path (sha E c)) = Some (RegFile c) \<and>
     payload_ref (ws_db w') operation = Some (sha E c, int (length c)) \<and>
     (\<forall>q b. bt_get (ws_disk w') q = Some (LinkNode b) \<longrightarrow> bt_get (ws_disk w) q = Some (LinkNode b))"

lemma spool_dirs_managed: "managed ''.ainote''" "managed ''.ainote/sync-spool''"
  by (simp_all add: managed_def first_part_def)

lemma make_dirs_unrecorded:
  assumes "make_dirs [''.ainote'', ''.ainote/sync-spool''] (ws_disk w) = Inr d"
  shows "unrecorded w (w\<lparr>ws_disk := d\<rparr>)"
proof -
  have "bt_get d q = bt_get (ws_disk w) q" if "\<not> managed q" for q
    using make_dirs_get [OF assms, of q] that spool_dirs_managed by auto
  then show ?thesis by (simp add: unrecorded_def)
qed

lemma leads_spool:
  assumes "R w" and "\<And>d. make_dirs [''.ainote'', ''.ainote/sync-spool''] (ws_disk w) = Inr d \<Longrightarrow>
      Q (spool_path digest) (w\<lparr>ws_disk := d\<rparr>)"
  shows "leads Q R (sync_spool E digest) w"
  unfolding sync_spool_def
  by (rule leads_bind leads_read assms leads_create_dirs_any leads_ret | assumption)+

lemma payload_ref_inserted:
  assumes "case payload_ref db operation of None \<Rightarrow> True | Some v \<Rightarrow> v = (digest, n)"
  shows "payload_ref (db\<lparr>payloads := tbl_insert_ignore pl_op \<lparr>pl_op = operation, pl_hash = digest, pl_size = n\<rparr>
    (payloads db)\<rparr>) operation = Some (digest, n)"
  using assms by (auto simp: payload_ref_def tbl_get_insert_ignore split: option.splits)

lemma open_verified_content:
  "open_verified E d p (sha E c) n = Inr x \<Longrightarrow> \<forall>x. sha E x = sha E c \<longrightarrow> x = c \<Longrightarrow> bt_get d p = Some (RegFile c)"
  by (auto simp: open_verified_def verified_def split: option.splits disk_node.splits if_splits)

lemma unrecorded_payloads: "unrecorded w w' \<Longrightarrow> unrecorded w (w'\<lparr>ws_db := (ws_db w')\<lparr>payloads := p\<rparr>\<rparr>)"
  by (simp add: unrecorded_def)

lemma register_stored:
  assumes "unrecorded w w'" "bt_get (ws_disk w') ''.ainote'' = Some DirNode"
    "bt_get (ws_disk w') ''.ainote/sync-spool'' = Some DirNode"
    "bt_get (ws_disk w') (spool_path (sha E c)) = Some (RegFile c)"
    "\<And>q b. bt_get (ws_disk w') q = Some (LinkNode b) \<Longrightarrow> bt_get (ws_disk w) q = Some (LinkNode b)"
  shows "leads (\<lambda>_. stored E operation c w) (unrecorded w) (register_payload operation (sha E c) (length c)) w'"
  unfolding register_payload_def
  apply (rule leads_bind, rule leads_get)
  apply (rule leads_bind, rule leads_read)
   apply (rule assms(1))
  apply (rule leads_on_db)
  unfolding stored_def
  apply (intro conjI unrecorded_payloads assms(1) allI impI)
      apply (simp add: assms(2))
     apply (simp add: assms(3))
    apply (simp add: assms(4))
   apply (simp add: payload_ref_inserted)
  apply (rule assms(5), simp)
  done

lemma leads_store_payload:
  assumes "\<forall>x. sha E x = sha E c \<longrightarrow> x = c"
  shows "leads (\<lambda>_. stored E operation c w) (unrecorded w) (store_payload E operation c) w"
proof -
  let ?digest = "sha E c" and ?spool = "spool_path (sha E c)"
  define spooled where "spooled w' \<longleftrightarrow> unrecorded w w' \<and> bt_get (ws_disk w') ''.ainote'' = Some DirNode \<and>
    bt_get (ws_disk w') ''.ainote/sync-spool'' = Some DirNode \<and> bt_get (ws_disk w') ?spool = Some (RegFile c) \<and>
    (\<forall>q b. bt_get (ws_disk w') q = Some (LinkNode b) \<longrightarrow> bt_get (ws_disk w) q = Some (LinkNode b))" for w'
  have put: "leads (\<lambda>_. spooled) (unrecorded w) (spool_put E operation ?digest c) w"
    unfolding spool_put_def
  proof (rule leads_bind, rule leads_spool)
    fix d assume d: "make_dirs [''.ainote'', ''.ainote/sync-spool''] (ws_disk w) = Inr d"
    let ?w1 = "w\<lparr>ws_disk := d\<rparr>"
    note un = make_dirs_unrecorded [OF d] and links = make_dirs_links [OF d]
    have dirs: "bt_get d ''.ainote'' = Some DirNode" "bt_get d ''.ainote/sync-spool'' = Some DirNode"
      using make_dirs_present [OF d] by simp_all
    have neq: "?spool \<noteq> ''.ainote''" "?spool \<noteq> ''.ainote/sync-spool''" by (simp_all add: spool_path_def)
    have old: "spooled ?w1" if "open_verified E d ?spool ?digest (length c) = Inr x" for x
      unfolding spooled_def
      by (intro conjI un allI impI) (simp_all add: open_verified_content [OF that assms] dirs links)
    have new: "spooled (?w1\<lparr>ws_disk := bt_insert ?spool (RegFile c) (ws_disk ?w1)\<rparr>)"
      unfolding spooled_def
    proof (intro conjI allI impI)
      show "unrecorded w (?w1\<lparr>ws_disk := bt_insert ?spool (RegFile c) (ws_disk ?w1)\<rparr>)"
        using un managed_spool(1) [of ?digest] by (auto simp: unrecorded_def)
      fix q b assume "bt_get (ws_disk (?w1\<lparr>ws_disk := bt_insert ?spool (RegFile c) (ws_disk ?w1)\<rparr>)) q = Some (LinkNode b)"
      then have "bt_get d q = Some (LinkNode b)" by (simp split: if_splits)
      then show "bt_get (ws_disk w) q = Some (LinkNode b)" by (rule links)
    qed (simp_all add: dirs neq neq [symmetric])
    show "leads (\<lambda>_. spooled) (unrecorded w)
       (bindS (getS (\<lambda>w. disk_exists (ws_disk w) ?spool)) (\<lambda>there.
        if there then bindS (readS (\<lambda>w. open_verified E (ws_disk w) ?spool ?digest (length c))) (\<lambda>_. retS ())
        else spool_write E operation ?spool c)) ?w1"
    proof (rule leads_bind, rule leads_get, cases "disk_exists d ?spool")
      case True
      have "leads (\<lambda>_. spooled) (unrecorded w)
         (bindS (readS (\<lambda>w. open_verified E (ws_disk w) ?spool ?digest (length c))) (\<lambda>_. retS ())) ?w1"
        by (rule leads_bind, rule leads_read) (simp_all add: un old leads_ret)
      with True show "leads (\<lambda>_. spooled) (unrecorded w)
         (if disk_exists (ws_disk ?w1) ?spool
          then bindS (readS (\<lambda>w. open_verified E (ws_disk w) ?spool ?digest (length c))) (\<lambda>_. retS ())
          else spool_write E operation ?spool c) ?w1" by simp
    next
      case False
      have "leads (\<lambda>_. spooled) (unrecorded w) (spool_write E operation ?spool c) ?w1"
        unfolding spool_write_def by (rule leads_bind leads_io leads_read leads_on_disk un new)+
      with False show "leads (\<lambda>_. spooled) (unrecorded w)
         (if disk_exists (ws_disk ?w1) ?spool
          then bindS (readS (\<lambda>w. open_verified E (ws_disk w) ?spool ?digest (length c))) (\<lambda>_. retS ())
          else spool_write E operation ?spool c) ?w1" by simp
    qed
  qed (rule unrecorded_refl)
  show ?thesis
    unfolding store_payload_def
    by (rule leads_bind, rule leads_weaken [OF put])
       (auto simp: spooled_def intro!: register_stored)
qed

definition pending_row :: "string \<Rightarrow> string \<Rightarrow> string \<Rightarrow> string \<Rightarrow> string \<Rightarrow> journal_row" where
  "pending_row operation i path expected origin =
     \<lparr>j_op = operation, j_file_id = i, j_path = path, j_expected = expected, j_content = [], j_origin = origin,
      j_state = ''pending''\<rparr>"

text \<open>The database of a vault whose only pending work is the write.\<close>

definition recorded_db ::
  "string \<Rightarrow> string \<Rightarrow> string \<Rightarrow> string \<Rightarrow> string \<Rightarrow> string \<Rightarrow> int \<Rightarrow> ws_db \<Rightarrow> bool" where
  "recorded_db operation i path expected origin digest n db \<longleftrightarrow>
     pending_journal db = [pending_row operation i path expected origin] \<and> pending_file_ops db = [] \<and>
     (\<forall>r \<in> set (directory_ops db). do_state r = ''conflict'') \<and> import_item_of db operation = None \<and>
     (tbl_has f_path path (files db) \<or> \<not> tbl_has f_id i (files db)) \<and> tbl_has op_id operation (operations db) \<and>
     \<not> tbl_has ob_op operation (outbox db) \<and> payload_ref db operation = Some (digest, n)"

definition idle_db :: "string \<Rightarrow> string \<Rightarrow> ws_db \<Rightarrow> bool" where
  "idle_db operation fresh db \<longleftrightarrow>
     pending_journal db = [] \<and> pending_file_ops db = [] \<and> (\<forall>r \<in> set (directory_ops db). do_state r = ''conflict'') \<and>
     import_item_of db operation = None \<and> \<not> tbl_has f_id fresh (files db) \<and>
     \<not> tbl_has op_id operation (operations db) \<and> \<not> tbl_has ob_op operation (outbox db)"

lemma accepted_recorded:
  assumes "idle_db operation fresh (ws_db w)" "stored E operation c w w'"
    and "i = (case entry_at (ws_db w) path of Some p \<Rightarrow> en_file_id p | None \<Rightarrow> fresh)"
    and "db = (ws_db w')\<lparr>operations := operations (ws_db w') @ [row], journal := journal (ws_db w') @
        [pending_row operation i path expected origin]\<rparr>" "op_id row = operation"
  shows "recorded_db operation i path expected origin (sha E c) (int (length c)) db"
proof -
  have u: "unrecorded w w'" and ref: "payload_ref (ws_db w') operation = Some (sha E c, int (length c))"
    using assms(2) by (simp_all only: stored_def)
  have files: "tbl_has f_path path (files (ws_db w)) \<or> \<not> tbl_has f_id i (files (ws_db w))"
    using assms(1,3) by (auto simp: idle_db_def entry_at_def tbl_has_iff split: option.splits)
  show ?thesis
    using assms(1) u ref files
    by (simp add: recorded_db_def idle_db_def assms(4,5) unrecorded_def pending_journal_def pending_row_def
        pending_file_ops_def import_item_of_def tbl_has_iff tbl_get_append tbl_get_Cons payload_ref_def)
qed

lemma current_digest_cong: "bt_get d p = bt_get d' p \<Longrightarrow> current_digest E d p = current_digest E d' p"
  by (simp add: current_digest_def disk_exists_def hash_file_def)

lemma stored_ready:
  assumes "stored E operation c w w'" "resolve (ws_disk w) path = Inr target"
    "\<forall>p \<in> set (ancestors target). free_dir (ws_disk w) p" "current_digest E (ws_disk w) target = Inr expected"
  shows "ready E db path target expected c (w'\<lparr>ws_db := db\<rparr>)"
proof -
  note unmanaged = resolve_not_managed [OF assms(2)]
  have same: "bt_get (ws_disk w') q = bt_get (ws_disk w) q" if "\<not> managed q" for q
    using assms(1) that unfolding stored_def unrecorded_def by blast
  have res: "resolve (ws_disk w') path = Inr target"
    using assms(2) by (rule resolve_links) (use assms(1) in \<open>simp only: stored_def\<close>)
  have free: "\<forall>p \<in> set (ancestors target). free_dir (ws_disk w') p"
    using assms(3) same ancestors_managed unmanaged by simp
  have "current_digest E (ws_disk w') target = Inr expected"
    using assms(4) current_digest_cong [OF same [OF unmanaged]] by simp
  moreover have "bt_get (ws_disk w') ''.ainote'' = Some DirNode" "bt_get (ws_disk w') ''.ainote/sync-spool'' = Some DirNode"
      "bt_get (ws_disk w') (spool_path (sha E c)) = Some (RegFile c)"
    using assms(1) by (simp_all only: stored_def)
  ultimately show ?thesis using res free by (simp add: ready_def)
qed

section \<open>A write survives any failure\<close>

text \<open>The write is recorded, or already completed, in the vault \<open>w'\<close>.\<close>

definition under_way ::
  "ws_env \<Rightarrow> string \<Rightarrow> string \<Rightarrow> string \<Rightarrow> string \<Rightarrow> string \<Rightarrow> string \<Rightarrow> ws \<Rightarrow> bool" where
  "under_way E operation path target expected origin c w' \<longleftrightarrow>
     length c \<le> max_file \<and> validate_record E c path (length c) = Inr () \<and>
     (\<exists>i db db2. recorded_db operation i path expected origin (sha E c) (int (length c)) db \<and>
        commit_write E operation i path expected origin (sha E c) (disk_identity E target) db = Inr db2 \<and>
        (ready E db path target expected c w' \<or> written db2 target c w'))"

lemma payload_validate_record:
  assumes "payload_validate E (Inline c) path w = (Inr (), w')"
  shows "w' = w" "validate_record E c path (length c) = Inr ()" "length c \<le> max_file"
proof -
  have run: "is_canvas path \<longrightarrow> length c \<le> max_canvas_bytes \<and> canvas_validate (canvas E) c = Inr ()"
      "is_record path \<longrightarrow> length c \<le> 1024 * 1024 \<and> (\<exists>v. record_validate (serde E) path c = Inr v)"
      and 1: "w' = w" and 2: "length c \<le> max_file"
    using assms
    by (auto simp: payload_validate_def op_run bindR_Inr_iff require_def bindS_def split: if_splits sum.splits)
  show "w' = w" "length c \<le> max_file" by (rule 1, rule 2)
  show "validate_record E c path (length c) = Inr ()"
    using run by (auto simp: validate_record_def)
qed

lemma payload_validate_state: "snd (payload_validate E (Inline c) path w) = w"
  by (simp add: payload_validate_def op_run require_def bindS_def split: sum.splits)

lemma leads_accepted:
  assumes ready: "ready E db path target expected c w'" and rec: "recorded_db operation i path expected origin (sha E c) (int (length c)) db"
    and static: "is_sha256_hex (sha E c)" "length c \<le> max_file" "validate_record E c path (length c) = Inr ()"
      "\<forall>x. sha E x = sha E c \<longrightarrow> x = c" "\<forall>en. enc_result E en expected \<noteq> None"
  shows "leads (\<lambda>_. under_way E operation path target expected origin c) (under_way E operation path target expected origin c)
    (bindS (apply_stored_journal E operation i path expected origin) (\<lambda>_.
     readS (\<lambda>w. ok_or (entry_at (ws_db w) path) ''FILE_NOT_FOUND''))) w'"
proof -
  have rec': "import_item_of db operation = None" "tbl_has f_path path (files db) \<or> \<not> tbl_has f_id i (files db)"
      "tbl_has op_id operation (operations db)" using rec by (simp_all only: recorded_db_def)
  obtain db2 where commit: "commit_write E operation i path expected origin (sha E c) (disk_identity E target) db = Inr db2"
    by (rule commit_write_completes [OF rec'(1,2) static(5) rec'(3)])
  have ref: "payload_ref db operation = Some (sha E c, int (length c))" using rec by (simp add: recorded_db_def)
  have way: "under_way E operation path target expected origin c w''"
    if "ready E db path target expected c w'' \<or> written db2 target c w''" for w''
    using that rec commit static(2,3) unfolding under_way_def by blast
  show ?thesis
    by (rule leads_bind, rule leads_weaken [OF leads_apply_stored_journal [OF ready ref static(1-4) commit]])
       (auto intro: leads_read way)
qed

text \<open>A new write up to its record; what follows is a hypothesis.\<close>

lemma leads_record_write:
  assumes idle: "idle_db operation fresh (ws_db w)" and res: "resolve (ws_disk w) path = Inr target"
    and hash: "\<forall>x. sha E x = sha E c \<longrightarrow> x = c"
    and i: "i = (case entry_at (ws_db w) path of Some p \<Rightarrow> en_file_id p | None \<Rightarrow> fresh)"
    and R: "\<And>w'. unrecorded w w' \<Longrightarrow> R w'"
    and rest: "\<And>w' db. stored E operation c w w' \<Longrightarrow> current_digest E (ws_disk w) target = Inr expected \<Longrightarrow>
      length c \<le> max_file \<Longrightarrow> validate_record E c path (length c) = Inr () \<Longrightarrow>
      recorded_db operation i path expected origin (sha E c) (int (length c)) db \<Longrightarrow>
      leads Q R (bindS (apply_stored_journal E operation i path expected origin) (\<lambda>_.
        readS (\<lambda>w. ok_or (entry_at (ws_db w) path) ''FILE_NOT_FOUND''))) (w'\<lparr>ws_db := db\<rparr>)"
  shows "leads Q R (write_source E fresh path expected (Inline c) origin operation None authorize) w"
proof -
  have Rw: "R w" by (rule R) (rule unrecorded_refl)
  have new: "tbl_get op_id operation (operations (ws_db w)) = None"
    using idle by (simp add: idle_db_def tbl_has_iff)
  have accept: "leads Q R (bindS (accept_write E operation fp i path expected origin a) (\<lambda>_.
      bindS (apply_stored_journal E operation i path expected origin) (\<lambda>_.
      readS (\<lambda>w. ok_or (entry_at (ws_db w) path) ''FILE_NOT_FOUND'')))) w'"
    if s: "stored E operation c w w'" and cur: "current_digest E (ws_disk w) target = Inr expected"
      and v: "length c \<le> max_file" "validate_record E c path (length c) = Inr ()" for w' fp a
    unfolding accept_write_def
  proof (rule leads_bind, rule leads_commitS_any)
    show "R w'" by (rule R) (use s in \<open>simp add: stored_def\<close>)
    fix db assume "bindR (require (\<not> tbl_has op_id operation (operations (ws_db w'))) ''DATABASE_ERROR'') (\<lambda>_.
       bindR (require (\<not> tbl_has j_op operation (journal (ws_db w'))) ''DATABASE_ERROR'') (\<lambda>_.
       bindR a (\<lambda>_.
       Inr ((ws_db w')\<lparr>operations := operations (ws_db w') @
              [\<lparr>op_id = operation, op_fingerprint = fp, op_state = ''pending'', op_result = None\<rparr>],
            journal := journal (ws_db w') @
              [\<lparr>j_op = operation, j_file_id = i, j_path = path, j_expected = expected, j_content = [],
                j_origin = origin, j_state = ''pending''\<rparr>]\<rparr>)))) = Inr db"
    then have "db = (ws_db w')\<lparr>operations := operations (ws_db w') @
              [\<lparr>op_id = operation, op_fingerprint = fp, op_state = ''pending'', op_result = None\<rparr>],
            journal := journal (ws_db w') @ [pending_row operation i path expected origin]\<rparr>"
      unfolding pending_row_def by (simp only: bindR_Inr_iff sum.inject) blast
    then have "recorded_db operation i path expected origin (sha E c) (int (length c)) db"
      by (rule accepted_recorded [OF idle s i]) simp
    then show "leads Q R (bindS (apply_stored_journal E operation i path expected origin) (\<lambda>_.
      readS (\<lambda>w. ok_or (entry_at (ws_db w) path) ''FILE_NOT_FOUND''))) (w'\<lparr>ws_db := db\<rparr>)"
      by (rule rest [OF s cur v])
  qed
  have valid: "leads (\<lambda>_ w'. w' = w \<and> length c \<le> max_file \<and> validate_record E c path (length c) = Inr ()) R
      (payload_validate E (Inline c) path) w"
    using payload_validate_record [of E c path w] payload_validate_state [of E c path w] Rw
    by (auto simp: leads_def split: prod.splits sum.splits)
  show ?thesis
    unfolding write_source_def Let_def
    apply (rule leads_bind, rule leads_read, rule Rw)
    apply (rule leads_bind, rule leads_read, rule Rw)
    apply (rule leads_bind, rule leads_weaken [OF valid])
     apply (elim conjE, hypsubst)
     apply (rule leads_bind, rule leads_read, rule Rw)
     apply (rule leads_bind, rule leads_get)
     apply (simp only: new option.case claim_path_def)
     apply (rule leads_bind, rule leads_read, rule Rw)
     apply (rule leads_bind, rule leads_read, rule Rw)
     apply (rule leads_bind, rule leads_read, rule Rw)
     apply (rule leads_bind, rule leads_read, rule Rw)
     apply (rule leads_bind, rule leads_bind, rule leads_get, rule leads_ret)
     apply (rule leads_bind, rule leads_read, rule Rw)
     apply (simp only: payload_store_def write_payload.case i [symmetric])
     apply (rule leads_bind, rule leads_weaken [OF leads_store_payload [OF hash]])
      apply (rule accept)
         apply assumption
    using res R by auto
qed

lemma leads_write_source:
  assumes idle: "idle_db operation fresh (ws_db w)"
    and disk: "resolve (ws_disk w) path = Inr target" "\<forall>p \<in> set (ancestors target). free_dir (ws_disk w) p"
    and static: "is_sha256_hex (sha E c)" "\<forall>x. sha E x = sha E c \<longrightarrow> x = c" "\<forall>en. enc_result E en expected \<noteq> None"
  shows "leads (\<lambda>_. under_way E operation path target expected origin c)
     (\<lambda>w'. unrecorded w w' \<or> under_way E operation path target expected origin c w')
     (write_source E fresh path expected (Inline c) origin operation None authorize) w"
proof (rule leads_record_write [OF idle disk(1) static(2) refl])
  fix w' db
  let ?i = "case entry_at (ws_db w) path of Some p \<Rightarrow> en_file_id p | None \<Rightarrow> fresh"
  let ?way = "under_way E operation path target expected origin c"
  assume s: "stored E operation c w w'" and cur: "current_digest E (ws_disk w) target = Inr expected"
    and v: "length c \<le> max_file" "validate_record E c path (length c) = Inr ()"
    and rec: "recorded_db operation ?i path expected origin (sha E c) (int (length c)) db"
  from leads_accepted [OF stored_ready [OF s disk cur] rec static(1) v static(2,3)]
  show "leads (\<lambda>_. ?way) (\<lambda>w'. unrecorded w w' \<or> ?way w')
     (bindS (apply_stored_journal E operation ?i path expected origin) (\<lambda>_.
      readS (\<lambda>w. ok_or (entry_at (ws_db w) path) ''FILE_NOT_FOUND''))) (w'\<lparr>ws_db := db\<rparr>)"
    by (rule leads_weaken) auto
qed simp

text \<open>A vault whose only pending work is the write recovers it; one with none stays as it is.\<close>

lemma recover_idle:
  assumes "pending_journal (ws_db w) = []" "pending_file_ops (ws_db w) = []"
    "\<forall>r \<in> set (directory_ops (ws_db w)). do_state r = ''conflict''"
  shows "ws_recover E w = (Inr (), w)"
  using assms by (simp add: ws_recover_def bindS_def recover_directory_idle getS_def retS_def)

lemma recover_recorded:
  assumes "recorded_db operation i path expected origin digest n (ws_db w)"
    and "apply_stored_journal E operation i path expected origin w = (Inr (), w')"
  shows "ws_recover E w = (Inr (), w')"
proof -
  from assms(1) have rec: "pending_journal (ws_db w) = [pending_row operation i path expected origin]"
      "pending_file_ops (ws_db w) = []" "\<forall>r \<in> set (directory_ops (ws_db w)). do_state r = ''conflict''"
      "payload_ref (ws_db w) operation = Some (digest, n)"
    unfolding recorded_db_def by blast+
  have "recover_journal_row E (pending_row operation i path expected origin) w = (Inr (), w')"
    using assms(2) rec(4) by (simp add: recover_journal_row_def pending_row_def op_run)
  then show ?thesis
    by (simp add: ws_recover_def bindS_def recover_directory_idle [OF rec(3)] getS_def retS_def rec(1,2) tolerate_def)
qed

lemma ready_io: "ready (E\<lparr>io_fails := f\<rparr>) db path target expected c w \<longleftrightarrow> ready E db path target expected c w"
proof -
  have "current_digest (E\<lparr>io_fails := f\<rparr>) d p = current_digest E d p" for d p
    by (simp add: current_digest_def hash_file_def split: option.splits disk_node.splits)
  then show ?thesis by (simp add: ready_def)
qed

lemma committed_idle:
  assumes "recorded_db operation i path expected origin digest n db"
    and "commit_write E operation i path expected origin digest ident db = Inr db2"
  shows "pending_journal db2 = []" "pending_file_ops db2 = []" "\<forall>r \<in> set (directory_ops db2). do_state r = ''conflict''"
proof -
  note tables = commit_write_tables [OF assms(2)]
  have "pending_journal db2 = filter (\<lambda>r. j_op r \<noteq> operation) (pending_journal db)"
    by (simp add: pending_journal_def tables tbl_drop_key_def tbl_delete_def conj_commute)
  then show "pending_journal db2 = []" using assms(1) by (simp add: recorded_db_def pending_row_def)
  show "pending_file_ops db2 = []" using assms(1) by (simp add: recorded_db_def pending_file_ops_def tables)
  show "\<forall>r \<in> set (directory_ops db2). do_state r = ''conflict''" using assms(1) by (simp add: recorded_db_def tables)
qed

lemma under_way_recovers:
  assumes way: "under_way E operation path target expected origin c w"
    and hash: "is_sha256_hex (sha E c)" "\<forall>x. sha E x = sha E c \<longrightarrow> x = c"
  obtains i db db2 w2 where "recorded_db operation i path expected origin (sha E c) (int (length c)) db"
    "commit_write E operation i path expected origin (sha E c) (disk_identity E target) db = Inr db2"
    "ws_recover (E\<lparr>io_fails := \<lambda>_ _. False\<rparr>) w = (Inr (), w2)" "written db2 target c w2"
proof -
  let ?E = "E\<lparr>io_fails := \<lambda>_ _. False\<rparr>"
  from way obtain i db db2 where rec: "recorded_db operation i path expected origin (sha E c) (int (length c)) db"
      and commit: "commit_write E operation i path expected origin (sha E c) (disk_identity E target) db = Inr db2"
      and here: "ready E db path target expected c w \<or> written db2 target c w"
      and static: "is_sha256_hex (sha E c)" "length c \<le> max_file" "validate_record E c path (length c) = Inr ()"
        "\<forall>x. sha E x = sha E c \<longrightarrow> x = c"
    using hash unfolding under_way_def by blast
  from here show thesis
  proof
    assume ready: "ready E db path target expected c w"
    then have db: "ws_db w = db" by (simp add: ready_def)
    have item: "import_item_of db operation = None" and ref: "payload_ref db operation = Some (sha E c, int (length c))"
      using rec by (simp_all only: recorded_db_def)
    have "leads (\<lambda>_. written db2 target c) (\<lambda>_. False) (apply_stored_journal ?E operation i path expected origin) w"
      by (rule leads_weaken [OF leads_apply_stored_journal [of ?E db path target expected c w operation i origin db2]])
         (use ready ref static commit commit_write_io [OF item] in
           \<open>auto simp: ready_io validate_record_def\<close>)
    then obtain w2 where run: "apply_stored_journal ?E operation i path expected origin w = (Inr (), w2)"
        and "written db2 target c w2"
      by (auto simp: leads_def split: prod.splits sum.splits)
    moreover have "ws_recover ?E w = (Inr (), w2)"
      using recover_recorded [of operation i path expected origin "sha E c" "int (length c)" w ?E w2] rec db run by simp
    ultimately show thesis using that rec commit by blast
  next
    assume fin: "written db2 target c w"
    have "ws_recover ?E w = (Inr (), w)"
      using fin committed_idle [OF rec commit] by (intro recover_idle) (simp_all add: written_def)
    with fin that rec commit show thesis by blast
  qed
qed

text \<open>
  C21. A write survives any failure. On a vault without pending work, a write of new content under
  a fresh operation identifier, whichever of its steps of input or output fail, either leaves the
  notes, the receipts, the journal and the queue as they were, or it is recorded and the next
  recovery completes it: the file has the new content, its entry has the new digest, the receipt
  is committed, a local write is queued for synchronisation, and no work is left pending. Assumes
  that no ancestor of the path is a note (write_below_note_blocks is the other case) and that
  the digest tells the new content from the expected one.
\<close>

theorem write_survives_failures:
  assumes "idle_db operation fresh (ws_db w)"
    and "resolve (ws_disk w) path = Inr target" and "\<forall>p \<in> set (ancestors target). free_dir (ws_disk w) p"
    and "is_sha256_hex (sha E c)" and "\<forall>x. sha E x = sha E c \<longrightarrow> x = c"
    and "\<forall>en. enc_result E en expected \<noteq> None"
    and "write_source E fresh path expected (Inline c) origin operation None authorize w = (res, w1)"
  shows "unrecorded w w1 \<or>
    (\<exists>w2 en. ws_recover (E\<lparr>io_fails := \<lambda>_ _. False\<rparr>) w1 = (Inr (), w2) \<and>
       bt_get (ws_disk w2) target = Some (RegFile c) \<and>
       entry_at (ws_db w2) path = Some en \<and> en_hash en = sha E c \<and> \<not> en_deleted en \<and>
       map_option op_state (tbl_get op_id operation (operations (ws_db w2))) = Some ''committed'' \<and>
       (origin = ''local'' \<longrightarrow> (\<exists>r. tbl_get ob_op operation (outbox (ws_db w2)) = Some r \<and>
          ob_file_id r = en_file_id en \<and> ob_path r = path \<and> ob_hash r = sha E c \<and> ob_state r = ''pending'')) \<and>
       pending_journal (ws_db w2) = [])"
proof (cases "unrecorded w w1")
  case False
  have way: "under_way E operation path target expected origin c w1"
    using leads_write_source [OF assms(1-6), of origin authorize] assms(7) False
    by (cases res) (auto dest: leads_Inl leads_Inr)
  from under_way_recovers [OF way assms(4,5)] obtain i db db2 w2 where
    rec: "recorded_db operation i path expected origin (sha E c) (int (length c)) db"
    and commit: "commit_write E operation i path expected origin (sha E c) (disk_identity E target) db = Inr db2"
    and run: "ws_recover (E\<lparr>io_fails := \<lambda>_ _. False\<rparr>) w1 = (Inr (), w2)" "written db2 target c w2" by blast
  have r: "import_item_of db operation = None" "tbl_has f_path path (files db) \<or> \<not> tbl_has f_id i (files db)"
      "tbl_has op_id operation (operations db)" "\<not> tbl_has ob_op operation (outbox db)"
    using rec unfolding recorded_db_def by blast+
  obtain en where en: "entry_at db2 path = Some en" "en_hash en = sha E c" "\<not> en_deleted en"
      "map_option op_state (tbl_get op_id operation (operations db2)) = Some ''committed''"
      "origin = ''local'' \<longrightarrow> (\<exists>r. tbl_get ob_op operation (outbox db2) = Some r \<and> ob_file_id r = en_file_id en \<and>
         ob_path r = path \<and> ob_hash r = sha E c \<and> ob_state r = ''pending'')"
    by (rule commit_write_completes [OF r(1,2) assms(6) r(3), of origin "sha E c" "disk_identity E target"])
       (use commit r(4) in auto)
  have "ws_db w2 = db2" "bt_get (ws_disk w2) target = Some (RegFile c)" using run(2) by (simp_all add: written_def)
  with en run(1) committed_idle(1) [OF rec commit] show ?thesis by blast
qed simp

text \<open>The process stops right after the new content was renamed into place.\<close>

definition demo_crash_env :: ws_env where
  "demo_crash_env = demo_ws_env\<lparr>io_fails := \<lambda>label i. label = ''commit'' \<and> i = ''aa''\<rparr>"

definition demo_vault :: ws where
  "demo_vault = \<lparr>ws_vault_id = ''v'', ws_db = demo_ws_db, ws_disk = [(''n.md'', RegFile ''old'')]\<rparr>"

theorem write_survives_failures_witness:
  "\<exists>w1. snd (write_source demo_crash_env ''f'' ''n.md'' (demo_sha ''old'') (Inline ''new'') ''local'' ''aa'' None (\<lambda>_. Inr ()) demo_vault) = w1 \<and>
     (unrecorded demo_vault w1 \<or> (\<exists>w2. ws_recover (demo_crash_env\<lparr>io_fails := \<lambda>_ _. False\<rparr>) w1 = (Inr (), w2) \<and>
        bt_get (ws_disk w2) ''n.md'' = Some (RegFile ''new'')))"
proof -
  have "resolve (ws_disk demo_vault) ''n.md'' = Inr ''n.md''"
    by (simp add: resolve_def resolve_names_def text_eval path_components_def component_of_def unsafe_component_def
        name_prefixes_def demo_vault_def disk_exists_def disk_linked_def bt_get_def)
  moreover have "idle_db ''aa'' ''f'' (ws_db demo_vault)"
    by (simp add: demo_vault_def demo_ws_db_def idle_db_def pending_journal_def pending_file_ops_def import_item_of_def tbl_has_iff)
  moreover have "ancestors ''n.md'' = []" by (simp add: ancestors_def name_prefixes_def)
  moreover have "is_sha256_hex (demo_sha ''new'')" by (simp add: demo_sha_def ascii_defs list_all_iff)
  moreover have "\<forall>x. demo_sha x = demo_sha ''new'' \<longrightarrow> x = ''new''" by (simp add: demo_sha_def)
  ultimately show ?thesis
    using write_survives_failures [OF _ _ _ _ _ _ prod.collapse [symmetric], of "''aa''" "''f''" demo_vault "''n.md''" "''n.md''"
      demo_crash_env "''new''" "demo_sha ''old''" "''local''" "\<lambda>_. Inr ()"]
    by (auto simp: demo_crash_env_def demo_ws_env_def)
qed

section \<open>A write below a note\<close>

text \<open>
  The states after recording a write whose target lies below a regular file: its directory can
  never be created.
\<close>

definition blocked :: "ws_env \<Rightarrow> ws_db \<Rightarrow> string \<Rightarrow> string \<Rightarrow> string \<Rightarrow> string \<Rightarrow> ws \<Rightarrow> bool" where
  "blocked E db path target note c w \<longleftrightarrow>
     ws_db w = db \<and> bt_get (ws_disk w) ''.ainote'' = Some DirNode \<and>
     bt_get (ws_disk w) ''.ainote/sync-spool'' = Some DirNode \<and>
     bt_get (ws_disk w) (spool_path (sha E c)) = Some (RegFile c) \<and> resolve (ws_disk w) path = Inr target \<and>
     bt_get (ws_disk w) target = None \<and> (\<exists>n. bt_get (ws_disk w) note = Some (RegFile n))"

lemma make_dirs_blocked:
  "p \<in> set ps \<Longrightarrow> bt_get d p = Some (RegFile n) \<Longrightarrow> make_dirs ps d = Err ''FILESYSTEM_ERROR''"
proof (induction ps d rule: make_dirs.induct)
  case (2 q ps d)
  then have "bt_get d q = None \<Longrightarrow> q \<noteq> p" by auto
  with 2 show ?case by (auto split: option.splits disk_node.splits)
qed simp

lemma apply_blocked:
  assumes w: "blocked E db path target note c w" and note': "note \<in> set (ancestors target)"
    and ref: "payload_ref db operation = Some (sha E c, int (length c))"
    and static: "is_sha256_hex (sha E c)" "length c \<le> max_file" "validate_record E c path (length c) = Inr ()"
  shows "apply_stored_journal E operation i path [] origin w = (Err ''FILESYSTEM_ERROR'', w)"
proof -
  from w have res: "resolve (ws_disk w) path = Inr target" and db: "ws_db w = db"
    and spool: "bt_get (ws_disk w) (spool_path (sha E c)) = Some (RegFile c)"
    and dirs: "bt_get (ws_disk w) ''.ainote'' = Some DirNode" "bt_get (ws_disk w) ''.ainote/sync-spool'' = Some DirNode"
    and none: "bt_get (ws_disk w) target = None"
    by (auto simp: blocked_def)
  have sp: "sync_spool E (sha E c) w = (Inr (spool_path (sha E c)), w)"
    using dirs static(1) by (simp add: sync_spool_def op_run create_dirs_def bindS_def disk_exists_def disk_is_dir_def)
  have cur: "current_digest E (ws_disk w) target = Inr []" using none by (simp add: current_digest_def disk_exists_def)
  have ne: "[] \<noteq> sha E c" using static(1) by (auto simp: is_sha256_hex_def)
  have opened: "open_verified E (ws_disk w) (spool_path (sha E c)) (sha E c) (length c) = Inr c"
    using spool by (simp add: open_verified_def verified_def)
  obtain n where "bt_get (ws_disk w) note = Some (RegFile n)" using w by (auto simp: blocked_def)
  then have place: "place_file E operation target c w = (Err ''FILESYSTEM_ERROR'', w)"
    using make_dirs_blocked [OF note'] by (simp add: place_file_def create_dirs_def op_run bindS_def)
  show ?thesis
    using place cur opened static(2,3) res db ref ne
    by (simp add: apply_stored_journal_def bindS_step [of "sync_spool E (sha E c)" w, OF sp] op_run io_step_def
        bindS_stop [of "place_file E operation target c" w, OF place])
qed

lemma recover_blocked:
  assumes w: "blocked E db path target note c w" and note': "note \<in> set (ancestors target)"
    and rec: "recorded_db operation i path [] origin (sha E c) (int (length c)) db"
    and static: "is_sha256_hex (sha E c)" "length c \<le> max_file" "validate_record E c path (length c) = Inr ()"
  shows "ws_recover E w = (Err ''FILESYSTEM_ERROR'', w)"
proof -
  have db: "ws_db w = db" using w by (simp add: blocked_def)
  have rec': "pending_journal (ws_db w) = [pending_row operation i path [] origin]" "pending_file_ops (ws_db w) = []"
      "\<forall>r \<in> set (directory_ops (ws_db w)). do_state r = ''conflict''"
      "payload_ref db operation = Some (sha E c, int (length c))"
    using rec unfolding db recorded_db_def by blast+
  have "recover_journal_row E (pending_row operation i path [] origin) w = (Err ''FILESYSTEM_ERROR'', w)"
    using apply_blocked [OF w note' rec'(4) static, of i origin] rec'(4)
    by (simp add: recover_journal_row_def pending_row_def op_run db)
  then show ?thesis
    by (simp add: ws_recover_def bindS_def recover_directory_idle [OF rec'(3)] getS_def retS_def rec'(1,2) tolerate_def)
qed

lemma stored_blocked:
  assumes "stored E operation c w w'" "resolve (ws_disk w) path = Inr target" "bt_get (ws_disk w) target = None"
    and "note \<in> set (ancestors target)" "bt_get (ws_disk w) note = Some (RegFile n)"
  shows "blocked E db path target note c (w'\<lparr>ws_db := db\<rparr>)"
proof -
  note unmanaged = resolve_not_managed [OF assms(2)]
  have same: "bt_get (ws_disk w') q = bt_get (ws_disk w) q" if "\<not> managed q" for q
    using assms(1) that unfolding stored_def unrecorded_def by blast
  have res: "resolve (ws_disk w') path = Inr target"
    using assms(2) by (rule resolve_links) (use assms(1) in \<open>simp only: stored_def\<close>)
  have "bt_get (ws_disk w') ''.ainote'' = Some DirNode" "bt_get (ws_disk w') ''.ainote/sync-spool'' = Some DirNode"
      "bt_get (ws_disk w') (spool_path (sha E c)) = Some (RegFile c)"
    using assms(1) by (simp_all only: stored_def)
  moreover have "bt_get (ws_disk w') target = None" using assms(3) same [OF unmanaged] by simp
  moreover have "bt_get (ws_disk w') note = Some (RegFile n)"
    using assms(5) same [of "note"] ancestors_managed [OF assms(4)] unmanaged by simp
  ultimately show ?thesis using res by (simp add: blocked_def)
qed

text \<open>
  C23. A write below a note blocks the vault for ever. On a vault without pending work, a write to
  a path that treats an existing note as a directory never succeeds; and when it is recorded,
  which nothing prevents, every later recovery fails with the same file system error and changes
  nothing, so that the vault cannot be opened again.
\<close>

theorem write_below_note_blocks:
  assumes "idle_db operation fresh (ws_db w)" and "resolve (ws_disk w) path = Inr target"
    and "note \<in> set (ancestors target)" and "bt_get (ws_disk w) note = Some (RegFile n)"
    and "bt_get (ws_disk w) target = None" and "is_sha256_hex (sha E c)" and "\<forall>x. sha E x = sha E c \<longrightarrow> x = c"
    and "write_source E fresh path expected (Inline c) origin operation None authorize w = (res, w1)"
  shows "(\<exists>e. res = Inl e) \<and> (unrecorded w w1 \<or> ws_recover E w1 = (Err ''FILESYSTEM_ERROR'', w1))"
proof -
  let ?i = "case entry_at (ws_db w) path of Some p \<Rightarrow> en_file_id p | None \<Rightarrow> fresh"
  let ?R = "\<lambda>w'. unrecorded w w' \<or> ws_recover E w' = (Err ''FILESYSTEM_ERROR'', w')"
  have "leads (\<lambda>_ _. False) ?R (write_source E fresh path expected (Inline c) origin operation None authorize) w"
  proof (rule leads_record_write [OF assms(1,2,7) refl])
    fix w' db
    assume s: "stored E operation c w w'" and cur: "current_digest E (ws_disk w) target = Inr expected"
      and v: "length c \<le> max_file" "validate_record E c path (length c) = Inr ()"
      and rec: "recorded_db operation ?i path expected origin (sha E c) (int (length c)) db"
    have e: "expected = []" using cur assms(5) by (simp add: current_digest_def disk_exists_def)
    let ?w = "w'\<lparr>ws_db := db\<rparr>"
    have b: "blocked E db path target note c ?w" by (rule stored_blocked [OF s assms(2,5,3,4)])
    have ref: "payload_ref db operation = Some (sha E c, int (length c))" using rec by (simp add: recorded_db_def)
    have "apply_stored_journal E operation ?i path expected origin ?w = (Err ''FILESYSTEM_ERROR'', ?w)"
      unfolding e by (rule apply_blocked [OF b assms(3) ref assms(6) v])
    moreover have "ws_recover E ?w = (Err ''FILESYSTEM_ERROR'', ?w)"
      using recover_blocked [OF b assms(3) _ assms(6) v] rec unfolding e by blast
    ultimately show "leads (\<lambda>_ _. False) ?R (bindS (apply_stored_journal E operation ?i path expected origin) (\<lambda>_.
        readS (\<lambda>w. ok_or (entry_at (ws_db w) path) ''FILE_NOT_FOUND''))) ?w"
      by (simp add: leads_def bindS_def)
  qed simp
  with assms(8) show ?thesis by (cases res) (auto dest: leads_Inl leads_Inr)
qed

lemma demo_resolve:
  "resolve [(''n.md'', RegFile ''old'')] ''n.md/x.md'' = Inr ''n.md/x.md''"
  by (simp add: resolve_def resolve_names_def text_eval path_components_def component_of_def unsafe_component_def
      name_prefixes_def disk_exists_def disk_linked_def bt_get_def)

lemma demo_spool_hex: "is_sha256_hex (demo_sha c)"
  by (simp add: demo_sha_def ascii_defs list_all_iff)

lemmas write_eval = Let_def write_source_def payload_validate_def op_run require_def bindS_def payload_store_def store_payload_def
  spool_put_def sync_spool_def create_dirs_def spool_write_def register_payload_def payload_ref_def accept_write_def
  commitS_def io_step_def on_db_def on_disk_def claim_path_def check_new_write_def import_item_of_def

lemma demo_ancestors: "ancestors ''n.md/x.md'' = [''n.md'']"
  by (simp add: ancestors_def text_eval name_prefixes_def)

lemma demo_record_write:
  "operations (ws_db (snd (write_source demo_ws_env ''f'' ''n.md/x.md'' [] (Inline ''new'') ''local'' ''aa'' None
     (\<lambda>_. Inr ()) demo_vault))) \<noteq> []"
proof -
  have env: "io_fails demo_ws_env l j = False" "sha demo_ws_env = demo_sha" "is_uuid_text demo_ws_env s" for l j s
    by (simp_all add: demo_ws_env_def demo_exp_env_def)
  have names: "\<not> is_canvas ''n.md/x.md''" "\<not> is_record ''n.md/x.md''"
    by (simp_all add: is_canvas_def is_record_def text_eval)
  have spool: "spool_path (demo_sha c) \<noteq> ''n.md''" "spool_path (demo_sha c) \<noteq> ''.ainote''"
     "spool_path (demo_sha c) \<noteq> ''.ainote/sync-spool''"
     "''.ainote/sync-spool'' < spool_path (demo_sha c)" "\<not> spool_path (demo_sha c) < ''.ainote''"
     "''.ainote'' < spool_path (demo_sha c)" "\<not> spool_path (demo_sha c) < ''.ainote/sync-spool''"
     "spool_path (demo_sha c) < ''n.md''" "''n.md/x.md'' \<noteq> spool_path (demo_sha c)" "[] \<noteq> demo_sha c" for c
    by (simp_all add: spool_path_def demo_sha_def)
  have res: "resolve [(''.ainote'', DirNode), (spool_root, DirNode), (spool_path (demo_sha ''new''), RegFile ''new''),
      (''n.md'', RegFile ''old'')] ''n.md/x.md'' = Inr ''n.md/x.md''"
    by (simp add: resolve_def resolve_names_def text_eval path_components_def component_of_def unsafe_component_def
        name_prefixes_def disk_exists_def disk_linked_def bt_get_def spool_path_def)
  show ?thesis
    unfolding demo_vault_def
    by (simp add: write_eval env names spool spool(1-3) [symmetric] demo_resolve demo_spool_hex max_file_def tbl_has_iff demo_ws_db_def
        current_digest_def disk_exists_def entry_at_def disk_is_dir_def bt_get_def apply_stored_journal_def tbl_insert_ignore_def tbl_has_def tbl_get_Cons res demo_ancestors
        place_file_def open_verified_def verified_def validate_record_def)
qed

theorem write_below_note_blocks_witness:
  "\<exists>e w1. write_source demo_ws_env ''f'' ''n.md/x.md'' [] (Inline ''new'') ''local'' ''aa'' None (\<lambda>_. Inr ()) demo_vault = (Inl e, w1) \<and>
     operations (ws_db w1) \<noteq> [] \<and> ws_recover demo_ws_env w1 = (Err ''FILESYSTEM_ERROR'', w1)"
proof -
  obtain res w1 where run: "write_source demo_ws_env ''f'' ''n.md/x.md'' [] (Inline ''new'') ''local'' ''aa'' None (\<lambda>_. Inr ()) demo_vault = (res, w1)"
    by fastforce
  have recorded: "operations (ws_db w1) \<noteq> []" using demo_record_write by (simp add: run)
  have "\<not> unrecorded demo_vault w1" using recorded by (auto simp: unrecorded_def demo_vault_def demo_ws_db_def)
  moreover have "idle_db ''aa'' ''f'' (ws_db demo_vault)"
    by (simp add: demo_vault_def demo_ws_db_def idle_db_def pending_journal_def pending_file_ops_def import_item_of_def tbl_has_iff)
  moreover have "''n.md'' \<in> set (ancestors ''n.md/x.md'')" by (simp add: demo_ancestors)
  moreover have "\<forall>x. demo_sha x = demo_sha ''new'' \<longrightarrow> x = ''new''" by (simp add: demo_sha_def)
  ultimately show ?thesis
    using write_below_note_blocks [OF _ _ _ _ _ _ _ run, of "''n.md/x.md''" "''n.md''" "''old''"] recorded run
    by (auto simp: demo_resolve demo_spool_hex demo_vault_def demo_ws_env_def bt_get_def)
qed

end
