(* ===== verification/Workspace_Frame.thy ===== *)
theory Workspace_Frame
  imports Workspace_Recovery
begin

text \<open>
  What the write path leaves alone: writes, renames, deletes and recovery never change a table
  of the synchronisation state other than the outbox and the observed files, and they never
  replace or remove a file whose content no work under way expects.
\<close>

section \<open>The synchronisation tables\<close>

definition sync_part ::
  "ws_db \<Rightarrow> (binding_row list \<times> job_row list \<times> head_row list \<times> window_row list \<times> inbox_row list \<times>
     conflict_row list) \<times> (initial_row list \<times> initial_item_row list \<times> (string \<times> bool) list \<times>
     optional_scope option \<times> attempt_row list \<times> retry_row list \<times> resolution_row list)" where
  "sync_part db =
     ((sync_bindings db, sync_jobs db, sync_heads db, sync_windows db, sync_inbox db, sync_conflicts db),
      (sync_initial db, sync_initial_items db, sync_preferences db, sync_optional_scope db, sync_attempts db,
       sync_retries db, sync_resolutions db))"

lemma sync_part_eq:
  "sync_part db' = sync_part db \<longleftrightarrow>
     sync_bindings db' = sync_bindings db \<and> sync_jobs db' = sync_jobs db \<and> sync_heads db' = sync_heads db \<and>
     sync_windows db' = sync_windows db \<and> sync_inbox db' = sync_inbox db \<and> sync_conflicts db' = sync_conflicts db \<and>
     sync_initial db' = sync_initial db \<and> sync_initial_items db' = sync_initial_items db \<and>
     sync_preferences db' = sync_preferences db \<and> sync_optional_scope db' = sync_optional_scope db \<and>
     sync_attempts db' = sync_attempts db \<and> sync_retries db' = sync_retries db \<and> sync_resolutions db' = sync_resolutions db"
  by (auto simp: sync_part_def)

named_theorems same_sync

lemma sync_part_update [same_sync, simp]:
  "sync_part (db\<lparr>files := a\<rparr>) = sync_part db" "sync_part (db\<lparr>file_disk_identity := b\<rparr>) = sync_part db"
  "sync_part (db\<lparr>journal := c\<rparr>) = sync_part db" "sync_part (db\<lparr>file_ops := d\<rparr>) = sync_part db"
  "sync_part (db\<lparr>directory_ops := e\<rparr>) = sync_part db" "sync_part (db\<lparr>outbox := f\<rparr>) = sync_part db"
  "sync_part (db\<lparr>operations := g\<rparr>) = sync_part db" "sync_part (db\<lparr>payloads := h\<rparr>) = sync_part db"
  "sync_part (db\<lparr>sync_observed := i\<rparr>) = sync_part db" "sync_part (db\<lparr>file_aliases := j\<rparr>) = sync_part db"
  "sync_part (db\<lparr>experiment_imports := k\<rparr>) = sync_part db" "sync_part (db\<lparr>experiment_import_items := l\<rparr>) = sync_part db"
  by (simp_all add: sync_part_def)

subsection \<open>Transactions of the write path\<close>

lemma same_sync_identity [same_sync]: "sync_part (set_disk_identity i v db) = sync_part db"
  by (simp add: set_disk_identity_def split: option.splits)

lemma same_sync_stage [same_sync]: "sync_part (stage_write operation i path origin digest ident db) = sync_part db"
  by (subst stage_write_tables) simp

lemma same_sync_finish [same_sync]: "sync_part (finish_operation operation result db) = sync_part db"
  by (simp add: finish_operation_def)

lemma same_sync_conflict [same_sync]: "sync_part (conflict_write i db) = sync_part db"
  by (simp add: conflict_write_def Let_def split: option.splits)

lemma same_sync_mark [same_sync]:
  "sync_part (mark_write_conflict operation db) = sync_part db" "sync_part (mark_file_op_conflict i db) = sync_part db"
  by (simp_all add: mark_write_conflict_def mark_file_op_conflict_def same_sync_conflict)

lemma same_sync_retire [same_sync]: "sync_part (retire_path path i db) = sync_part db"
  by (simp add: retire_path_def)

lemma same_sync_complete: "complete_write E i en db = Inr db' \<Longrightarrow> sync_part db' = sync_part db"
proof -
  assume c: "complete_write E i en db = Inr db'"
  have "db' = db \<or> (\<exists>encoded k rec. db' = settle_import i encoded k rec db)"
  proof (cases "import_item_of db i")
    case None
    with c show ?thesis by (simp add: complete_write_def)
  next
    case (Some it)
    with c show ?thesis unfolding complete_write_def Let_def by (auto simp only: option.case bindR_Inr_iff sum.inject)
  qed
  then show ?thesis by (elim disjE exE) (simp_all add: settle_import_def Let_def)
qed

lemma same_sync_files: "files_upsert i path digest db = Inr db' \<Longrightarrow> sync_part db' = sync_part db"
  by (subst files_upsert_tables) simp_all

lemma same_sync_commit_write:
  "commit_write E operation i path expected origin digest ident db = Inr db' \<Longrightarrow> sync_part db' = sync_part db"
  unfolding commit_write_Inr by (auto simp: same_sync dest!: same_sync_complete same_sync_files)

lemma same_sync_move: "move_row i path db = Inr db' \<Longrightarrow> sync_part db' = sync_part db"
  by (auto simp: move_row_def bindR_Inr_iff)

lemma same_sync_queue: "queue_file operation kind i db = Inr db' \<Longrightarrow> sync_part db' = sync_part db"
  by (auto simp: queue_file_def queue_row_def bindR_Inr_iff split: option.splits)

lemma same_sync_alias: "move_alias_descendant origin a db = Inr db' \<Longrightarrow> sync_part db' = sync_part db"
  by (auto simp: move_alias_descendant_def Let_def bindR_Inr_iff same_sync split: if_splits)

lemma same_sync_aliases: "move_alias_descendants origin as db = Inr db' \<Longrightarrow> sync_part db' = sync_part db"
  by (induction origin as db arbitrary: db' rule: move_alias_descendants.induct)
     (auto simp: bindR_Inr_iff dest: same_sync_alias)

lemma same_sync_commit_file_op:
  "commit_file_op E op previous ident descendants db = Inr db' \<Longrightarrow> sync_part db' = sync_part db"
  unfolding commit_file_op_def Let_def
  by (auto simp: bindR_Inr_iff same_sync split: if_splits option.splits
      dest!: same_sync_aliases same_sync_queue same_sync_move)

section \<open>Operations\<close>

text \<open>A property of the database that only depends on the synchronisation tables.\<close>

definition framed :: "('a \<Rightarrow> bool) \<Rightarrow> (ws_db \<Rightarrow> 'a) \<Rightarrow> ws_db \<Rightarrow> bool" where
  "framed J part db \<longleftrightarrow> J (part db)"

lemma frames_same: "(\<And>J. keeps (db_holds (framed J sync_part)) m w) \<Longrightarrow> m w = (r, w') \<Longrightarrow>
    sync_part (ws_db w') = sync_part (ws_db w)"
proof -
  assume k: "\<And>J. keeps (db_holds (framed J sync_part)) m w" and m: "m w = (r, w')"
  show ?thesis using k [of "\<lambda>p. p = sync_part (ws_db w)"] m by (simp add: keeps_def db_holds_def framed_def)
qed

lemma frame_commitS:
  assumes "\<And>db db'. f db = Inr db' \<Longrightarrow> sync_part db' = sync_part db"
  shows "keeps (db_holds (framed J sync_part)) (commitS E i f) w"
  by (rule db_commitS) (use assms in \<open>simp add: framed_def\<close>)

lemma frame_on_db:
  assumes "\<And>db. sync_part (f db) = sync_part db"
  shows "keeps (db_holds (framed J sync_part)) (on_db f) w"
  by (rule db_on_db) (use assms in \<open>simp add: framed_def\<close>)

lemma frame_register: "keeps (db_holds (framed J sync_part)) (register_payload operation digest sz) w"
  unfolding register_payload_def by (rule frame_on_db db_rules)+ simp

lemma frame_store_payload: "keeps (db_holds (framed J sync_part)) (store_payload E operation content) w"
  unfolding store_payload_def by (rule frame_register db_disk_rules db_rules)+

lemma frame_snapshot: "keeps (db_holds (framed J sync_part)) (snapshot_file E operation source expected) w"
  unfolding snapshot_file_def by (rule db_disk_rules db_rules)+

lemma frame_store_file: "keeps (db_holds (framed J sync_part)) (store_payload_file E operation source expected) w"
  unfolding store_payload_file_def by (rule frame_snapshot frame_register db_rules)+

lemma keeps_payload_case:
  "(\<And>b. p = Inline b \<Longrightarrow> keeps I (f b) w) \<Longrightarrow> (\<And>d n. p = Stored d n \<Longrightarrow> keeps I (g d n) w) \<Longrightarrow>
     keeps I (case p of Inline b \<Rightarrow> f b | Stored d n \<Rightarrow> g d n) w"
  by (cases p) auto

lemma frame_payload_validate: "keeps (db_holds (framed J sync_part)) (payload_validate E p path) w"
  unfolding payload_validate_def by (rule keeps_payload_case db_disk_rules db_rules)+

lemma frame_payload_store: "keeps (db_holds (framed J sync_part)) (payload_store E p operation) w"
  unfolding payload_store_def by (rule keeps_payload_case frame_store_payload frame_register db_disk_rules db_rules)+

lemmas frame_rules = frame_register frame_store_payload frame_store_file frame_payload_validate frame_payload_store
  db_disk_rules db_rules

lemma frame_apply_stored_journal:
  "keeps (db_holds (framed J sync_part)) (apply_stored_journal E operation i path expected origin) w"
proof -
  have mark: "keeps (db_holds (framed J sync_part)) (commitS E operation (\<lambda>db. Inr (mark_write_conflict operation db))) w'" for w'
    by (rule frame_commitS) (auto simp: same_sync)
  have commit: "keeps (db_holds (framed J sync_part))
      (commitS E operation (commit_write E operation i path expected origin digest ident)) w'" for w' digest ident
    by (rule frame_commitS) (rule same_sync_commit_write)
  show ?thesis unfolding apply_stored_journal_def by (rule mark commit frame_rules)+
qed

lemma frame_apply_file_op: "keeps (db_holds (framed J sync_part)) (apply_file_op E i) w"
proof -
  have mark: "keeps (db_holds (framed J sync_part)) (commitS E i (\<lambda>db. Inr (mark_file_op_conflict i db))) w'" for w'
    by (rule frame_commitS) (auto simp: same_sync)
  have commit: "keeps (db_holds (framed J sync_part)) (commitS E i (commit_file_op E op previous ident descendants)) w'"
    for w' op previous ident descendants
    by (rule frame_commitS) (rule same_sync_commit_file_op)
  show ?thesis unfolding apply_file_op_def Let_def by (rule mark commit frame_rules)+
qed

lemma frame_abort: "keeps (db_holds (framed J sync_part)) (abort_directory_op E i ops) w"
proof -
  have "keeps (db_holds (framed J sync_part)) (commitS E i (\<lambda>db. Inr (
       let ids = map fst ops in
       db\<lparr>file_ops := tbl_update (\<lambda>r. fo_id r \<in> set ids) (\<lambda>r. r\<lparr>fo_state := ''conflict''\<rparr>) (file_ops db),
          operations := tbl_update (\<lambda>r. op_id r \<in> set ids \<and> op_state r \<noteq> ''committed'')
            (\<lambda>r. r\<lparr>op_state := ''conflict''\<rparr>) (operations db),
          directory_ops := tbl_update (\<lambda>r. do_id r = i) (\<lambda>r. r\<lparr>do_state := ''conflict''\<rparr>) (directory_ops db)\<rparr>))) w'" for w'
    by (rule frame_commitS) (auto simp: Let_def)
  then show ?thesis unfolding abort_directory_op_def by (rule keeps_bind) (rule db_rules)
qed

lemma keeps_catch:
  assumes "keeps I m w" "\<And>w'. keeps I n w'"
  shows "keeps I (\<lambda>w. case m w of (Inl e, w') \<Rightarrow> if P e then (Inr x, w') else (Inl e, w') | (Inr u, w') \<Rightarrow> n w') w"
proof (cases "m w")
  case (Pair r w')
  with assms(1) show ?thesis using assms(2) [of w'] by (cases r) (simp_all add: keeps_def)
qed

lemma frame_folder_files: "keeps (db_holds (framed J sync_part)) (apply_folder_files E ids) w"
proof (induction ids arbitrary: w)
  case (Cons i rest)
  have run: "keeps (db_holds (framed J sync_part)) (\<lambda>w. case apply_file_op E i w of
         (Inl e, w') \<Rightarrow> if err_code e = ''RECOVERY_CONFLICT'' then (Inr True, w') else (Inl e, w')
       | (Inr _, w') \<Rightarrow> apply_folder_files E rest w') w" for w
    by (rule keeps_catch [OF frame_apply_file_op Cons.IH])
  show ?case unfolding apply_folder_files.simps by (rule run Cons.IH db_rules)+
qed (simp add: keeps_basic)

lemma frame_apply_directory_op: "keeps (db_holds (framed J sync_part)) (apply_directory_op E i) w"
proof -
  have drop: "keeps (db_holds (framed J sync_part))
      (on_db (\<lambda>db. db\<lparr>directory_ops := tbl_drop_key do_id i (directory_ops db)\<rparr>)) w'" for w'
    by (rule frame_on_db) simp
  show ?thesis unfolding apply_directory_op_def Let_def
    by (rule drop frame_abort frame_folder_files frame_rules)+
qed

lemma frame_recover: "keeps (db_holds (framed J sync_part)) (ws_recover E) w"
  unfolding ws_recover_def recover_directory_ops_def recover_journal_row_def apply_journal_def
  by (rule frame_apply_directory_op frame_apply_file_op frame_apply_stored_journal keeps_each frame_rules)+

lemma frame_claim: "keeps (db_holds (framed J sync_part)) (claim_path identity path) w"
  unfolding claim_path_def by (rule frame_on_db frame_rules | simp)+

lemma frame_accept: "keeps (db_holds (framed J sync_part)) (accept_write E operation fp i path expected origin a) w"
  unfolding accept_write_def by (rule frame_commitS) (auto simp: bindR_Inr_iff)

lemma frame_write_source:
  "keeps (db_holds (framed J sync_part)) (write_source E fresh path expected content origin operation identity a) w"
  unfolding write_source_def replay_write_def Let_def
  by (rule frame_recover frame_claim frame_accept frame_apply_stored_journal frame_rules)+

lemma frame_prepare_file_op:
  "keeps (db_holds (framed J sync_part)) (prepare_file_op E kind path destination expected i origin) w"
proof -
  have acc: "keeps (db_holds (framed J sync_part)) (commitS E l (\<lambda>db.
             bindR (require (g db) ''DATABASE_ERROR'') (\<lambda>_.
             Inr (db\<lparr>operations := operations db @ x, file_ops := file_ops db @ y\<rparr>)))) w'" for l g x y w'
    by (rule frame_commitS) (auto simp: bindR_Inr_iff)
  show ?thesis unfolding prepare_file_op_def Let_def by (rule frame_recover acc frame_rules)+
qed

lemma frame_mutate:
  "keeps (db_holds (framed J sync_part)) (mutate_with_origin E kind path destination expected operation origin) w"
  unfolding mutate_with_origin_def by (rule frame_prepare_file_op frame_apply_file_op frame_rules)+

section \<open>The write path keeps what nobody expected\<close>

text \<open>No work at all is under way on content with digest \<open>h\<close>, and no folder operation is.\<close>

definition quiet :: "string \<Rightarrow> ws_db \<Rightarrow> bool" where
  "quiet h db \<longleftrightarrow> unexpected UNIV h db \<and> (\<forall>r \<in> set (directory_ops db). do_state r = ''conflict'')"

lemma quiet_subset:
  "quiet h db \<Longrightarrow> set (file_ops db') \<subseteq> set (file_ops db) \<Longrightarrow> set (journal db') \<subseteq> set (journal db) \<Longrightarrow>
     directory_ops db' = directory_ops db \<Longrightarrow> quiet h db'"
  by (auto simp: quiet_def unexpected_def)

lemma quiet_commits:
  "quiet h db \<Longrightarrow> commit_write E operation i path expected origin digest ident db = Inr db' \<Longrightarrow> quiet h db'"
  "quiet h db \<Longrightarrow> commit_file_op E op previous identity descendants db = Inr db' \<Longrightarrow> quiet h db'"
  "quiet h db \<Longrightarrow> quiet h (mark_write_conflict operation db)"
  "quiet h db \<Longrightarrow> quiet h (mark_file_op_conflict operation db)"
proof -
  show "quiet h db'" if "quiet h db" "commit_write E operation i path expected origin digest ident db = Inr db'"
    using that(1) commit_write_tables [OF that(2)] by (elim quiet_subset) (auto simp: tbl_drop_key_def)
  show "quiet h db'" if "quiet h db" "commit_file_op E op previous identity descendants db = Inr db'"
    using that(1) commit_file_op_tables [OF that(2)] by (elim quiet_subset) (auto simp: tbl_drop_key_def)
  show "quiet h (mark_write_conflict operation db)" if "quiet h db"
    using that unexpected_mark_write by (auto simp: quiet_def mark_write_conflict_def conflict_write_tables)
  show "quiet h (mark_file_op_conflict operation db)" if "quiet h db"
    using that unexpected_mark_file_op by (auto simp: quiet_def mark_file_op_conflict_def)
qed

lemma quiet_commitS: "(\<And>db db'. quiet h db \<Longrightarrow> f db = Inr db' \<Longrightarrow> quiet h db') \<Longrightarrow> keeps (db_holds (quiet h)) (commitS E i f) w"
  by (rule db_commitS)

lemma quiet_register: "keeps (db_holds (quiet h)) (register_payload operation digest sz) w"
  unfolding register_payload_def by (rule db_rules | rule db_on_db, erule quiet_subset)+ simp_all

lemma quiet_store: "keeps (db_holds (quiet h)) (store_payload E operation content) w"
  unfolding store_payload_def by (rule quiet_register db_disk_rules db_rules)+

lemma quiet_apply_stored_journal: "keeps (db_holds (quiet h)) (apply_stored_journal E operation i path expected origin) w"
proof -
  have mark: "keeps (db_holds (quiet h)) (commitS E operation (\<lambda>db. Inr (mark_write_conflict operation db))) w'" for w'
    by (rule quiet_commitS) (auto intro: quiet_commits(3))
  have commit: "keeps (db_holds (quiet h)) (commitS E operation (commit_write E operation i path expected origin digest ident)) w'"
    for w' digest ident by (rule quiet_commitS) (rule quiet_commits(1))
  show ?thesis unfolding apply_stored_journal_def by (rule mark commit db_disk_rules db_rules)+
qed

lemma quiet_apply_file_op: "keeps (db_holds (quiet h)) (apply_file_op E i) w"
proof -
  have mark: "keeps (db_holds (quiet h)) (commitS E i (\<lambda>db. Inr (mark_file_op_conflict i db))) w'" for w'
    by (rule quiet_commitS) (auto intro: quiet_commits(4))
  have commit: "keeps (db_holds (quiet h)) (commitS E i (commit_file_op E op previous ident descendants)) w'"
    for w' op previous ident descendants by (rule quiet_commitS) (rule quiet_commits(2))
  show ?thesis unfolding apply_file_op_def Let_def by (rule mark commit quiet_store db_disk_rules db_rules)+
qed

definition calm :: "ws_env \<Rightarrow> string \<Rightarrow> string \<Rightarrow> ws \<Rightarrow> bool" where
  "calm E q c w \<longleftrightarrow> db_holds (quiet (sha E c)) w \<and> holds q c w"

lemma calm_keeps:
  "(calm E q c w \<Longrightarrow> keeps (holds q c) m w) \<Longrightarrow> keeps (db_holds (quiet (sha E c))) m w \<Longrightarrow> keeps (calm E q c) m w"
  by (auto simp: keeps_def calm_def)

lemma calm_apply_stored_journal:
  "expected \<noteq> sha E c \<Longrightarrow> keeps (calm E q c) (apply_stored_journal E operation i path expected origin) w"
  by (rule calm_keeps [OF keep_apply_stored_journal quiet_apply_stored_journal])

lemma calm_store: "keeps (calm E q c) (store_payload E operation content) w"
  by (rule calm_keeps [OF keep_store_payload quiet_store])

lemma calm_apply_journal:
  "expected \<noteq> sha E c \<Longrightarrow> keeps (calm E q c) (apply_journal E operation i path expected content origin) w"
  unfolding apply_journal_def by (rule calm_store calm_apply_stored_journal keep_rules | assumption)+

lemma calm_apply_file_op: "keeps (calm E q c) (apply_file_op E i) w"
proof (rule calm_keeps [OF keep_apply_file_op quiet_apply_file_op])
  fix op assume "calm E q c w" "tbl_get fo_id i (file_ops (ws_db w)) = Some op"
  then show "fo_hash op \<noteq> sha E c" by (auto simp: calm_def db_holds_def quiet_def unexpected_def dest: tbl_get_SomeD)
qed

lemma calm_recover: "keeps (calm E q c) (ws_recover E) w"
proof -
  have dirs: "keeps (calm E q c) (recover_directory_ops E) w'" for w'
    using recover_directory_idle [of w' E] by (auto simp: keeps_def calm_def db_holds_def quiet_def)
  have rows: "keeps (calm E q c) (each (recover_journal_row E) (pending_journal (ws_db w'))) w'" if "calm E q c w'" for w'
  proof (rule keeps_each)
    fix r w'' assume "r \<in> set (pending_journal (ws_db w'))"
    then have "j_expected r \<noteq> sha E c" using that by (auto simp: calm_def db_holds_def quiet_def unexpected_def pending_journal_def)
    note steps = calm_apply_stored_journal [OF this] calm_apply_journal [OF this]
    show "keeps (calm E q c) (recover_journal_row E r) w''"
      unfolding recover_journal_row_def by (rule steps keep_rules)+
  qed
  have journal: "keeps (calm E q c) (bindS (getS (\<lambda>w. pending_journal (ws_db w))) (\<lambda>rows. each (recover_journal_row E) rows)) w'" for w'
    using rows [of w'] by (auto simp: keeps_def op_run)
  show ?thesis unfolding ws_recover_def by (rule journal dirs keeps_each calm_apply_file_op keep_rules)+
qed

text \<open>Steps that only touch the spool, or tables other than those of pending work.\<close>

lemma calm_spool: "keeps (calm E q c) (sync_spool E digest) w"
  by (rule calm_keeps [OF keep_sync_spool db_sync_spool])

lemma calm_register: "keeps (calm E q c) (register_payload operation digest sz) w"
  by (rule calm_keeps [OF keep_register quiet_register])

lemma calm_commitS:
  "(\<And>db db'. quiet (sha E c) db \<Longrightarrow> f db = Inr db' \<Longrightarrow> quiet (sha E c) db') \<Longrightarrow> keeps (calm E q c) (commitS E' i f) w"
  by (rule calm_keeps [OF keep_commitS quiet_commitS])

lemma calm_on_db:
  "(\<And>db. quiet (sha E c) db \<Longrightarrow> quiet (sha E c) (f db)) \<Longrightarrow> keeps (calm E q c) (on_db f) w"
  by (rule calm_keeps [OF keep_on_db db_on_db])

lemma calm_snapshot: "keeps (calm E q c) (snapshot_file E operation source expected) w"
  unfolding snapshot_file_def by (rule calm_keeps [OF keep_spool_put db_spool_put] keep_rules)+

lemma calm_payload_validate: "keeps (calm E q c) (payload_validate E p path) w"
  unfolding payload_validate_def by (rule keeps_payload_case calm_spool keep_rules)+

lemma calm_payload_store: "keeps (calm E q c) (payload_store E p operation) w"
  unfolding payload_store_def by (rule keeps_payload_case calm_store calm_register calm_spool keep_rules)+

lemma calm_claim: "keeps (calm E q c) (claim_path identity path) w"
proof -
  have files: "keeps (calm E q c) (on_db (\<lambda>db. db\<lparr>files := tbl_update (P db) f (files db)\<rparr>)) w'" for P f w'
    by (rule calm_on_db) (erule quiet_subset, simp_all)
  show ?thesis unfolding claim_path_def by (rule files keep_rules)+
qed

lemma calm_accept:
  "expected \<noteq> sha E c \<Longrightarrow> keeps (calm E q c) (accept_write E operation fp i path expected origin a) w"
  unfolding accept_write_def by (rule calm_commitS) (auto simp: bindR_Inr_iff quiet_def unexpected_def)

lemma calm_write_source:
  "expected \<noteq> sha E c \<Longrightarrow>
     keeps (calm E q c) (write_source E fresh path expected content origin operation identity a) w"
  unfolding write_source_def replay_write_def Let_def
  by (rule calm_recover calm_payload_validate calm_claim calm_payload_store calm_accept calm_apply_stored_journal keep_rules | assumption)+

lemma calm_prepare_file_op:
  assumes "expected \<noteq> sha E c"
  shows "keeps (calm E q c) (prepare_file_op E kind path destination expected i origin) w"
proof -
  have snap: "keeps (calm E q c) (store_payload_file E operation source digest) w'" for operation source digest w'
    unfolding store_payload_file_def by (rule calm_snapshot calm_register keep_rules)+
  show ?thesis unfolding prepare_file_op_def Let_def
    by (rule calm_recover snap keep_rules | rule calm_commitS,
        use assms in \<open>auto simp: bindR_Inr_iff quiet_def unexpected_def\<close>)+
qed

lemma calm_mutate:
  "expected \<noteq> sha E c \<Longrightarrow> keeps (calm E q c) (mutate_with_origin E kind path destination expected operation origin) w"
  unfolding mutate_with_origin_def by (rule calm_prepare_file_op calm_apply_file_op keep_rules | assumption)+

end
