(* ===== verification/Sync_Queue.thy ===== *)
theory Sync_Queue
  imports Workspace_Frame
begin

text \<open>
  The upload queue of a vault bound to a remote one (\<open>sync_state.rs\<close>, with the walk over the
  synchronised files of \<open>sync_discovery.rs\<close> and the record links of \<open>records.rs\<close>). Local changes
  are captured from the outbox as jobs of the active binding; a job is uploaded, its commit
  payload is frozen on the remote revision known at that moment, and the acknowledged revision
  becomes the file's head. File names hold no backslash, as on Windows.
\<close>

section \<open>Bindings\<close>

record binding =
  bd_id :: string
  bd_endpoint :: string
  bd_remote_vault :: string
  bd_account :: string
  bd_cursor :: int

record job =
  jo_binding :: string
  jo_operation_id :: string
  jo_file_id :: string
  jo_path :: string
  jo_hash :: string
  jo_size :: int
  jo_operation :: string
  jo_state :: string
  jo_base_revision :: "int option"
  jo_upload_id :: "string option"

text \<open>A revision of the remote vault (\<open>RemoteRevision\<close> of \<open>sync_inbox.rs\<close>).\<close>

record remote_revision =
  rv_vault_id :: string
  rv_sequence :: int
  rv_file_id :: string
  rv_base_revision :: int
  rv_path :: string
  rv_operation :: string
  rv_hash :: "string option"
  rv_size :: int
  rv_operation_id :: string

text \<open>JSON texts of the synchronised data, and a fresh UUID for each use of one.\<close>

record sync_env =
  host :: ws_env
  enc_record :: "host_record \<Rightarrow> string option"
  enc_revision :: "remote_revision \<Rightarrow> string option"
  dec_revision :: "string \<Rightarrow> remote_revision option"
  preview_text :: "(string \<times> string \<times> string \<times> string) \<times> (string \<times> string \<times> nat) list \<times>
     (int \<times> remote_revision list) \<times> optional_scope \<Rightarrow> string option"
  uuid_for :: "string \<Rightarrow> string"

definition binding_of :: "binding_row \<Rightarrow> binding" where
  "binding_of r = \<lparr>bd_id = b_id r, bd_endpoint = b_endpoint r, bd_remote_vault = b_remote_vault r,
     bd_account = b_account r, bd_cursor = b_cursor r\<rparr>"

definition sync_binding :: "ws_db \<Rightarrow> binding option" where
  "sync_binding db = map_option binding_of (find (\<lambda>r. b_state r = ''active'') (sync_bindings db))"

definition check_binding :: "ws_db \<Rightarrow> string \<Rightarrow> unit result" where
  "check_binding db b =
     require (case sync_binding db of None \<Rightarrow> False | Some a \<Rightarrow> bd_id a = b) ''SYNC_BINDING_CHANGED''"

definition sync_paused :: "ws_db \<Rightarrow> string \<Rightarrow> bool result" where
  "sync_paused db b =
     bindR (check_binding db b) (\<lambda>_.
     Inr (case map_of (sync_preferences db) b of None \<Rightarrow> False | Some v \<Rightarrow> v))"

definition sync_pause :: "ws_env \<Rightarrow> string \<Rightarrow> bool \<Rightarrow> unit ws_op" where
  "sync_pause E b paused =
     bindS (readS (\<lambda>w. check_binding (ws_db w) b)) (\<lambda>_.
     commitS E b (\<lambda>db. Inr (db\<lparr>sync_preferences := tbl_put fst (b, paused) (sync_preferences db)\<rparr>)))"

text \<open>A second active binding, or a second binding of one identifier, violates an index.\<close>

definition insert_binding :: "string \<Rightarrow> string \<Rightarrow> string \<Rightarrow> string \<Rightarrow> ws_db \<Rightarrow> ws_db result" where
  "insert_binding i endpoint remote_vault account db =
     bindR (require (\<not> list_ex (\<lambda>r. b_state r = ''active'' \<or> b_id r = i) (sync_bindings db)) ''DATABASE_ERROR'') (\<lambda>_.
     Inr (db\<lparr>sync_bindings := sync_bindings db @
       [\<lparr>b_id = i, b_endpoint = endpoint, b_remote_vault = remote_vault, b_account = account,
         b_state = ''active'', b_cursor = 0\<rparr>]\<rparr>))"

definition archive_outbox :: "ws_db \<Rightarrow> ws_db" where
  "archive_outbox db = db\<lparr>outbox := tbl_update (\<lambda>r. ob_state r \<in> {''pending'', ''queued''})
     (\<lambda>r. r\<lparr>ob_state := ''archived''\<rparr>) (outbox db)\<rparr>"

definition sync_unbind :: "ws_env \<Rightarrow> string \<Rightarrow> unit ws_op" where
  "sync_unbind E b =
     bindS (readS (\<lambda>w. check_binding (ws_db w) b)) (\<lambda>_.
     commitS E b (\<lambda>db. Inr (archive_outbox
       (db\<lparr>sync_bindings := tbl_update (\<lambda>r. b_id r = b) (\<lambda>r. r\<lparr>b_state := ''archived''\<rparr>) (sync_bindings db)\<rparr>))))"

section \<open>The synchronised files\<close>

abbreviation enabled :: "ws_db \<Rightarrow> string \<Rightarrow> bool" where
  "enabled db path \<equiv> sync_path_enabled (sync_optional_scope db) path"

text \<open>\<open>sync_paths\<close>: the walk enters directories only, and passes over hidden and derived names.\<close>

definition walked :: "disk \<Rightarrow> string \<Rightarrow> bool" where
  "walked d p \<longleftrightarrow> \<not> list_ex skipped_part (split_on (CHR ''/'') p) \<and> list_all (disk_is_dir d) (ancestors p)"

fun walk_paths :: "ws_db \<Rightarrow> disk \<Rightarrow> (string \<times> disk_node) list \<Rightarrow> string list result" where
  "walk_paths db d [] = Inr []"
| "walk_paths db d ((p, node) # rest) =
     (if \<not> walked d p then walk_paths db d rest
      else bindR (resolve d p) (\<lambda>_.
        bindR (walk_paths db d rest) (\<lambda>more.
        Inr (if enabled db p \<and> disk_is_file d p then p # more else more))))"

definition sync_paths :: "ws \<Rightarrow> string list result" where
  "sync_paths w = bindR (walk_paths (ws_db w) (ws_disk w) (ws_disk w)) (\<lambda>ps. Inr (sort ps))"

definition fs_read :: "disk \<Rightarrow> string \<Rightarrow> string result" where
  "fs_read d p = (case bt_get d p of Some (RegFile c) \<Rightarrow> Inr c | _ \<Rightarrow> Err ''FILESYSTEM_ERROR'')"

fun json_set :: "json \<Rightarrow> string \<Rightarrow> json \<Rightarrow> json" where
  "json_set (JObj kvs) k v = JObj (map (\<lambda>(x, y). if x = k then (x, v) else (x, y)) kvs)"
| "json_set j k v = j"

text \<open>\<open>Workspace::write\<close>, and the write of a spooled payload, under fresh identifiers.\<close>

definition ws_write :: "sync_env \<Rightarrow> string \<Rightarrow> string \<Rightarrow> string \<Rightarrow> string \<Rightarrow> entry ws_op" where
  "ws_write S path expected content origin =
     write_source (host S) (uuid_for S (''file '' @ path)) path expected (Inline content) origin
       (uuid_for S (''write '' @ path)) None (\<lambda>_. Inr ())"

definition write_spooled_with_identity ::
  "sync_env \<Rightarrow> string \<Rightarrow> string \<Rightarrow> string \<times> nat \<Rightarrow> string \<Rightarrow> string \<Rightarrow> string option \<Rightarrow> entry ws_op" where
  "write_spooled_with_identity S path expected p origin operation identity =
     write_source (host S) (uuid_for S (''file '' @ path)) path expected (Stored (fst p) (snd p)) origin
       operation identity (\<lambda>_. Inr ())"

text \<open>A task that names a note by a retired identifier is rewritten to name its current one.\<close>

definition stale_link :: "ws_db \<Rightarrow> host_record \<Rightarrow> host_record option" where
  "stale_link db rec =
     (case as_str (json_index (rc_data rec) ''note_id'') of
        None \<Rightarrow> None
      | Some note_id \<Rightarrow>
          (case path_for_id db note_id of
             Inl _ \<Rightarrow> None
           | Inr note_path \<Rightarrow>
               (case entry_at db note_path of
                  None \<Rightarrow> None
                | Some en \<Rightarrow>
                    if en_file_id en \<noteq> note_id
                    then Some (rec\<lparr>rc_data := json_set (rc_data rec) ''note_id'' (JStr (en_file_id en))\<rparr>)
                    else None)))"

definition normalize_record :: "sync_env \<Rightarrow> string \<Rightarrow> unit ws_op" where
  "normalize_record S path =
     bindS (readS (\<lambda>w. bindR (resolve (ws_disk w) path) (\<lambda>t. fs_read (ws_disk w) t))) (\<lambda>bytes.
     bindS (readS (\<lambda>_. record_validate (serde (host S)) path bytes)) (\<lambda>original.
     bindS (getS (\<lambda>w. stale_link (ws_db w) original)) (\<lambda>stale.
     case stale of
       None \<Rightarrow> retS ()
     | Some rec \<Rightarrow>
         bindS (readS (\<lambda>_. ok_or (enc_record S rec) ''RECORD_SCHEMA_INVALID'')) (\<lambda>text'.
         bindS (ws_write S path (sha (host S) bytes) text' ''local'') (\<lambda>_. retS ())))))"

fun all_of :: "('a \<Rightarrow> unit ws_op) \<Rightarrow> 'a list \<Rightarrow> unit ws_op" where
  "all_of f [] = retS ()"
| "all_of f (x # xs) = bindS (f x) (\<lambda>_. all_of f xs)"

definition normalize_record_links :: "sync_env \<Rightarrow> unit ws_op" where
  "normalize_record_links S =
     bindS (readS sync_paths) (\<lambda>paths.
     all_of (normalize_record S)
       (filter (\<lambda>p. starts_with ''opennexus-records/v1/tasks/'' p \<and> record_allowed p) paths))"

section \<open>Capturing the outbox\<close>

definition next_pending :: "ws_db \<Rightarrow> outbox_row option" where
  "next_pending db = find (\<lambda>r. ob_state r = ''pending'') (outbox db)"

abbreviation jb_key :: "job_row \<Rightarrow> string \<times> string" where
  "jb_key r \<equiv> (jb_binding r, jb_op r)"

definition set_outbox :: "string \<Rightarrow> (outbox_row \<Rightarrow> outbox_row) \<Rightarrow> ws_db \<Rightarrow> ws_db" where
  "set_outbox operation f db = db\<lparr>outbox := tbl_update (\<lambda>r. ob_op r = operation) f (outbox db)\<rparr>"

definition capture_payload :: "ws_env \<Rightarrow> outbox_row \<Rightarrow> int ws_op" where
  "capture_payload E r =
     bindS (getS (\<lambda>w. payload_ref (ws_db w) (ob_op r))) (\<lambda>known.
     bindS (if known = None then store_payload E (ob_op r) (ob_content r) else retS ()) (\<lambda>_.
     bindS (readS (\<lambda>w. ok_or (payload_ref (ws_db w) (ob_op r)) ''SYNC_SPOOL_CORRUPT'')) (\<lambda>(stored, sz).
     bindS (readS (\<lambda>_. require (stored = ob_hash r) ''SYNC_SPOOL_CORRUPT'')) (\<lambda>_.
     bindS (sync_spool E (ob_hash r)) (\<lambda>target.
     bindS (readS (\<lambda>w. open_verified E (ws_disk w) target (ob_hash r) (cast_u64 sz))) (\<lambda>_.
     bindS (if is_record (ob_path r) then
              bindS (payload E (ob_op r) (ob_content r)) (\<lambda>content.
              readS (\<lambda>_. bindR (record_validate (serde E) (ob_path r) content) (\<lambda>_. Inr ())))
            else retS ()) (\<lambda>_.
     retS sz)))))))"

definition queue_job :: "string \<Rightarrow> outbox_row \<Rightarrow> int \<Rightarrow> ws_db \<Rightarrow> ws_db" where
  "queue_job b r sz db =
     set_outbox (ob_op r) (\<lambda>x. x\<lparr>ob_state := ''queued'', ob_content := []\<rparr>)
       (db\<lparr>sync_jobs := tbl_insert_ignore jb_key
          \<lparr>jb_binding = b, jb_op = ob_op r, jb_file_id = ob_file_id r, jb_path = ob_path r, jb_hash = ob_hash r,
           jb_size = sz, jb_operation = ob_operation r, jb_state = ''pending'', jb_base_revision = None,
           jb_upload_id = None, jb_remote_revision = None, jb_error = None\<rparr> (sync_jobs db)\<rparr>)"

definition capture_row :: "ws_env \<Rightarrow> string \<Rightarrow> outbox_row \<Rightarrow> unit ws_op" where
  "capture_row E b r =
     bindS (getS (\<lambda>w. enabled (ws_db w) (ob_path r))) (\<lambda>wanted.
     if \<not> wanted then commitS E (ob_op r) (\<lambda>db. Inr (set_outbox (ob_op r) (\<lambda>x. x\<lparr>ob_state := ''excluded''\<rparr>) db))
     else
       bindS (if ob_operation r = ''put'' then capture_payload E r else retS 0) (\<lambda>sz.
       commitS E (ob_op r) (\<lambda>db. Inr (queue_job b r sz db))))"

text \<open>Every completed iteration takes one row out of the pending ones, so the loop ends.\<close>

abbreviation pending_rows :: "ws_db \<Rightarrow> nat" where
  "pending_rows db \<equiv> length (filter (\<lambda>r. ob_state r = ''pending'') (outbox db))"

lemma filter_update_less:
  assumes "r \<in> set t" "P r" "Q r" "\<And>x. Q x \<Longrightarrow> \<not> P (f x)"
  shows "length (filter P (tbl_update Q f t)) < length (filter P t)"
proof -
  have le: "length (filter P (tbl_update Q f t)) \<le> length (filter P t)" for t
    using assms(4) by (induction t) (auto simp: tbl_update_def)
  from assms(1) obtain xs ys where "t = xs @ r # ys" by (auto simp: in_set_conv_decomp)
  then have "tbl_update Q f t = tbl_update Q f xs @ f r # tbl_update Q f ys" using assms(3) by (simp add: tbl_update_def)
  with \<open>t = xs @ r # ys\<close> assms(2-4) le [of xs] le [of ys] show ?thesis by simp
qed

lemma set_outbox_fewer:
  assumes "r \<in> set (outbox db)" "ob_state r = ''pending''" "\<And>x. ob_state (f x) \<noteq> ''pending''"
  shows "pending_rows (set_outbox (ob_op r) f db) < pending_rows db"
  using filter_update_less [of r "outbox db" "\<lambda>r. ob_state r = ''pending''" "\<lambda>x. ob_op x = ob_op r" f] assms
  by (simp add: set_outbox_def)

lemma db_register_payload:
  "(\<And>db p. J db \<Longrightarrow> J (db\<lparr>payloads := p\<rparr>)) \<Longrightarrow> keeps (db_holds J) (register_payload operation digest sz) w"
  unfolding register_payload_def by (rule db_rules | rule db_on_db)+ simp

lemma db_capture_payload:
  assumes "\<And>db p. J db \<Longrightarrow> J (db\<lparr>payloads := p\<rparr>)"
  shows "keeps (db_holds J) (capture_payload E r) w"
proof -
  have s: "keeps (db_holds J) (store_payload E (ob_op r) (ob_content r)) w'" for w'
    unfolding store_payload_def by (rule db_disk_rules db_register_payload db_rules assms | assumption)+
  show ?thesis
    unfolding capture_payload_def payload_def by (rule s db_disk_rules db_rules)+
qed

lemma commitS_Inr: "commitS E i f w = (Inr u, w') \<Longrightarrow> \<exists>db. f (ws_db w) = Inr db \<and> w' = w\<lparr>ws_db := db\<rparr>"
  by (auto simp: commitS_def io_step_def on_db_def op_run bindS_def split: sum.splits if_splits)

lemma capture_row_fewer:
  assumes "next_pending (ws_db w) = Some r" "capture_row E b r w = (Inr u, w')"
  shows "pending_rows (ws_db w') < pending_rows (ws_db w)"
proof -
  have r: "r \<in> set (outbox (ws_db w))" "ob_state r = ''pending''"
    using assms(1) by (auto simp: next_pending_def find_Some_iff)
  let ?J = "\<lambda>db. outbox db = outbox (ws_db w)"
  show ?thesis
  proof (cases "enabled (ws_db w) (ob_path r)")
    case False
    then have "commitS E (ob_op r) (\<lambda>db. Inr (set_outbox (ob_op r) (\<lambda>x. x\<lparr>ob_state := ''excluded''\<rparr>) db)) w = (Inr u, w')"
      using assms(2) by (simp add: capture_row_def op_run)
    then show ?thesis using r by (auto dest!: commitS_Inr intro!: set_outbox_fewer)
  next
    case True
    then obtain sz w1 where
      m: "(if ob_operation r = ''put'' then capture_payload E r else retS 0) w = (Inr sz, w1)" and
      c: "commitS E (ob_op r) (\<lambda>db. Inr (queue_job b r sz db)) w1 = (Inr u, w')"
      using assms(2) by (auto simp: capture_row_def op_run bindS_Inr_iff)
    have "keeps (db_holds ?J) (if ob_operation r = ''put'' then capture_payload E r else retS 0) w"
      by (auto intro: db_capture_payload keeps_basic)
    then have out: "outbox (ws_db w1) = outbox (ws_db w)" using m by (simp add: keeps_def db_holds_def)
    from c have "ws_db w' = queue_job b r sz (ws_db w1)" by (auto dest!: commitS_Inr)
    then show ?thesis
      using out r set_outbox_fewer [of r "ws_db w" "\<lambda>x. x\<lparr>ob_state := ''queued'', ob_content := []\<rparr>"]
      by (simp add: queue_job_def set_outbox_def)
  qed
qed

function capture_loop :: "ws_env \<Rightarrow> string \<Rightarrow> ws \<Rightarrow> unit result \<times> ws" where
  "capture_loop E b w =
     (case next_pending (ws_db w) of
        None \<Rightarrow> (Inr (), w)
      | Some r \<Rightarrow>
          (case capture_row E b r w of
             (Inl e, w') \<Rightarrow> (Inl e, w')
           | (Inr u, w') \<Rightarrow> capture_loop E b w'))"
  by pat_completeness auto
termination
  by (relation "measure (\<lambda>(E, b, w). pending_rows (ws_db w))") (simp_all add: capture_row_fewer)

declare capture_loop.simps [simp del]

definition sync_capture :: "sync_env \<Rightarrow> string \<Rightarrow> unit ws_op" where
  "sync_capture S b =
     bindS (readS (\<lambda>w. check_binding (ws_db w) b)) (\<lambda>_.
     bindS (normalize_record_links S) (\<lambda>_.
     capture_loop (host S) b))"

text \<open>Binding to an empty remote vault: every synchronised file without a queued change is queued.\<close>

definition bind_path :: "sync_env \<Rightarrow> string \<Rightarrow> unit ws_op" where
  "bind_path S path =
     bindS (getS (\<lambda>w. case entry_at (ws_db w) path of
              None \<Rightarrow> False
            | Some en \<Rightarrow> list_ex (\<lambda>r. ob_file_id r = en_file_id en \<and> ob_state r = ''pending'') (outbox (ws_db w)))) (\<lambda>queued.
     if queued then retS ()
     else
       bindS (readS (\<lambda>w. resolve (ws_disk w) path)) (\<lambda>source.
       bindS (readS (\<lambda>w. sync_file_info (host S) (ws_disk w) source path)) (\<lambda>(digest, sz).
       let operation = uuid_for S (''bind '' @ path) in
       bindS (store_payload_file (host S) operation source digest) (\<lambda>_.
       bindS (write_spooled_with_identity S path digest (digest, sz) ''local'' operation None) (\<lambda>_.
       retS ())))))"

definition sync_bind_empty :: "sync_env \<Rightarrow> string \<Rightarrow> string \<Rightarrow> string \<Rightarrow> binding ws_op" where
  "sync_bind_empty S endpoint remote_vault account =
     bindS (readS (\<lambda>w. require (sync_binding (ws_db w) = None) ''SYNC_ALREADY_BOUND'')) (\<lambda>_.
     bindS (getS (\<lambda>w. sync_bindings (ws_db w) \<noteq> [])) (\<lambda>had_binding.
     bindS (readS sync_paths) (\<lambda>paths.
     let i = uuid_for S ''binding'' in
     bindS (if had_binding then commitS (host S) i (\<lambda>db. Inr (archive_outbox db)) else retS ()) (\<lambda>_.
     bindS (all_of (bind_path S) paths) (\<lambda>_.
     bindS (commitS (host S) i (insert_binding i endpoint remote_vault account)) (\<lambda>_.
     bindS (sync_capture S i) (\<lambda>_.
     readS (\<lambda>w. ok_or (sync_binding (ws_db w)) ''DATABASE_ERROR''))))))))"

section \<open>Sending jobs\<close>

definition job_of :: "job_row \<Rightarrow> job" where
  "job_of r = \<lparr>jo_binding = jb_binding r, jo_operation_id = jb_op r, jo_file_id = jb_file_id r, jo_path = jb_path r,
     jo_hash = jb_hash r, jo_size = jb_size r, jo_operation = jb_operation r, jo_state = jb_state r,
     jo_base_revision = jb_base_revision r, jo_upload_id = jb_upload_id r\<rparr>"

definition open_conflict :: "ws_db \<Rightarrow> job_row \<Rightarrow> bool" where
  "open_conflict db r \<longleftrightarrow>
     list_ex (\<lambda>c. cf_binding c = jb_binding r \<and> (cf_file_id c = jb_file_id r \<or> cf_local_path c = jb_path r) \<and>
       cf_state c = ''open'') (sync_conflicts db)"

definition sendable :: "ws_db \<Rightarrow> string \<Rightarrow> job_row \<Rightarrow> bool" where
  "sendable db b r \<longleftrightarrow>
     jb_binding r = b \<and> jb_state r \<notin> {''acked'', ''archived'', ''conflict''} \<and> \<not> open_conflict db r"

definition set_job :: "string \<times> string \<Rightarrow> (job_row \<Rightarrow> job_row) \<Rightarrow> ws_db \<Rightarrow> ws_db" where
  "set_job k f db = db\<lparr>sync_jobs := tbl_update (\<lambda>r. jb_key r = k) f (sync_jobs db)\<rparr>"

definition drop_excluded :: "ws_env \<Rightarrow> string \<Rightarrow> job_row \<Rightarrow> unit ws_op" where
  "drop_excluded E b r =
     bindS (commitS E (jb_op r) (\<lambda>db. Inr (set_job (b, jb_op r) (\<lambda>x. x\<lparr>jb_state := ''archived''\<rparr>) db))) (\<lambda>_.
     commitS E (''outbox '' @ jb_op r) (\<lambda>db. Inr (set_outbox (jb_op r) (\<lambda>x. x\<lparr>ob_state := ''excluded''\<rparr>) db)))"

abbreviation sendable_rows :: "string \<Rightarrow> ws_db \<Rightarrow> nat" where
  "sendable_rows b db \<equiv> length (filter (sendable db b) (sync_jobs db))"

lemma drop_excluded_fewer:
  assumes "find (sendable (ws_db w) b) (sync_jobs (ws_db w)) = Some r" "drop_excluded E b r w = (Inr u, w')"
  shows "sendable_rows b (ws_db w') < sendable_rows b (ws_db w)"
proof -
  have r: "r \<in> set (sync_jobs (ws_db w))" "sendable (ws_db w) b r" using assms(1) by (auto simp: find_Some_iff)
  have same: "sendable (ws_db w') b = sendable (ws_db w) b"
      "sync_jobs (ws_db w') = tbl_update (\<lambda>x. jb_key x = (b, jb_op r)) (\<lambda>x. x\<lparr>jb_state := ''archived''\<rparr>) (sync_jobs (ws_db w))"
    using assms(2) by (auto simp: drop_excluded_def bindS_Inr_iff set_job_def set_outbox_def sendable_def open_conflict_def fun_eq_iff
      dest!: commitS_Inr)
  show ?thesis unfolding same
    by (rule filter_update_less [of r]) (use r in \<open>auto simp: sendable_def\<close>)
qed

function next_loop :: "ws_env \<Rightarrow> string \<Rightarrow> ws \<Rightarrow> job option result \<times> ws" where
  "next_loop E b w =
     (case find (sendable (ws_db w) b) (sync_jobs (ws_db w)) of
        None \<Rightarrow> (Inr None, w)
      | Some r \<Rightarrow>
          if \<not> sync_allowed (jb_path r) then (Err ''SYNC_CLASS_UNSUPPORTED'', w)
          else if enabled (ws_db w) (jb_path r) then (Inr (Some (job_of r)), w)
          else (case drop_excluded E b r w of
             (Inl e, w') \<Rightarrow> (Inl e, w')
           | (Inr u, w') \<Rightarrow> next_loop E b w'))"
  by pat_completeness auto
termination
  by (relation "measure (\<lambda>(E, b, w). sendable_rows b (ws_db w))") (simp_all add: drop_excluded_fewer)

declare next_loop.simps [simp del]

definition sync_next :: "ws_env \<Rightarrow> string \<Rightarrow> job option ws_op" where
  "sync_next E b = bindS (readS (\<lambda>w. check_binding (ws_db w) b)) (\<lambda>_. next_loop E b)"

definition job_key :: "job \<Rightarrow> string \<times> string" where
  "job_key j = (jo_binding j, jo_operation_id j)"

definition check_job :: "ws_db \<Rightarrow> job \<Rightarrow> unit result" where
  "check_job db j =
     bindR (check_binding db (jo_binding j)) (\<lambda>_.
     bindR (require (enabled db (jo_path j)) ''SYNC_SCOPE_DISABLED'') (\<lambda>_.
     bindR (ok_or (tbl_get jb_key (job_key j) (sync_jobs db)) ''DATABASE_ERROR'') (\<lambda>r.
     require (jb_state r \<notin> {''archived'', ''conflict''}) ''SYNC_OPERATION_SUPERSEDED'')))"

definition sync_upload :: "ws_env \<Rightarrow> job \<Rightarrow> string option \<Rightarrow> unit ws_op" where
  "sync_upload E j upload =
     bindS (readS (\<lambda>w. check_job (ws_db w) j)) (\<lambda>_.
     commitS E (jo_operation_id j) (\<lambda>db. Inr (set_job (job_key j)
       (\<lambda>r. if jb_base_revision r = None then r\<lparr>jb_state := ''uploading'', jb_upload_id := upload\<rparr> else r) db)))"

abbreviation h_key :: "head_row \<Rightarrow> string \<times> string" where
  "h_key r \<equiv> (h_binding r, h_file_id r)"

definition head_revision :: "ws_db \<Rightarrow> string \<times> string \<Rightarrow> int" where
  "head_revision db k = (case tbl_get h_key k (sync_heads db) of None \<Rightarrow> 0 | Some h \<Rightarrow> h_revision h)"

definition freeze_base :: "job \<Rightarrow> ws_db \<Rightarrow> ws_db" where
  "freeze_base j db = set_job (job_key j)
     (\<lambda>r. if jb_base_revision r = None
          then r\<lparr>jb_state := ''committing'', jb_base_revision := Some (head_revision db (jo_binding j, jo_file_id j))\<rparr>
          else r) db"

definition payload_json :: "job \<Rightarrow> int \<Rightarrow> json" where
  "payload_json j base = JObj
     [(''operation_id'', JStr (jo_operation_id j)), (''file_id'', JStr (jo_file_id j)), (''base_revision'', JInt base),
      (''path'', JStr (jo_path j)), (''operation'', JStr (jo_operation j)),
      (''content_hash'', if jo_operation j = ''put'' then JStr (jo_hash j) else JNull), (''size'', JInt (jo_size j))]"

definition sync_commit_payload :: "ws_env \<Rightarrow> job \<Rightarrow> json ws_op" where
  "sync_commit_payload E j =
     bindS (readS (\<lambda>w. check_job (ws_db w) j)) (\<lambda>_.
     bindS (commitS E (jo_operation_id j) (\<lambda>db. Inr (freeze_base j db))) (\<lambda>_.
     readS (\<lambda>w. bindR (ok_or (tbl_get jb_key (job_key j) (sync_jobs (ws_db w))) ''DATABASE_ERROR'') (\<lambda>r.
       bindR (ok_or (jb_base_revision r) ''DATABASE_ERROR'') (\<lambda>base. Inr (payload_json j base))))))"

text \<open>A head only moves forward.\<close>

definition advance_head :: "head_row \<Rightarrow> ws_db \<Rightarrow> ws_db" where
  "advance_head h db = db\<lparr>sync_heads := tbl_upsert h_key h
     (\<lambda>x. if h_revision x < h_revision h then x\<lparr>h_revision := h_revision h, h_path := h_path h, h_hash := h_hash h\<rparr> else x)
     (sync_heads db)\<rparr>"

definition response_agrees :: "json \<Rightarrow> json \<Rightarrow> string \<Rightarrow> bool" where
  "response_agrees revision p remote_vault \<longleftrightarrow>
     list_all (\<lambda>k. json_index revision k = json_index p k)
       [''operation_id'', ''file_id'', ''base_revision'', ''path'', ''operation'', ''size''] \<and>
     json_index revision ''hash'' = json_index p ''content_hash'' \<and>
     json_index revision ''vault_id'' = JStr remote_vault"

definition acked_sequence :: "json \<Rightarrow> json \<Rightarrow> int option" where
  "acked_sequence revision p =
     (case as_i64 (json_index revision ''sequence'') of
        None \<Rightarrow> None
      | Some v \<Rightarrow>
          if (case as_i64 (json_index p ''base_revision'') of None \<Rightarrow> 0 | Some x \<Rightarrow> x) < v then Some v else None)"

definition settle_job :: "job \<Rightarrow> int \<Rightarrow> ws_db \<Rightarrow> ws_db" where
  "settle_job j sequence db =
     set_outbox (jo_operation_id j) (\<lambda>x. x\<lparr>ob_state := ''acked''\<rparr>)
       (set_job (job_key j) (\<lambda>r. r\<lparr>jb_state := ''acked'', jb_remote_revision := Some sequence, jb_error := None\<rparr>)
         (advance_head \<lparr>h_binding = jo_binding j, h_file_id = jo_file_id j, h_revision = sequence,
           h_path = jo_path j, h_hash = jo_hash j\<rparr> db))"

definition sync_ack :: "ws_env \<Rightarrow> job \<Rightarrow> json \<Rightarrow> unit ws_op" where
  "sync_ack E j revision =
     bindS (readS (\<lambda>w. check_binding (ws_db w) (jo_binding j))) (\<lambda>_.
     bindS (sync_commit_payload E j) (\<lambda>p.
     bindS (readS (\<lambda>w. ok_or (sync_binding (ws_db w)) ''SYNC_BINDING_CHANGED'')) (\<lambda>active.
     bindS (readS (\<lambda>_. require (response_agrees revision p (bd_remote_vault active)) ''SYNC_RESPONSE_INVALID'')) (\<lambda>_.
     bindS (readS (\<lambda>_. ok_or (acked_sequence revision p) ''SYNC_RESPONSE_INVALID'')) (\<lambda>sequence.
     commitS E (''ack '' @ jo_operation_id j) (\<lambda>db. Inr (settle_job j sequence db)))))))"

section \<open>The next job\<close>

lemma next_loop_first:
  "next_loop E b w = (Inr (Some j), w') \<Longrightarrow>
     \<exists>xs r ys. sync_jobs (ws_db w') = xs @ r # ys \<and> j = job_of r \<and> sendable (ws_db w') b r \<and>
       enabled (ws_db w') (jb_path r) \<and> (\<forall>x \<in> set xs. \<not> sendable (ws_db w') b x)"
proof (induction E b w rule: next_loop.induct)
  case (1 E b w)
  show ?case
  proof (cases "find (sendable (ws_db w) b) (sync_jobs (ws_db w))")
    case (Some r)
    show ?thesis
    proof (cases "enabled (ws_db w) (jb_path r)")
      case True
      with 1(2) Some have j: "j = job_of r" "w' = w"
        by (auto simp: next_loop.simps [of E b w] split: if_splits)
      from Some obtain i where i: "i < length (sync_jobs (ws_db w))" "sendable (ws_db w) b (sync_jobs (ws_db w) ! i)"
          "r = sync_jobs (ws_db w) ! i" "\<forall>k < i. \<not> sendable (ws_db w) b (sync_jobs (ws_db w) ! k)"
        by (auto simp: find_Some_iff)
      have "\<forall>x \<in> set (take i (sync_jobs (ws_db w))). \<not> sendable (ws_db w) b x"
        using i(1,4) by (auto simp: in_set_conv_nth)
      then show ?thesis using i True j id_take_nth_drop [OF i(1)] by blast
    next
      case False
      show ?thesis
      proof (cases "sync_allowed (jb_path r)")
        case True
        obtain q w1 where d: "drop_excluded E b r w = (q, w1)" by force
        with 1(2) Some False True obtain u where "q = Inr u" "next_loop E b w1 = (Inr (Some j), w')"
          by (cases q) (auto simp: next_loop.simps [of E b w])
        with 1(1) [OF Some _ False d [symmetric]] True show ?thesis by simp
      qed (use 1(2) Some in \<open>simp add: next_loop.simps [of E b w]\<close>)
    qed
  qed (use 1(2) in \<open>simp add: next_loop.simps [of E b w]\<close>)
qed

text \<open>Dropping a job only concerns paths that are not synchronised any more.\<close>

definition dropped_only :: "ws_db \<Rightarrow> ws_db \<Rightarrow> bool" where
  "dropped_only db db' \<longleftrightarrow>
     sync_optional_scope db' = sync_optional_scope db \<and>
     list_all2 (\<lambda>r r'. r' = r \<or> (\<not> enabled db (jb_path r) \<and> r' = r\<lparr>jb_state := ''archived''\<rparr>)) (sync_jobs db) (sync_jobs db')"

lemma dropped_only_refl: "dropped_only db db"
  by (simp add: dropped_only_def list.rel_refl)

lemma dropped_only_trans:
  assumes "dropped_only a b" "dropped_only b c" shows "dropped_only a c"
proof -
  let ?P = "\<lambda>r r'. r' = r \<or> (\<not> enabled a (jb_path r) \<and> r' = r\<lparr>jb_state := ''archived''\<rparr>)"
  have "list_all2 ?P (sync_jobs a) (sync_jobs b)" "list_all2 ?P (sync_jobs b) (sync_jobs c)"
    using assms by (simp_all add: dropped_only_def)
  then have "list_all2 ?P (sync_jobs a) (sync_jobs c)" by (rule list_all2_trans [rotated]) auto
  with assms show ?thesis by (simp add: dropped_only_def)
qed

lemma dropped_only_unique:
  assumes "dropped_only a b" "tbl_unique jb_key (sync_jobs a)" shows "tbl_unique jb_key (sync_jobs b)"
proof -
  have "list_all2 (\<lambda>x y. x = y) (map jb_key (sync_jobs a)) (map jb_key (sync_jobs b))"
    using assms(1) unfolding dropped_only_def list.rel_map by (auto elim!: list_all2_mono)
  then have "map jb_key (sync_jobs a) = map jb_key (sync_jobs b)" by (simp only: list.rel_eq)
  with assms(2) show ?thesis by (simp add: tbl_unique_def)
qed

lemma drop_excluded_only:
  assumes "drop_excluded E b r w = (q, w')" "tbl_unique jb_key (sync_jobs (ws_db w))" "r \<in> set (sync_jobs (ws_db w))"
    and "jb_binding r = b" "\<not> enabled (ws_db w) (jb_path r)"
  shows "dropped_only (ws_db w) (ws_db w')"
proof -
  let ?one = "set_job (b, jb_op r) (\<lambda>x. x\<lparr>jb_state := ''archived''\<rparr>) (ws_db w)"
  have "x = r" if "x \<in> set (sync_jobs (ws_db w))" "jb_binding x = b" "jb_op x = jb_op r" for x
    using assms(2-4) that by (auto simp: tbl_unique_def distinct_map inj_on_def)
  then have one: "dropped_only (ws_db w) ?one"
    using assms(5) by (auto simp: dropped_only_def set_job_def tbl_update_def list_all2_map2 list_all2_same)
  have two: "dropped_only (ws_db w) (set_outbox (jb_op r) f ?one)" for f
    using one by (simp add: dropped_only_def set_outbox_def)
  have "ws_db w' = ws_db w \<or> ws_db w' = ?one \<or> (\<exists>f. ws_db w' = set_outbox (jb_op r) f ?one)"
    using assms(1) by (auto simp: drop_excluded_def commitS_def io_step_def on_db_def op_run bindS_def split: if_splits)
  then show ?thesis using one two dropped_only_refl by metis
qed

lemma next_loop_drops:
  "next_loop E b w = (q, w') \<Longrightarrow> tbl_unique jb_key (sync_jobs (ws_db w)) \<Longrightarrow> dropped_only (ws_db w) (ws_db w')"
proof (induction E b w arbitrary: q rule: next_loop.induct)
  case (1 E b w)
  show ?case
  proof (cases "find (sendable (ws_db w) b) (sync_jobs (ws_db w))")
    case (Some r)
    then have r: "r \<in> set (sync_jobs (ws_db w))" "jb_binding r = b" by (auto simp: find_Some_iff sendable_def)
    show ?thesis
    proof (cases "sync_allowed (jb_path r) \<and> \<not> enabled (ws_db w) (jb_path r)")
      case True
      obtain p w1 where d: "drop_excluded E b r w = (p, w1)" by force
      note one = drop_excluded_only [OF d 1(3) r conjunct2 [OF True]]
      show ?thesis
      proof (cases p)
        case (Inl e)
        with 1(2) Some True d one show ?thesis by (simp add: next_loop.simps [of E b w])
      next
        case (Inr u)
        with 1(2) Some True d have "next_loop E b w1 = (q, w')" by (simp add: next_loop.simps [of E b w])
        with 1(1) [OF Some _ _ d [symmetric] Inr] True dropped_only_unique [OF one 1(3)] one show ?thesis
          by (auto intro: dropped_only_trans)
      qed
    next
      case False
      with 1(2) Some show ?thesis by (auto simp: next_loop.simps [of E b w] dropped_only_refl split: if_splits)
    qed
  qed (use 1(2) in \<open>simp add: next_loop.simps [of E b w] dropped_only_refl\<close>)
qed

text \<open>
  C31. The queue is sent in order. The job that is sent next is the first one of the active
  binding that is neither settled nor blocked by an open conflict of its file or path, and its
  path is one the user still synchronises; on the way only jobs whose path is no longer
  synchronised were taken out of the queue, and nothing else about any job changed.
\<close>

theorem sync_next_in_order:
  assumes "tbl_unique jb_key (sync_jobs (ws_db w))" and "sync_next E b w = (Inr (Some j), w')"
  shows "(\<exists>xs r ys. sync_jobs (ws_db w') = xs @ r # ys \<and> j = job_of r \<and> sendable (ws_db w') b r \<and>
      sync_path_enabled (sync_optional_scope (ws_db w')) (jb_path r) \<and> (\<forall>x \<in> set xs. \<not> sendable (ws_db w') b x)) \<and>
    dropped_only (ws_db w) (ws_db w')"
proof -
  from assms(2) have run: "next_loop E b w = (Inr (Some j), w')"
    by (auto simp: sync_next_def op_run split: sum.splits)
  show ?thesis using next_loop_first [OF run] next_loop_drops [OF run assms(1)] by blast
qed

section \<open>Captured changes are backed by bytes\<close>

definition backed :: "ws_env \<Rightarrow> disk \<Rightarrow> job_row \<Rightarrow> bool" where
  "backed E d r \<longleftrightarrow> (jb_operation r = ''put'' \<longrightarrow>
     (\<exists>c. bt_get d (spool_path (jb_hash r)) = Some (RegFile c) \<and> sha E c = jb_hash r \<and> length c = cast_u64 (jb_size r)))"

definition captured :: "ws_env \<Rightarrow> string \<Rightarrow> ws \<Rightarrow> job_row \<Rightarrow> bool" where
  "captured E b w r \<longleftrightarrow>
     jb_binding r = b \<and> jb_state r = ''pending'' \<and> jb_base_revision r = None \<and> enabled (ws_db w) (jb_path r) \<and>
     backed E (ws_disk w) r"

lemma open_verified_Inr:
  "open_verified E d p digest n = Inr c \<longleftrightarrow> bt_get d p = Some (RegFile c) \<and> length c = n \<and> sha E c = digest"
  by (auto simp: open_verified_def verified_def split: option.splits disk_node.splits)

lemma keep_payload: "keeps (holds q c) (payload E operation legacy) w"
  unfolding payload_def by (rule keep_sync_spool keep_holds)+

lemma keep_capture_payload: "keeps (holds q c) (capture_payload E r) w"
  unfolding capture_payload_def by (rule keep_payload keep_store_payload keep_sync_spool keep_holds)+

lemma keep_capture_row: "keeps (holds q c) (capture_row E b r) w"
  unfolding capture_row_def by (rule keep_capture_payload keep_holds)+

lemma sync_spool_Inr: "sync_spool E digest w = (Inr t, w') \<Longrightarrow> t = spool_path digest"
  by (auto simp: sync_spool_def create_dirs_def op_run bindS_def split: sum.splits)

lemma payload_step_backed:
  assumes "capture_payload E r w = (Inr sz, w')"
  shows "\<exists>c. bt_get (ws_disk w') (spool_path (ob_hash r)) = Some (RegFile c) \<and> sha E c = ob_hash r \<and> length c = cast_u64 sz"
proof -
  from assms obtain w1 t w2 c w3 where
      sp: "sync_spool E (ob_hash r) w1 = (Inr t, w2)" and
      ver: "open_verified E (ws_disk w2) t (ob_hash r) (cast_u64 sz) = Inr c" and
      rest: "(if is_record (ob_path r) then
              bindS (payload E (ob_op r) (ob_content r)) (\<lambda>content.
              readS (\<lambda>_. bindR (record_validate (serde E) (ob_path r) content) (\<lambda>_. Inr ())))
            else retS ()) w2 = (Inr (), w3)" and w': "w' = w3"
    unfolding capture_payload_def case_prod_beta by (auto simp only: bindS_Inr_iff op_result_iffs)
  have t: "t = spool_path (ob_hash r)" using sp by (rule sync_spool_Inr)
  with ver have c: "holds (spool_path (ob_hash r)) c w2" "sha E c = ob_hash r" "length c = cast_u64 sz"
    by (simp_all add: open_verified_Inr holds_def)
  have "keeps (holds (spool_path (ob_hash r)) c) (if is_record (ob_path r) then
              bindS (payload E (ob_op r) (ob_content r)) (\<lambda>content.
              readS (\<lambda>_. bindR (record_validate (serde E) (ob_path r) content) (\<lambda>_. Inr ())))
            else retS ()) w2"
    by (rule keep_payload keep_holds)+
  with c(1) rest w' have "holds (spool_path (ob_hash r)) c w'" unfolding keeps_def by simp
  with c show ?thesis by (auto simp: holds_def)
qed

lemma frame_payload: "keeps (db_holds (framed J sync_part)) (payload E operation legacy) w"
  unfolding payload_def by (rule frame_rules)+

lemma frame_capture_payload: "keeps (db_holds (framed J sync_part)) (capture_payload E r) w"
  unfolding capture_payload_def by (rule frame_payload frame_rules)+

lemma commitS_cases:
  "commitS E i f w = (q, w') \<Longrightarrow> w' = w \<or> (\<exists>db. f (ws_db w) = Inr db \<and> w' = w\<lparr>ws_db := db\<rparr>)"
  by (auto simp: commitS_def io_step_def on_db_def op_run bindS_def split: sum.splits if_splits)

lemma captured_mono:
  assumes "captured E b w x" "sync_optional_scope (ws_db w') = sync_optional_scope (ws_db w)"
    and "\<And>q c. holds q c w \<Longrightarrow> holds q c w'"
  shows "captured E b w' x"
  using assms unfolding captured_def backed_def holds_def by metis

lemma queue_job_tables:
  "sync_optional_scope (queue_job b r sz db) = sync_optional_scope db"
  "x \<in> set (sync_jobs (queue_job b r sz db)) \<Longrightarrow> x \<in> set (sync_jobs db) \<or>
     (jb_binding x = b \<and> jb_op x = ob_op r \<and> jb_path x = ob_path r \<and> jb_hash x = ob_hash r \<and> jb_size x = sz \<and>
      jb_operation x = ob_operation r \<and> jb_state x = ''pending'' \<and> jb_base_revision x = None)"
  by (auto simp: queue_job_def set_outbox_def tbl_insert_ignore_def split: if_splits)

lemma capture_row_jobs:
  assumes "capture_row E b r w = (q, w')"
  shows "sync_optional_scope (ws_db w') = sync_optional_scope (ws_db w)"
    and "x \<in> set (sync_jobs (ws_db w')) \<Longrightarrow> x \<in> set (sync_jobs (ws_db w)) \<or> captured E b w' x"
proof -
  let ?payload = "if ob_operation r = ''put'' then capture_payload E r else retS 0"
  have "sync_optional_scope (ws_db w') = sync_optional_scope (ws_db w) \<and>
      (\<forall>x \<in> set (sync_jobs (ws_db w')). x \<in> set (sync_jobs (ws_db w)) \<or> captured E b w' x)"
  proof (cases "enabled (ws_db w) (ob_path r)")
    case False
    with assms show ?thesis by (auto simp: capture_row_def op_run set_outbox_def dest!: commitS_cases)
  next
    case True
    obtain p w1 where m: "?payload w = (p, w1)" by force
    have part: "sync_part (ws_db w1) = sync_part (ws_db w)"
      by (rule frames_same [of ?payload, OF _ m]) (rule frame_capture_payload frame_rules)+
    show ?thesis
    proof (cases p)
      case (Inl e)
      with assms True have "w' = w1" by (simp add: capture_row_def op_run bindS_stop [of ?payload, OF m [unfolded Inl]])
      with part show ?thesis by (simp add: sync_part_eq)
    next
      case (Inr sz)
      with assms True have "commitS E (ob_op r) (\<lambda>db. Inr (queue_job b r sz db)) w1 = (q, w')"
        by (simp add: capture_row_def op_run bindS_step [of ?payload, OF m [unfolded Inr]])
      then consider "w' = w1" | "w' = w1\<lparr>ws_db := queue_job b r sz (ws_db w1)\<rparr>" by (auto dest!: commitS_cases)
      then show ?thesis
      proof cases
        case 1
        with part show ?thesis by (simp add: sync_part_eq)
      next
        case 2
        have bytes: "\<exists>c. bt_get (ws_disk w1) (spool_path (ob_hash r)) = Some (RegFile c) \<and> sha E c = ob_hash r \<and> length c = cast_u64 sz"
          if "ob_operation r = ''put''" using m that payload_step_backed by (simp add: Inr)
        show ?thesis
          using queue_job_tables(2) [of _ b r sz "ws_db w1"] queue_job_tables(1) [of b r sz "ws_db w1"] part True bytes
          by (fastforce simp: 2 sync_part_eq captured_def backed_def)
      qed
    qed
  qed
  then show "sync_optional_scope (ws_db w') = sync_optional_scope (ws_db w)"
    and "x \<in> set (sync_jobs (ws_db w')) \<Longrightarrow> x \<in> set (sync_jobs (ws_db w)) \<or> captured E b w' x" by blast+
qed

lemma capture_row_holds: "capture_row E b r w = (q, w') \<Longrightarrow> holds p c w \<Longrightarrow> holds p c w'"
  using keep_capture_row [of p c E b r w] by (simp add: keeps_def)

lemma capture_loop_jobs:
  "capture_loop E b w = (Inr u, w') \<Longrightarrow> \<forall>x \<in> set (sync_jobs (ws_db w)). x \<in> X \<or> captured E b w x \<Longrightarrow>
     next_pending (ws_db w') = None \<and> (\<forall>x \<in> set (sync_jobs (ws_db w')). x \<in> X \<or> captured E b w' x)"
proof (induction E b w rule: capture_loop.induct)
  case (1 E b w)
  show ?case
  proof (cases "next_pending (ws_db w)")
    case None
    with 1(2,3) show ?thesis by (simp add: capture_loop.simps [of E b w])
  next
    case (Some r)
    obtain p w1 where d: "capture_row E b r w = (p, w1)" by force
    with 1(2) Some obtain v where p: "p = Inr v" and run: "capture_loop E b w1 = (Inr u, w')"
      by (cases p) (auto simp: capture_loop.simps [of E b w])
    have "x \<in> X \<or> captured E b w1 x" if "x \<in> set (sync_jobs (ws_db w1))" for x
      using capture_row_jobs(2) [OF d that] 1(3) captured_mono [of E b w x w1] capture_row_jobs(1) [OF d] capture_row_holds [OF d]
      by blast
    then show ?thesis using 1(1) [OF Some d [symmetric] p run] by blast
  qed
qed

lemma frame_all_of:
  "(\<And>x w. keeps I (f x) w) \<Longrightarrow> keeps I (all_of f xs) w"
proof (induction xs arbitrary: w)
  case (Cons x xs)
  then show ?case unfolding all_of.simps by (intro keeps_bind) auto
qed (simp add: keeps_basic)

lemma frame_ws_write: "keeps (db_holds (framed J sync_part)) (ws_write S path expected content origin) w"
  unfolding ws_write_def by (rule frame_write_source)

lemma frame_write_spooled:
  "keeps (db_holds (framed J sync_part)) (write_spooled_with_identity S path expected p origin operation identity) w"
  unfolding write_spooled_with_identity_def by (rule frame_write_source)

lemma frame_normalize: "keeps (db_holds (framed J sync_part)) (normalize_record_links S) w"
  unfolding normalize_record_links_def normalize_record_def
  by (rule frame_ws_write frame_all_of frame_rules)+

text \<open>
  C29. Capturing empties the outbox into jobs that can be sent. When the capture succeeds no
  change is left pending, and every job it added belongs to the binding, concerns a path the
  user synchronises, has no remote base yet and, where it uploads content, the spool holds bytes
  of exactly its digest and size. The loop over the outbox always ends.
\<close>

theorem sync_capture_complete:
  assumes "sync_capture S b w = (Inr (), w')"
  shows "next_pending (ws_db w') = None \<and>
    (\<forall>r \<in> set (sync_jobs (ws_db w')). r \<in> set (sync_jobs (ws_db w)) \<or> captured (host S) b w' r)"
proof -
  from assms obtain u w1 where n: "normalize_record_links S w = (Inr u, w1)" and c: "capture_loop (host S) b w1 = (Inr (), w')"
    by (auto simp: sync_capture_def op_run bindS_Inr_iff split: sum.splits)
  have "sync_jobs (ws_db w1) = sync_jobs (ws_db w)"
    using frames_same [OF frame_normalize n] by (simp add: sync_part_eq)
  then show ?thesis using capture_loop_jobs [OF c, of "set (sync_jobs (ws_db w))"] by simp
qed

section \<open>Acknowledged jobs\<close>

lemma set_job_get:
  assumes "\<And>r. jb_key (f r) = jb_key r"
  shows "tbl_get jb_key k' (sync_jobs (set_job k f db)) =
    (if k' = k then map_option f (tbl_get jb_key k' (sync_jobs db)) else tbl_get jb_key k' (sync_jobs db))"
  using assms tbl_get_SomeD [of jb_key k' "sync_jobs db"]
  by (cases "tbl_get jb_key k' (sync_jobs db)") (auto simp: set_job_def tbl_get_update [of jb_key f, OF assms])

lemma set_job_same:
  "sync_heads (set_job k f db) = sync_heads db" "sync_bindings (set_job k f db) = sync_bindings db"
  "sync_optional_scope (set_job k f db) = sync_optional_scope db" "sync_inbox (set_job k f db) = sync_inbox db"
  by (simp_all add: set_job_def)

lemma set_outbox_same:
  "sync_heads (set_outbox i f db) = sync_heads db" "sync_bindings (set_outbox i f db) = sync_bindings db"
  "sync_jobs (set_outbox i f db) = sync_jobs db" "sync_optional_scope (set_outbox i f db) = sync_optional_scope db"
  by (simp_all add: set_outbox_def)

lemma freeze_base_get:
  "tbl_get jb_key k (sync_jobs (freeze_base j db)) =
     (if k = job_key j then map_option (\<lambda>r. if jb_base_revision r = None
          then r\<lparr>jb_state := ''committing'', jb_base_revision := Some (head_revision db (jo_binding j, jo_file_id j))\<rparr>
          else r) (tbl_get jb_key k (sync_jobs db))
      else tbl_get jb_key k (sync_jobs db))"
  unfolding freeze_base_def by (rule set_job_get) simp

lemma advance_head_get:
  "tbl_get h_key k (sync_heads (advance_head h db)) =
     (if k = h_key h then (case tbl_get h_key k (sync_heads db) of None \<Rightarrow> Some h
        | Some x \<Rightarrow> Some (if h_revision x < h_revision h
            then x\<lparr>h_revision := h_revision h, h_path := h_path h, h_hash := h_hash h\<rparr> else x))
      else tbl_get h_key k (sync_heads db))"
  using tbl_get_upsert [of h_key h "\<lambda>x. if h_revision x < h_revision h
      then x\<lparr>h_revision := h_revision h, h_path := h_path h, h_hash := h_hash h\<rparr> else x" k "sync_heads db"]
  by (simp add: advance_head_def)

lemma advance_head_same:
  "sync_jobs (advance_head h db) = sync_jobs db" "sync_bindings (advance_head h db) = sync_bindings db"
  "sync_optional_scope (advance_head h db) = sync_optional_scope db" "sync_inbox (advance_head h db) = sync_inbox db"
  by (simp_all add: advance_head_def)

lemma sync_commit_payload_Inr:
  assumes "sync_commit_payload E j w = (Inr p, w')"
  obtains base where "p = payload_json j base" "ws_db w' = freeze_base j (ws_db w)" "ws_disk w' = ws_disk w"
    "map_option jb_base_revision (tbl_get jb_key (job_key j) (sync_jobs (ws_db w'))) = Some (Some base)"
  using assms
  by (auto simp: sync_commit_payload_def op_run bindS_Inr_iff bindR_Inr_iff split: sum.splits dest!: commitS_Inr)

lemma sync_commit_payload_base:
  assumes "sync_commit_payload E j w = (Inr p, w')"
  shows "\<exists>old. tbl_get jb_key (job_key j) (sync_jobs (ws_db w)) = Some old \<and> p = payload_json j
      (case jb_base_revision old of None \<Rightarrow> head_revision (ws_db w) (jo_binding j, jo_file_id j) | Some base \<Rightarrow> base)"
  using assms
  by (cases "tbl_get jb_key (job_key j) (sync_jobs (ws_db w))")
     (auto simp: sync_commit_payload_def op_run bindS_Inr_iff bindR_Inr_iff freeze_base_def set_job_get
      split: sum.splits option.splits if_splits dest!: commitS_Inr)

lemma check_binding_active: "check_binding db b = Inr u \<Longrightarrow> \<exists>a. sync_binding db = Some a \<and> bd_id a = b"
  by (auto simp: check_binding_def bindR_Inr_iff split: option.splits)

text \<open>
  C30. An acknowledged job is settled against the payload that was sent. When an acknowledgement
  is accepted, the base of the payload is the one the job was frozen on, or the head the server had
  confirmed if it was not frozen yet; the server's revision agrees with that payload in every
  field, the operation identifier, the file, the path, the kind, the size, the base revision and
  the content hash (none when the kind is not put), and names the vault of the binding the job
  belongs to, which is the active one. Its sequence lies after that base, the job records both, and
  the file's head is at least that sequence: it is the new sequence, unless a later one was known
  already.
\<close>

theorem sync_ack_settles:
  assumes "sync_ack E j revision w = (Inr (), w')"
  shows "\<exists>base sequence row h b old.
    tbl_get jb_key (job_key j) (sync_jobs (ws_db w)) = Some old \<and>
    base = (case jb_base_revision old of None \<Rightarrow> head_revision (ws_db w) (jo_binding j, jo_file_id j) | Some frozen \<Rightarrow> frozen) \<and>
    as_i64 (json_index revision ''sequence'') = Some sequence \<and>
    acked_sequence revision (payload_json j base) = Some sequence \<and> (is_i64 base \<longrightarrow> base < sequence) \<and>
    json_index revision ''operation_id'' = JStr (jo_operation_id j) \<and> json_index revision ''file_id'' = JStr (jo_file_id j) \<and>
    json_index revision ''path'' = JStr (jo_path j) \<and> json_index revision ''base_revision'' = JInt base \<and>
    json_index revision ''size'' = JInt (jo_size j) \<and> json_index revision ''operation'' = JStr (jo_operation j) \<and>
    json_index revision ''hash'' = (if jo_operation j = ''put'' then JStr (jo_hash j) else JNull) \<and>
    sync_binding (ws_db w) = Some b \<and> bd_id b = jo_binding j \<and> json_index revision ''vault_id'' = JStr (bd_remote_vault b) \<and>
    tbl_get jb_key (job_key j) (sync_jobs (ws_db w')) = Some row \<and>
    jb_state row = ''acked'' \<and> jb_base_revision row = Some base \<and> jb_remote_revision row = Some sequence \<and>
    tbl_get h_key (jo_binding j, jo_file_id j) (sync_heads (ws_db w')) = Some h \<and>
    h_revision h = (case tbl_get h_key (jo_binding j, jo_file_id j) (sync_heads (ws_db w)) of
       None \<Rightarrow> sequence | Some old \<Rightarrow> max (h_revision old) sequence)"
proof -
  from assms obtain u p w1 and active :: binding and sequence where
      bound: "check_binding (ws_db w) (jo_binding j) = Inr u" and
      pay: "sync_commit_payload E j w = (Inr p, w1)" and
      active: "sync_binding (ws_db w1) = Some active" and
      agrees: "response_agrees revision p (bd_remote_vault active)" and
      seq: "acked_sequence revision p = Some sequence" and
      run: "commitS E (''ack '' @ jo_operation_id j) (\<lambda>db. Inr (settle_job j sequence db)) w1 = (Inr (), w')"
    unfolding sync_ack_def bindS_Inr_iff op_result_iffs require_simps ok_or_simps by blast
  from pay obtain base where base: "p = payload_json j base" "ws_db w1 = freeze_base j (ws_db w)"
      "map_option jb_base_revision (tbl_get jb_key (job_key j) (sync_jobs (ws_db w1))) = Some (Some base)"
    by (rule sync_commit_payload_Inr)
  obtain old where old: "tbl_get jb_key (job_key j) (sync_jobs (ws_db w)) = Some old"
      "base = (case jb_base_revision old of None \<Rightarrow> head_revision (ws_db w) (jo_binding j, jo_file_id j) | Some frozen \<Rightarrow> frozen)"
    using sync_commit_payload_base [OF pay] by (auto simp: base(1) payload_json_def)
  have vault: "sync_binding (ws_db w) = Some active" "bd_id active = jo_binding j"
    using active check_binding_active [OF bound] by (auto simp: base(2) sync_binding_def freeze_base_def set_job_same)
  have heads: "sync_heads (ws_db w1) = sync_heads (ws_db w)" by (simp add: base freeze_base_def set_job_same)
  from base(3) obtain row where row: "tbl_get jb_key (job_key j) (sync_jobs (ws_db w1)) = Some row" "jb_base_revision row = Some base"
    by auto
  from run have db: "ws_db w' = settle_job j sequence (ws_db w1)"
    by (auto dest!: commitS_Inr)
  have "tbl_get jb_key (job_key j) (sync_jobs (ws_db w')) =
      Some (row\<lparr>jb_state := ''acked'', jb_remote_revision := Some sequence, jb_error := None\<rparr>)"
    using row by (simp add: db settle_job_def set_outbox_same set_job_get advance_head_same)
  moreover have "is_i64 base \<Longrightarrow> base < sequence" "as_i64 (json_index revision ''sequence'') = Some sequence"
    using seq by (auto simp: base(1) acked_sequence_def payload_json_def json_index_def is_i64_def int_bounds split: option.splits if_splits)
  moreover have "\<exists>h. tbl_get h_key (jo_binding j, jo_file_id j) (sync_heads (ws_db w')) = Some h \<and>
      h_revision h = (case tbl_get h_key (jo_binding j, jo_file_id j) (sync_heads (ws_db w)) of
         None \<Rightarrow> sequence | Some old \<Rightarrow> max (h_revision old) sequence)"
    by (simp add: db settle_job_def set_outbox_same set_job_same advance_head_get heads split: option.split)
  moreover have "json_index revision ''operation_id'' = JStr (jo_operation_id j)" "json_index revision ''file_id'' = JStr (jo_file_id j)"
    "json_index revision ''path'' = JStr (jo_path j)" "json_index revision ''base_revision'' = JInt base"
    "json_index revision ''size'' = JInt (jo_size j)" "json_index revision ''operation'' = JStr (jo_operation j)"
    "json_index revision ''hash'' = (if jo_operation j = ''put'' then JStr (jo_hash j) else JNull)"
    "json_index revision ''vault_id'' = JStr (bd_remote_vault active)"
    using agrees by (simp_all add: base(1) response_agrees_def payload_json_def json_index_def [of "JObj _"])
  ultimately show ?thesis using seq [unfolded base(1)] row(2) old vault
    by (intro exI [of _ base] exI [of _ sequence]) auto
qed

section \<open>The queue only moves forward\<close>

text \<open>
  The order on databases that every operation respects: a job keeps what it is about and, once
  it has one, its base revision; the head of a file is never lost and never goes back; a
  received revision is never replaced, and once handled it does not become pending again.
\<close>

definition same_job :: "job_row \<Rightarrow> job_row \<Rightarrow> bool" where
  "same_job r r' \<longleftrightarrow>
     jb_file_id r' = jb_file_id r \<and> jb_path r' = jb_path r \<and> jb_hash r' = jb_hash r \<and> jb_size r' = jb_size r \<and>
     jb_operation r' = jb_operation r \<and> (jb_base_revision r \<noteq> None \<longrightarrow> jb_base_revision r' = jb_base_revision r)"

abbreviation in_key :: "inbox_row \<Rightarrow> string \<times> int" where
  "in_key r \<equiv> (in_binding r, in_sequence r)"

definition same_inbox :: "inbox_row \<Rightarrow> inbox_row \<Rightarrow> bool" where
  "same_inbox r r' \<longleftrightarrow>
     in_revision r' = in_revision r \<and> in_operation_id r' = in_operation_id r \<and> in_rename_id r' = in_rename_id r \<and>
     (in_state r' = ''pending'' \<longrightarrow> in_state r = ''pending'')"

definition sync_advances :: "ws_db \<Rightarrow> ws_db \<Rightarrow> bool" where
  "sync_advances db db' \<longleftrightarrow>
     (\<forall>k r. tbl_get jb_key k (sync_jobs db) = Some r \<longrightarrow>
        (\<exists>r'. tbl_get jb_key k (sync_jobs db') = Some r' \<and> same_job r r')) \<and>
     (\<forall>k h. tbl_get h_key k (sync_heads db) = Some h \<longrightarrow>
        (\<exists>h'. tbl_get h_key k (sync_heads db') = Some h' \<and> h_revision h \<le> h_revision h')) \<and>
     (\<forall>k r. tbl_get in_key k (sync_inbox db) = Some r \<longrightarrow>
        (\<exists>r'. tbl_get in_key k (sync_inbox db') = Some r' \<and> same_inbox r r'))"

lemma sync_advances_refl: "sync_advances db db"
  by (simp add: sync_advances_def same_job_def same_inbox_def)

lemma same_inbox_trans: "same_inbox a b \<Longrightarrow> same_inbox b c \<Longrightarrow> same_inbox a c"
  by (auto simp: same_inbox_def)

lemma same_job_trans: "same_job a b \<Longrightarrow> same_job b c \<Longrightarrow> same_job a c"
  by (auto simp: same_job_def)

lemma sync_advances_trans:
  assumes "sync_advances a b" "sync_advances b c" shows "sync_advances a c"
  unfolding sync_advances_def
proof (intro conjI allI impI)
  fix k r assume "tbl_get jb_key k (sync_jobs a) = Some r"
  then obtain r1 where 1: "tbl_get jb_key k (sync_jobs b) = Some r1" "same_job r r1"
    using assms(1) unfolding sync_advances_def by blast
  then obtain r2 where "tbl_get jb_key k (sync_jobs c) = Some r2" "same_job r1 r2"
    using assms(2) unfolding sync_advances_def by blast
  with 1 show "\<exists>r'. tbl_get jb_key k (sync_jobs c) = Some r' \<and> same_job r r'" using same_job_trans by blast
next
  fix k h assume "tbl_get h_key k (sync_heads a) = Some h"
  then obtain h1 where 1: "tbl_get h_key k (sync_heads b) = Some h1" "h_revision h \<le> h_revision h1"
    using assms(1) unfolding sync_advances_def by blast
  then obtain h2 where "tbl_get h_key k (sync_heads c) = Some h2" "h_revision h1 \<le> h_revision h2"
    using assms(2) unfolding sync_advances_def by blast
  with 1 show "\<exists>h'. tbl_get h_key k (sync_heads c) = Some h' \<and> h_revision h \<le> h_revision h'" using order_trans by blast
next
  fix k r assume "tbl_get in_key k (sync_inbox a) = Some r"
  then obtain r1 where 1: "tbl_get in_key k (sync_inbox b) = Some r1" "same_inbox r r1"
    using assms(1) unfolding sync_advances_def by blast
  then obtain r2 where "tbl_get in_key k (sync_inbox c) = Some r2" "same_inbox r1 r2"
    using assms(2) unfolding sync_advances_def by blast
  with 1 show "\<exists>r'. tbl_get in_key k (sync_inbox c) = Some r' \<and> same_inbox r r'" using same_inbox_trans by blast
qed

lemma sync_advances_same:
  "sync_jobs db' = sync_jobs db \<Longrightarrow> sync_heads db' = sync_heads db \<Longrightarrow> sync_inbox db' = sync_inbox db \<Longrightarrow>
     sync_advances db db'"
  by (simp add: sync_advances_def same_job_def same_inbox_def)

lemma advances_step: "sync_advances db0 db \<Longrightarrow> sync_advances db db' \<Longrightarrow> sync_advances db0 db'"
  by (rule sync_advances_trans)

lemma advances_set_job:
  assumes "\<And>r. jb_key (f r) = jb_key r" "\<And>r. same_job r (f r)" shows "sync_advances db (set_job k f db)"
  using assms
  by (auto simp: sync_advances_def set_job_get [OF assms(1)] set_job_same same_job_def same_inbox_def)

lemma advances_set_jobs:
  assumes "\<And>r. jb_key (f r) = jb_key r" "\<And>r. same_job r (f r)"
  shows "sync_advances db (db\<lparr>sync_jobs := tbl_update P f (sync_jobs db)\<rparr>)"
  using assms by (auto simp: sync_advances_def tbl_get_update [of jb_key f, OF assms(1)] same_job_def same_inbox_def)

lemma advances_freeze: "sync_advances db (freeze_base j db)"
  unfolding freeze_base_def by (rule advances_set_job) (auto simp: same_job_def)

lemma advances_head: "sync_advances db (advance_head h db)"
  by (auto simp: sync_advances_def advance_head_get advance_head_same same_job_def same_inbox_def)

lemma advances_outbox: "sync_advances db (set_outbox i f db)" "sync_advances db (archive_outbox db)"
  by (simp_all add: sync_advances_same set_outbox_def archive_outbox_def)

lemma advances_queue: "sync_advances db (queue_job b r sz db)"
  by (auto simp: sync_advances_def queue_job_def set_outbox_def tbl_get_insert_ignore same_job_def same_inbox_def)

lemma advances_settle: "sync_advances db (settle_job j sequence db)"
proof -
  let ?h = "\<lparr>h_binding = jo_binding j, h_file_id = jo_file_id j, h_revision = sequence, h_path = jo_path j, h_hash = jo_hash j\<rparr>"
  have "sync_advances (advance_head ?h db)
      (set_job (job_key j) (\<lambda>r. r\<lparr>jb_state := ''acked'', jb_remote_revision := Some sequence, jb_error := None\<rparr>) (advance_head ?h db))"
    by (rule advances_set_job) (auto simp: same_job_def)
  then show ?thesis
    unfolding settle_job_def by (rule sync_advances_trans [OF advances_head sync_advances_trans [OF _ advances_outbox(1)]])
qed

text \<open>Operations that respect the order.\<close>

lemma adv_commitS:
  assumes "\<And>db db'. f db = Inr db' \<Longrightarrow> sync_advances db db'"
  shows "keeps (db_holds (sync_advances db0)) (commitS E i f) w"
  by (rule db_commitS) (use assms advances_step in blast)

lemma adv_framed:
  assumes "\<And>J. keeps (db_holds (framed J sync_part)) m w"
  shows "keeps (db_holds (sync_advances db0)) m w"
proof -
  obtain r w' where m: "m w = (r, w')" by force
  have "sync_part (ws_db w') = sync_part (ws_db w)" by (rule frames_same [of m, OF assms m])
  then have "sync_advances (ws_db w) (ws_db w')" by (auto simp: sync_part_eq intro: sync_advances_same)
  with m show ?thesis by (auto simp: keeps_def db_holds_def intro: advances_step)
qed

lemma adv_total:
  "(\<And>db. sync_advances db (f db)) \<Longrightarrow> keeps (db_holds (sync_advances db0)) (commitS E i (\<lambda>db. Inr (f db))) w"
  by (rule adv_commitS) auto

lemma advances_state:
  "sync_advances db (set_job k (\<lambda>r. r\<lparr>jb_state := v\<rparr>) db)"
  "sync_advances db (set_job k (\<lambda>r. if jb_base_revision r = None then r\<lparr>jb_state := v, jb_upload_id := u\<rparr> else r) db)"
  by (rule advances_set_job; simp add: same_job_def)+

lemma advances_binding: "sync_advances db (archive_outbox (db\<lparr>sync_bindings := x\<rparr>))"
  "sync_advances db (db\<lparr>sync_preferences := y\<rparr>)"
  by (rule sync_advances_same; simp add: archive_outbox_def)+

lemmas advances = advances_state advances_binding advances_queue advances_outbox advances_freeze advances_settle

lemma adv_pause: "keeps (db_holds (sync_advances db0)) (sync_pause E b v) w"
  unfolding sync_pause_def by (rule adv_total advances db_rules)+

lemma adv_unbind: "keeps (db_holds (sync_advances db0)) (sync_unbind E b) w"
  unfolding sync_unbind_def by (rule adv_total advances db_rules)+

lemma adv_capture_row: "keeps (db_holds (sync_advances db0)) (capture_row E b r) w"
  unfolding capture_row_def by (rule adv_total advances adv_framed [OF frame_capture_payload] db_rules)+

lemma adv_capture_loop: "keeps (db_holds (sync_advances db0)) (capture_loop E b) w"
proof (induction E b w rule: capture_loop.induct)
  case (1 E b w)
  show ?case
  proof (cases "next_pending (ws_db w)")
    case (Some r)
    obtain p w1 where d: "capture_row E b r w = (p, w1)" by force
    with adv_capture_row [of db0 E b r w] Some 1 [OF Some d [symmetric]] show ?thesis
      by (cases p) (simp_all add: keeps_def capture_loop.simps [of E b w])
  qed (simp add: keeps_def capture_loop.simps [of E b w])
qed

lemma adv_capture: "keeps (db_holds (sync_advances db0)) (sync_capture S b) w"
  unfolding sync_capture_def by (rule adv_framed [OF frame_normalize] adv_capture_loop db_rules)+

lemma adv_drop: "keeps (db_holds (sync_advances db0)) (drop_excluded E b r) w"
  unfolding drop_excluded_def by (rule adv_total advances db_rules)+

lemma adv_next_loop: "keeps (db_holds (sync_advances db0)) (next_loop E b) w"
proof (induction E b w rule: next_loop.induct)
  case (1 E b w)
  show ?case
  proof (cases "find (sendable (ws_db w) b) (sync_jobs (ws_db w))")
    case (Some r)
    obtain p w1 where d: "drop_excluded E b r w = (p, w1)" by force
    with adv_drop [of db0 E b r w] Some 1 [OF Some _ _ d [symmetric]] show ?thesis
      by (cases p) (simp_all add: keeps_def next_loop.simps [of E b w])
  qed (simp add: keeps_def next_loop.simps [of E b w])
qed

lemma adv_next: "keeps (db_holds (sync_advances db0)) (sync_next E b) w"
  unfolding sync_next_def by (rule adv_next_loop db_rules)+

lemma adv_upload: "keeps (db_holds (sync_advances db0)) (sync_upload E j u) w"
  unfolding sync_upload_def by (rule adv_total advances db_rules)+

lemma adv_commit_payload: "keeps (db_holds (sync_advances db0)) (sync_commit_payload E j) w"
  unfolding sync_commit_payload_def by (rule adv_total advances db_rules)+

lemma adv_ack: "keeps (db_holds (sync_advances db0)) (sync_ack E j revision) w"
  unfolding sync_ack_def by (rule adv_commit_payload adv_total advances db_rules)+

lemma adv_insert_binding: "keeps (db_holds (sync_advances db0)) (commitS E k (insert_binding i e r a)) w"
  by (rule adv_commitS) (auto simp: insert_binding_def bindR_Inr_iff intro: sync_advances_same)

lemma adv_bind_empty: "keeps (db_holds (sync_advances db0)) (sync_bind_empty S e r a) w"
  unfolding sync_bind_empty_def bind_path_def Let_def
  by (rule frame_all_of adv_framed [OF frame_store_file] adv_framed [OF frame_write_spooled] adv_capture adv_insert_binding
      adv_total advances db_rules)+

section \<open>Example values\<close>

definition demo_sync_env :: sync_env where
  "demo_sync_env = \<lparr>host = demo_ws_env, enc_record = (\<lambda>_. None), enc_revision = (\<lambda>r. Some (rv_file_id r)),
     dec_revision = (\<lambda>_. None), preview_text = (\<lambda>_. Some []), uuid_for = (\<lambda>l. l)\<rparr>"

definition demo_job :: "string \<Rightarrow> string \<Rightarrow> job_row" where
  "demo_job i state = \<lparr>jb_binding = ''b'', jb_op = i, jb_file_id = ''f'', jb_path = ''n.md'', jb_hash = demo_sha ''new'', jb_size = 3,
     jb_operation = ''put'', jb_state = state, jb_base_revision = None, jb_upload_id = None, jb_remote_revision = None, jb_error = None\<rparr>"

definition demo_bound :: ws where
  "demo_bound = \<lparr>ws_vault_id = ''v'', ws_db = demo_ws_db\<lparr>
       sync_bindings := [\<lparr>b_id = ''b'', b_endpoint = [], b_remote_vault = ''r'', b_account = [], b_state = ''active'', b_cursor = 0\<rparr>],
       sync_jobs := [demo_job ''o1'' ''acked'', demo_job ''o2'' ''pending''],
       outbox := [\<lparr>ob_op = ''o3'', ob_file_id = ''f'', ob_revision = 2, ob_path = ''n.md'', ob_hash = [], ob_operation = ''delete'',
         ob_content = [], ob_state = ''pending''\<rparr>]\<rparr>, ws_disk = []\<rparr>"

lemma demo_enabled: "sync_allowed ''n.md''" "sync_path_enabled None ''n.md''"
  by (simp_all add: sync_path_enabled_def sync_allowed_def is_record_def starts_with_def skipped_part_def
      ascii_defs ext_is_def path_extension_def path_components_def component_of_def name_extension_def scope_includes_def)

lemma demo_bound_binding: "sync_binding (ws_db demo_bound) = Some \<lparr>bd_id = ''b'', bd_endpoint = [], bd_remote_vault = ''r'', bd_account = [], bd_cursor = 0\<rparr>"
  "sync_optional_scope (ws_db demo_bound) = None"
  by (simp_all add: sync_binding_def demo_bound_def binding_of_def demo_ws_db_def)

theorem sync_next_in_order_witness:
  "\<exists>w'. sync_next demo_ws_env ''b'' demo_bound = (Inr (Some (job_of (demo_job ''o2'' ''pending''))), w') \<and>
     dropped_only (ws_db demo_bound) (ws_db w')"
proof -
  have "find (sendable (ws_db demo_bound) ''b'') (sync_jobs (ws_db demo_bound)) = Some (demo_job ''o2'' ''pending'')"
    by (simp add: demo_bound_def demo_job_def sendable_def open_conflict_def demo_ws_db_def)
  then have run: "sync_next demo_ws_env ''b'' demo_bound = (Inr (Some (job_of (demo_job ''o2'' ''pending''))), demo_bound)"
    by (simp add: sync_next_def op_run check_binding_def demo_bound_binding next_loop.simps demo_enabled demo_job_def)
  have "tbl_unique jb_key (sync_jobs (ws_db demo_bound))"
    by (simp add: demo_bound_def demo_job_def tbl_unique_def)
  with run show ?thesis using sync_next_in_order [of demo_bound demo_ws_env "''b''"] by blast
qed

theorem sync_capture_complete_witness:
  "\<exists>w'. sync_capture demo_sync_env ''b'' demo_bound = (Inr (), w') \<and> next_pending (ws_db w') = None"
proof -
  have "\<exists>w'. sync_capture demo_sync_env ''b'' demo_bound = (Inr (), w')"
    by (simp add: sync_capture_def bindS_def check_binding_def sync_binding_def binding_of_def normalize_record_links_def op_run sync_paths_def
        demo_sync_env_def capture_loop.simps
        demo_bound_def demo_ws_db_def next_pending_def capture_row_def demo_enabled commitS_def io_step_def on_db_def
        demo_ws_env_def queue_job_def set_outbox_def tbl_update_def)
  then show ?thesis using sync_capture_complete [of demo_sync_env "''b''" demo_bound] by blast
qed

theorem sync_ack_settles_witness:
  "\<exists>w' h. sync_ack demo_ws_env (job_of (demo_job ''o2'' ''pending''))
      (JObj [(''operation_id'', JStr ''o2''), (''file_id'', JStr ''f''), (''base_revision'', JInt 0), (''path'', JStr ''n.md''),
        (''operation'', JStr ''put''), (''size'', JInt 3), (''hash'', JStr (demo_sha ''new'')), (''vault_id'', JStr ''r''),
        (''sequence'', JInt 7)]) demo_bound = (Inr (), w') \<and>
     tbl_get h_key (''b'', ''f'') (sync_heads (ws_db w')) = Some h \<and> h_revision h = 7"
  (is "\<exists>w' h. sync_ack demo_ws_env ?j ?rev demo_bound = (Inr (), w') \<and> _")
proof -
  have "\<exists>w'. sync_ack demo_ws_env ?j ?rev demo_bound = (Inr (), w')"
    by (simp add: sync_ack_def sync_commit_payload_def bindS_def op_run check_binding_def check_job_def demo_bound_def demo_ws_db_def
        sync_binding_def binding_of_def demo_job_def job_of_def job_key_def tbl_get_Cons demo_enabled commitS_def io_step_def on_db_def
        demo_ws_env_def freeze_base_def set_job_def tbl_update_def head_revision_def response_agrees_def payload_json_def json_index_def
        acked_sequence_def)
  then obtain w' where run: "sync_ack demo_ws_env ?j ?rev demo_bound = (Inr (), w')" by blast
  have "sync_heads (ws_db demo_bound) = []" by (simp add: demo_bound_def demo_ws_db_def)
  with sync_ack_settles [OF run] run show ?thesis
    by (auto simp: acked_sequence_def json_index_def payload_json_def job_of_def demo_job_def split: if_splits option.splits)
qed

end
