(* ===== verification/Sync_Inbox.thy ===== *)
theory Sync_Inbox
  imports Sync_Queue
begin

text \<open>
  Received revisions (\<open>sync_inbox.rs\<close>): a revision is staged before the workspace is touched, the
  lowest pending one is applied through the same write path as local changes, and the cursor of
  the binding follows the application. Local content the remote vault has not seen becomes a
  conflict instead of being replaced. Sequence numbers stay below the largest 64-bit integer.
\<close>

section \<open>Revisions\<close>

definition remote_validate :: "remote_revision \<Rightarrow> binding \<Rightarrow> unit result" where
  "remote_validate v b =
     bindR (require (\<not> (rv_vault_id v \<noteq> bd_remote_vault b \<or> rv_sequence v \<le> 0 \<or> rv_base_revision v < 0 \<or>
         rv_sequence v \<le> rv_base_revision v \<or> \<not> (0 \<le> rv_size v \<and> rv_size v \<le> 104857600) \<or>
         length (rv_file_id v) < 16 \<or> 80 < length (rv_file_id v) \<or>
         \<not> list_all (\<lambda>c. is_ascii_alphanumeric c \<or> c = CHR ''-'') (rv_file_id v) \<or>
         \<not> (rv_operation v = ''put'' \<or> rv_operation v = ''delete'') \<or>
         (rv_operation v = ''delete'' \<and> (rv_hash v \<noteq> None \<or> rv_size v \<noteq> 0)) \<or>
         (rv_operation v = ''put'' \<and> (case rv_hash v of None \<Rightarrow> True | Some h \<Rightarrow> \<not> is_sha256_hex h))))
       ''SYNC_RESPONSE_INVALID'') (\<lambda>_.
     require (sync_allowed (rv_path v)) ''SYNC_CLASS_UNSUPPORTED'')"

definition revision_json :: "remote_revision \<Rightarrow> json" where
  "revision_json v = JObj
     [(''vault_id'', JStr (rv_vault_id v)), (''sequence'', JInt (rv_sequence v)), (''file_id'', JStr (rv_file_id v)),
      (''base_revision'', JInt (rv_base_revision v)), (''path'', JStr (rv_path v)), (''operation'', JStr (rv_operation v)),
      (''hash'', case rv_hash v of None \<Rightarrow> JNull | Some h \<Rightarrow> JStr h), (''size'', JInt (rv_size v)),
      (''operation_id'', JStr (rv_operation_id v))]"

section \<open>Windows and staging\<close>

definition sync_bind_download :: "sync_env \<Rightarrow> string \<Rightarrow> string \<Rightarrow> string \<Rightarrow> binding ws_op" where
  "sync_bind_download S endpoint remote_vault account =
     bindS (readS (\<lambda>w. require (sync_binding (ws_db w) = None) ''SYNC_ALREADY_BOUND'')) (\<lambda>_.
     bindS (readS sync_paths) (\<lambda>paths.
     bindS (readS (\<lambda>_. require (paths = []) ''SYNC_RECONCILIATION_REQUIRED'')) (\<lambda>_.
     let i = uuid_for S ''binding'' in
     bindS (commitS (host S) i (\<lambda>db. insert_binding i endpoint remote_vault account (archive_outbox db))) (\<lambda>_.
     readS (\<lambda>w. ok_or (sync_binding (ws_db w)) ''DATABASE_ERROR'')))))"

definition boundary_of :: "ws_db \<Rightarrow> string \<Rightarrow> int option" where
  "boundary_of db b = map_option w_boundary (tbl_get w_binding b (sync_windows db))"

definition sync_boundary :: "ws_db \<Rightarrow> string \<Rightarrow> int option result" where
  "sync_boundary db b = bindR (check_binding db b) (\<lambda>_. Inr (boundary_of db b))"

definition sync_set_boundary :: "ws_env \<Rightarrow> string \<Rightarrow> int \<Rightarrow> unit ws_op" where
  "sync_set_boundary E b boundary =
     bindS (readS (\<lambda>w. check_binding (ws_db w) b)) (\<lambda>_.
     bindS (readS (\<lambda>w. ok_or (sync_binding (ws_db w)) ''SYNC_BINDING_CHANGED'')) (\<lambda>active.
     bindS (readS (\<lambda>w. require (\<not> (boundary < bd_cursor active \<or>
              (case boundary_of (ws_db w) b of None \<Rightarrow> False | Some old \<Rightarrow> old \<noteq> boundary))) ''SYNC_RESPONSE_INVALID'')) (\<lambda>_.
     commitS E b (\<lambda>db. Inr (db\<lparr>sync_windows := tbl_insert_ignore w_binding
       \<lparr>w_binding = b, w_boundary = boundary\<rparr> (sync_windows db)\<rparr>)))))"

definition sync_store_bytes :: "ws_env \<Rightarrow> string \<Rightarrow> string ws_op" where
  "sync_store_bytes E bytes = bindS (spool_put E (sha E bytes) (sha E bytes) bytes) (\<lambda>_. retS (sha E bytes))"

definition initial_revision :: "ws_db \<Rightarrow> string \<Rightarrow> int \<Rightarrow> string option" where
  "initial_revision db b sequence =
     (if tbl_has it_binding b (sync_initial db)
      then map_option ii2_revision (tbl_get (\<lambda>r. (ii2_binding r, ii2_sequence r)) (b, sequence) (sync_initial_items db))
      else None)"

definition stage_order :: "sync_env \<Rightarrow> ws_db \<Rightarrow> binding \<Rightarrow> remote_revision \<Rightarrow> string \<Rightarrow> unit result" where
  "stage_order S db active v encoded =
     (case initial_revision db (bd_id active) (rv_sequence v) of
        Some known \<Rightarrow> require (known = encoded) ''SYNC_REVISION_CHANGED''
      | None \<Rightarrow> require (rv_sequence v = bd_cursor active + 1 \<and>
          (case boundary_of db (bd_id active) of None \<Rightarrow> False | Some last' \<Rightarrow> rv_sequence v \<le> last')) ''SYNC_CURSOR_INVALID'')"

definition stage_bytes :: "ws_env \<Rightarrow> remote_revision \<Rightarrow> unit ws_op" where
  "stage_bytes E v =
     bindS (getS (\<lambda>w. enabled (ws_db w) (rv_path v))) (\<lambda>wanted.
     case rv_hash v of
       Some digest \<Rightarrow>
         if wanted then
           bindS (sync_spool E digest) (\<lambda>target.
           bindS (readS (\<lambda>w. open_verified E (ws_disk w) target digest (cast_u64 (rv_size v)))) (\<lambda>_. retS ()))
         else retS ()
     | None \<Rightarrow> retS ())"

definition sync_stage :: "sync_env \<Rightarrow> string \<Rightarrow> remote_revision \<Rightarrow> unit ws_op" where
  "sync_stage S b v =
     bindS (readS (\<lambda>w. check_binding (ws_db w) b)) (\<lambda>_.
     bindS (readS (\<lambda>w. ok_or (sync_binding (ws_db w)) ''SYNC_BINDING_CHANGED'')) (\<lambda>active.
     bindS (readS (\<lambda>_. remote_validate v active)) (\<lambda>_.
     bindS (readS (\<lambda>w. resolve (ws_disk w) (rv_path v))) (\<lambda>_.
     bindS (readS (\<lambda>_. ok_or (enc_revision S v) ''SYNC_RESPONSE_INVALID'')) (\<lambda>encoded.
     bindS (readS (\<lambda>w. stage_order S (ws_db w) active v encoded)) (\<lambda>_.
     bindS (stage_bytes (host S) v) (\<lambda>_.
     bindS (readS (\<lambda>w. require (case tbl_get in_key (b, rv_sequence v) (sync_inbox (ws_db w)) of
              None \<Rightarrow> True | Some r \<Rightarrow> in_revision r = encoded) ''SYNC_REVISION_CHANGED'')) (\<lambda>_.
     commitS (host S) b (\<lambda>db. Inr (db\<lparr>sync_inbox := tbl_insert_ignore in_key
       \<lparr>in_binding = b, in_sequence = rv_sequence v, in_revision = encoded,
        in_operation_id = uuid_for S (''stage '' @ encoded), in_rename_id = uuid_for S (''rename '' @ encoded),
        in_state = ''pending''\<rparr> (sync_inbox db)\<rparr>))))))))))"

section \<open>Completing a revision\<close>

definition move_cursor :: "string \<Rightarrow> int \<Rightarrow> ws_db \<Rightarrow> ws_db result" where
  "move_cursor b sequence db =
     (let hit = (\<lambda>r. b_id r = b \<and> b_state r = ''active'' \<and> b_cursor r = sequence - 1) in
      bindR (require (length (filter hit (sync_bindings db)) = 1) ''SYNC_CURSOR_INVALID'') (\<lambda>_.
      Inr (db\<lparr>sync_bindings := tbl_update hit (\<lambda>r. r\<lparr>b_cursor := sequence\<rparr>) (sync_bindings db)\<rparr>)))"

definition initial_open :: "string \<Rightarrow> ws_db \<Rightarrow> bool" where
  "initial_open b db \<longleftrightarrow>
     list_ex (\<lambda>i. ii2_binding i = b \<and>
       \<not> list_ex (\<lambda>n. in_binding n = ii2_binding i \<and> in_sequence n = ii2_sequence i \<and> in_state n \<noteq> ''pending'') (sync_inbox db))
       (sync_initial_items db)"

definition close_initial :: "string \<Rightarrow> int \<Rightarrow> ws_db \<Rightarrow> ws_db" where
  "close_initial b boundary db =
     db\<lparr>sync_bindings := tbl_update (\<lambda>r. b_id r = b) (\<lambda>r. r\<lparr>b_cursor := boundary\<rparr>) (sync_bindings db),
        sync_initial := tbl_drop_key it_binding b (sync_initial db),
        sync_initial_items := tbl_drop_key ii2_binding b (sync_initial_items db)\<rparr>"

definition settle_inbox :: "string \<Rightarrow> int \<Rightarrow> string \<Rightarrow> ws_db \<Rightarrow> ws_db" where
  "settle_inbox b sequence state db =
     db\<lparr>sync_inbox := tbl_update (\<lambda>r. in_binding r = b \<and> in_sequence r = sequence) (\<lambda>r. r\<lparr>in_state := state\<rparr>) (sync_inbox db)\<rparr>"

definition finish_revision :: "string \<Rightarrow> remote_revision \<Rightarrow> string \<Rightarrow> ws_db \<Rightarrow> ws_db result" where
  "finish_revision b v state db =
     (let initial = map_option it_boundary (tbl_get it_binding b (sync_initial db)) in
      bindR (if initial = None then move_cursor b (rv_sequence v) db else Inr db) (\<lambda>db1.
      let db2 = settle_inbox b (rv_sequence v) state (advance_head
            \<lparr>h_binding = b, h_file_id = rv_file_id v, h_revision = rv_sequence v, h_path = rv_path v,
             h_hash = (case rv_hash v of None \<Rightarrow> [] | Some h \<Rightarrow> h)\<rparr> db1);
          db3 = (case initial of
                   None \<Rightarrow> db2
                 | Some boundary \<Rightarrow> if initial_open b db2 then db2 else close_initial b boundary db2) in
      Inr (db3\<lparr>sync_windows := tbl_delete (\<lambda>r. w_binding r = b \<and> w_boundary r = rv_sequence v) (sync_windows db3)\<rparr>)))"

definition sync_finish :: "ws_env \<Rightarrow> string \<Rightarrow> remote_revision \<Rightarrow> string \<Rightarrow> unit ws_op" where
  "sync_finish E b v state =
     bindS (readS (\<lambda>w. check_binding (ws_db w) b)) (\<lambda>_.
     commitS E (''finish '' @ b) (finish_revision b v state))"

abbreviation cf_key :: "conflict_row \<Rightarrow> string \<times> int" where
  "cf_key r \<equiv> (cf_binding r, cf_sequence r)"

definition open_conflict_row :: "string \<Rightarrow> remote_revision \<Rightarrow> string \<Rightarrow> string \<Rightarrow> string \<Rightarrow> ws_db \<Rightarrow> ws_db" where
  "open_conflict_row b v local_path digest remote db =
     db\<lparr>sync_conflicts := tbl_insert_ignore cf_key
          \<lparr>cf_binding = b, cf_sequence = rv_sequence v, cf_file_id = rv_file_id v, cf_local_path = local_path,
           cf_local_hash = digest, cf_remote = remote, cf_state = ''open''\<rparr>
          (tbl_update (\<lambda>r. cf_binding r = b \<and> cf_file_id r = rv_file_id v \<and> cf_state r = ''open'' \<and> cf_sequence r < rv_sequence v)
            (\<lambda>r. r\<lparr>cf_state := ''superseded''\<rparr>) (sync_conflicts db)),
        sync_jobs := tbl_update (\<lambda>r. jb_binding r = b \<and> (jb_file_id r = rv_file_id v \<or> jb_path r = local_path) \<and>
            jb_state r \<notin> {''acked'', ''archived''}) (\<lambda>r. r\<lparr>jb_state := ''conflict''\<rparr>) (sync_jobs db)\<rparr>"

definition sync_preserve_conflict :: "sync_env \<Rightarrow> string \<Rightarrow> remote_revision \<Rightarrow> string \<Rightarrow> unit ws_op" where
  "sync_preserve_conflict S b v local_path =
     bindS (readS (\<lambda>w. resolve (ws_disk w) local_path)) (\<lambda>path.
     bindS (getS (\<lambda>w. disk_is_file (ws_disk w) path)) (\<lambda>there.
     bindS (if there then sync_store_file (host S) local_path path else retS []) (\<lambda>digest.
     bindS (readS (\<lambda>_. ok_or (enc_revision S v) ''SYNC_RESPONSE_INVALID'')) (\<lambda>remote.
     bindS (commitS (host S) (''conflict '' @ b) (\<lambda>db. Inr (open_conflict_row b v local_path digest remote db))) (\<lambda>_.
     sync_finish (host S) b v ''conflict'')))))"

section \<open>Applying the next revision\<close>

definition next_revision :: "ws_db \<Rightarrow> string \<Rightarrow> inbox_row option" where
  "next_revision db b =
     (case sort_key in_sequence (filter (\<lambda>r. in_binding r = b \<and> in_state r = ''pending'') (sync_inbox db)) of
        [] \<Rightarrow> None | r # _ \<Rightarrow> Some r)"

definition identity_path :: "ws_db \<Rightarrow> remote_revision \<Rightarrow> string option" where
  "identity_path db v = (case path_for_id db (rv_file_id v) of Inl _ \<Rightarrow> None | Inr p \<Rightarrow> Some p)"

definition sync_conflict_local_path :: "ws_db \<Rightarrow> remote_revision \<Rightarrow> string" where
  "sync_conflict_local_path db v =
     (let occupied = (case entry_at db (rv_path v) of
            None \<Rightarrow> False | Some en \<Rightarrow> \<not> en_deleted en \<and> en_file_id en \<noteq> rv_file_id v) in
      case identity_path db v of
        None \<Rightarrow> rv_path v
      | Some p \<Rightarrow> if occupied \<and> p \<noteq> rv_path v then rv_path v else p)"

text \<open>Whether the revision meets local content the remote vault has not seen.\<close>

definition target_collision :: "disk \<Rightarrow> string option \<Rightarrow> remote_revision \<Rightarrow> bool result" where
  "target_collision d local_path v =
     (case local_path of
        None \<Rightarrow> Inr False
      | Some previous \<Rightarrow>
          if previous = rv_path v then Inr False
          else bindR (resolve d (rv_path v)) (\<lambda>t.
            if \<not> disk_exists d t then Inr False
            else bindR (paths_alias d previous (rv_path v)) (\<lambda>same. Inr (\<not> same))))"

definition remote_conflict :: "ws_db \<Rightarrow> disk \<Rightarrow> string \<Rightarrow> remote_revision \<Rightarrow> string \<Rightarrow> string \<Rightarrow> bool result" where
  "remote_conflict db d b v local current =
     (let queued = list_ex (\<lambda>r. ob_file_id r = rv_file_id v \<and> ob_state r \<in> {''pending'', ''queued''}) (outbox db);
          head = map_option h_hash (tbl_get h_key (b, rv_file_id v) (sync_heads db));
          local_path = identity_path db v in
      bindR (target_collision d local_path v) (\<lambda>collision.
      Inr (queued \<or> (local_path = None \<and> disk_exists d local) \<or> (local_path \<noteq> None \<and> head \<noteq> Some current) \<or> collision)))"

definition apply_put :: "sync_env \<Rightarrow> remote_revision \<Rightarrow> string option \<Rightarrow> string \<Rightarrow> string \<Rightarrow> string \<Rightarrow> unit ws_op" where
  "apply_put S v local_path current operation rename_id =
     bindS (case local_path of
              None \<Rightarrow> retS ()
            | Some previous \<Rightarrow>
                if previous = rv_path v then retS ()
                else bindS (mutate_with_origin (host S) ''rename'' previous (rv_path v) current rename_id ''remote'') (\<lambda>_. retS ())) (\<lambda>_.
     bindS (readS (\<lambda>_. ok_or (rv_hash v) ''SYNC_RESPONSE_INVALID'')) (\<lambda>digest.
     bindS (write_spooled_with_identity S (rv_path v) current (digest, cast_u64 (rv_size v)) ''remote'' operation
              (Some (rv_file_id v))) (\<lambda>_. retS ())))"

definition apply_remote :: "sync_env \<Rightarrow> string \<Rightarrow> remote_revision \<Rightarrow> string \<Rightarrow> string \<Rightarrow> unit ws_op" where
  "apply_remote S b v operation rename_id =
     bindS (getS (\<lambda>w. identity_path (ws_db w) v)) (\<lambda>local_path.
     bindS (getS (\<lambda>w. sync_conflict_local_path (ws_db w) v)) (\<lambda>path.
     bindS (readS (\<lambda>w. resolve (ws_disk w) path)) (\<lambda>local.
     bindS (readS (\<lambda>w. if disk_is_file (ws_disk w) local then hash_file (host S) (ws_disk w) local else Inr [])) (\<lambda>current.
     bindS (readS (\<lambda>w. remote_conflict (ws_db w) (ws_disk w) b v local current)) (\<lambda>conflict.
     if conflict then sync_preserve_conflict S b v path
     else
       bindS (if rv_operation v = ''delete'' then
                bindS (getS (\<lambda>w. local_path \<noteq> None \<and> disk_exists (ws_disk w) local)) (\<lambda>there.
                if there then bindS (mutate_with_origin (host S) ''delete'' path [] current operation ''remote'') (\<lambda>_. retS ())
                else retS ())
              else apply_put S v local_path current operation rename_id) (\<lambda>_.
       sync_finish (host S) b v ''applied''))))))"

definition own_job :: "ws_db \<Rightarrow> string \<Rightarrow> remote_revision \<Rightarrow> job option" where
  "own_job db b v =
     (case tbl_get jb_key (b, rv_operation_id v) (sync_jobs db) of
        None \<Rightarrow> None
      | Some r \<Rightarrow> if jb_state r \<in> {''archived'', ''conflict''} then None else Some (job_of r))"

text \<open>A revision that is already part of the local state: applied before, or older than its head.\<close>

definition already_applied :: "ws_env \<Rightarrow> ws_db \<Rightarrow> string \<Rightarrow> remote_revision \<Rightarrow> string \<Rightarrow> bool result" where
  "already_applied E db b v operation =
     bindR (operation_of E db operation) (\<lambda>receipt.
     Inr ((case receipt of None \<Rightarrow> False | Some (state, _) \<Rightarrow> state = ''committed'') \<or>
       (case tbl_get h_key (b, rv_file_id v) (sync_heads db) of None \<Rightarrow> False | Some h \<Rightarrow> rv_sequence v \<le> h_revision h)))"

definition apply_revision :: "sync_env \<Rightarrow> string \<Rightarrow> remote_revision \<Rightarrow> string \<Rightarrow> string \<Rightarrow> unit ws_op" where
  "apply_revision S b v operation rename_id =
     bindS (getS (\<lambda>w. enabled (ws_db w) (rv_path v))) (\<lambda>wanted.
     if \<not> wanted then sync_finish (host S) b v ''excluded''
     else
       bindS (getS (\<lambda>w. own_job (ws_db w) b v)) (\<lambda>own.
       case own of
         Some j \<Rightarrow> bindS (sync_ack (host S) j (revision_json v)) (\<lambda>_. sync_finish (host S) b v ''applied'')
       | None \<Rightarrow>
           bindS (readS (\<lambda>w. already_applied (host S) (ws_db w) b v operation)) (\<lambda>done'.
           if done' then sync_finish (host S) b v ''applied'' else apply_remote S b v operation rename_id)))"

definition sync_apply_pending :: "sync_env \<Rightarrow> string \<Rightarrow> bool ws_op" where
  "sync_apply_pending S b =
     bindS (readS (\<lambda>w. check_binding (ws_db w) b)) (\<lambda>_.
     bindS (getS (\<lambda>w. next_revision (ws_db w) b)) (\<lambda>pending.
     case pending of
       None \<Rightarrow> retS False
     | Some r \<Rightarrow>
         bindS (readS (\<lambda>_. ok_or (dec_revision S (in_revision r)) ''SYNC_RESPONSE_INVALID'')) (\<lambda>v.
         bindS (apply_revision S b v (in_operation_id r) (in_rename_id r)) (\<lambda>_. retS True))))"

text \<open>The open conflicts of a binding, with the local content as it is now.\<close>

record conflict_view =
  cv_sequence :: int
  cv_file_id :: string
  cv_local_path :: string
  cv_local_hash :: string
  cv_current_hash :: string
  cv_remote :: remote_revision

definition conflict_view_of :: "sync_env \<Rightarrow> disk \<Rightarrow> conflict_row \<Rightarrow> conflict_view result" where
  "conflict_view_of S d r =
     bindR (ok_or (dec_revision S (cf_remote r)) ''SYNC_RESPONSE_INVALID'') (\<lambda>v.
     bindR (resolve d (cf_local_path r)) (\<lambda>source.
     bindR (if disk_is_file d source then hash_file (host S) d source else Inr []) (\<lambda>current.
     Inr \<lparr>cv_sequence = cf_sequence r, cv_file_id = cf_file_id r, cv_local_path = cf_local_path r,
          cv_local_hash = cf_local_hash r, cv_current_hash = current, cv_remote = v\<rparr>)))"

fun all_views :: "sync_env \<Rightarrow> disk \<Rightarrow> conflict_row list \<Rightarrow> conflict_view list result" where
  "all_views S d [] = Inr []"
| "all_views S d (r # rs) =
     bindR (conflict_view_of S d r) (\<lambda>v. bindR (all_views S d rs) (\<lambda>vs. Inr (v # vs)))"

definition list_conflicts :: "sync_env \<Rightarrow> ws \<Rightarrow> string \<Rightarrow> conflict_view list result" where
  "list_conflicts S w b =
     bindR (check_binding (ws_db w) b) (\<lambda>_.
     all_views S (ws_disk w) (sort_key cf_sequence
       (filter (\<lambda>r. cf_binding r = b \<and> cf_state r = ''open'') (sync_conflicts (ws_db w)))))"

section \<open>Every operation moves the queue forward\<close>

lemma advances_settle_inbox: "state \<noteq> ''pending'' \<Longrightarrow> sync_advances db (settle_inbox b n state db)"
  using tbl_get_update [of in_key "\<lambda>r. r\<lparr>in_state := state\<rparr>" _ "\<lambda>r. in_binding r = b \<and> in_sequence r = n" "sync_inbox db"]
  by (auto simp: sync_advances_def settle_inbox_def same_job_def same_inbox_def)

lemma advances_others:
  "sync_advances db (db\<lparr>sync_windows := a\<rparr>)" "sync_advances db (db\<lparr>sync_bindings := c\<rparr>)"
  "sync_advances db (close_initial b n db)"
  by (simp_all add: sync_advances_same close_initial_def)

lemma advances_finish:
  assumes "finish_revision b v state db = Inr db'" "state \<noteq> ''pending''"
  shows "sync_advances db db'"
proof -
  let ?h = "\<lparr>h_binding = b, h_file_id = rv_file_id v, h_revision = rv_sequence v, h_path = rv_path v,
             h_hash = (case rv_hash v of None \<Rightarrow> [] | Some h \<Rightarrow> h)\<rparr>"
  let ?db2 = "\<lambda>db1. settle_inbox b (rv_sequence v) state (advance_head ?h db1)"
  from assms(1) obtain db1 db3 where
      1: "db1 = db \<or> (\<exists>x. db1 = db\<lparr>sync_bindings := x\<rparr>)" and
      3: "db3 = ?db2 db1 \<or> (\<exists>n. db3 = close_initial b n (?db2 db1))" and
      r: "db' = db3\<lparr>sync_windows := tbl_delete (\<lambda>r. w_binding r = b \<and> w_boundary r = rv_sequence v) (sync_windows db3)\<rparr>"
    unfolding finish_revision_def move_cursor_def Let_def
    by (auto simp: bindR_Inr_iff split: if_splits option.splits)
  have a1: "sync_advances db db1" using 1 advances_others(2) sync_advances_refl by metis
  have a2: "sync_advances db1 (?db2 db1)"
    by (rule sync_advances_trans [OF advances_head advances_settle_inbox [OF assms(2)]])
  have a3: "sync_advances (?db2 db1) db3" using 3 advances_others(3) sync_advances_refl by metis
  show ?thesis
    using sync_advances_trans [OF a1 sync_advances_trans [OF a2 sync_advances_trans [OF a3 advances_others(1)]]] r by simp
qed

lemma adv_finish: "state \<noteq> ''pending'' \<Longrightarrow> keeps (db_holds (sync_advances db0)) (sync_finish E b v state) w"
  unfolding sync_finish_def by (rule db_rules | rule adv_commitS, erule advances_finish, assumption)+

lemma advances_conflict: "sync_advances db (open_conflict_row b v p digest remote db)"
proof -
  let ?f = "\<lambda>r. r\<lparr>jb_state := ''conflict''\<rparr>"
  have "sync_advances db (db\<lparr>sync_jobs := tbl_update (\<lambda>r. jb_binding r = b \<and> (jb_file_id r = rv_file_id v \<or> jb_path r = p) \<and>
            jb_state r \<notin> {''acked'', ''archived''}) ?f (sync_jobs db)\<rparr>)" (is "sync_advances db ?d")
    by (rule advances_set_jobs) (simp_all add: same_job_def)
  moreover have "sync_advances ?d (open_conflict_row b v p digest remote db)"
    by (rule sync_advances_same) (simp_all add: open_conflict_row_def)
  ultimately show ?thesis by (rule sync_advances_trans)
qed

lemma frame_store_sync_file: "keeps (db_holds (framed J sync_part)) (sync_store_file E operation source) w"
  unfolding sync_store_file_def by (rule frame_snapshot frame_rules)+

lemma adv_preserve: "keeps (db_holds (sync_advances db0)) (sync_preserve_conflict S b v p) w"
proof -
  have fin: "keeps (db_holds (sync_advances db0)) (sync_finish (host S) b v ''conflict'') w'" for w'
    by (rule adv_finish) simp
  show ?thesis unfolding sync_preserve_conflict_def
    by (rule fin adv_framed [OF frame_store_sync_file] adv_total advances_conflict db_rules)+
qed

lemma adv_apply_put: "keeps (db_holds (sync_advances db0)) (apply_put S v p current operation rename_id) w"
  unfolding apply_put_def by (rule adv_framed [OF frame_mutate] adv_framed [OF frame_write_spooled] db_rules)+

lemma adv_apply_revision: "keeps (db_holds (sync_advances db0)) (apply_revision S b v operation rename_id) w"
proof -
  have fin: "keeps (db_holds (sync_advances db0)) (sync_finish (host S) b v ''applied'') w'"
     "keeps (db_holds (sync_advances db0)) (sync_finish (host S) b v ''excluded'') w'" for w'
    by (rule adv_finish, simp)+
  show ?thesis unfolding apply_revision_def apply_remote_def
    by (rule fin adv_ack adv_preserve adv_apply_put adv_framed [OF frame_mutate] db_rules)+
qed

lemma adv_apply_pending: "keeps (db_holds (sync_advances db0)) (sync_apply_pending S b) w"
  unfolding sync_apply_pending_def by (rule adv_apply_revision db_rules)+

lemma adv_boundary: "keeps (db_holds (sync_advances db0)) (sync_set_boundary E b n) w"
  unfolding sync_set_boundary_def by (rule adv_total advances_others db_rules)+

lemma adv_stage: "keeps (db_holds (sync_advances db0)) (sync_stage S b v) w"
proof -
  have ins: "sync_advances db (db\<lparr>sync_inbox := tbl_insert_ignore in_key r (sync_inbox db)\<rparr>)" for db r
    by (auto simp: sync_advances_def tbl_get_insert_ignore same_job_def same_inbox_def)
  show ?thesis unfolding sync_stage_def stage_bytes_def by (rule adv_total ins db_disk_rules db_rules)+
qed

lemma adv_download: "keeps (db_holds (sync_advances db0)) (sync_bind_download S e r a) w"
proof -
  have "sync_advances db db'" if "insert_binding i e r a (archive_outbox db) = Inr db'" for i db db'
    using that by (auto simp: insert_binding_def archive_outbox_def bindR_Inr_iff intro: sync_advances_same)
  then have "keeps (db_holds (sync_advances db0))
      (commitS E k (\<lambda>db. insert_binding i e r a (archive_outbox db))) w'" for E k i w'
    by (rule adv_commitS)
  note ins = this
  show ?thesis unfolding sync_bind_download_def Let_def by (rule ins db_rules)+
qed

section \<open>Runs of the synchronisation\<close>

text \<open>
  One operation of the synchronisation or of the write path, under any environment: which steps
  fail, which identifiers are drawn and what the server answers may differ every time.
\<close>

inductive sync_step :: "ws \<Rightarrow> ws \<Rightarrow> bool" where
  step_pause: "sync_step w (snd (sync_pause E b v w))"
| step_bind_empty: "sync_step w (snd (sync_bind_empty S e r a w))"
| step_bind_download: "sync_step w (snd (sync_bind_download S e r a w))"
| step_unbind: "sync_step w (snd (sync_unbind E b w))"
| step_capture: "sync_step w (snd (sync_capture S b w))"
| step_next: "sync_step w (snd (sync_next E b w))"
| step_upload: "sync_step w (snd (sync_upload E j u w))"
| step_commit: "sync_step w (snd (sync_commit_payload E j w))"
| step_ack: "sync_step w (snd (sync_ack E j revision w))"
| step_boundary: "sync_step w (snd (sync_set_boundary E b n w))"
| step_stage: "sync_step w (snd (sync_stage S b v w))"
| step_apply: "sync_step w (snd (sync_apply_pending S b w))"
| step_write: "sync_step w (snd (write_source E fresh path expected content origin operation identity authorize w))"
| step_mutate: "sync_step w (snd (mutate_with_origin E kind path destination expected operation origin w))"
| step_recover: "sync_step w (snd (ws_recover E w))"

lemma step_advances: "keeps (db_holds (sync_advances (ws_db w))) m w \<Longrightarrow> sync_advances (ws_db w) (ws_db (snd (m w)))"
  by (simp add: keeps_def db_holds_def sync_advances_refl)

lemma sync_step_advances: "sync_step w w' \<Longrightarrow> sync_advances (ws_db w) (ws_db w')"
  by (induction rule: sync_step.induct; rule step_advances)
     (rule adv_pause adv_bind_empty adv_download adv_unbind adv_capture adv_next adv_upload adv_commit_payload adv_ack adv_boundary
       adv_stage adv_apply_pending adv_framed [OF frame_write_source] adv_framed [OF frame_mutate] adv_framed [OF frame_recover])+

lemma sync_run_advances: "sync_step\<^sup>*\<^sup>* w w' \<Longrightarrow> sync_advances (ws_db w) (ws_db w')"
  by (induction rule: rtranclp_induct) (auto intro: sync_advances_refl sync_advances_trans sync_step_advances)

text \<open>
  C25. A retry sends the same payload. Once the commit payload of a job was computed, every later
  computation for the same job yields the same payload, whatever happened in between: other
  jobs, received revisions, acknowledgements, local writes and recoveries, and failures of any
  step. The server can therefore recognise a repeated request by its content.
\<close>

theorem retry_payload_identical:
  assumes "sync_commit_payload E j w = (Inr p, w1)" and "sync_step\<^sup>*\<^sup>* w1 w2"
    and "sync_commit_payload E' j w2 = (Inr p', w3)"
  shows "p' = p"
proof -
  from assms(1) obtain base where b: "p = payload_json j base"
      "map_option jb_base_revision (tbl_get jb_key (job_key j) (sync_jobs (ws_db w1))) = Some (Some base)"
    by (rule sync_commit_payload_Inr)
  from assms(3) obtain base' where b': "p' = payload_json j base'" "ws_db w3 = freeze_base j (ws_db w2)"
      "map_option jb_base_revision (tbl_get jb_key (job_key j) (sync_jobs (ws_db w3))) = Some (Some base')"
    by (rule sync_commit_payload_Inr)
  have adv: "sync_advances (ws_db w1) (ws_db w3)"
    unfolding b'(2) by (rule sync_advances_trans [OF sync_run_advances [OF assms(2)] advances_freeze])
  obtain r r' where r: "tbl_get jb_key (job_key j) (sync_jobs (ws_db w1)) = Some r" "jb_base_revision r = Some base"
      "tbl_get jb_key (job_key j) (sync_jobs (ws_db w3)) = Some r'" "jb_base_revision r' = Some base'"
    using b(2) b'(3) by auto
  obtain r'' where "tbl_get jb_key (job_key j) (sync_jobs (ws_db w3)) = Some r''" "same_job r r''"
    using conjunct1 [OF adv [unfolded sync_advances_def]] r(1) by blast
  then have "same_job r r'" using r(3) by simp
  with r b(1) b'(1) show ?thesis by (simp add: same_job_def)
qed

theorem retry_payload_identical_witness:
  "\<exists>p w1 w2 w3. sync_commit_payload demo_ws_env (job_of (demo_job ''o2'' ''pending'')) demo_bound = (Inr p, w1) \<and>
     sync_step\<^sup>*\<^sup>* w1 w2 \<and> sync_commit_payload demo_ws_env (job_of (demo_job ''o2'' ''pending'')) w2 = (Inr p, w3)"
  (is "\<exists>p w1 w2 w3. ?run demo_bound = (Inr p, w1) \<and> _")
proof -
  note eval = sync_commit_payload_def bindS_def op_run check_binding_def check_job_def demo_bound_def demo_ws_db_def
        sync_binding_def binding_of_def demo_job_def job_of_def job_key_def tbl_get_Cons demo_enabled commitS_def io_step_def on_db_def
        demo_ws_env_def freeze_base_def set_job_def tbl_update_def head_revision_def
  obtain p w1 where 1: "?run demo_bound = (Inr p, w1)" by (simp add: eval)
  have step: "sync_step\<^sup>*\<^sup>* w1 (snd (sync_pause demo_ws_env ''b'' True w1))" by (rule r_into_rtranclp) (rule step_pause)
  have "\<exists>p' w3. ?run (snd (sync_pause demo_ws_env ''b'' True w1)) = (Inr p', w3)"
    using 1 by (auto simp: eval sync_pause_def)
  then show ?thesis using retry_payload_identical [OF 1 step] 1 step by blast
qed

text \<open>
  C32. What is known of the remote vault is never forgotten. Over any run of operations, with any
  failures, the head of a file stays and its revision never decreases, a received revision keeps
  its content and the identifiers it is applied under, and one that was handled is never pending
  again.
\<close>

theorem sync_knowledge_grows:
  assumes "sync_step\<^sup>*\<^sup>* w w'"
  shows "(\<forall>k h. tbl_get h_key k (sync_heads (ws_db w)) = Some h \<longrightarrow>
      (\<exists>h'. tbl_get h_key k (sync_heads (ws_db w')) = Some h' \<and> h_revision h \<le> h_revision h')) \<and>
    (\<forall>k r. tbl_get in_key k (sync_inbox (ws_db w)) = Some r \<longrightarrow>
      (\<exists>r'. tbl_get in_key k (sync_inbox (ws_db w')) = Some r' \<and> in_revision r' = in_revision r \<and>
        in_operation_id r' = in_operation_id r \<and> in_rename_id r' = in_rename_id r \<and>
        (in_state r \<noteq> ''pending'' \<longrightarrow> in_state r' \<noteq> ''pending'')))"
  using sync_run_advances [OF assms] unfolding sync_advances_def same_inbox_def by blast

theorem sync_knowledge_grows_witness:
  "\<exists>h. tbl_get h_key (''b'', ''f'') (sync_heads (ws_db (snd (sync_apply_pending demo_sync_env ''b''
      (demo_bound\<lparr>ws_db := (ws_db demo_bound)\<lparr>sync_heads := [\<lparr>h_binding = ''b'', h_file_id = ''f'', h_revision = 4, h_path = ''n.md'',
        h_hash = demo_sha ''old''\<rparr>]\<rparr>\<rparr>))))) = Some h \<and> 4 \<le> h_revision h"
  (is "\<exists>h. tbl_get h_key _ (sync_heads (ws_db (snd (sync_apply_pending demo_sync_env ''b'' ?w)))) = Some h \<and> _")
proof -
  have "sync_step\<^sup>*\<^sup>* ?w (snd (sync_apply_pending demo_sync_env ''b'' ?w))" by (rule r_into_rtranclp) (rule step_apply)
  note grows = spec [OF spec [OF conjunct1 [OF sync_knowledge_grows [OF this]], of "(''b'', ''f'')"],
    of "\<lparr>h_binding = ''b'', h_file_id = ''f'', h_revision = 4, h_path = ''n.md'', h_hash = demo_sha ''old''\<rparr>"]
  show ?thesis using grows by (simp add: tbl_get_Cons)
qed

section \<open>Received revisions never replace unseen content\<close>

lemma quiet_sync:
  "quiet h db \<Longrightarrow> file_ops db' = file_ops db \<Longrightarrow> journal db' = journal db \<Longrightarrow> directory_ops db' = directory_ops db \<Longrightarrow> quiet h db'"
  by (rule quiet_subset) simp_all

lemma quiet_finish:
  assumes "quiet h db" "finish_revision b v state db = Inr db'" shows "quiet h db'"
proof -
  have "file_ops db' = file_ops db \<and> journal db' = journal db \<and> directory_ops db' = directory_ops db"
    using assms(2) unfolding finish_revision_def move_cursor_def settle_inbox_def advance_head_def close_initial_def Let_def
    by (auto simp: bindR_Inr_iff split: if_splits option.splits)
  then show ?thesis using quiet_sync [OF assms(1)] by blast
qed

lemma calm_finish: "keeps (calm E q c) (sync_finish E' b v state) w"
  unfolding sync_finish_def by (rule keep_rules | rule calm_commitS, erule quiet_finish, assumption)+

lemma calm_total:
  "(\<And>db. file_ops (f db) = file_ops db \<and> journal (f db) = journal db \<and> directory_ops (f db) = directory_ops db) \<Longrightarrow>
     keeps (calm E q c) (commitS E' i (\<lambda>db. Inr (f db))) w"
  by (rule calm_commitS) (auto intro: quiet_sync)

lemma calm_ack: "keeps (calm E q c) (sync_ack E' j revision) w"
proof -
  have settle: "keeps (calm E q c) (commitS E' i (\<lambda>db. Inr (settle_job j n db))) w'" for i n w'
    by (rule calm_total) (simp add: settle_job_def set_outbox_def set_job_def advance_head_def)
  have freeze: "keeps (calm E q c) (commitS E' i (\<lambda>db. Inr (freeze_base j db))) w'" for i w'
    by (rule calm_total) (simp add: freeze_base_def set_job_def)
  show ?thesis unfolding sync_ack_def sync_commit_payload_def by (rule settle freeze keep_rules)+
qed

lemma calm_preserve: "keeps (calm (host S) q c) (sync_preserve_conflict S b v path) w"
proof -
  have row: "keeps (calm (host S) q c) (commitS (host S) i (\<lambda>db. Inr (open_conflict_row b v path digest remote db))) w'" for i digest remote w'
    by (rule calm_total) (simp add: open_conflict_row_def)
  show ?thesis unfolding sync_preserve_conflict_def sync_store_file_def by (rule row calm_finish calm_snapshot keep_rules)+
qed

lemma calm_spooled:
  "expected \<noteq> sha (host S) c \<Longrightarrow>
     keeps (calm (host S) q c) (write_spooled_with_identity S path expected p origin operation identity) w"
  unfolding write_spooled_with_identity_def by (rule calm_write_source)

lemma calm_apply_put:
  assumes "current \<noteq> sha (host S) c"
  shows "keeps (calm (host S) q c) (apply_put S v local_path current operation rename_id) w"
  unfolding apply_put_def by (rule calm_mutate [OF assms] calm_spooled [OF assms] keep_rules)+

text \<open>Without a conflict, the content a revision replaces is content of the head.\<close>

lemma no_conflict_head:
  assumes "remote_conflict db d b v local current = Inr False"
  shows "current = [] \<or> (\<exists>h \<in> set (sync_heads db). h_binding h = b \<and> h_hash h = current) \<or> \<not> disk_exists d local"
proof -
  from assms have "local_path = None \<and> \<not> disk_exists d local \<or> local_path \<noteq> None \<and>
      map_option h_hash (tbl_get h_key (b, rv_file_id v) (sync_heads db)) = Some current"
    if "local_path = identity_path db v" for local_path
    using that by (auto simp: remote_conflict_def Let_def bindR_Inr_iff)
  from this [OF refl] show ?thesis by (auto dest!: tbl_get_SomeD)
qed

lemma calm_apply_remote:
  assumes "sha (host S) c \<noteq> []" "\<forall>h \<in> set (sync_heads (ws_db w)). h_binding h = b \<longrightarrow> h_hash h \<noteq> sha (host S) c"
  shows "keeps (calm (host S) q c) (apply_remote S b v operation rename_id) w"
proof -
  have cur: "current \<noteq> sha (host S) c"
    if "(if disk_is_file (ws_disk w) local then hash_file (host S) (ws_disk w) local else Inr []) = Inr current"
       "remote_conflict (ws_db w) (ws_disk w) b v local current = Inr conflict" "\<not> conflict" for local current conflict
  proof
    assume eq: "current = sha (host S) c"
    then have "disk_is_file (ws_disk w) local" using that(1) assms(1) by (auto split: if_splits)
    then have "disk_exists (ws_disk w) local" by (auto simp: disk_is_file_def disk_exists_def split: option.splits disk_node.splits)
    with no_conflict_head [of "ws_db w" "ws_disk w" b v local current] that(2,3) eq assms show False by auto
  qed
  have del: "keeps (calm (host S) q c) (if there then bindS (mutate_with_origin (host S) ''delete'' path [] current operation ''remote'') (\<lambda>_. retS ())
                else retS ()) w'" if "current \<noteq> sha (host S) c" for there path current w'
    using that by (auto intro!: keep_rules calm_mutate)
  show ?thesis
    unfolding apply_remote_def
    by (rule calm_preserve | rule calm_finish | rule keeps_bind_get keeps_bind_read keeps_if |
        rule keeps_bind, (rule keeps_if, rule keeps_bind_get, rule del, erule (2) cur, rule calm_apply_put, erule (2) cur))+
qed

text \<open>
  C24. Receiving never destroys local work. Whatever revision arrives and whichever steps fail, a
  local file whose content is not the content of any head of the binding, that is, content the
  remote vault has not confirmed, is there afterwards with the same bytes: such a revision
  becomes a conflict. (No unfinished local operation concerns that content.)
\<close>

theorem receive_keeps_unseen:
  assumes "bt_get (ws_disk w) q = Some (RegFile c)" and "sha (host S) c \<noteq> []"
    and "\<forall>h \<in> set (sync_heads (ws_db w)). h_binding h = b \<longrightarrow> h_hash h \<noteq> sha (host S) c"
    and "quiet (sha (host S) c) (ws_db w)"
    and "sync_apply_pending S b w = (res, w')"
  shows "bt_get (ws_disk w') q = Some (RegFile c)"
proof -
  have "keeps (calm (host S) q c) (sync_apply_pending S b) w"
    unfolding sync_apply_pending_def apply_revision_def
    by (rule calm_apply_remote [OF assms(2,3)] calm_ack calm_finish keep_rules)+
  then have "calm (host S) q c w'" using assms by (simp add: keeps_def calm_def db_holds_def holds_def)
  then show ?thesis by (simp add: calm_def holds_def)
qed

section \<open>The cursor follows the application\<close>

text \<open>The binding rows, and that no initial download is under way.\<close>

definition steady :: "string \<Rightarrow> binding_row list \<Rightarrow> ws_db \<Rightarrow> bool" where
  "steady b rows db \<longleftrightarrow> sync_bindings db = rows \<and> tbl_get it_binding b (sync_initial db) = None"

definition moved :: "string \<Rightarrow> binding_row list \<Rightarrow> remote_revision \<Rightarrow> ws \<Rightarrow> bool" where
  "moved b rows v w \<longleftrightarrow>
     length (filter (\<lambda>r. b_id r = b \<and> b_state r = ''active'' \<and> b_cursor r = rv_sequence v - 1) rows) = 1 \<and>
     sync_bindings (ws_db w) = tbl_update (\<lambda>r. b_id r = b \<and> b_state r = ''active'' \<and> b_cursor r = rv_sequence v - 1)
       (\<lambda>r. r\<lparr>b_cursor := rv_sequence v\<rparr>) rows \<and>
     (\<exists>h. tbl_get h_key (b, rv_file_id v) (sync_heads (ws_db w)) = Some h \<and> rv_sequence v \<le> h_revision h)"

definition settles :: "string \<Rightarrow> binding_row list \<Rightarrow> remote_revision \<Rightarrow> unit ws_op \<Rightarrow> ws \<Rightarrow> bool" where
  "settles b rows v m w \<longleftrightarrow> (db_holds (steady b rows) w \<longrightarrow> leads (\<lambda>_. moved b rows v) (\<lambda>_. True) m w)"

lemma settles_bind:
  assumes "keeps (db_holds (steady b rows)) m w" "\<And>x w'. settles b rows v (k x) w'"
  shows "settles b rows v (bindS m k) w"
  unfolding settles_def
proof (intro impI leads_bind)
  assume "db_holds (steady b rows) w"
  then show "leads (\<lambda>x. leads (\<lambda>_. moved b rows v) (\<lambda>_. True) (k x)) (\<lambda>_. True) m w"
    using assms by (cases "m w"; cases "fst (m w)") (auto simp: keeps_def leads_def [of _ _ m] settles_def)
qed

lemma settles_if: "settles b rows v m w \<Longrightarrow> settles b rows v n w \<Longrightarrow> settles b rows v (if c then m else n) w"
  by simp

lemma settles_option:
  "settles b rows v m w \<Longrightarrow> (\<And>y. settles b rows v (k y) w) \<Longrightarrow> settles b rows v (case x of None \<Rightarrow> m | Some y \<Rightarrow> k y) w"
  by (cases x) auto

lemma finish_moves:
  assumes "steady b rows db" "finish_revision b v state db = Inr db'"
  shows "moved b rows v (w\<lparr>ws_db := db'\<rparr>)"
  using assms
  by (auto simp: steady_def moved_def finish_revision_def move_cursor_def settle_inbox_def Let_def bindR_Inr_iff advance_head_same
      advance_head_get split: option.splits)

lemma settles_finish: "settles b rows v (sync_finish E b v state) w"
proof -
  have "leads (\<lambda>_. moved b rows v) (\<lambda>_. True) (commitS E (''finish '' @ b) (finish_revision b v state)) w"
    if "steady b rows (ws_db w)"
    by (rule leads_commitS_any) (use finish_moves [OF that] in auto)
  then show ?thesis unfolding settles_def sync_finish_def
    by (auto simp: db_holds_def intro!: leads_bind leads_read)
qed

lemma steady_framed: "(\<And>J. keeps (db_holds (framed J sync_part)) m w) \<Longrightarrow> keeps (db_holds (steady b rows)) m w"
proof -
  assume f: "\<And>J. keeps (db_holds (framed J sync_part)) m w"
  obtain r w' where m: "m w = (r, w')" by force
  have "sync_part (ws_db w') = sync_part (ws_db w)" by (rule frames_same [of m, OF f m])
  with m show ?thesis by (auto simp: keeps_def db_holds_def steady_def sync_part_eq)
qed

lemma steady_total:
  "(\<And>db. sync_bindings (f db) = sync_bindings db \<and> sync_initial (f db) = sync_initial db) \<Longrightarrow>
     keeps (db_holds (steady b rows)) (commitS E i (\<lambda>db. Inr (f db))) w"
  by (rule db_commitS) (auto simp: steady_def)

lemma steady_ack: "keeps (db_holds (steady b rows)) (sync_ack E j revision) w"
proof -
  have settle: "keeps (db_holds (steady b rows)) (commitS E i (\<lambda>db. Inr (settle_job j n db))) w'" for i n w'
    by (rule steady_total) (simp add: settle_job_def set_outbox_def set_job_def advance_head_def)
  have freeze: "keeps (db_holds (steady b rows)) (commitS E i (\<lambda>db. Inr (freeze_base j db))) w'" for i w'
    by (rule steady_total) (simp add: freeze_base_def set_job_def)
  show ?thesis unfolding sync_ack_def sync_commit_payload_def by (rule settle freeze db_rules)+
qed

lemma steady_conflict:
  "keeps (db_holds (steady b rows)) (commitS E i (\<lambda>db. Inr (open_conflict_row b' v path digest remote db))) w"
  by (rule steady_total) (simp add: open_conflict_row_def)

lemmas settle_rules = settles_finish settles_if settles_option settles_bind

lemma settles_preserve: "settles b rows v (sync_preserve_conflict S b v path) w"
  unfolding sync_preserve_conflict_def
  by (rule settle_rules steady_framed [OF frame_store_sync_file] steady_conflict db_rules)+

lemma steady_apply_put: "keeps (db_holds (steady b rows)) (apply_put S v p current operation rename_id) w"
  unfolding apply_put_def by (rule steady_framed [OF frame_mutate] steady_framed [OF frame_write_spooled] db_rules)+

lemma settles_apply: "settles b rows v (apply_revision S b v operation rename_id) w"
  unfolding apply_revision_def apply_remote_def
  by (rule settles_preserve settle_rules steady_ack steady_apply_put steady_framed [OF frame_mutate] db_rules)+

lemma moved_cursor:
  assumes "moved b rows v w" "tbl_unique b_id rows"
  shows "\<exists>r r'. tbl_get b_id b rows = Some r \<and> b_cursor r = rv_sequence v - 1 \<and>
    tbl_get b_id b (sync_bindings (ws_db w)) = Some r' \<and> b_cursor r' = rv_sequence v"
proof -
  let ?hit = "\<lambda>r. b_id r = b \<and> b_state r = ''active'' \<and> b_cursor r = rv_sequence v - 1"
  from assms(1) have "filter ?hit rows \<noteq> []" by (auto simp: moved_def)
  then obtain r where r: "r \<in> set rows" "?hit r" by (auto simp: filter_empty_conv)
  with assms(2) have "tbl_get b_id b rows = Some r" using tbl_unique_get by fastforce
  with assms(1) r show ?thesis by (simp add: moved_def tbl_get_update)
qed

text \<open>
  C26. The cursor follows the application. When the next received revision is handled, outside an
  initial download, the cursor moves from the sequence just before it to its sequence, and the
  file's head is at least that far; the revision handled is the pending one with the lowest
  sequence. So no revision is skipped and none is counted twice.
\<close>

theorem cursor_follows_application:
  assumes "sync_apply_pending S b w = (Inr True, w')" and "tbl_get it_binding b (sync_initial (ws_db w)) = None"
    and "tbl_unique b_id (sync_bindings (ws_db w))"
  shows "\<exists>r v before after h. next_revision (ws_db w) b = Some r \<and> dec_revision S (in_revision r) = Some v \<and>
    tbl_get b_id b (sync_bindings (ws_db w)) = Some before \<and> b_cursor before = rv_sequence v - 1 \<and>
    tbl_get b_id b (sync_bindings (ws_db w')) = Some after \<and> b_cursor after = rv_sequence v \<and>
    tbl_get h_key (b, rv_file_id v) (sync_heads (ws_db w')) = Some h \<and> rv_sequence v \<le> h_revision h"
proof -
  let ?rows = "sync_bindings (ws_db w)"
  from assms(1) obtain r v u where n: "next_revision (ws_db w) b = Some r" "dec_revision S (in_revision r) = Some v"
      "apply_revision S b v (in_operation_id r) (in_rename_id r) w = (Inr u, w')"
    by (auto simp: sync_apply_pending_def op_run bindS_Inr_iff split: option.splits sum.splits)
  have "db_holds (steady b ?rows) w" using assms(2) by (simp add: db_holds_def steady_def)
  then have m: "moved b ?rows v w'" using leads_Inr [OF mp [OF settles_apply [unfolded settles_def]] n(3)] by simp
  from m obtain h where h: "tbl_get h_key (b, rv_file_id v) (sync_heads (ws_db w')) = Some h" "rv_sequence v \<le> h_revision h"
    unfolding moved_def by blast
  from moved_cursor [OF m assms(3)] obtain r1 r2 where "tbl_get b_id b ?rows = Some r1" "b_cursor r1 = rv_sequence v - 1"
      "tbl_get b_id b (sync_bindings (ws_db w')) = Some r2" "b_cursor r2 = rv_sequence v" by blast
  with n(1,2) h show ?thesis by (intro exI conjI)
qed

section \<open>Example values\<close>

definition demo_revision :: "string \<Rightarrow> remote_revision" where
  "demo_revision path = \<lparr>rv_vault_id = ''r'', rv_sequence = 1, rv_file_id = ''f'', rv_base_revision = 0, rv_path = path,
     rv_operation = ''put'', rv_hash = Some (demo_sha ''new''), rv_size = 3, rv_operation_id = ''o9''\<rparr>"

definition demo_remote_env :: "string \<Rightarrow> sync_env" where
  "demo_remote_env path = demo_sync_env\<lparr>dec_revision := (\<lambda>_. Some (demo_revision path))\<rparr>"

definition demo_received :: ws where
  "demo_received = demo_bound\<lparr>ws_db := (ws_db demo_bound)\<lparr>sync_inbox := [\<lparr>in_binding = ''b'', in_sequence = 1, in_revision = ''f'',
      in_operation_id = ''s1'', in_rename_id = ''s2'', in_state = ''pending''\<rparr>]\<rparr>, ws_disk := [(''n.md'', RegFile ''edited'')]\<rparr>"

theorem cursor_follows_application_witness:
  "\<exists>w' after. sync_apply_pending (demo_remote_env ''x.exe'') ''b'' demo_received = (Inr True, w') \<and>
     tbl_get b_id ''b'' (sync_bindings (ws_db w')) = Some after \<and> b_cursor after = 1"
proof -
  have off: "\<not> sync_path_enabled None ''x.exe''"
    by (simp add: sync_path_enabled_def sync_allowed_def is_record_def starts_with_def skipped_part_def ascii_defs ext_is_def
        path_extension_def path_components_def component_of_def name_extension_def is_experiment_file_def first_part_def)
  have "\<exists>w'. sync_apply_pending (demo_remote_env ''x.exe'') ''b'' demo_received = (Inr True, w')"
    by (simp add: sync_apply_pending_def apply_revision_def bindS_def op_run check_binding_def demo_received_def demo_bound_def demo_ws_db_def
        sync_binding_def binding_of_def next_revision_def demo_remote_env_def demo_revision_def off sync_finish_def commitS_def io_step_def
        on_db_def demo_sync_env_def demo_ws_env_def finish_revision_def move_cursor_def Let_def)
  then obtain w' where run: "sync_apply_pending (demo_remote_env ''x.exe'') ''b'' demo_received = (Inr True, w')" by blast
  have "tbl_get it_binding ''b'' (sync_initial (ws_db demo_received)) = None" "tbl_unique b_id (sync_bindings (ws_db demo_received))"
    by (simp_all add: demo_received_def demo_bound_def demo_ws_db_def tbl_unique_def)
  from cursor_follows_application [OF run this] run show ?thesis
    by (auto simp: demo_remote_env_def demo_revision_def)
qed

theorem receive_keeps_unseen_witness:
  "bt_get (ws_disk (snd (sync_apply_pending (demo_remote_env ''n.md'') ''b'' demo_received))) ''n.md'' = Some (RegFile ''edited'')"
  by (rule receive_keeps_unseen [where w = demo_received and S = "demo_remote_env ''n.md''", OF _ _ _ _ prod.collapse [symmetric]])
     (simp_all add: demo_received_def demo_bound_def demo_ws_db_def bt_get_def demo_remote_env_def demo_sync_env_def demo_ws_env_def
        demo_sha_def quiet_def unexpected_def)

end
