(* ===== verification/Sync_Discovery.thy ===== *)
theory Sync_Discovery
  imports Sync_Queue
begin

text \<open>
  The order in which discovered renames are sent (\<open>order_discovered_puts\<close> of
  \<open>sync_discovery.rs\<close>). Files may have exchanged their paths, so a put whose path is still taken
  on the remote side waits for the file that holds it, and a cycle is broken by one intermediate
  put to a fresh name. The theory specifies the remote vault as a map from files to paths and
  shows that the planned sequence never puts a file onto a path another file holds, and ends
  with every file at its new path. On the file systems modelled the key of a path is the path.
\<close>

section \<open>The plan\<close>

record discovered_put =
  dp_file_id :: string
  dp_path :: string
  dp_digest :: string
  dp_operation :: string

record planned_put =
  pp_index :: nat
  pp_path :: string
  pp_operation :: string

text \<open>The variables of the search: the stack has its top first, \<open>next_uuid\<close> counts drawn UUIDs.\<close>

record plan_state =
  positions :: "string \<rightharpoonup> string"
  occupied :: "string \<rightharpoonup> string"
  reserved :: "string list"
  states :: "nat list"
  stack :: "nat list"
  ordered :: "planned_put list"
  next_uuid :: nat

definition sync_path_key :: "string \<Rightarrow> string result" where
  "sync_path_key path = Inr path"

definition parent_path :: "string \<Rightarrow> string" where
  "parent_path p = slash_join (butlast (split_on (CHR ''/'') p))"

definition staging_name :: "string \<Rightarrow> string \<Rightarrow> string \<Rightarrow> string" where
  "staging_name parent uuid extension =
     map (\<lambda>c. if c = CHR 0x5C then CHR ''/'' else c)
       ((if parent = [] then [] else parent @ ''/'') @ ''OpenNexus-sync-rename-'' @ uuid @ ''.'' @ extension)"

definition staging_free :: "ws \<Rightarrow> string list \<Rightarrow> string \<Rightarrow> bool result" where
  "staging_free w taken path =
     bindR (sync_path_key path) (\<lambda>key.
     if key \<in> set taken then Inr False
     else bindR (resolve (ws_disk w) path) (\<lambda>t.
       Inr (\<not> disk_exists (ws_disk w) t \<and>
         \<not> list_ex (\<lambda>r. ob_path r = path \<and> ob_state r \<in> {''pending'', ''queued''}) (outbox (ws_db w)))))"

partial_function (option) staging_search ::
  "ws \<Rightarrow> (nat \<Rightarrow> string) \<Rightarrow> string list \<Rightarrow> nat \<Rightarrow> (string \<times> nat) result option" where
  "staging_search w candidate taken n =
     (if \<not> enabled (ws_db w) (candidate n) then Some (Err ''SYNC_CLASS_UNSUPPORTED'')
      else (case staging_free w taken (candidate n) of
        Inl e \<Rightarrow> Some (Inl e)
      | Inr free \<Rightarrow> if free then Some (Inr (candidate n, Suc n)) else staging_search w candidate taken (Suc n)))"

definition sync_rename_staging_path ::
  "ws \<Rightarrow> (nat \<Rightarrow> string) \<Rightarrow> string \<Rightarrow> string list \<Rightarrow> nat \<Rightarrow> (string \<times> nat) result option" where
  "sync_rename_staging_path w uuid destination taken n =
     (case path_extension destination of
        None \<Rightarrow> Some (Err ''SYNC_CLASS_UNSUPPORTED'')
      | Some extension \<Rightarrow>
          staging_search w (\<lambda>k. staging_name (parent_path destination) (uuid k) extension) taken n)"

text \<open>A file moves: it leaves its old path and holds the new one.\<close>

definition move_file :: "string \<Rightarrow> string \<Rightarrow> plan_state \<Rightarrow> plan_state" where
  "move_file i key st =
     st\<lparr>positions := (positions st)(i \<mapsto> key),
        occupied := (case positions st i of None \<Rightarrow> occupied st | Some old \<Rightarrow> (occupied st)(old := None))(key \<mapsto> i)\<rparr>"

definition index_of :: "discovered_put list \<Rightarrow> string \<Rightarrow> nat option" where
  "index_of puts i = map_of (rev (zip (map dp_file_id puts) [0..<length puts])) i"

definition blocker :: "discovered_put list \<Rightarrow> plan_state \<Rightarrow> nat \<Rightarrow> string option" where
  "blocker puts st index =
     (case occupied st (dp_path (puts ! index)) of
        None \<Rightarrow> None
      | Some i \<Rightarrow> if i = dp_file_id (puts ! index) then None else Some i)"

definition place_put :: "discovered_put list \<Rightarrow> nat \<Rightarrow> plan_state \<Rightarrow> plan_state" where
  "place_put puts index st =
     (let p = puts ! index; st1 = move_file (dp_file_id p) (dp_path p) st in
      st1\<lparr>ordered := ordered st1 @ [\<lparr>pp_index = index, pp_path = dp_path p, pp_operation = dp_operation p\<rparr>],
          states := (states st1)[index := 2], stack := tl (stack st1)\<rparr>)"

definition stage_put :: "nat \<Rightarrow> string \<Rightarrow> string \<Rightarrow> string \<Rightarrow> nat \<Rightarrow> plan_state \<Rightarrow> plan_state" where
  "stage_put dependency owner path operation n st =
     (let st1 = move_file owner path st in
      st1\<lparr>reserved := path # reserved st1, next_uuid := n,
          ordered := ordered st1 @ [\<lparr>pp_index = dependency, pp_path = path, pp_operation = operation\<rparr>]\<rparr>)"

text \<open>One iteration of the inner loop, on the top of the stack.\<close>

definition plan_step ::
  "ws \<Rightarrow> (nat \<Rightarrow> string) \<Rightarrow> discovered_put list \<Rightarrow> nat \<Rightarrow> plan_state \<Rightarrow> plan_state result option" where
  "plan_step w uuid puts index st =
     (case blocker puts st index of
        None \<Rightarrow> Some (Inr (place_put puts index st))
      | Some owner \<Rightarrow>
          (case index_of puts owner of
             None \<Rightarrow> Some (Err ''PATH_CONFLICT'')
           | Some dependency \<Rightarrow>
               if states st ! dependency = 0 then
                 Some (Inr (st\<lparr>states := (states st)[dependency := 1], stack := dependency # stack st\<rparr>))
               else if states st ! dependency = 2 then Some (Err ''PATH_CONFLICT'')
               else (case sync_rename_staging_path w uuid (dp_path (puts ! dependency)) (reserved st) (next_uuid st) of
                   None \<Rightarrow> None
                 | Some (Inl e) \<Rightarrow> Some (Inl e)
                 | Some (Inr (path, n)) \<Rightarrow> Some (Inr (stage_put dependency owner path (uuid n) (Suc n) st)))))"

partial_function (option) plan_loop ::
  "ws \<Rightarrow> (nat \<Rightarrow> string) \<Rightarrow> discovered_put list \<Rightarrow> plan_state \<Rightarrow> plan_state result option" where
  "plan_loop w uuid puts st =
     (case stack st of
        [] \<Rightarrow> Some (Inr st)
      | index # _ \<Rightarrow>
          (case plan_step w uuid puts index st of
             None \<Rightarrow> None
           | Some (Inl e) \<Rightarrow> Some (Inl e)
           | Some (Inr st') \<Rightarrow> plan_loop w uuid puts st'))"

fun plan_starts ::
  "ws \<Rightarrow> (nat \<Rightarrow> string) \<Rightarrow> discovered_put list \<Rightarrow> nat list \<Rightarrow> plan_state \<Rightarrow> plan_state result option" where
  "plan_starts w uuid puts [] st = Some (Inr st)"
| "plan_starts w uuid puts (start # rest) st =
     (if states st ! start = 2 then plan_starts w uuid puts rest st
      else (case plan_loop w uuid puts (st\<lparr>states := (states st)[start := 1], stack := [start]\<rparr>) of
          None \<Rightarrow> None
        | Some (Inl e) \<Rightarrow> Some (Inl e)
        | Some (Inr st') \<Rightarrow> plan_starts w uuid puts rest st'))"

definition kept_positions :: "(string \<times> string) list \<Rightarrow> (string \<times> string) list \<Rightarrow> (string \<times> string) list" where
  "kept_positions previous deletions = filter (\<lambda>(i, path). i \<notin> fst ` set deletions) previous"

definition plan_start ::
  "(string \<times> string) list \<Rightarrow> (string \<times> string) list \<Rightarrow> discovered_put list \<Rightarrow> plan_state" where
  "plan_start previous deletions puts =
     (let kept = kept_positions previous deletions in
      \<lparr>positions = map_of (rev kept), occupied = map_of (rev (map (\<lambda>(i, path). (path, i)) kept)),
       reserved = map snd kept @ map dp_path puts, states = replicate (length puts) 0, stack = [], ordered = [],
       next_uuid = 0\<rparr>)"

definition order_discovered_puts ::
  "ws \<Rightarrow> (nat \<Rightarrow> string) \<Rightarrow> (string \<times> string) list \<Rightarrow> (string \<times> string) list \<Rightarrow> discovered_put list \<Rightarrow>
     planned_put list result option" where
  "order_discovered_puts w uuid previous deletions puts =
     (if puts = [] then Some (Inr [])
      else map_option (\<lambda>r. bindR r (\<lambda>st. Inr (ordered st)))
        (plan_starts w uuid puts [0..<length puts] (plan_start previous deletions puts)))"

section \<open>The remote vault\<close>

text \<open>
  What the sequence of puts does to the remote vault, seen as the path each file is at: a put
  onto a path that another file holds is refused.
\<close>

definition held :: "string \<Rightarrow> string \<Rightarrow> (string \<rightharpoonup> string) \<Rightarrow> bool" where
  "held i path vault \<longleftrightarrow> (\<exists>j. j \<noteq> i \<and> vault j = Some path)"

fun replay :: "discovered_put list \<Rightarrow> planned_put list \<Rightarrow> (string \<rightharpoonup> string) \<Rightarrow> (string \<rightharpoonup> string) option" where
  "replay puts [] vault = Some vault"
| "replay puts (p # ps) vault =
     (let i = dp_file_id (puts ! pp_index p) in
      if held i (pp_path p) vault then None else replay puts ps (vault(i \<mapsto> pp_path p)))"

lemma replay_append:
  "replay puts (ps @ qs) vault = (case replay puts ps vault of None \<Rightarrow> None | Some v \<Rightarrow> replay puts qs v)"
  by (induction ps arbitrary: vault) (simp_all add: Let_def)

definition plan_inv :: "discovered_put list \<Rightarrow> (string \<rightharpoonup> string) \<Rightarrow> plan_state \<Rightarrow> bool" where
  "plan_inv puts vault st \<longleftrightarrow>
     (\<forall>i k. positions st i = Some k \<longleftrightarrow> occupied st k = Some i) \<and>
     replay puts (ordered st) vault = Some (positions st) \<and>
     length (states st) = length puts \<and> distinct (stack st) \<and>
     (\<forall>s \<in> set (stack st). s < length puts \<and> states st ! s = 1) \<and>
     (\<forall>d < length puts. states st ! d = 2 \<longrightarrow> positions st (dp_file_id (puts ! d)) = Some (dp_path (puts ! d))) \<and>
     (\<forall>d < length puts. dp_path (puts ! d) \<in> set (reserved st)) \<and>
     (\<forall>k. occupied st k \<noteq> None \<longrightarrow> k \<in> set (reserved st)) \<and>
     (\<forall>i. i \<notin> dp_file_id ` set puts \<longrightarrow> positions st i = vault i)"

lemma move_file_inverse:
  assumes "\<forall>i k. positions st i = Some k \<longleftrightarrow> occupied st k = Some i" "\<forall>j. occupied st key = Some j \<longrightarrow> j = i"
  shows "positions (move_file i key st) j = Some k \<longleftrightarrow> occupied (move_file i key st) k = Some j"
proof (cases "positions st i")
  case None
  then have "occupied st k \<noteq> Some i" for k using assms(1) by (metis option.distinct(1))
  with None assms show ?thesis by (auto simp: move_file_def)
next
  case (Some old)
  then have here: "occupied st x = Some i \<longleftrightarrow> x = old" for x using assms(1) by (metis option.inject)
  have maps: "occupied (move_file i key st) = (occupied st)(old := None, key \<mapsto> i)"
      "positions (move_file i key st) = (positions st)(i \<mapsto> key)" by (simp_all add: move_file_def Some)
  show ?thesis
  proof (cases "j = i")
    case True
    then show ?thesis using here [of k] by (simp add: maps)
  next
    case False
    have "occupied st old \<noteq> Some j" using here [of old] False by simp
    moreover have "occupied st key \<noteq> Some j" using assms(2) False by blast
    moreover have "positions st j = Some k \<longleftrightarrow> occupied st k = Some j" using assms(1) by blast
    ultimately show ?thesis using False by (auto simp: maps)
  qed
qed

lemma move_file_same [simp]:
  "ordered (move_file i key st) = ordered st" "states (move_file i key st) = states st" "stack (move_file i key st) = stack st"
  "reserved (move_file i key st) = reserved st" "positions (move_file i key st) = (positions st)(i \<mapsto> key)"
  by (simp_all add: move_file_def)

lemma move_file_occupied:
  "occupied (move_file i key st) k \<noteq> None \<Longrightarrow> k = key \<or> occupied st k \<noteq> None"
  by (auto simp: move_file_def split: option.splits if_splits)

lemma replay_snoc:
  assumes "replay puts ps vault = Some v" "\<forall>j. v j = Some path \<longrightarrow> j = dp_file_id (puts ! index)"
  shows "replay puts (ps @ [\<lparr>pp_index = index, pp_path = path, pp_operation = operation\<rparr>]) vault =
    Some (v(dp_file_id (puts ! index) \<mapsto> path))"
  using assms by (auto simp: replay_append Let_def held_def)

lemma ids_distinct:
  "distinct (map dp_file_id puts) \<Longrightarrow> d < length puts \<Longrightarrow> e < length puts \<Longrightarrow>
     dp_file_id (puts ! d) = dp_file_id (puts ! e) \<longleftrightarrow> d = e"
  using nth_eq_iff_index_eq [of "map dp_file_id puts" d e] by simp

lemma place_inv:
  assumes "plan_inv puts vault st" "distinct (map dp_file_id puts)" "stack st = index # rest" "blocker puts st index = None"
  shows "plan_inv puts vault (place_put puts index st)"
proof -
  let ?i = "dp_file_id (puts ! index)" and ?t = "dp_path (puts ! index)"
  have inv: "\<forall>i k. positions st i = Some k \<longleftrightarrow> occupied st k = Some i" and n: "index < length puts"
    and run: "replay puts (ordered st) vault = Some (positions st)"
    using assms(1,3) by (auto simp: plan_inv_def)
  have free: "\<forall>j. occupied st ?t = Some j \<longrightarrow> j = ?i" using assms(4) by (auto simp: blocker_def split: option.splits if_splits)
  have run': "replay puts (ordered st @ [\<lparr>pp_index = index, pp_path = ?t, pp_operation = dp_operation (puts ! index)\<rparr>]) vault =
      Some ((positions st)(?i \<mapsto> ?t))"
    by (rule replay_snoc [OF run]) (use free inv in blast)
  have others: "dp_file_id (puts ! d) = ?i \<longleftrightarrow> d = index" if "d < length puts" for d using ids_distinct [OF assms(2) that n] .
  have old: "length (states st) = length puts" "distinct (index # rest)" "\<forall>s \<in> set (index # rest). s < length puts \<and> states st ! s = 1"
      "\<forall>d < length puts. states st ! d = 2 \<longrightarrow> positions st (dp_file_id (puts ! d)) = Some (dp_path (puts ! d))"
      "\<forall>d < length puts. dp_path (puts ! d) \<in> set (reserved st)" "\<forall>k. occupied st k \<noteq> None \<longrightarrow> k \<in> set (reserved st)"
      "\<forall>i. i \<notin> dp_file_id ` set puts \<longrightarrow> positions st i = vault i"
    using assms(1) unfolding plan_inv_def assms(3) by blast+
  have new: "positions (place_put puts index st) = (positions st)(?i \<mapsto> ?t)"
      "occupied (place_put puts index st) = occupied (move_file ?i ?t st)" "reserved (place_put puts index st) = reserved st"
      "states (place_put puts index st) = (states st)[index := 2]" "stack (place_put puts index st) = rest"
      "ordered (place_put puts index st) = ordered st @ [\<lparr>pp_index = index, pp_path = ?t, pp_operation = dp_operation (puts ! index)\<rparr>]"
    by (simp_all add: place_put_def Let_def assms(3))
  show ?thesis unfolding plan_inv_def new
  proof (intro conjI allI ballI impI)
    show "((positions st)(?i \<mapsto> ?t)) j = Some k \<longleftrightarrow> occupied (move_file ?i ?t st) k = Some j" for j k
      using move_file_inverse [OF inv free, of j k] by simp
    show "occupied (move_file ?i ?t st) k \<noteq> None \<Longrightarrow> k \<in> set (reserved st)" for k
      using move_file_occupied [of ?i ?t st k] old(5,6) n by blast
    show "i \<notin> dp_file_id ` set puts \<Longrightarrow> ((positions st)(?i \<mapsto> ?t)) i = vault i" for i
      using old(7) nth_mem [OF n] by auto
    show "replay puts (ordered st @ [\<lparr>pp_index = index, pp_path = ?t, pp_operation = dp_operation (puts ! index)\<rparr>]) vault =
        Some ((positions st)(?i \<mapsto> ?t))" by (rule run')
    show "d < length puts \<Longrightarrow> (states st)[index := 2] ! d = 2 \<Longrightarrow>
        ((positions st)(?i \<mapsto> ?t)) (dp_file_id (puts ! d)) = Some (dp_path (puts ! d))" for d
      using old(1,4) others [of d] by (cases "d = index") simp_all
    show "s < length puts" "(states st)[index := 2] ! s = 1" if "s \<in> set rest" for s
      using that old(2,3) by (auto simp: nth_list_update_neq intro: nth_list_update_neq [THEN trans])
  qed (use old n in simp_all)
qed

lemma index_of_Some:
  assumes "index_of puts i = Some d" shows "d < length puts \<and> dp_file_id (puts ! d) = i"
proof -
  have "(i, d) \<in> set (zip (map dp_file_id puts) [0..<length puts])"
    using map_of_SomeD [OF assms [unfolded index_of_def]] by simp
  then show ?thesis by (auto simp: set_zip)
qed

lemma index_of_None: "index_of puts i = None \<Longrightarrow> i \<notin> dp_file_id ` set puts"
  by (simp add: index_of_def map_of_eq_None_iff flip: set_map)

lemma push_inv:
  assumes "plan_inv puts vault st" "d < length puts" "states st ! d = 0"
  shows "plan_inv puts vault (st\<lparr>states := (states st)[d := 1], stack := d # stack st\<rparr>)"
  using assms unfolding plan_inv_def by (auto simp: nth_list_update)

lemma stage_inv:
  assumes "plan_inv puts vault st" "distinct (map dp_file_id puts)" "d < length puts" "dp_file_id (puts ! d) = owner"
    and "states st ! d \<noteq> 2" "path \<notin> set (reserved st)"
  shows "plan_inv puts vault (stage_put d owner path operation m st)"
proof -
  have old: "\<forall>i k. positions st i = Some k \<longleftrightarrow> occupied st k = Some i" "replay puts (ordered st) vault = Some (positions st)"
      "length (states st) = length puts" "distinct (stack st)" "\<forall>s \<in> set (stack st). s < length puts \<and> states st ! s = 1"
      "\<forall>d < length puts. states st ! d = 2 \<longrightarrow> positions st (dp_file_id (puts ! d)) = Some (dp_path (puts ! d))"
      "\<forall>d < length puts. dp_path (puts ! d) \<in> set (reserved st)" "\<forall>k. occupied st k \<noteq> None \<longrightarrow> k \<in> set (reserved st)"
      "\<forall>i. i \<notin> dp_file_id ` set puts \<longrightarrow> positions st i = vault i"
    using assms(1) unfolding plan_inv_def by blast+
  have none: "occupied st path = None" using old(8) assms(6) by (metis not_None_eq)
  then have free: "\<forall>j. occupied st path = Some j \<longrightarrow> j = owner" by simp
  have run: "replay puts (ordered st @ [\<lparr>pp_index = d, pp_path = path, pp_operation = operation\<rparr>]) vault = Some ((positions st)(owner \<mapsto> path))"
    using replay_snoc [OF old(2), of path d operation] free old(1) assms(4) by simp
  have new: "positions (stage_put d owner path operation m st) = (positions st)(owner \<mapsto> path)"
      "occupied (stage_put d owner path operation m st) = occupied (move_file owner path st)"
      "reserved (stage_put d owner path operation m st) = path # reserved st" "states (stage_put d owner path operation m st) = states st"
      "stack (stage_put d owner path operation m st) = stack st"
      "ordered (stage_put d owner path operation m st) = ordered st @ [\<lparr>pp_index = d, pp_path = path, pp_operation = operation\<rparr>]"
    by (simp_all add: stage_put_def Let_def)
  have others: "dp_file_id (puts ! e) = owner \<longleftrightarrow> e = d" if "e < length puts" for e
    using ids_distinct [OF assms(2) that assms(3)] assms(4) by simp
  show ?thesis unfolding plan_inv_def new
  proof (intro conjI allI ballI impI)
    show "((positions st)(owner \<mapsto> path)) j = Some k \<longleftrightarrow> occupied (move_file owner path st) k = Some j" for j k
      using move_file_inverse [OF old(1) free, of j k] by simp
    show "occupied (move_file owner path st) k \<noteq> None \<Longrightarrow> k \<in> set (path # reserved st)" for k
      using move_file_occupied [of owner path st k] old(8) by auto
    show "i \<notin> dp_file_id ` set puts \<Longrightarrow> ((positions st)(owner \<mapsto> path)) i = vault i" for i
      using old(9) nth_mem [OF assms(3)] assms(4) by auto
    show "replay puts (ordered st @ [\<lparr>pp_index = d, pp_path = path, pp_operation = operation\<rparr>]) vault =
        Some ((positions st)(owner \<mapsto> path))" by (rule run)
    show "e < length puts \<Longrightarrow> states st ! e = 2 \<Longrightarrow> ((positions st)(owner \<mapsto> path)) (dp_file_id (puts ! e)) = Some (dp_path (puts ! e))" for e
      using old(6) others [of e] assms(5) by (cases "e = d") simp_all
  qed (use old in simp_all)
qed

section \<open>The intermediate name\<close>

text \<open>The search ends when all but finitely many candidates are free or refused.\<close>

definition staging_taken :: "ws \<Rightarrow> (nat \<Rightarrow> string) \<Rightarrow> string list \<Rightarrow> nat set" where
  "staging_taken w candidate taken = {n. staging_free w taken (candidate n) = Inr False}"

lemma staging_free_fresh: "staging_free w taken path = Inr True \<Longrightarrow> path \<notin> set taken"
  by (auto simp: staging_free_def sync_path_key_def split: if_splits)

lemma check_components_error: "check_components cs = Inl e \<Longrightarrow> e = host_error_new ''UNSAFE_PATH''"
  by (induction cs arbitrary: e rule: check_components.induct) (auto simp: bindR_def split: if_splits sum.splits)

lemma staging_free_error: "staging_free w taken path \<noteq> Err ''PATH_CONFLICT''"
proof -
  have "resolve d p \<noteq> Err ''PATH_CONFLICT''" for d p
    using check_components_error [of "path_components p" "host_error_new ''PATH_CONFLICT''"]
    by (auto simp: resolve_def resolve_names_def bindR_def split: if_splits sum.splits)
  then have "resolve (ws_disk w) path \<noteq> Err ''PATH_CONFLICT''" .
  then show ?thesis by (cases "resolve (ws_disk w) path") (simp_all add: staging_free_def sync_path_key_def bindR_def)
qed

lemma staging_search_ends:
  assumes "finite (staging_taken w candidate taken)"
  shows "\<exists>r. staging_search w candidate taken n = Some r \<and>
    (\<forall>path m. r = Inr (path, m) \<longrightarrow> path \<notin> set taken) \<and> r \<noteq> Err ''PATH_CONFLICT''"
proof (induction "card (staging_taken w candidate taken \<inter> {n..})" arbitrary: n rule: less_induct)
  case less
  let ?T = "staging_taken w candidate taken"
  show ?case
  proof (cases "enabled (ws_db w) (candidate n) \<and> staging_free w taken (candidate n) = Inr False")
    case True
    then have "n \<in> ?T \<inter> {n..}" by (simp add: staging_taken_def)
    moreover have "?T \<inter> {Suc n..} = (?T \<inter> {n..}) - {n}" by auto
    ultimately have "card (?T \<inter> {Suc n..}) < card (?T \<inter> {n..})" using assms by (metis card_Diff1_less finite_Int)
    from less [OF this] show ?thesis using True by (simp add: staging_search.simps [of w candidate taken n])
  next
    case False
    then show ?thesis using staging_free_fresh [of w taken "candidate n"] staging_free_error [of w taken "candidate n"]
      by (cases "staging_free w taken (candidate n)")
         (auto simp: staging_search.simps [of w candidate taken n])
  qed
qed

lemma split_on_cut: "d \<notin> set b \<Longrightarrow> split_on d (a @ d # b) = split_on d a @ [b]"
  by (induction a) (auto simp: split_on_none split: list.splits)

definition staging_base :: "string \<Rightarrow> string \<Rightarrow> string" where
  "staging_base u extension = ''OpenNexus-sync-rename-'' @ u @ ''.'' @ extension"

lemma staging_base_facts: "staging_base u e = staging_base v e \<longleftrightarrow> u = v" "staging_base u e \<noteq> []" "staging_base u e \<noteq> ''.''"
  by (simp_all add: staging_base_def)

lemma slashed_same: "CHR 0x5C \<notin> set s \<Longrightarrow> map (\<lambda>c. if c = CHR 0x5C then CHR ''/'' else c) s = s"
  by (induction s) auto

lemma staging_name_plain:
  assumes "CHR 0x5C \<notin> set parent" "CHR 0x5C \<notin> set u" "CHR 0x5C \<notin> set extension"
  shows "staging_name parent u extension = (if parent = [] then [] else parent @ ''/'') @ staging_base u extension"
  unfolding staging_name_def staging_base_def by (rule slashed_same) (use assms in simp)

lemma staging_name_split:
  assumes "CHR ''/'' \<notin> set u" "CHR ''/'' \<notin> set extension"
  shows "\<exists>ps. split_on (CHR ''/'') ((if parent = [] then [] else parent @ ''/'') @ staging_base u extension) =
    ps @ [staging_base u extension]"
proof -
  have "CHR ''/'' \<notin> set (staging_base u extension)" using assms by (simp add: staging_base_def)
  then show ?thesis using split_on_cut [of "CHR ''/''" "staging_base u extension" parent]
    by (cases "parent = []") (simp_all add: split_on_none)
qed

lemma components_last:
  assumes "split_on (CHR ''/'') p = ps @ [b]" "b \<noteq> []" "b \<noteq> ''.''" "path_components p = map Normal ns"
  shows "ns \<noteq> [] \<and> last ns = b"
proof -
  have "\<exists>cs. path_components p = cs @ [component_of b]"
    using assms(1-3) by (cases ps) (auto simp: path_components_def)
  then obtain cs where "map Normal ns = cs @ [component_of b]" using assms(4) by auto
  then have ne: "ns \<noteq> []" and "last (map Normal ns) = component_of b" by auto
  then have "Normal (last ns) = component_of b" by (simp add: last_map)
  then show ?thesis using ne by (auto simp: component_of_def split: if_splits)
qed

lemma resolve_last:
  assumes "resolve d p = Inr t" "split_on (CHR ''/'') p = ps @ [b]" "b \<noteq> []" "b \<noteq> ''.''"
  shows "last (split_on (CHR ''/'') t) = b"
proof -
  obtain ns where ns: "resolve_names p = Inr ns" "t = slash_join ns" using assms(1) by (auto simp: resolve_Inr_iff)
  note r = resolve_names_Inr [OF ns(1)]
  have l: "ns \<noteq> [] \<and> last ns = b" using components_last [OF assms(2-4)] r by blast
  have "split_on (CHR ''/'') t = ns" unfolding ns(2) using l r by (intro split_join) auto
  then show ?thesis using l by simp
qed

text \<open>UUIDs: no two draws agree, and their text has no separator.\<close>

definition uuid_source :: "(nat \<Rightarrow> string) \<Rightarrow> bool" where
  "uuid_source uuid \<longleftrightarrow> inj uuid \<and> (\<forall>n. CHR ''/'' \<notin> set (uuid n) \<and> CHR 0x5C \<notin> set (uuid n))"

lemma path_extension_chars:
  assumes "path_extension p = Some e" shows "CHR ''/'' \<notin> set e \<and> set e \<subseteq> set p"
proof -
  obtain n where n: "file_name p = Some n" "name_extension n = Some e"
    using assms by (auto simp: path_extension_def split: option.splits)
  have "Normal n \<in> set (rev (path_components p))" using n(1) by (auto split: list.splits path_component.splits)
  then have "Normal n \<in> set (path_components p)" by simp
  then have "CHR ''/'' \<notin> set n" "set n \<subseteq> set p" using path_components_names [of n p] split_on_subset [of n _ p] by blast+
  moreover have "set e \<subseteq> set n" using name_extension_suffix [OF n(2)] by auto
  ultimately show ?thesis by blast
qed

lemma parent_path_chars:
  assumes "CHR 0x5C \<notin> set p" shows "CHR 0x5C \<notin> set (parent_path p)"
proof -
  have "set (parent_path p) \<subseteq> insert (CHR ''/'') (\<Union>x \<in> set (split_on (CHR ''/'') p). set x)"
    using set_join_with [of "CHR ''/''" "butlast (split_on (CHR ''/'') p)"]
    by (auto simp: parent_path_def dest: in_set_butlastD)
  then show ?thesis using split_on_subset [of _ "CHR ''/''" p] assms by fastforce
qed

lemma staging_taken_finite:
  assumes "uuid_source uuid" "CHR 0x5C \<notin> set p" "path_extension p = Some e"
  shows "finite (staging_taken w (\<lambda>k. staging_name (parent_path p) (uuid k) e) taken)"
proof -
  let ?c = "\<lambda>k. staging_name (parent_path p) (uuid k) e"
  have e: "CHR ''/'' \<notin> set e" "CHR 0x5C \<notin> set e" using path_extension_chars [OF assms(3)] assms(2) by auto
  have u: "CHR ''/'' \<notin> set (uuid k)" "CHR 0x5C \<notin> set (uuid k)" for k using assms(1) by (auto simp: uuid_source_def)
  have c: "?c k = (if parent_path p = [] then [] else parent_path p @ ''/'') @ staging_base (uuid k) e" for k
    by (rule staging_name_plain [OF parent_path_chars [OF assms(2)] u(2) e(2)])
  have cut: "\<exists>ps. split_on (CHR ''/'') (?c k) = ps @ [staging_base (uuid k) e]" for k
    unfolding c by (rule staging_name_split [OF u(1) e(1)])
  have key: "j = k" if "staging_base (uuid j) e = staging_base (uuid k) e" for j k
    using that assms(1) by (simp add: staging_base_facts uuid_source_def inj_eq)
  have names: "inj ?c"
  proof (rule injI)
    fix j k assume "?c j = ?c k"
    then have "staging_base (uuid j) e = staging_base (uuid k) e" unfolding c by simp
    then show "j = k" by (rule key)
  qed
  have one: "j = k" if "resolve d (?c j) = Inr t" "resolve d (?c k) = Inr t" for d t j k
  proof -
    have "last (split_on (CHR ''/'') t) = staging_base (uuid x) e" if "resolve d (?c x) = Inr t" for x
      using cut [of x] resolve_last [OF that] staging_base_facts(2,3) by blast
    then show ?thesis using that key by metis
  qed
  have disk: "finite (\<Union>t \<in> fst ` set (ws_disk w). {n. resolve (ws_disk w) (?c n) = Inr t})"
  proof (intro finite_UN_I)
    show "finite {n. resolve (ws_disk w) (?c n) = Inr t}" for t
    proof (cases "\<exists>k. resolve (ws_disk w) (?c k) = Inr t")
      case True
      then obtain k where "{n. resolve (ws_disk w) (?c n) = Inr t} \<subseteq> {k}" using one by blast
      then show ?thesis by (rule finite_subset) simp
    qed simp
  qed simp
  have "staging_taken w ?c taken \<subseteq> ?c -` (set taken \<union> ob_path ` set (outbox (ws_db w))) \<union>
      (\<Union>t \<in> fst ` set (ws_disk w). {n. resolve (ws_disk w) (?c n) = Inr t})"
    by (auto simp: staging_taken_def staging_free_def sync_path_key_def bindR_Inr_iff disk_exists_def bt_get_def list_ex_iff
        split: if_splits option.splits dest: map_of_SomeD) (force dest: map_of_SomeD)+
  then show ?thesis using disk names by (rule_tac finite_subset) (auto intro: finite_vimageI)
qed

lemma staging_path_ends:
  assumes "uuid_source uuid" "CHR 0x5C \<notin> set p"
  shows "\<exists>r. sync_rename_staging_path w uuid p taken n = Some r \<and>
    (\<forall>path m. r = Inr (path, m) \<longrightarrow> path \<notin> set taken) \<and> r \<noteq> Err ''PATH_CONFLICT''"
  using staging_search_ends [OF staging_taken_finite [OF assms]]
  by (cases "path_extension p") (simp_all add: sync_rename_staging_path_def)

section \<open>The search ends\<close>

text \<open>Marks: the stack holds exactly the puts being searched, the others are untouched or placed.\<close>

definition stack_inv :: "discovered_put list \<Rightarrow> plan_state \<Rightarrow> bool" where
  "stack_inv puts st \<longleftrightarrow>
     (\<forall>s \<in> set (stack st). s < length puts) \<and>
     (\<forall>d < length puts. states st ! d \<le> 2 \<and> (states st ! d = 1 \<longleftrightarrow> d \<in> set (stack st)))"

definition started :: "discovered_put list \<Rightarrow> plan_state \<Rightarrow> plan_state \<Rightarrow> bool" where
  "started puts st st' \<longleftrightarrow> (\<forall>d < length puts. states st ! d \<noteq> 0 \<longrightarrow> states st' ! d \<noteq> 0)"

definition mark_weight :: "nat \<Rightarrow> nat" where
  "mark_weight x = (if x = 0 then 2 else if x = 2 then 0 else 1)"

definition unplaced :: "nat list \<Rightarrow> nat" where
  "unplaced xs = sum_list (map mark_weight xs)"

definition plan_measure :: "discovered_put list \<Rightarrow> plan_state \<Rightarrow> nat" where
  "plan_measure puts st =
     2 * unplaced (states st) + (if stack st \<noteq> [] \<and> blocker puts st (hd (stack st)) \<noteq> None then 1 else 0)"

definition path_refused :: "discovered_put list \<Rightarrow> (string \<rightharpoonup> string) \<Rightarrow> bool" where
  "path_refused puts vault \<longleftrightarrow>
     (\<exists>p \<in> set puts. \<exists>i. i \<notin> dp_file_id ` set puts \<and> vault i = Some (dp_path p))"

definition puts_ok :: "discovered_put list \<Rightarrow> bool" where
  "puts_ok puts \<longleftrightarrow> distinct (map dp_file_id puts) \<and> distinct (map dp_path puts) \<and>
     (\<forall>p \<in> set puts. CHR 0x5C \<notin> set (dp_path p))"

lemma unplaced_update:
  "i < length xs \<Longrightarrow> unplaced (xs[i := v]) + mark_weight (xs ! i) = unplaced xs + mark_weight v"
  by (induction xs arbitrary: i) (fastforce simp: unplaced_def split: nat.splits)+

lemma paths_distinct:
  "puts_ok puts \<Longrightarrow> d < length puts \<Longrightarrow> e < length puts \<Longrightarrow> dp_path (puts ! d) = dp_path (puts ! e) \<longleftrightarrow> d = e"
  using nth_eq_iff_index_eq [of "map dp_path puts" d e] by (simp add: puts_ok_def)

text \<open>What an iteration promises: it keeps the invariants, marks more puts and comes closer to the end.\<close>

definition step_done :: "discovered_put list \<Rightarrow> (string \<rightharpoonup> string) \<Rightarrow> plan_state \<Rightarrow> plan_state \<Rightarrow> bool" where
  "step_done puts vault st st' \<longleftrightarrow>
     plan_inv puts vault st' \<and> stack_inv puts st' \<and> started puts st st' \<and> plan_measure puts st' < plan_measure puts st"

lemma place_done:
  assumes "plan_inv puts vault st" "stack_inv puts st" "puts_ok puts" "stack st = index # rest" "blocker puts st index = None"
  shows "step_done puts vault st (place_put puts index st)"
proof -
  have n: "index < length puts" "length (states st) = length puts" "distinct (index # rest)" "states st ! index = 1"
    using assms(1,4) by (auto simp: plan_inv_def)
  have new: "states (place_put puts index st) = (states st)[index := 2]" "stack (place_put puts index st) = rest"
    by (simp_all add: place_put_def Let_def assms(4))
  have "plan_inv puts vault (place_put puts index st)"
    using place_inv [OF assms(1) _ assms(4,5)] assms(3) by (simp add: puts_ok_def)
  moreover have "stack_inv puts (place_put puts index st)"
    using assms(2) n by (auto simp: stack_inv_def new assms(4) nth_list_update)
  moreover have "started puts st (place_put puts index st)" using n by (auto simp: started_def new nth_list_update)
  moreover have "plan_measure puts (place_put puts index st) < plan_measure puts st"
    using unplaced_update [of index "states st" 2] n by (simp add: plan_measure_def new mark_weight_def)
  ultimately show ?thesis by (simp add: step_done_def)
qed

lemma push_done:
  assumes "plan_inv puts vault st" "stack_inv puts st" "d < length puts" "states st ! d = 0"
  shows "step_done puts vault st (st\<lparr>states := (states st)[d := 1], stack := d # stack st\<rparr>)" (is "step_done _ _ _ ?s")
proof -
  have n: "length (states st) = length puts" using assms(1) by (auto simp: plan_inv_def)
  have "stack_inv puts ?s" using assms(2-4) n by (auto simp: stack_inv_def nth_list_update)
  moreover have "started puts st ?s" using n assms(3) by (simp add: started_def nth_list_update del: One_nat_def)
  moreover have "plan_measure puts ?s < plan_measure puts st"
    using unplaced_update [of d "states st" 1] n assms(3,4) by (simp add: plan_measure_def mark_weight_def)
  ultimately show ?thesis using push_inv [OF assms(1,3,4)] by (simp add: step_done_def)
qed

lemma stage_done:
  assumes "plan_inv puts vault st" "stack_inv puts st" "puts_ok puts" "stack st = index # rest" "blocker puts st index = Some owner"
    and "index_of puts owner = Some d" "states st ! d \<noteq> 2" "path \<notin> set (reserved st)"
  shows "step_done puts vault st (stage_put d owner path operation m st)" (is "step_done _ _ _ ?s")
proof -
  let ?t = "dp_path (puts ! index)"
  have new: "states ?s = states st" "stack ?s = stack st" "occupied ?s = occupied (move_file owner path st)"
    by (simp_all add: stage_put_def Let_def)
  have "index < length puts" "\<forall>d < length puts. dp_path (puts ! d) \<in> set (reserved st)"
    and inverse: "\<forall>i k. positions st i = Some k \<longleftrightarrow> occupied st k = Some i"
    using assms(1,4) by (auto simp: plan_inv_def)
  then have "path \<noteq> ?t" using assms(8) by blast
  moreover have "occupied st ?t = Some owner" using assms(5) by (auto simp: blocker_def split: option.splits if_splits)
  then have "positions st owner = Some ?t" using inverse by blast
  ultimately have "occupied ?s ?t = None" unfolding new by (simp add: move_file_def)
  then have "plan_measure puts ?s < plan_measure puts st"
    using assms(5) by (simp add: plan_measure_def new assms(4) blocker_def)
  moreover have "plan_inv puts vault ?s"
    using stage_inv [OF assms(1), of d owner path operation m] index_of_Some [OF assms(6)] assms(3,7,8) by (simp add: puts_ok_def)
  moreover have "stack_inv puts ?s" "started puts st ?s" using assms(2) by (auto simp: stack_inv_def started_def new)
  ultimately show ?thesis by (simp add: step_done_def)
qed

lemma blocked_by_placed:
  assumes "plan_inv puts vault st" "puts_ok puts" "stack st = index # rest" "blocker puts st index = Some owner" "index_of puts owner = Some d"
  shows "states st ! d \<noteq> 2"
proof
  assume two: "states st ! d = 2"
  have d: "d < length puts" "dp_file_id (puts ! d) = owner" using index_of_Some [OF assms(5)] by auto
  have o: "occupied st (dp_path (puts ! index)) = Some owner" "owner \<noteq> dp_file_id (puts ! index)"
    using assms(4) by (auto simp: blocker_def split: option.splits if_splits)
  have "positions st owner = Some (dp_path (puts ! d))" "positions st owner = Some (dp_path (puts ! index))" "index < length puts"
    using assms(1,3) d two o(1) unfolding plan_inv_def by auto
  then have "d = index" using paths_distinct [OF assms(2) d(1), of index] by simp
  then show False using d(2) o(2) by simp
qed

lemma blocked_by_unmoved:
  assumes "plan_inv puts vault st" "stack st = index # rest" "blocker puts st index = Some owner" "index_of puts owner = None"
  shows "path_refused puts vault"
proof -
  have "occupied st (dp_path (puts ! index)) = Some owner" using assms(3) by (auto simp: blocker_def split: option.splits if_splits)
  then have "positions st owner = Some (dp_path (puts ! index))" "index < length puts"
    using assms(1,2) unfolding plan_inv_def by auto
  moreover have "owner \<notin> dp_file_id ` set puts" by (rule index_of_None [OF assms(4)])
  ultimately show ?thesis using assms(1) unfolding path_refused_def plan_inv_def by (metis nth_mem)
qed

lemma plan_step_ends:
  assumes "plan_inv puts vault st" "stack_inv puts st" "puts_ok puts" "uuid_source uuid" "stack st = index # rest"
  shows "\<exists>r. plan_step w uuid puts index st = Some r \<and> (\<forall>st'. r = Inr st' \<longrightarrow> step_done puts vault st st') \<and>
    (r = Err ''PATH_CONFLICT'' \<longrightarrow> path_refused puts vault)"
proof (cases "blocker puts st index")
  case None
  then show ?thesis using place_done [OF assms(1-3,5) None] by (simp add: plan_step_def)
next
  case (Some owner)
  show ?thesis
  proof (cases "index_of puts owner")
    case None
    then show ?thesis using blocked_by_unmoved [OF assms(1,5) Some None] by (simp add: plan_step_def Some)
  next
    case (Some d)
    note b = \<open>blocker puts st index = Some owner\<close>
    have d: "d < length puts" using index_of_Some [OF Some] by simp
    have two: "states st ! d \<noteq> 2" by (rule blocked_by_placed [OF assms(1,3,5) b Some])
    show ?thesis
    proof (cases "states st ! d = 0")
      case True
      then show ?thesis using push_done [OF assms(1,2) d] by (simp add: plan_step_def b Some)
    next
      case False
      have plain: "CHR 0x5C \<notin> set (dp_path (puts ! d))" using assms(3) d by (simp add: puts_ok_def)
      obtain r where r: "sync_rename_staging_path w uuid (dp_path (puts ! d)) (reserved st) (next_uuid st) = Some r"
          "\<forall>path m. r = Inr (path, m) \<longrightarrow> path \<notin> set (reserved st)" "r \<noteq> Err ''PATH_CONFLICT''"
        using staging_path_ends [OF assms(4) plain] by metis
      show ?thesis
      proof (cases r)
        case (Inl e)
        then show ?thesis using r two False by (simp add: plan_step_def b Some)
      next
        case (Inr x)
        obtain path m where x: "x = (path, m)" by (cases x)
        have "step_done puts vault st (stage_put d owner path (uuid m) (Suc m) st)"
          by (rule stage_done [OF assms(1-3,5) b Some two]) (use r(2) Inr x in blast)
        then show ?thesis using r(1) two False Inr by (simp add: plan_step_def b Some x)
      qed
    qed
  qed
qed

text \<open>A finished search: the invariants hold, and no put is left on the stack.\<close>

definition search_done :: "discovered_put list \<Rightarrow> (string \<rightharpoonup> string) \<Rightarrow> plan_state \<Rightarrow> plan_state \<Rightarrow> bool" where
  "search_done puts vault st st' \<longleftrightarrow> plan_inv puts vault st' \<and> stack_inv puts st' \<and> started puts st st' \<and> stack st' = []"

lemma started_trans: "started puts a b \<Longrightarrow> started puts b c \<Longrightarrow> started puts a c"
  by (simp add: started_def)

lemma plan_loop_ends:
  assumes "plan_inv puts vault st" "stack_inv puts st" "puts_ok puts" "uuid_source uuid"
  shows "\<exists>r. plan_loop w uuid puts st = Some r \<and> (\<forall>st'. r = Inr st' \<longrightarrow> search_done puts vault st st') \<and>
    (r = Err ''PATH_CONFLICT'' \<longrightarrow> path_refused puts vault)"
  using assms(1,2)
proof (induction "plan_measure puts st" arbitrary: st rule: less_induct)
  case less
  show ?case
  proof (cases "stack st")
    case Nil
    then show ?thesis using less.prems
      by (simp add: plan_loop.simps [of w uuid puts st] search_done_def started_def)
  next
    case (Cons index rest)
    obtain r where r: "plan_step w uuid puts index st = Some r" "\<forall>st'. r = Inr st' \<longrightarrow> step_done puts vault st st'"
        "r = Err ''PATH_CONFLICT'' \<longrightarrow> path_refused puts vault"
      using plan_step_ends [OF less.prems assms(3,4) Cons] by blast
    show ?thesis
    proof (cases r)
      case (Inl e)
      then show ?thesis using r(1,3) by (simp add: plan_loop.simps [of w uuid puts st] Cons)
    next
      case (Inr st')
      then have step: "plan_inv puts vault st'" "stack_inv puts st'" "started puts st st'" "plan_measure puts st' < plan_measure puts st"
        using r(2) by (simp_all add: step_done_def)
      have "plan_loop w uuid puts st = plan_loop w uuid puts st'"
        using r(1) Inr by (simp add: plan_loop.simps [of w uuid puts st] Cons)
      then show ?thesis
        using less.hyps [OF step(4,1,2)] started_trans [OF step(3)] by (auto simp: search_done_def)
    qed
  qed
qed

lemma plan_starts_ends:
  assumes "puts_ok puts" "uuid_source uuid"
  shows "plan_inv puts vault st \<Longrightarrow> stack_inv puts st \<Longrightarrow> stack st = [] \<Longrightarrow> \<forall>s \<in> set starts. s < length puts \<Longrightarrow>
    \<exists>r. plan_starts w uuid puts starts st = Some r \<and>
      (\<forall>st'. r = Inr st' \<longrightarrow> search_done puts vault st st' \<and> (\<forall>s \<in> set starts. states st' ! s \<noteq> 0)) \<and>
      (r = Err ''PATH_CONFLICT'' \<longrightarrow> path_refused puts vault)"
proof (induction starts arbitrary: st)
  case Nil
  then show ?case by (simp add: search_done_def started_def)
next
  case (Cons s starts)
  let ?st = "st\<lparr>states := (states st)[s := 1], stack := [s]\<rparr>"
  have s: "s < length puts" "\<forall>x \<in> set starts. x < length puts" and len: "length (states st) = length puts"
    using Cons.prems by (simp_all add: plan_inv_def)
  show ?case
  proof (cases "states st ! s = 2")
    case True
    obtain r where r: "plan_starts w uuid puts starts st = Some r" "\<forall>st'. r = Inr st' \<longrightarrow> search_done puts vault st st' \<and> (\<forall>s \<in> set starts. states st' ! s \<noteq> 0)"
        "r = Err ''PATH_CONFLICT'' \<longrightarrow> path_refused puts vault"
      using Cons.IH [OF Cons.prems(1-3) s(2)] by blast
    have "states st' ! s \<noteq> 0" if "r = Inr st'" for st'
      using r(2) that s(1) True by (simp add: search_done_def started_def)
    then show ?thesis using r True by auto
  next
    case False
    have zero: "states st ! s = 0" using False Cons.prems(2,3) s(1) unfolding stack_inv_def
      by (metis One_nat_def Suc_1 le_SucE le_zero_eq list.set(1) empty_iff)
    have inv: "plan_inv puts vault ?st" "stack_inv puts ?st" "started puts st ?st"
      using push_inv [OF Cons.prems(1) s(1) zero] push_done [OF Cons.prems(1,2) s(1) zero]
      by (simp_all add: Cons.prems(3) step_done_def)
    obtain r where r: "plan_loop w uuid puts ?st = Some r" "\<forall>st'. r = Inr st' \<longrightarrow> search_done puts vault ?st st'"
        "r = Err ''PATH_CONFLICT'' \<longrightarrow> path_refused puts vault"
      using plan_loop_ends [OF inv(1,2) assms] by blast
    show ?thesis
    proof (cases r)
      case (Inl e)
      then show ?thesis using r(1,3) False by simp
    next
      case (Inr st1)
      then have d: "plan_inv puts vault st1" "stack_inv puts st1" "started puts ?st st1" "stack st1 = []"
        using r(2) by (simp_all add: search_done_def)
      obtain q where q: "plan_starts w uuid puts starts st1 = Some q" "\<forall>st'. q = Inr st' \<longrightarrow> search_done puts vault st1 st' \<and> (\<forall>s \<in> set starts. states st' ! s \<noteq> 0)"
          "q = Err ''PATH_CONFLICT'' \<longrightarrow> path_refused puts vault"
        using Cons.IH [OF d(1,2,4) s(2)] by blast
      have one: "states st1 ! s \<noteq> 0" using d(3) s(1) len by (simp add: started_def)
      have all: "search_done puts vault st st' \<and> (\<forall>x \<in> set (s # starts). states st' ! x \<noteq> 0)" if "q = Inr st'" for st'
      proof -
        have e: "search_done puts vault st1 st'" "\<forall>x \<in> set starts. states st' ! x \<noteq> 0" using q(2) that by blast+
        then have later: "started puts st1 st'" by (simp add: search_done_def)
        then have "states st' ! s \<noteq> 0" using s(1) one by (simp add: started_def)
        then show ?thesis using e started_trans [OF started_trans [OF inv(3) d(3)] later] by (simp add: search_done_def)
      qed
      have "plan_starts w uuid puts (s # starts) st = Some q" using q(1) r(1) False Inr by simp
      then show ?thesis using all q(3) by blast
    qed
  qed
qed

section \<open>The plan as a whole\<close>

abbreviation put_targets :: "discovered_put list \<Rightarrow> (string \<times> string) list" where
  "put_targets puts \<equiv> map (\<lambda>p. (dp_file_id p, dp_path p)) puts"

lemma distinct_swap: "distinct (map snd xs) \<Longrightarrow> distinct (map fst (map (\<lambda>(i, k). (k, i)) xs))"
  by (simp add: comp_def split_def)

lemma map_of_swap:
  "distinct (map fst xs) \<Longrightarrow> distinct (map snd xs) \<Longrightarrow>
     map_of xs i = Some k \<longleftrightarrow> map_of (map (\<lambda>(i, k). (k, i)) xs) k = Some i"
proof -
  assume d: "distinct (map fst xs)" "distinct (map snd xs)"
  from distinct_swap [OF d(2)] have "map_of (map (\<lambda>(i, k). (k, i)) xs) k = Some i \<longleftrightarrow> (i, k) \<in> set xs" by (auto simp: map_of_eq_Some_iff)
  then show ?thesis using d(1) by (simp add: map_of_eq_Some_iff)
qed

lemma map_of_rev: "distinct (map fst xs) \<Longrightarrow> map_of (rev xs) = map_of xs"
  by (rule ext, rule option.expand) (auto simp: map_of_eq_None_iff map_of_eq_Some_iff rev_map [symmetric])

lemma plan_start_inv:
  assumes "distinct (map fst previous)" "distinct (map snd previous)"
  shows "plan_inv puts (map_of (kept_positions previous deletions)) (plan_start previous deletions puts) \<and>
    stack_inv puts (plan_start previous deletions puts)"
proof -
  let ?kept = "kept_positions previous deletions"
  have d: "distinct (map fst ?kept)" "distinct (map snd ?kept)"
    using assms by (simp_all add: kept_positions_def distinct_map_filter)
  have occ: "map_of (rev (map (\<lambda>(i, k). (k, i)) ?kept)) = map_of (map (\<lambda>(i, k). (k, i)) ?kept)"
    by (rule map_of_rev [OF distinct_swap [OF d(2)]])
  have "map_of (map (\<lambda>(i, k). (k, i)) ?kept) k \<noteq> None \<Longrightarrow> k \<in> snd ` set ?kept" for k
    by (force dest: map_of_SomeD)
  then show ?thesis
    using map_of_swap [OF d]
    by (auto simp: plan_inv_def stack_inv_def plan_start_def Let_def map_of_rev [OF d(1)] occ)
qed

lemma placed_all:
  assumes "search_done puts vault st st'" "\<forall>d < length puts. states st' ! d \<noteq> 0" "puts_ok puts"
  shows "replay puts (ordered st') vault = Some (vault ++ map_of (put_targets puts))"
proof -
  have two: "states st' ! d = 2" if "d < length puts" for d
    using assms(1,2) that unfolding search_done_def stack_inv_def
    by (metis One_nat_def Suc_1 le_SucE le_zero_eq list.set(1) empty_iff)
  have inv: "plan_inv puts vault st'" using assms(1) by (simp add: search_done_def)
  have "positions st' = vault ++ map_of (put_targets puts)"
  proof
    fix i
    show "positions st' i = (vault ++ map_of (put_targets puts)) i"
    proof (cases "i \<in> dp_file_id ` set puts")
      case True
      then obtain d where d: "d < length puts" "i = dp_file_id (puts ! d)" by (auto simp: in_set_conv_nth)
      have dist: "distinct (map fst (put_targets puts))" using assms(3) by (simp add: puts_ok_def comp_def)
      have "(i, dp_path (puts ! d)) \<in> set (put_targets puts)" using d by auto
      then have "map_of (put_targets puts) i = Some (dp_path (puts ! d))" using dist by (rule map_of_is_SomeI [rotated])
      moreover have "positions st' i = Some (dp_path (puts ! d))" using inv two [OF d(1)] d unfolding plan_inv_def by blast
      ultimately show ?thesis by (simp add: map_add_def)
    next
      case False
      then have "map_of (put_targets puts) i = None" by (simp add: map_of_eq_None_iff image_image)
      moreover have "positions st' i = vault i" using inv False unfolding plan_inv_def by blast
      ultimately show ?thesis by (simp add: map_add_def)
    qed
  qed
  then show ?thesis using inv by (simp add: plan_inv_def)
qed

lemma order_discovered_ends:
  assumes "puts_ok puts" "uuid_source uuid" "distinct (map fst previous)" "distinct (map snd previous)"
  shows "\<exists>r. order_discovered_puts w uuid previous deletions puts = Some r \<and>
    (\<forall>plan. r = Inr plan \<longrightarrow> replay puts plan (map_of (kept_positions previous deletions)) =
       Some (map_of (kept_positions previous deletions) ++ map_of (put_targets puts))) \<and>
    (r = Err ''PATH_CONFLICT'' \<longrightarrow> path_refused puts (map_of (kept_positions previous deletions)))"
proof (cases "puts = []")
  case True
  then show ?thesis by (simp add: order_discovered_puts_def)
next
  case False
  let ?v = "map_of (kept_positions previous deletions)" and ?s = "plan_start previous deletions puts"
  have start: "plan_inv puts ?v ?s" "stack_inv puts ?s" "stack ?s = []"
    using plan_start_inv [OF assms(3,4)] by (simp_all add: plan_start_def Let_def)
  obtain r where r: "plan_starts w uuid puts [0..<length puts] ?s = Some r"
      "\<forall>st'. r = Inr st' \<longrightarrow> search_done puts ?v ?s st' \<and> (\<forall>s \<in> set [0..<length puts]. states st' ! s \<noteq> 0)"
      "r = Err ''PATH_CONFLICT'' \<longrightarrow> path_refused puts ?v"
    using plan_starts_ends [OF assms(1,2) start, of "[0..<length puts]" w] by auto
  have "replay puts (ordered st') ?v = Some (?v ++ map_of (put_targets puts))" if "r = Inr st'" for st'
    using r(2) that placed_all [OF _ _ assms(1), of ?v ?s st'] by simp
  then show ?thesis using r(1,3) False by (cases r) (simp_all add: order_discovered_puts_def bindR_def)
qed

text \<open>
  C28. Planning the puts for discovered renames always comes to an end, whatever files exchanged
  their paths, as long as no two UUIDs agree: the search for a free intermediate name and the
  walk along the files that wait for each other both terminate. It gives up with a path conflict
  only when some new path is still held by a file that was not moved.
\<close>

theorem discovery_plan_returns:
  assumes "puts_ok puts" "uuid_source uuid" "distinct (map fst previous)" "distinct (map snd previous)"
  shows "\<exists>r. order_discovered_puts w uuid previous deletions puts = Some r \<and>
    (r = Err ''PATH_CONFLICT'' \<longrightarrow> path_refused puts (map_of (kept_positions previous deletions)))"
  using order_discovered_ends [OF assms] by blast

text \<open>
  C27. The planned puts refine one simultaneous rename: replayed on a vault that holds the previous
  files without the deleted ones, and that refuses a put onto a path another file holds, every
  put is accepted, and in the end each discovered file is at its new path and every other file
  where it was. Intermediate names leave no trace.
\<close>

theorem discovery_plan_refines_rename:
  assumes "puts_ok puts" "uuid_source uuid" "distinct (map fst previous)" "distinct (map snd previous)"
    and "order_discovered_puts w uuid previous deletions puts = Some (Inr plan)"
  shows "replay puts plan (map_of (kept_positions previous deletions)) =
    Some (map_of (kept_positions previous deletions) ++ map_of (put_targets puts))"
  using order_discovered_ends [OF assms(1-4), of w deletions] assms(5) by auto

definition demo_swap :: "discovered_put list" where
  "demo_swap = [\<lparr>dp_file_id = ''f1'', dp_path = ''b.md'', dp_digest = ''d1'', dp_operation = ''o1''\<rparr>,
     \<lparr>dp_file_id = ''f2'', dp_path = ''a.md'', dp_digest = ''d2'', dp_operation = ''o2''\<rparr>]"

definition demo_uuid :: "nat \<Rightarrow> string" where
  "demo_uuid n = replicate n (CHR ''a'')"

lemma demo_uuid_source: "uuid_source demo_uuid"
  by (auto simp: uuid_source_def demo_uuid_def inj_def dest: arg_cong [where f = length])

lemma demo_swap_ok: "puts_ok demo_swap"
  by (simp add: puts_ok_def demo_swap_def)

definition demo_swapped :: "(string \<times> string) list" where
  "demo_swapped = [(''f1'', ''a.md''), (''f2'', ''b.md''), (''f3'', ''c.md'')]"

lemma demo_staging_parts:
  "path_extension ''b.md'' = Some ''md''" "parent_path ''b.md'' = []"
  "staging_name [] (demo_uuid 0) ''md'' = ''OpenNexus-sync-rename-.md''"
  "sync_path_enabled None ''OpenNexus-sync-rename-.md''"
  "resolve_names ''OpenNexus-sync-rename-.md'' = Inr [''OpenNexus-sync-rename-.md'']"
  by (simp_all add: path_extension_def path_components_def component_of_def name_extension_def parent_path_def staging_name_def
      demo_uuid_def sync_path_enabled_def sync_allowed_def is_record_def starts_with_def skipped_part_def ascii_defs ext_is_def
      scope_includes_def resolve_names_def unsafe_component_def utf8_tail_def byte_in_def char_is_control_def reserved_stem_def first_part_def)

lemma demo_staging:
  "sync_rename_staging_path demo_bound demo_uuid ''b.md'' [''a.md'', ''b.md'', ''c.md'', ''b.md'', ''a.md''] 0 =
     Some (Inr (''OpenNexus-sync-rename-.md'', 1))"
proof -
  have "ws_disk demo_bound = []" "list_ex (\<lambda>r. ob_path r = ''OpenNexus-sync-rename-.md'' \<and> P r) (outbox (ws_db demo_bound)) = False" for P
    by (simp_all add: demo_bound_def)
  then have "staging_free demo_bound [''a.md'', ''b.md'', ''c.md'', ''b.md'', ''a.md''] ''OpenNexus-sync-rename-.md'' = Inr True"
    by (simp add: staging_free_def sync_path_key_def resolve_def demo_staging_parts name_prefixes_def disk_exists_def)
  then show ?thesis
    by (simp add: sync_rename_staging_path_def staging_search.simps demo_staging_parts demo_bound_binding)
qed

lemma demo_swap_plan:
  "order_discovered_puts demo_bound demo_uuid demo_swapped [] demo_swap =
     Some (Inr [\<lparr>pp_index = 0, pp_path = ''OpenNexus-sync-rename-.md'', pp_operation = ''a''\<rparr>,
       \<lparr>pp_index = 1, pp_path = ''a.md'', pp_operation = ''o2''\<rparr>, \<lparr>pp_index = 0, pp_path = ''b.md'', pp_operation = ''o1''\<rparr>])"
  using demo_staging
  by (simp add: order_discovered_puts_def demo_swapped_def demo_swap_def plan_start_def kept_positions_def Let_def upt_rec
      plan_loop.simps plan_step_def blocker_def index_of_def place_put_def stage_put_def move_file_def demo_uuid_def)

theorem discovery_plan_returns_witness:
  "\<exists>r. order_discovered_puts demo_bound demo_uuid demo_swapped [] demo_swap = Some r \<and> r \<noteq> Err ''PATH_CONFLICT''"
proof -
  have "\<not> path_refused demo_swap (map_of (kept_positions demo_swapped []))"
    by (auto simp: path_refused_def demo_swap_def kept_positions_def demo_swapped_def split: if_splits)
  then show ?thesis using discovery_plan_returns [OF demo_swap_ok demo_uuid_source, of demo_swapped demo_bound "[]"]
    by (auto simp: demo_swapped_def)
qed

theorem discovery_plan_refines_rename_witness:
  "replay demo_swap [\<lparr>pp_index = 0, pp_path = ''OpenNexus-sync-rename-.md'', pp_operation = ''a''\<rparr>,
       \<lparr>pp_index = 1, pp_path = ''a.md'', pp_operation = ''o2''\<rparr>, \<lparr>pp_index = 0, pp_path = ''b.md'', pp_operation = ''o1''\<rparr>]
     (map_of demo_swapped) = Some (map_of [(''f1'', ''b.md''), (''f2'', ''a.md''), (''f3'', ''c.md'')])"
proof -
  have "map_of (kept_positions demo_swapped []) = map_of demo_swapped" by (simp add: kept_positions_def)
  moreover have "map_of demo_swapped ++ map_of (put_targets demo_swap) = map_of [(''f1'', ''b.md''), (''f2'', ''a.md''), (''f3'', ''c.md'')]"
    by (rule ext) (simp add: demo_swapped_def demo_swap_def map_add_def)
  ultimately show ?thesis
    using discovery_plan_refines_rename [OF demo_swap_ok demo_uuid_source _ _ demo_swap_plan] by (simp add: demo_swapped_def)
qed

end
