(* ===== verification/Spec2Isabelle.thy ===== *)
theory Spec2Isabelle
  imports Extension_Transaction Extension_Launch Host_Requests Core_Update Extension_Frames Extension_Dependencies Experiment_Lifecycle Sync_Inbox Sync_Discovery
begin

text \<open>
  Verification of the OpenNexus desktop host, the Rust program under
  \<open>src/frontend/src-tauri/src/\<close>. The host owns what the renderer and the Python core may not decide:
  the notes of a vault and their synchronisation, the packages of extensions, the core release that
  runs, the records of experiments, and the credentials. Each of these is a component with a SQLite
  database or a file of its own, and each journals what it does before it does it, so the properties
  are mostly about histories: which states are reachable, what recovery does after a stop at any
  point, and what is never lost or accepted.

  \<^bold>\<open>Parts and how they meet.\<close>
  Renderer and core send requests (\<open>request_lifecycle.rs\<close>). A write of a note checks the path, stores
  the payload, journals the operation and replaces the file (\<open>workspace.rs\<close>, \<open>payloads.rs\<close>). Received
  revisions (\<open>sync_inbox.rs\<close>) and imported experiment outputs (\<open>experiment_import.rs\<close>) use the same
  write path; its outbox feeds the upload queue (\<open>sync_state.rs\<close>), whose acknowledgements move the
  heads that the inbox compares with. An extension package is inspected (\<open>extension_package.rs\<close>),
  ordered with its dependencies (\<open>extension_dependencies.rs\<close>), published by switching pointers
  (\<open>extension_transaction.rs\<close>), and started under a permit whose environment is filled from the
  credential broker (\<open>extension_permit.rs\<close>, \<open>extension_launch_authorization.rs\<close>, \<open>credentials.rs\<close>).

  \<^bold>\<open>Theories and sources.\<close>
  \<^item> \<open>Host_Prelude\<close>: errors as values (\<open>result\<close>), operations that thread a state (\<open>host_op\<close>), tables as
    lists of rows in rowid order, JSON values, ASCII classes; the interfaces \<open>invariant_component\<close> (an
    invariant kept by every event holds in every history), \<open>operation_ledger\<close> (a recorded operation
    identifier is answered from its receipt, and refused with another fingerprint) and \<open>keyed_store\<close>.
  \<^item> \<open>Host_Text\<close>, \<open>BTree_Map\<close>: characters, file names and finite floats of the standard library;
    \<open>BTreeMap\<close> as a sorted association list, with the interface \<open>ordered_map\<close>.
  \<^item> \<open>Extension_Transaction\<close>: \<open>extension_transaction.rs\<close> (\<open>switch\<close>, \<open>finish\<close>, \<open>recover\<close>, \<open>uninstall\<close> and
    the readers). State: the four tables of the store. C1 to C6.
  \<^item> \<open>Core_Update\<close>: \<open>core_update.rs\<close> and \<open>verify_bundle\<close> of \<open>core.rs\<close>. State: the release tables, the
    pointer file and the tree of a bundle. C7 to C11.
  \<^item> \<open>Extension_Package\<close>, \<open>Extension_Dependencies\<close>, \<open>Extension_Frames\<close>: \<open>extension_package.rs\<close>,
    \<open>extension_dependencies.rs\<close>, and the framing of \<open>extension_stdio.rs\<close>. C12 to C16.
  \<^item> \<open>Extension_Launch_Data\<close>, \<open>Extension_Launch\<close>: \<open>extension_launch_data.rs\<close>, \<open>extension_permit.rs\<close>,
    \<open>extension_launch_authorization.rs\<close>, the identity of \<open>extension_call_authorization.rs\<close>. The command
    line and the environment block are read back by the documented rules of the C runtime and of
    Windows; no permit survives a revocation, and a start has the values of the scope of its package.
  \<^item> \<open>Credentials\<close>: \<open>credentials.rs\<close>. State: the vault file, the session and its epochs. In every
    history the session agrees with the file; what is put is resolved, also after a new unlock.
  \<^item> \<open>Host_Requests\<close>: \<open>request_lifecycle.rs\<close>. A request runs at most once and never after its
    cancellation or deadline; a bounded number is held.
  \<^item> \<open>Experiment_Contracts\<close>, \<open>Experiment_Store\<close>, \<open>Experiment_Lifecycle\<close>: \<open>experiment_policy.rs\<close>,
    \<open>experiment_input.rs\<close>, \<open>experiment_outputs.rs\<close>, \<open>experiment_log.rs\<close>, \<open>experiment_store.rs\<close>, the
    preparation of \<open>experiment_runner.rs\<close> and the plan of \<open>experiment_import.rs\<close>. C17 to C20, C38 to C40.
  \<^item> \<open>Path_Policy\<close>, \<open>Content_Contracts\<close>: the lexical part of \<open>Workspace::resolve\<close>,
    \<open>experiment_contract.rs\<close>, \<open>records.rs\<close>, \<open>sync_scope.rs\<close>, \<open>canvas_contract.rs\<close>,
    \<open>preference_records.rs\<close>. C33 to C35.
  \<^item> \<open>Workspace_State\<close>, \<open>Payloads\<close>, \<open>Import_Records\<close>, \<open>Workspace_Store\<close>: the tables and files of a vault,
    \<open>payloads.rs\<close>, the stored imports of \<open>experiment_import.rs\<close>, and the write path of \<open>workspace.rs\<close>
    with \<open>recover\<close>. \<open>Workspace_Safety\<close>, \<open>Workspace_Recovery\<close> and \<open>Workspace_Frame\<close> hold what that path
    never destroys, what it completes, and which tables it leaves alone. C21 to C23, C36, C37.
  \<^item> \<open>Sync_Queue\<close>, \<open>Sync_Inbox\<close>, \<open>Sync_Discovery\<close>: \<open>sync_state.rs\<close>, \<open>sync_inbox.rs\<close> and the planning of
    renames in \<open>sync_discovery.rs\<close>. C24 to C32.

  \<^bold>\<open>Groups of lemmas.\<close>
  Each component theory first has its data and operations in the order of the source, then the facts of
  single operations, then an invariant over a datatype of events with one step function, and last the
  properties with their witnesses on concrete inputs. Failures are part of the steps: an operation
  on disk takes an environment that decides at which labelled steps it fails, and the statements
  hold for every such environment.
\<close>

text \<open>
  \<^bold>\<open>Parameters.\<close>
  Code outside the repository is an argument of the definitions that use it: SHA-256, Ed25519, HMAC,
  Argon2 and the AEAD, JSON text, URLs, semantic versions, UUIDs, the decompressor, Unicode tables,
  the Stronghold snapshot, and the clock, the entropy, the disk and the failures of one call. Laws about
  them are premises of the statements that need them: that a decoder reverses its encoder, that an
  encryption can be undone with the same key, or that a digest tells the contents at hand apart.
  \<^item> Decoding an encoded target of the extension store gives the target back (C2 to C4). For texts of
    floating point numbers this is an idealisation, since \<open>serde_json\<close> is built without
    \<open>float_roundtrip\<close>. C1 needs it only for the plain values that have no such number, and says so.
  \<^item> The canonical path of a bundle is rendered by \<open>to_string_lossy\<close>: exact for well-formed UTF-8 (C7).
  \<^item> Machine integers: \<open>usize\<close> has 64 bits; budgets and epochs are words of their width; sequence
    numbers of the inbox stay below the largest 64-bit integer.
  \<^item> Two paths name the same file only when they are equal, so the branches for systems that ignore
    case reduce to equal paths; names below a vault hold no backslash in the queue. The bundle check (C8)
    allows every name a Unix system does.
  \<^item> UUIDs that the planner of renames draws do not repeat a name that is in use.

  \<^bold>\<open>Bounds and fuel.\<close>
  The dependency search has the source's own budget of 10000 calls, and every call takes one, so the
  same number as fuel is never exhausted before the budget. The order of the chosen packages nests at
  most as deep as there are packages; with fuel for two more it always ends (\<open>dep_order_ends\<close>). The
  planner of renames is a partial function and C28 shows that it returns, by a measure. The loops of the
  capture, of recovery and of the readers of archives recurse over the rows or bytes they consume; the
  copy loop (C36) over the bytes that are left.

  \<^bold>\<open>Not modelled.\<close>
  Calls of the operating system that isolate extensions and experiments (containers, jobs, handles,
  pipes), the worker threads that run them and the cleanup they leave behind; transport, sign-in and TLS;
  the decisions of the user on conflicts, the first download and the retry bounds of the
  synchronisation; the unpacking and activation of packages on disk, their manifests, trust state
  and tool sessions; watching, vault identity and the list of recent vaults; the mobile client; the
  commands that only pass arguments on; the renderer and the Python core. The parts of a modelled
  file that are left out are named at the head of its theory.
\<close>

end
